(* ===== verification/Prelude.thy ===== *)
theory Prelude
  imports Main "HOL-Library.Word" "HOL-Library.Multiset" "HOL-Library.Product_Lexorder"
begin

text \<open>
  Shared vocabulary of the development: the machine integers of the Rust sources as words
  of their width, the saturating and checked operations of the standard library on them,
  and the list lemmas several components use.

  An \<open>i32\<close> and a \<open>u32\<close> are both 32-bit words; the model reads the first with
  \<^const>\<open>sint\<close> and the second with \<^const>\<open>uint\<close> or \<^const>\<open>unat\<close>. A widening cast
  (\<open>x as i64\<close>) is the reading itself, a narrowing cast is \<^const>\<open>word_of_int\<close> or
  \<^const>\<open>word_of_nat\<close>.
\<close>

type_synonym u8 = "8 word"
type_synonym u16 = "16 word"
type_synonym u32 = "32 word"
type_synonym i32 = "32 word"
type_synonym u64 = "64 word"

named_theorems int_read \<open>readings of the integer operations as numbers\<close>

section \<open>Saturating and wrapping arithmetic\<close>

lemma unat_max_word: "unat (- 1 :: 'a::len word) = 2 ^ LENGTH('a) - 1"
  by (simp add: unat_word_ariths unsigned_minus_1_eq_mask mask_eq_exp_minus_1)

lemma unat_lt2p_len: "unat (a :: 'a::len word) < 2 ^ LENGTH('a)"
  by (rule unsigned_less)

definition saturating_add :: "'a::len word \<Rightarrow> 'a word \<Rightarrow> 'a word" where
  "saturating_add a b = (if unat a + unat b < 2 ^ LENGTH('a) then a + b else - 1)"

definition saturating_sub :: "'a::len word \<Rightarrow> 'a word \<Rightarrow> 'a word" where
  "saturating_sub a b = (if b \<le> a then a - b else 0)"

definition saturating_mul :: "'a::len word \<Rightarrow> 'a word \<Rightarrow> 'a word" where
  "saturating_mul a b = (if unat a * unat b < 2 ^ LENGTH('a) then a * b else - 1)"

lemma unat_saturating_add [int_read]:
  "unat (saturating_add a b :: 'a::len word) = min (unat a + unat b) (2 ^ LENGTH('a) - 1)"
  using unat_lt2p_len[of a] by (auto simp: saturating_add_def unat_word_ariths unat_max_word)

lemma unat_saturating_sub [int_read]:
  "unat (saturating_sub a b :: 'a::len word) = unat a - unat b"
  by (auto simp: saturating_sub_def unat_sub word_le_nat_alt)

lemma unat_saturating_mul [int_read]:
  "unat (saturating_mul a b :: 'a::len word) = min (unat a * unat b) (2 ^ LENGTH('a) - 1)"
  by (auto simp: saturating_mul_def unat_word_ariths unat_max_word)

lemma saturating_sub_antimono:
  "b \<le> b' \<Longrightarrow> saturating_sub a b' \<le> saturating_sub a b"
  by (simp add: word_le_nat_alt unat_saturating_sub)

lemma saturating_sub_mono:
  "a \<le> a' \<Longrightarrow> saturating_sub a b \<le> saturating_sub a' b"
  by (simp add: word_le_nat_alt unat_saturating_sub)

lemma saturating_add_mono: "a \<le> b \<Longrightarrow> saturating_add c a \<le> saturating_add c b"
  by (auto simp: word_le_nat_alt int_read min_def)

lemma saturating_add_0 [simp]: "saturating_add a 0 = a"
  using unat_lt2p_len[of a] by (simp add: saturating_add_def)

lemma saturating_add_le:
  "a \<le> saturating_add a b"
proof -
  have "unat a \<le> 2 ^ LENGTH('a) - 1" using unat_lt2p_len[of a] by linarith
  then show ?thesis by (simp add: word_le_nat_alt unat_saturating_add)
qed

lemma unat_Suc_word:
  "unat (a :: 'a::len word) + 1 < 2 ^ LENGTH('a) \<Longrightarrow> unat (a + 1) = Suc (unat a)"
  by (simp add: unat_word_ariths)

section \<open>Lists\<close>

text \<open>The last \<open>n\<close> elements of a list: what a queue of capacity \<open>n\<close> keeps.\<close>

definition last_n :: "nat \<Rightarrow> 'a list \<Rightarrow> 'a list" where
  "last_n n xs = drop (length xs - n) xs"

lemma length_last_n [simp]: "length (last_n n xs) = min n (length xs)"
  by (simp add: last_n_def)

lemma last_n_short [simp]: "length xs \<le> n \<Longrightarrow> last_n n xs = xs"
  by (simp add: last_n_def)

lemma set_last_n: "set (last_n n xs) \<subseteq> set xs"
  by (simp add: last_n_def set_drop_subset)

lemma last_n_snoc:
  assumes "0 < n"
  shows "last_n n (last_n n xs @ [x]) = last_n n (xs @ [x])"
proof (cases "length xs < n")
  case True
  then show ?thesis by (simp add: last_n_def)
next
  case False
  with assms have "length xs - n + (Suc n - n) = Suc (length xs) - n" by simp
  with False assms show ?thesis by (simp add: last_n_def add.commute)
qed

lemma find_Some_mem: "find P xs = Some x \<Longrightarrow> x \<in> set xs \<and> P x"
  by (induction xs) (auto split: if_splits)

lemma find_None_iff_all: "find P xs = None \<longleftrightarrow> (\<forall>x \<in> set xs. \<not> P x)"
  by (induction xs) auto

lemma find_unique:
  assumes "x \<in> set xs" "P x" "\<forall>y \<in> set xs. P y \<longrightarrow> y = x"
  shows "find P xs = Some x"
proof (cases "find P xs")
  case None
  then have "\<not> P x" using assms(1) unfolding find_None_iff_all by blast
  with assms(2) show ?thesis by blast
next
  case (Some y)
  then have "y \<in> set xs \<and> P y" by (rule find_Some_mem)
  with assms(3) Some show ?thesis by blast
qed

lemma filter_eq_singleton: "distinct xs \<Longrightarrow> x \<in> set xs \<Longrightarrow> filter (\<lambda>y. y = x) xs = [x]"
  by (induction xs) (auto simp: filter_empty_conv)

lemma distinct_map_filter: "distinct (map f xs) \<Longrightarrow> distinct (map f (filter P xs))"
  by (induction xs) auto

text \<open>\<open>Iterator::position\<close>: the index of the first match.\<close>

fun position :: "('a \<Rightarrow> bool) \<Rightarrow> 'a list \<Rightarrow> nat option" where
  "position P [] = None"
| "position P (x # xs) = (if P x then Some 0 else map_option Suc (position P xs))"

text \<open>\<open>Vec::remove\<close> at an index that is in range.\<close>

definition remove_at :: "nat \<Rightarrow> 'a list \<Rightarrow> 'a list" where
  "remove_at i xs = take i xs @ drop (Suc i) xs"

lemma position_None: "position P xs = None \<longleftrightarrow> (\<forall>x \<in> set xs. \<not> P x)"
  by (induction xs) auto

lemma position_Some: "position P xs = Some i \<Longrightarrow> i < length xs \<and> P (xs ! i)"
  by (induction xs arbitrary: i) (auto split: if_splits)

lemma remove_at_position:
  "position (\<lambda>x. f x = k) xs = Some i \<Longrightarrow> distinct (map f xs) \<Longrightarrow>
   remove_at i xs = filter (\<lambda>x. f x \<noteq> k) xs"
proof (induction xs arbitrary: i)
  case (Cons x xs)
  show ?case
  proof (cases "f x = k")
    case True
    with Cons.prems(2) have "filter (\<lambda>y. f y \<noteq> k) xs = xs"
      by (intro filter_True) (metis distinct.simps(2) list.map(2) imageI list.set_map)
    with True Cons.prems(1) show ?thesis by (simp add: remove_at_def)
  next
    case False
    with Cons.prems(1) obtain j where j: "position (\<lambda>x. f x = k) xs = Some j" "i = Suc j" by auto
    with Cons.IH[OF j(1)] Cons.prems(2) False show ?thesis by (simp add: remove_at_def)
  qed
qed simp

section \<open>Stable sorting by a comparison\<close>

text \<open>\<open>slice::sort_by\<close>, which is stable: equal elements keep their order.\<close>

fun insort_by :: "('a \<Rightarrow> 'a \<Rightarrow> bool) \<Rightarrow> 'a \<Rightarrow> 'a list \<Rightarrow> 'a list" where
  "insort_by le x [] = [x]"
| "insort_by le x (y # ys) = (if le x y then x # y # ys else y # insort_by le x ys)"

definition sort_by :: "('a \<Rightarrow> 'a \<Rightarrow> bool) \<Rightarrow> 'a list \<Rightarrow> 'a list" where
  "sort_by le xs = foldr (insort_by le) xs []"

lemma mset_insort_by: "mset (insort_by le x ys) = add_mset x (mset ys)"
  by (induction ys) simp_all

lemma mset_sort_by [simp]: "mset (sort_by le xs) = mset xs"
  by (induction xs) (simp_all add: sort_by_def mset_insort_by)

lemma set_insort_by: "set (insort_by le x ys) = insert x (set ys)"
  by (induction ys) auto

lemma set_sort_by [simp]: "set (sort_by le xs) = set xs"
  by (induction xs) (simp_all add: sort_by_def set_insort_by)

lemma length_sort_by [simp]: "length (sort_by le xs) = length xs"
  using mset_eq_length[OF mset_sort_by] .

lemma distinct_sort_by: "distinct (map f (sort_by le xs)) \<longleftrightarrow> distinct (map f xs)"
  by (rule mset_eq_imp_distinct_iff) simp

lemma sorted_insort_by:
  assumes total: "\<And>a b. le a b \<or> le b a" and trans: "\<And>a b c. le a b \<Longrightarrow> le b c \<Longrightarrow> le a c"
    and sorted: "sorted_wrt le ys"
  shows "sorted_wrt le (insort_by le x ys)"
  using sorted
proof (induction ys)
  case (Cons y ys)
  show ?case
  proof (cases "le x y")
    case True
    with Cons.prems show ?thesis by (auto intro: trans)
  next
    case False
    with total[of x y] Cons show ?thesis by (auto simp: set_insort_by)
  qed
qed simp

lemma sorted_sort_by:
  assumes "\<And>a b. le a b \<or> le b a" "\<And>a b c. le a b \<Longrightarrow> le b c \<Longrightarrow> le a c"
  shows "sorted_wrt le (sort_by le xs)"
proof (induction xs)
  case (Cons x xs)
  then show ?case using sorted_insort_by[of le "sort_by le xs" x] assms by (simp add: sort_by_def)
qed (simp add: sort_by_def)

section \<open>Instants\<close>

text \<open>
  A monotonic instant is a number of nanoseconds; durations are read in whole milliseconds
  (\<open>Duration::as_millis\<close> truncates) and saturate at the last \<open>u64\<close>.
\<close>

type_synonym instant = nat

definition millis :: "u64 \<Rightarrow> nat" where
  "millis ms = unat ms * 1000000"

definition elapsed_ms :: "nat \<Rightarrow> nat \<Rightarrow> u64" where
  "elapsed_ms started now =
     (let ms = (now - started) div 1000000 in if ms < 2 ^ 64 then word_of_nat ms else - 1)"

lemma unat_elapsed_ms [int_read]:
  "unat (elapsed_ms started now) = min ((now - started) div 1000000) (2 ^ 64 - 1)"
  by (simp add: elapsed_ms_def Let_def unsigned_of_nat take_bit_nat_eq_self unat_max_word min_def)

lemma elapsed_after_deadline:
  assumes "started + millis t \<le> now"
  shows "t \<le> elapsed_ms started now"
proof -
  have "unat t * 1000000 \<le> now - started" using assms by (simp add: millis_def)
  then have "unat t \<le> (now - started) div 1000000" by linarith
  moreover have "unat t \<le> 2 ^ 64 - 1" using unat_lt2p_len[of t] by simp
  ultimately show ?thesis by (simp add: word_le_nat_alt int_read)
qed

lemma elapsed_mono: "now \<le> now' \<Longrightarrow> elapsed_ms started now \<le> elapsed_ms started now'"
  using div_le_mono[OF diff_le_mono[of now now' started], of 1000000]
  by (simp add: word_le_nat_alt int_read min_le_iff_disj)

lemma elapsed_now [simp]: "elapsed_ms now now = 0"
  by (simp add: elapsed_ms_def)

lemma case_SomeE:
  assumes "case x of None \<Rightarrow> False | Some r \<Rightarrow> P r"
  obtains r where "x = Some r" "P r"
  using assms by (cases x) simp_all

end
