(* ===== verification/Core_Geometry.thy ===== *)
theory Core_Geometry
  imports Prelude
begin

text \<open>
  The geometry primitives of \<open>crates/adesk-core/src/geometry.rs\<close>: points, sizes,
  half-open rectangles and damage regions. Coordinates are \<open>i32\<close> and extents \<open>u32\<close>, so
  the corner of a rectangle may lie outside \<open>i32\<close>; the code widens to \<open>i64\<close> before it
  adds, and the model adds the integer readings (their sum is below \<open>2 ^ 33\<close>, so the
  \<open>i64\<close> sum is exact).
\<close>

section \<open>Points, sizes and rectangles\<close>

definition clamp_i32 :: "int \<Rightarrow> i32" where
  "clamp_i32 v =
     (if v > 2147483647 then 2147483647
      else if v < - 2147483648 then word_of_int (- 2147483648)
      else word_of_int v)"

record Point =
  px :: i32
  py :: i32

definition Point_new :: "i32 \<Rightarrow> i32 \<Rightarrow> Point" where
  "Point_new x y = \<lparr>px = x, py = y\<rparr>"

record Size =
  sw :: u32
  sh :: u32

definition Size_new :: "u32 \<Rightarrow> u32 \<Rightarrow> Size" where
  "Size_new w h = \<lparr>sw = w, sh = h\<rparr>"

record Rect =
  rx :: i32
  ry :: i32
  rw :: u32
  rh :: u32

definition Rect_EMPTY :: Rect where
  "Rect_EMPTY = \<lparr>rx = 0, ry = 0, rw = 0, rh = 0\<rparr>"

definition Rect_new :: "i32 \<Rightarrow> i32 \<Rightarrow> u32 \<Rightarrow> u32 \<Rightarrow> Rect" where
  "Rect_new x y w h = \<lparr>rx = x, ry = y, rw = w, rh = h\<rparr>"

definition from_size :: "Size \<Rightarrow> Rect" where
  "from_size s = \<lparr>rx = 0, ry = 0, rw = sw s, rh = sh s\<rparr>"

definition right :: "Rect \<Rightarrow> i32" where
  "right r = clamp_i32 (sint (rx r) + uint (rw r))"

definition bottom :: "Rect \<Rightarrow> i32" where
  "bottom r = clamp_i32 (sint (ry r) + uint (rh r))"

definition rect_is_empty :: "Rect \<Rightarrow> bool" where
  "rect_is_empty r \<longleftrightarrow> rw r = 0 \<or> rh r = 0"

definition rect_size :: "Rect \<Rightarrow> Size" where
  "rect_size r = \<lparr>sw = rw r, sh = rh r\<rparr>"

definition contains :: "Rect \<Rightarrow> Point \<Rightarrow> bool" where
  "contains r p =
     (if rect_is_empty r then False
      else sint (px p) \<ge> sint (rx r) \<and> sint (px p) < sint (rx r) + uint (rw r)
         \<and> sint (py p) \<ge> sint (ry r) \<and> sint (py p) < sint (ry r) + uint (rh r))"

definition intersect :: "Rect \<Rightarrow> Rect \<Rightarrow> Rect option" where
  "intersect r s =
     (if rect_is_empty r \<or> rect_is_empty s then None
      else
        let x0 = max (sint (rx r)) (sint (rx s));
            y0 = max (sint (ry r)) (sint (ry s));
            x1 = min (sint (rx r) + uint (rw r)) (sint (rx s) + uint (rw s));
            y1 = min (sint (ry r) + uint (rh r)) (sint (ry s) + uint (rh s))
        in if x1 \<le> x0 \<or> y1 \<le> y0 then None
           else Some \<lparr>rx = clamp_i32 x0, ry = clamp_i32 y0,
                      rw = word_of_int (x1 - x0), rh = word_of_int (y1 - y0)\<rparr>)"

definition rect_union :: "Rect \<Rightarrow> Rect \<Rightarrow> Rect" where
  "rect_union r s =
     (if rect_is_empty r then s
      else if rect_is_empty s then r
      else
        let x0 = min (sint (rx r)) (sint (rx s));
            y0 = min (sint (ry r)) (sint (ry s));
            x1 = max (sint (rx r) + uint (rw r)) (sint (rx s) + uint (rw s));
            y1 = max (sint (ry r) + uint (rh r)) (sint (ry s) + uint (rh s))
        in \<lparr>rx = clamp_i32 x0, ry = clamp_i32 y0,
            rw = word_of_int (min (x1 - x0) 4294967295),
            rh = word_of_int (min (y1 - y0) 4294967295)\<rparr>)"

lemma sint_bounds_i32 [simp]:
  "- 2147483648 \<le> sint (x :: i32)" "sint (x :: i32) < 2147483648"
  using sint_ge[of x] sint_lt[of x] by simp_all

lemma uint_bounds_u32 [simp]: "0 \<le> uint (w :: u32)" "uint (w :: u32) < 4294967296"
  using uint_lt2p[of w] by simp_all

lemma sint_word_of_int_i32:
  "- 2147483648 \<le> v \<Longrightarrow> v < 2147483648 \<Longrightarrow> sint (word_of_int v :: i32) = v"
  by (simp add: sint_sbintrunc' signed_take_bit_int_eq_self)

lemma uint_word_of_int_u32:
  "0 \<le> v \<Longrightarrow> v < 4294967296 \<Longrightarrow> uint (word_of_int v :: u32) = v"
  by (simp add: word_of_int_inverse)

lemma sint_clamp_i32 [int_read]:
  "sint (clamp_i32 v) = max (- 2147483648) (min 2147483647 v)"
  by (auto simp: clamp_i32_def sint_word_of_int_i32)

lemma uint_eq_0_u32: "(w :: u32) = 0 \<longleftrightarrow> uint w = 0"
  by (simp add: uint_0_iff)

section \<open>Regions\<close>

text \<open>
  A region is an ordered list of rectangles that may overlap. \<open>merge_with\<close> is the inner
  loop of \<open>coalesce\<close> (the first \<open>j > i\<close> that merges with \<open>i\<close>), \<open>merge_first\<close> the outer
  one (the first \<open>i\<close> that has such a \<open>j\<close>); \<open>coalesce_loop\<close> is the \<open>while merged\<close> loop.
\<close>

record Region =
  rects :: "Rect list"

definition region_empty :: Region where
  "region_empty = \<lparr>rects = []\<rparr>"

definition region_push :: "Region \<Rightarrow> Rect \<Rightarrow> Region" where
  "region_push g r = (if \<not> rect_is_empty r then g\<lparr>rects := rects g @ [r]\<rparr> else g)"

definition from_rect :: "Rect \<Rightarrow> Region" where
  "from_rect r = region_push region_empty r"

definition region_extend :: "Region \<Rightarrow> Region \<Rightarrow> Region" where
  "region_extend g other =
     g\<lparr>rects := rects g @ filter (\<lambda>r. \<not> rect_is_empty r) (rects other)\<rparr>"

fun clip_rects :: "Region \<Rightarrow> Rect list \<Rightarrow> Rect \<Rightarrow> Region" where
  "clip_rects out [] c = out"
| "clip_rects out (r # rs) c =
     (case intersect r c of
        Some part \<Rightarrow> clip_rects (region_push out part) rs c
      | None \<Rightarrow> clip_rects out rs c)"

definition region_clip :: "Region \<Rightarrow> Rect \<Rightarrow> Region" where
  "region_clip g c =
     (if rect_is_empty c then region_empty else clip_rects region_empty (rects g) c)"

definition merge_pair :: "Rect \<Rightarrow> Rect \<Rightarrow> Rect option" where
  "merge_pair a b =
     (if rect_is_empty a \<or> rect_is_empty b then None
      else if intersect a b \<noteq> None then Some (rect_union a b)
      else
        let touches_x = right a = rx b \<or> right b = rx a;
            spans_y = max (sint (ry a)) (sint (ry b)) < min (sint (bottom a)) (sint (bottom b));
            touches_y = bottom a = ry b \<or> bottom b = ry a;
            spans_x = max (sint (rx a)) (sint (rx b)) < min (sint (right a)) (sint (right b))
        in if (touches_x \<and> spans_y) \<or> (touches_y \<and> spans_x)
           then Some (rect_union a b) else None)"

fun merge_with :: "Rect \<Rightarrow> Rect list \<Rightarrow> (Rect \<times> Rect list) option" where
  "merge_with a [] = None"
| "merge_with a (b # bs) =
     (case merge_pair a b of
        Some u \<Rightarrow> Some (u, bs)
      | None \<Rightarrow> map_option (\<lambda>(u, bs'). (u, b # bs')) (merge_with a bs))"

fun merge_first :: "Rect list \<Rightarrow> Rect list option" where
  "merge_first [] = None"
| "merge_first (a # as) =
     (case merge_with a as of
        Some (u, as') \<Rightarrow> Some (u # as')
      | None \<Rightarrow> map_option ((#) a) (merge_first as))"

lemma merge_with_length: "merge_with a bs = Some (u, bs') \<Longrightarrow> length bs = Suc (length bs')"
  by (induction bs arbitrary: bs') (auto split: option.splits)

lemma merge_first_length: "merge_first as = Some as' \<Longrightarrow> length as = Suc (length as')"
  by (induction as arbitrary: as') (auto split: option.splits dest: merge_with_length)

function coalesce_loop :: "Rect list \<Rightarrow> Rect list" where
  "coalesce_loop as = (case merge_first as of Some as' \<Rightarrow> coalesce_loop as' | None \<Rightarrow> as)"
  by pat_completeness auto
termination
  by (relation "measure length") (auto dest: merge_first_length)

declare coalesce_loop.simps [simp del]

definition coalesce :: "Region \<Rightarrow> Region" where
  "coalesce g = g\<lparr>rects := coalesce_loop (filter (\<lambda>r. \<not> rect_is_empty r) (rects g))\<rparr>"

definition simplified_key :: "Rect \<Rightarrow> int \<times> int \<times> int \<times> int" where
  "simplified_key r = (sint (ry r), sint (rx r), uint (rh r), uint (rw r))"

definition simplified :: "Region \<Rightarrow> Rect list" where
  "simplified g = sort_key simplified_key (rects (coalesce g))"

definition region_bounds :: "Region \<Rightarrow> Rect option" where
  "region_bounds g =
     (case filter (\<lambda>r. \<not> rect_is_empty r) (rects g) of
        [] \<Rightarrow> None
      | first # rest \<Rightarrow> Some (fold (\<lambda>r acc. rect_union acc r) rest first))"

definition region_is_empty :: "Region \<Rightarrow> bool" where
  "region_is_empty g \<longleftrightarrow> rects g = []"

definition region_len :: "Region \<Rightarrow> nat" where
  "region_len g = length (rects g)"

section \<open>Intersection, union and containment as point sets\<close>

lemma contains_iff:
  "contains r p \<longleftrightarrow>
     sint (rx r) \<le> sint (px p) \<and> sint (px p) < sint (rx r) + uint (rw r) \<and>
     sint (ry r) \<le> sint (py p) \<and> sint (py p) < sint (ry r) + uint (rh r)"
  by (auto simp: contains_def rect_is_empty_def)

lemma contains_not_empty: "contains r p \<Longrightarrow> \<not> rect_is_empty r"
  by (simp add: contains_def split: if_splits)

lemma rect_not_empty_iff:
  "\<not> rect_is_empty r \<longleftrightarrow> 0 < uint (rw r) \<and> 0 < uint (rh r)"
  by (simp add: rect_is_empty_def uint_eq_0_u32 less_le)

lemma sint_clamp_exact: "- 2147483648 \<le> v \<Longrightarrow> v < 2147483648 \<Longrightarrow> sint (clamp_i32 v) = v"
  by (simp add: sint_clamp_i32)

lemma intersect_Some_eq:
  assumes "intersect a b = Some c"
  defines "x0 \<equiv> max (sint (rx a)) (sint (rx b))" and "y0 \<equiv> max (sint (ry a)) (sint (ry b))"
    and "x1 \<equiv> min (sint (rx a) + uint (rw a)) (sint (rx b) + uint (rw b))"
    and "y1 \<equiv> min (sint (ry a) + uint (rh a)) (sint (ry b) + uint (rh b))"
  shows "x0 < x1 \<and> y0 < y1 \<and> c = \<lparr>rx = clamp_i32 x0, ry = clamp_i32 y0,
           rw = word_of_int (x1 - x0), rh = word_of_int (y1 - y0)\<rparr>"
  using assms(1) unfolding intersect_def Let_def x0_def[symmetric] y0_def[symmetric]
    x1_def[symmetric] y1_def[symmetric]
  by (simp split: if_splits)

lemma intersect_Some_reading:
  assumes "intersect a b = Some c"
  shows "sint (rx c) = max (sint (rx a)) (sint (rx b))"
    and "sint (ry c) = max (sint (ry a)) (sint (ry b))"
    and "sint (rx c) + uint (rw c) = min (sint (rx a) + uint (rw a)) (sint (rx b) + uint (rw b))"
    and "sint (ry c) + uint (rh c) = min (sint (ry a) + uint (rh a)) (sint (ry b) + uint (rh b))"
proof -
  define x0 y0 where xy0: "x0 = max (sint (rx a)) (sint (rx b))" "y0 = max (sint (ry a)) (sint (ry b))"
  define x1 y1 where xy1: "x1 = min (sint (rx a) + uint (rw a)) (sint (rx b) + uint (rw b))"
    "y1 = min (sint (ry a) + uint (rh a)) (sint (ry b) + uint (rh b))"
  have c: "x0 < x1" "y0 < y1"
    "rx c = clamp_i32 x0" "ry c = clamp_i32 y0"
    "rw c = word_of_int (x1 - x0)" "rh c = word_of_int (y1 - y0)"
    using intersect_Some_eq[OF assms] unfolding xy0 xy1 by simp_all
  note bounds = sint_bounds_i32[of "rx a"] sint_bounds_i32[of "rx b"]
    sint_bounds_i32[of "ry a"] sint_bounds_i32[of "ry b"]
    uint_bounds_u32[of "rw a"] uint_bounds_u32[of "rh a"]
  have x0: "sint (rx c) = x0" unfolding c by (rule sint_clamp_exact) (use bounds xy0 in linarith)+
  have y0: "sint (ry c) = y0" unfolding c by (rule sint_clamp_exact) (use bounds xy0 in linarith)+
  have w: "uint (rw c) = x1 - x0"
    unfolding c by (rule uint_word_of_int_u32) (use bounds xy0 xy1 c in linarith)+
  have h: "uint (rh c) = y1 - y0"
    unfolding c by (rule uint_word_of_int_u32) (use bounds xy0 xy1 c in linarith)+
  show "sint (rx c) = max (sint (rx a)) (sint (rx b))"
    "sint (ry c) = max (sint (ry a)) (sint (ry b))"
    "sint (rx c) + uint (rw c) = min (sint (rx a) + uint (rw a)) (sint (rx b) + uint (rw b))"
    "sint (ry c) + uint (rh c) = min (sint (ry a) + uint (rh a)) (sint (ry b) + uint (rh b))"
    unfolding xy0[symmetric] xy1[symmetric] using x0 y0 w h by simp_all
qed

lemma intersect_None_iff:
  "intersect a b = None \<longleftrightarrow>
     rect_is_empty a \<or> rect_is_empty b \<or>
     min (sint (rx a) + uint (rw a)) (sint (rx b) + uint (rw b)) \<le> max (sint (rx a)) (sint (rx b)) \<or>
     min (sint (ry a) + uint (rh a)) (sint (ry b) + uint (rh b)) \<le> max (sint (ry a)) (sint (ry b))"
  by (auto simp: intersect_def Let_def)

lemma rect_empty_no_point: "rect_is_empty r \<Longrightarrow> \<not> contains r p"
  by (simp add: contains_def)

lemma intersect_points:
  "(\<exists>c. intersect a b = Some c \<and> contains c p) \<longleftrightarrow> contains a p \<and> contains b p"
proof (cases "intersect a b")
  case None
  then consider "rect_is_empty a \<or> rect_is_empty b"
    | "min (sint (rx a) + uint (rw a)) (sint (rx b) + uint (rw b)) \<le> max (sint (rx a)) (sint (rx b))"
    | "min (sint (ry a) + uint (rh a)) (sint (ry b) + uint (rh b)) \<le> max (sint (ry a)) (sint (ry b))"
    unfolding intersect_None_iff by blast
  then have "\<not> (contains a p \<and> contains b p)"
    by cases (use rect_empty_no_point in blast, simp_all only: contains_iff, linarith+)
  then show ?thesis by (simp add: None)
next
  case (Some c)
  have "contains c p \<longleftrightarrow> contains a p \<and> contains b p"
    using intersect_Some_reading[OF Some] unfolding contains_iff by linarith
  then show ?thesis by (simp add: Some)
qed

lemma intersect_not_empty:
  assumes "intersect a b = Some c" shows "\<not> rect_is_empty c"
  using intersect_Some_reading[OF assms] intersect_Some_eq[OF assms]
  unfolding rect_not_empty_iff by linarith

text \<open>
  The union saturates its extent at \<open>u32::MAX\<close>. A point whose coordinates are below
  \<open>i32::MAX\<close> is not affected; \<open>inner_point\<close> names those.
\<close>

definition inner_point :: "Point \<Rightarrow> bool" where
  "inner_point p \<longleftrightarrow> sint (px p) < 2147483647 \<and> sint (py p) < 2147483647"

lemma union_reading:
  assumes "\<not> rect_is_empty a" "\<not> rect_is_empty b"
  shows "sint (rx (rect_union a b)) = min (sint (rx a)) (sint (rx b))"
    and "sint (ry (rect_union a b)) = min (sint (ry a)) (sint (ry b))"
    and "uint (rw (rect_union a b)) =
      min (max (sint (rx a) + uint (rw a)) (sint (rx b) + uint (rw b)) - min (sint (rx a)) (sint (rx b))) 4294967295"
    and "uint (rh (rect_union a b)) =
      min (max (sint (ry a) + uint (rh a)) (sint (ry b) + uint (rh b)) - min (sint (ry a)) (sint (ry b))) 4294967295"
proof -
  note bounds = sint_bounds_i32[of "rx a"] sint_bounds_i32[of "rx b"]
    sint_bounds_i32[of "ry a"] sint_bounds_i32[of "ry b"]
    uint_bounds_u32[of "rw a"] uint_bounds_u32[of "rh a"]
    uint_bounds_u32[of "rw b"] uint_bounds_u32[of "rh b"]
  define x0 y0 where xy0: "x0 = min (sint (rx a)) (sint (rx b))" "y0 = min (sint (ry a)) (sint (ry b))"
  define x1 y1 where xy1: "x1 = max (sint (rx a) + uint (rw a)) (sint (rx b) + uint (rw b))"
    "y1 = max (sint (ry a) + uint (rh a)) (sint (ry b) + uint (rh b))"
  have u: "rx (rect_union a b) = clamp_i32 x0" "ry (rect_union a b) = clamp_i32 y0"
    "rw (rect_union a b) = word_of_int (min (x1 - x0) 4294967295)"
    "rh (rect_union a b) = word_of_int (min (y1 - y0) 4294967295)"
    using assms by (simp_all only: rect_union_def Let_def if_False Rect.simps xy0 xy1)
  have "sint (clamp_i32 x0) = x0" "sint (clamp_i32 y0) = y0"
    by (rule sint_clamp_exact; use bounds xy0 in linarith)+
  moreover have "uint (word_of_int (min (x1 - x0) 4294967295) :: u32) = min (x1 - x0) 4294967295"
    "uint (word_of_int (min (y1 - y0) 4294967295) :: u32) = min (y1 - y0) 4294967295"
    by (rule uint_word_of_int_u32; use bounds xy0 xy1 in linarith)+
  ultimately show "sint (rx (rect_union a b)) = min (sint (rx a)) (sint (rx b))"
    "sint (ry (rect_union a b)) = min (sint (ry a)) (sint (ry b))"
    "uint (rw (rect_union a b)) =
      min (max (sint (rx a) + uint (rw a)) (sint (rx b) + uint (rw b)) - min (sint (rx a)) (sint (rx b))) 4294967295"
    "uint (rh (rect_union a b)) =
      min (max (sint (ry a) + uint (rh a)) (sint (ry b) + uint (rh b)) - min (sint (ry a)) (sint (ry b))) 4294967295"
    unfolding xy0[symmetric] xy1[symmetric] using u by simp_all
qed

lemma union_not_empty:
  assumes "\<not> rect_is_empty a \<or> \<not> rect_is_empty b" shows "\<not> rect_is_empty (rect_union a b)"
proof (cases "rect_is_empty a \<or> rect_is_empty b")
  case True
  with assms show ?thesis by (auto simp: rect_union_def)
next
  case False
  then have ne: "\<not> rect_is_empty a" "\<not> rect_is_empty b" by simp_all
  show ?thesis
    using ne[unfolded rect_not_empty_iff] union_reading[OF ne] unfolding rect_not_empty_iff by linarith
qed

lemma union_covers:
  assumes "contains a p \<or> contains b p" and "inner_point p"
  shows "contains (rect_union a b) p"
proof (cases "rect_is_empty a \<or> rect_is_empty b")
  case True
  with assms(1) rect_empty_no_point show ?thesis by (auto simp: rect_union_def)
next
  case False
  then have ne: "\<not> rect_is_empty a" "\<not> rect_is_empty b" by simp_all
  show ?thesis
    using assms union_reading[OF ne] sint_bounds_i32[of "rx a"] sint_bounds_i32[of "rx b"]
      sint_bounds_i32[of "ry a"] sint_bounds_i32[of "ry b"]
    unfolding contains_iff inner_point_def by linarith
qed

text \<open>A rectangle that contains another one, as intervals.\<close>

definition rect_within :: "Rect \<Rightarrow> Rect \<Rightarrow> bool" where
  "rect_within a c \<longleftrightarrow>
     sint (rx c) \<le> sint (rx a) \<and> sint (rx a) + uint (rw a) \<le> sint (rx c) + uint (rw c) \<and>
     sint (ry c) \<le> sint (ry a) \<and> sint (ry a) + uint (rh a) \<le> sint (ry c) + uint (rh c)"

lemma union_least:
  assumes "\<not> rect_is_empty a" "\<not> rect_is_empty b" "rect_within a c" "rect_within b c"
  shows "rect_within (rect_union a b) c"
  using assms(3,4) union_reading[OF assms(1,2)] unfolding rect_within_def by linarith

section \<open>Coalescing\<close>

definition covers :: "Rect list \<Rightarrow> Point \<Rightarrow> bool" where
  "covers rs p \<longleftrightarrow> (\<exists>r \<in> set rs. contains r p)"

lemma covers_simps [simp]:
  "\<not> covers [] p" "covers (r # rs) p \<longleftrightarrow> contains r p \<or> covers rs p"
  "covers (rs @ ss) p \<longleftrightarrow> covers rs p \<or> covers ss p"
  by (auto simp: covers_def)

lemma covers_filter_empty [simp]: "covers (filter (\<lambda>r. \<not> rect_is_empty r) rs) p = covers rs p"
  by (auto simp: covers_def dest: contains_not_empty)

lemma merge_pair_eq_union: "merge_pair a b = Some u \<Longrightarrow> u = rect_union a b \<and> \<not> rect_is_empty a \<and> \<not> rect_is_empty b"
  by (auto simp: merge_pair_def Let_def split: if_splits)

lemma intersect_None_sym: "intersect a b = None \<longleftrightarrow> intersect b a = None"
  unfolding intersect_None_iff by (simp add: max.commute min.commute disj_commute) blast

lemma merge_pair_None_sym: "merge_pair a b = None \<longleftrightarrow> merge_pair b a = None"
  unfolding merge_pair_def Let_def
  using intersect_None_sym[of a b]
  by (simp add: max.commute min.commute disj_commute split del: if_split)
    (auto split: if_splits)

lemma merge_with_covers:
  "merge_with a bs = Some (u, bs') \<Longrightarrow> inner_point p \<Longrightarrow> contains a p \<or> covers bs p \<Longrightarrow>
   contains u p \<or> covers bs' p"
  by (induction bs arbitrary: bs')
    (auto split: option.splits dest!: merge_pair_eq_union intro: union_covers)

lemma merge_with_not_empty:
  "merge_with a bs = Some (u, bs') \<Longrightarrow> \<forall>r \<in> set (a # bs). \<not> rect_is_empty r \<Longrightarrow>
   \<forall>r \<in> set (u # bs'). \<not> rect_is_empty r"
  by (induction bs arbitrary: bs')
    (auto split: option.splits dest!: merge_pair_eq_union simp: union_not_empty)

lemma merge_with_None: "merge_with a bs = None \<longleftrightarrow> (\<forall>b \<in> set bs. merge_pair a b = None)"
  by (induction bs) (auto split: option.splits)

lemma merge_first_covers:
  "merge_first as = Some as' \<Longrightarrow> inner_point p \<Longrightarrow> covers as p \<Longrightarrow> covers as' p"
proof (induction as arbitrary: as')
  case (Cons a as)
  show ?case
  proof (cases "merge_with a as")
    case None
    with Cons show ?thesis by auto
  next
    case (Some q)
    then have q: "merge_with a as = Some (fst q, snd q)" by simp
    from merge_with_covers[OF q Cons.prems(2)] Cons.prems(3)
    have "contains (fst q) p \<or> covers (snd q) p" by simp
    moreover from Cons.prems(1) Some have "as' = fst q # snd q" by (simp add: case_prod_beta)
    ultimately show ?thesis by simp
  qed
qed simp

lemma merge_first_not_empty:
  "merge_first as = Some as' \<Longrightarrow> \<forall>r \<in> set as. \<not> rect_is_empty r \<Longrightarrow>
   \<forall>r \<in> set as'. \<not> rect_is_empty r"
proof (induction as arbitrary: as')
  case (Cons a as)
  show ?case
  proof (cases "merge_with a as")
    case None
    with Cons show ?thesis by auto
  next
    case (Some q)
    then have q: "merge_with a as = Some (fst q, snd q)" by simp
    from merge_with_not_empty[OF q Cons.prems(2)]
    have ne: "\<forall>r \<in> set (fst q # snd q). \<not> rect_is_empty r" .
    from Cons.prems(1) Some have "as' = fst q # snd q" by (simp add: case_prod_beta)
    with ne show ?thesis by simp
  qed
qed simp

lemma merge_first_None: "merge_first as = None \<longleftrightarrow> sorted_wrt (\<lambda>a b. merge_pair a b = None) as"
  by (induction as) (auto split: option.splits simp: merge_with_None[symmetric])

lemma coalesce_loop_covers: "inner_point p \<Longrightarrow> covers as p \<Longrightarrow> covers (coalesce_loop as) p"
proof (induction as rule: coalesce_loop.induct)
  case (1 as)
  then show ?case
    by (subst coalesce_loop.simps) (auto split: option.splits dest: merge_first_covers)
qed

lemma coalesce_loop_not_empty:
  "\<forall>r \<in> set as. \<not> rect_is_empty r \<Longrightarrow> \<forall>r \<in> set (coalesce_loop as). \<not> rect_is_empty r"
proof (induction as rule: coalesce_loop.induct)
  case (1 as)
  show ?case
  proof (cases "merge_first as")
    case None
    with 1 show ?thesis by (subst coalesce_loop.simps) simp
  next
    case (Some as')
    from 1(1)[OF Some merge_first_not_empty[OF Some 1(2)]] Some show ?thesis
      by (subst coalesce_loop.simps) simp
  qed
qed

lemma coalesce_loop_stable: "sorted_wrt (\<lambda>a b. merge_pair a b = None) (coalesce_loop as)"
proof (induction as rule: coalesce_loop.induct)
  case (1 as)
  then show ?case
    by (subst coalesce_loop.simps) (auto split: option.splits simp: merge_first_None)
qed

lemma merge_pair_None_disjoint:
  assumes "merge_pair a b = None" shows "\<not> (contains a p \<and> contains b p)"
proof
  assume "contains a p \<and> contains b p"
  then have "intersect a b \<noteq> None" "\<not> rect_is_empty a" "\<not> rect_is_empty b"
    using intersect_points[of a b p] contains_not_empty by auto
  with assms show False by (simp add: merge_pair_def)
qed

lemma merge_pair_self: "\<not> rect_is_empty a \<Longrightarrow> merge_pair a a \<noteq> None"
  by (simp add: merge_pair_def intersect_None_iff rect_not_empty_iff)

lemma coalesce_not_empty: "\<forall>r \<in> set (rects (coalesce g)). \<not> rect_is_empty r"
proof -
  have "\<forall>r \<in> set (coalesce_loop (filter (\<lambda>r. \<not> rect_is_empty r) (rects g))). \<not> rect_is_empty r"
    by (rule coalesce_loop_not_empty) simp
  moreover have "rects (coalesce g) = coalesce_loop (filter (\<lambda>r. \<not> rect_is_empty r) (rects g))"
    by (simp add: coalesce_def)
  ultimately show ?thesis by (rule ssubst[rotated])
qed

lemma coalesce_stable: "sorted_wrt (\<lambda>a b. merge_pair a b = None) (rects (coalesce g))"
  by (simp add: coalesce_def coalesce_loop_stable)

lemma coalesce_covers: "inner_point p \<Longrightarrow> covers (rects g) p \<Longrightarrow> covers (rects (coalesce g)) p"
  by (simp add: coalesce_def coalesce_loop_covers)

lemma coalesce_idem: "coalesce (coalesce g) = coalesce g"
proof -
  have "filter (\<lambda>r. \<not> rect_is_empty r) (rects (coalesce g)) = rects (coalesce g)"
    using coalesce_not_empty by (simp add: filter_id_conv)
  moreover have "coalesce_loop (rects (coalesce g)) = rects (coalesce g)"
    using coalesce_stable[of g] by (subst coalesce_loop.simps) (simp add: merge_first_None[symmetric])
  ultimately show ?thesis by (simp add: coalesce_def)
qed

lemma pairwise_of_sorted_wrt:
  assumes "sorted_wrt R xs" and sym: "\<And>a b. R a b \<Longrightarrow> R b a"
    and "x \<in> set xs" "y \<in> set xs" "x \<noteq> y"
  shows "R x y"
proof -
  obtain i j where ij: "i < length xs" "xs ! i = x" "j < length xs" "xs ! j = y"
    using assms(3,4) unfolding in_set_conv_nth by blast
  show ?thesis
  proof (cases "i < j")
    case True
    then show ?thesis using sorted_wrt_nth_less[OF assms(1), of i j] ij by simp
  next
    case False
    with assms(5) ij have "j < i" by (metis linorder_neqE_nat)
    then show ?thesis using sorted_wrt_nth_less[OF assms(1), of j i] ij sym by simp
  qed
qed

lemma distinct_of_sorted_wrt:
  "sorted_wrt R xs \<Longrightarrow> (\<forall>x \<in> set xs. \<not> R x x) \<Longrightarrow> distinct xs"
  by (induction xs) auto

lemma coalesce_distinct: "distinct (rects (coalesce g))"
  using coalesce_stable coalesce_not_empty merge_pair_self
  by (intro distinct_of_sorted_wrt[of "\<lambda>a b. merge_pair a b = None"]) auto

lemma coalesce_pairwise:
  "a \<in> set (rects (coalesce g)) \<Longrightarrow> b \<in> set (rects (coalesce g)) \<Longrightarrow> a \<noteq> b \<Longrightarrow> merge_pair a b = None"
  by (rule pairwise_of_sorted_wrt[OF coalesce_stable merge_pair_None_sym[THEN iffD1]])

lemma coalesce_disjoint:
  assumes "a \<in> set (rects (coalesce g))" "b \<in> set (rects (coalesce g))" "a \<noteq> b"
  shows "\<not> (contains a p \<and> contains b p)"
  using merge_pair_None_disjoint[OF coalesce_pairwise[OF assms]] .

lemma simplified_set [simp]: "set (simplified g) = set (rects (coalesce g))"
  by (simp add: simplified_def)

lemma simplified_distinct: "distinct (simplified g)"
  by (simp add: simplified_def coalesce_distinct)

lemma simplified_key_inj: "simplified_key a = simplified_key b \<Longrightarrow> a = b"
  by (cases a; cases b) (simp add: simplified_key_def, metis signed_word_eqI unsigned_word_eqI)

lemma simplified_sorted: "sorted (map simplified_key (simplified g))"
  by (simp add: simplified_def)

lemma simplified_strictly_sorted: "sorted_wrt (<) (map simplified_key (simplified g))"
proof -
  have "distinct (map simplified_key (simplified g))"
    using simplified_distinct simplified_key_inj by (simp add: distinct_map inj_on_def)
  with simplified_sorted show ?thesis by (simp add: strict_sorted_iff)
qed

section \<open>Clipping, pushing and bounds\<close>

lemma covers_push [simp]:
  "covers (rects (region_push g r)) p \<longleftrightarrow> covers (rects g) p \<or> contains r p"
  by (auto simp: region_push_def rect_empty_no_point)

lemma clip_rects_covers:
  "covers (rects (clip_rects out rs c)) p \<longleftrightarrow>
     covers (rects out) p \<or> (covers rs p \<and> contains c p)"
proof (induction out rs c rule: clip_rects.induct)
  case (2 out r rs c)
  with intersect_points[of r c p] show ?case by (auto split: option.splits)
qed simp

lemma region_clip_covers:
  "covers (rects (region_clip g c)) p \<longleftrightarrow> covers (rects g) p \<and> contains c p"
  by (auto simp: region_clip_def region_empty_def clip_rects_covers rect_empty_no_point)

lemma region_extend_covers:
  "covers (rects (region_extend g h)) p \<longleftrightarrow> covers (rects g) p \<or> covers (rects h) p"
  by (simp add: region_extend_def)

lemma fold_union_covers:
  "inner_point p \<Longrightarrow> contains acc p \<or> covers rs p \<Longrightarrow>
   contains (fold (\<lambda>r acc. rect_union acc r) rs acc) p"
  by (induction rs arbitrary: acc) (auto simp: union_covers)

lemma region_bounds_covers:
  assumes "inner_point p" "covers (rects g) p"
  shows "\<exists>b. region_bounds g = Some b \<and> contains b p"
proof -
  let ?fs = "filter (\<lambda>r. \<not> rect_is_empty r) (rects g)"
  have "covers ?fs p" using assms(2) by simp
  then show ?thesis
    by (cases ?fs) (auto simp: region_bounds_def assms(1) intro!: fold_union_covers)
qed

section \<open>Properties\<close>

text \<open>The intersection of two rectangles is exactly the set of points they share: a point lies in
  the rectangle that \<open>intersect\<close> returns if and only if it lies in both arguments, and \<open>None\<close> is
  returned exactly when no point does.\<close>

theorem intersect_is_common_points:
  "((\<exists>c. intersect a b = Some c \<and> contains c p) \<longleftrightarrow> contains a p \<and> contains b p) \<and>
   (intersect a b = None \<or> (\<exists>c. intersect a b = Some c \<and> \<not> rect_is_empty c))"
  using intersect_points[of a b p] intersect_not_empty[of a b] by (cases "intersect a b") auto

text \<open>C26. The damage an observation reports (\<open>Region::simplified\<close>) is in strictly increasing canonical
  order, holds no empty rectangle and no two rectangles that share a point, and still covers every
  damaged point of the region.\<close>

theorem simplified_damage:
  "sorted_wrt (<) (map simplified_key (simplified g)) \<and>
   (\<forall>r \<in> set (simplified g). \<not> rect_is_empty r) \<and>
   (\<forall>r \<in> set (simplified g). \<forall>s \<in> set (simplified g). r \<noteq> s \<longrightarrow> \<not> (contains r p \<and> contains s p)) \<and>
   (inner_point p \<longrightarrow> covers (rects g) p \<longrightarrow> covers (simplified g) p)"
  using simplified_strictly_sorted[of g] coalesce_not_empty[of g] coalesce_disjoint[of _ g _ p]
    coalesce_covers[of p g]
  by (simp add: covers_def)

theorem simplified_damage_witness:
  "covers (simplified \<lparr>rects = [Rect_new 0 0 4 4, Rect_new 2 2 6 6, Rect_new 40 0 1 1]\<rparr>) (Point_new 3 7)"
  using simplified_damage[of "\<lparr>rects = [Rect_new 0 0 4 4, Rect_new 2 2 6 6, Rect_new 40 0 1 1]\<rparr>" "Point_new 3 7"]
  by (simp add: inner_point_def Point_new_def contains_iff Rect_new_def)

text \<open>Coalescing is stable: applying it to its own result changes nothing, so a region that was
  coalesced once can be coalesced at every hop.\<close>

theorem coalesce_idempotent: "coalesce (coalesce g) = coalesce g"
  by (rule coalesce_idem)

text \<open>Clipping a region to a window keeps exactly the damaged points inside the window.\<close>

theorem clip_is_exact: "covers (rects (region_clip g c)) p \<longleftrightarrow> covers (rects g) p \<and> contains c p"
  by (rule region_clip_covers)

text \<open>The union of two non-empty rectangles covers every inner point of both and lies within every
  rectangle that both lie within: it is their bounding box.\<close>

theorem union_is_bounding_box:
  assumes "\<not> rect_is_empty a" "\<not> rect_is_empty b"
  shows "(inner_point p \<and> (contains a p \<or> contains b p) \<longrightarrow> contains (rect_union a b) p) \<and>
    (rect_within a c \<and> rect_within b c \<longrightarrow> rect_within (rect_union a b) c)"
  using union_covers[of a p b] union_least[OF assms, of c] by blast

theorem union_is_bounding_box_witness:
  "contains (rect_union (Rect_new (- 5) 0 2 2) (Rect_new 7 7 2 2)) (Point_new 8 8)"
  using union_is_bounding_box[of "Rect_new (- 5) 0 2 2" "Rect_new 7 7 2 2" "Point_new 8 8"]
  by (simp add: inner_point_def Point_new_def contains_iff Rect_new_def rect_is_empty_def)

text \<open>At the far corner the union is not a bounding box: the width of a union that spans all of
  \<open>i32\<close> saturates, and the last column is left out.\<close>

theorem union_misses_the_last_column:
  "let a = Rect_new (- 2147483648) 0 1 1; b = Rect_new 2147483647 0 1 1; p = Point_new 2147483647 0
   in contains b p \<and> \<not> contains (rect_union a b) p"
  by code_simp

end
