(* ===== verification/Core_Position.thy ===== *)
theory Core_Position
  imports Core_Geometry
begin

text \<open>
  Pointer positions of \<open>crates/adesk-core/src/position.rs\<close> and their resolution to pixels.

  The code computes normalized positions in \<open>f64\<close>. The model keeps the IEEE-754 binary64
  value: a finite value is a mantissa and an exponent (\<open>m * 2 ^ e\<close>, at most 53
  significant bits), and the one rounded operation of the source, the product with
  \<open>w as f64 - 1.0\<close>, is rounded to 53 bits, ties to even, as the hardware does.
  \<open>w as f64\<close> and the subtraction of 1 are exact for a \<open>u32\<close>; the product never leaves the
  range of exponents because a clamped factor is at most one.
\<close>

section \<open>Binary64 values\<close>

datatype f64 =
    F64_nan
  | F64_inf bool \<comment> \<open>\<open>True\<close> for negative infinity\<close>
  | F64_fin int int \<comment> \<open>mantissa and binary exponent\<close>

definition f64_wf :: "f64 \<Rightarrow> bool" where
  "f64_wf v = (case v of F64_fin m e \<Rightarrow> \<bar>m\<bar> < 2 ^ 53 | _ \<Rightarrow> True)"

definition above_one :: "int \<Rightarrow> int \<Rightarrow> bool" where
  "above_one m e = (if 0 \<le> e then 1 < m * 2 ^ nat e else 2 ^ nat (- e) < m)"

definition clamp01 :: "f64 \<Rightarrow> int \<times> int" where
  "clamp01 v =
     (case v of
        F64_nan \<Rightarrow> (0, 0)
      | F64_inf neg \<Rightarrow> (if neg then (0, 0) else (1, 0))
      | F64_fin m e \<Rightarrow> if m < 0 then (0, 0) else if above_one m e then (1, 0) else (m, e))"

text \<open>The number of significant bits of a mantissa.\<close>

function bits :: "int \<Rightarrow> nat" where
  "bits n = (if n \<le> 0 then 0 else Suc (bits (n div 2)))"
  by pat_completeness auto
termination
  by (relation "measure nat") auto

declare bits.simps [simp del]

definition round_even :: "int \<Rightarrow> nat \<Rightarrow> int" where
  "round_even m k =
     (let q = m div 2 ^ k; r = m mod 2 ^ k
      in if 2 * r > 2 ^ k \<or> (2 * r = 2 ^ k \<and> odd q) then q + 1 else q)"

definition fl53 :: "int \<times> int \<Rightarrow> int \<times> int" where
  "fl53 v =
     (let b = bits (fst v)
      in if b \<le> 53 then v else (round_even (fst v) (b - 53), snd v + int (b - 53)))"

definition f64_mul_int :: "int \<times> int \<Rightarrow> int \<Rightarrow> int \<times> int" where
  "f64_mul_int v n = fl53 (fst v * n, snd v)"

text \<open>\<open>f64::round\<close> (halves away from zero) of a value that is not negative.\<close>

definition f64_round :: "int \<times> int \<Rightarrow> int" where
  "f64_round v =
     (if 0 \<le> snd v then fst v * 2 ^ nat (snd v)
      else (fst v + 2 ^ (nat (- snd v) - 1)) div 2 ^ nat (- snd v))"

section \<open>Positions\<close>

datatype Position =
    Pixels Point
  | Normalized f64 f64

definition position_wf :: "Position \<Rightarrow> bool" where
  "position_wf p = (case p of Pixels _ \<Rightarrow> True | Normalized x y \<Rightarrow> f64_wf x \<and> f64_wf y)"

definition int_clamp :: "int \<Rightarrow> int \<Rightarrow> int \<Rightarrow> int" where
  "int_clamp v lo hi = (if v < lo then lo else if v > hi then hi else v)"

definition resolve :: "Position \<Rightarrow> Rect \<Rightarrow> Point" where
  "resolve pos window =
     (if rect_is_empty window then \<lparr>px = rx window, py = ry window\<rparr>
      else
        let last_x = sint (rx window) + uint (rw window) - 1;
            last_y = sint (ry window) + uint (rh window) - 1
        in case pos of
             Pixels p \<Rightarrow>
               \<lparr>px = clamp_i32 (int_clamp (sint (px p)) (sint (rx window)) last_x),
                py = clamp_i32 (int_clamp (sint (py p)) (sint (ry window)) last_y)\<rparr>
           | Normalized x y \<Rightarrow>
               \<lparr>px = clamp_i32 (sint (rx window)
                        + f64_round (f64_mul_int (clamp01 x) (uint (rw window) - 1))),
                py = clamp_i32 (sint (ry window)
                        + f64_round (f64_mul_int (clamp01 y) (uint (rh window) - 1)))\<rparr>)"

section \<open>The rounded product stays in the window\<close>

lemma bits_le: "n < 2 ^ j \<Longrightarrow> bits n \<le> j"
proof (induction n arbitrary: j rule: bits.induct)
  case (1 n)
  show ?case
  proof (cases "n \<le> 0")
    case True
    then show ?thesis by (simp add: bits.simps)
  next
    case False
    with 1(2) obtain i where j: "j = Suc i" by (cases j) auto
    with 1(2) have "n div 2 < 2 ^ i" by auto
    with 1(1) False have "bits (n div 2) \<le> i" by blast
    with False j show ?thesis by (subst bits.simps) simp
  qed
qed

lemma round_even_le:
  assumes "m \<le> c * 2 ^ k" shows "round_even m k \<le> c"
proof (cases "m mod 2 ^ k = 0")
  case True
  then have "round_even m k = m div 2 ^ k" by (simp add: round_even_def Let_def)
  also have "\<dots> \<le> (c * 2 ^ k) div 2 ^ k" using assms by (rule zdiv_mono1) simp
  finally show ?thesis by simp
next
  case False
  have "m div 2 ^ k < c"
  proof (rule ccontr)
    assume "\<not> m div 2 ^ k < c"
    then have "c * 2 ^ k \<le> m div 2 ^ k * 2 ^ k" by (intro mult_right_mono) auto
    moreover have "m div 2 ^ k * 2 ^ k + m mod 2 ^ k = m" by (rule div_mult_mod_eq)
    moreover have "0 \<le> m mod 2 ^ k" by simp
    ultimately show False using assms False by linarith
  qed
  then show ?thesis by (simp add: round_even_def Let_def)
qed

lemma round_even_nonneg: "0 \<le> m \<Longrightarrow> 0 \<le> round_even m k"
  by (simp add: round_even_def Let_def pos_imp_zdiv_nonneg_iff)

lemma half_up_le:
  assumes "q \<le> n * 2 ^ Suc j" shows "(q + 2 ^ j) div 2 ^ Suc j \<le> (n :: int)"
proof -
  have "(q + 2 ^ j) div 2 ^ Suc j \<le> (n * 2 ^ Suc j + 2 ^ j) div 2 ^ Suc j"
    using assms by (intro zdiv_mono1) auto
  also have "\<dots> = n" by (simp add: div_mult_self3[of _ "2 ^ j"] )
  finally show ?thesis .
qed

lemma f64_round_bounds:
  assumes "0 \<le> q" "0 < d" "q \<le> n * 2 ^ d"
  shows "0 \<le> f64_round (q, - int d) \<and> f64_round (q, - int d) \<le> n"
proof -
  obtain j where j: "d = Suc j" using assms(2) by (cases d) auto
  have "f64_round (q, - int d) = (q + 2 ^ j) div 2 ^ Suc j"
    by (simp add: f64_round_def j nat_add_distrib)
  with assms j half_up_le[of q n j] show ?thesis by (simp add: pos_imp_zdiv_nonneg_iff)
qed

lemma scaled_below_one:
  assumes "0 \<le> m" "0 < d" "m \<le> 2 ^ d" "0 \<le> n" "n < 2 ^ 32"
  shows "0 \<le> f64_round (f64_mul_int (m, - int d) n) \<and> f64_round (f64_mul_int (m, - int d) n) \<le> n"
proof -
  let ?M = "m * n" and ?b = "bits (m * n)"
  have M: "0 \<le> ?M" "?M \<le> n * 2 ^ d"
    using assms mult_right_mono[of m "2 ^ d" n] by (simp_all add: mult.commute)
  have "n * 2 ^ d < 2 ^ 32 * 2 ^ d" by (rule mult_strict_right_mono[OF assms(5)]) simp
  with M(2) have "?M < 2 ^ 32 * 2 ^ d" by (rule order.strict_trans1)
  also have "2 ^ 32 * 2 ^ d = (2 ^ (32 + d) :: int)" by (rule power_add[symmetric])
  finally have "?M < 2 ^ (32 + d)" .
  then have b: "?b \<le> 32 + d" by (rule bits_le)
  show ?thesis
  proof (cases "?b \<le> 53")
    case True
    then have "f64_mul_int (m, - int d) n = (?M, - int d)" by (simp add: f64_mul_int_def fl53_def Let_def)
    with f64_round_bounds[OF M(1) assms(2) M(2)] show ?thesis by simp
  next
    case False
    define k where "k = ?b - 53"
    with b False have k: "0 < k" "k < d" by simp_all
    have "f64_mul_int (m, - int d) n = (round_even ?M k, - int (d - k))"
      using False k by (simp add: f64_mul_int_def fl53_def Let_def k_def[symmetric])
    moreover have "?M \<le> n * 2 ^ (d - k) * 2 ^ k"
      using M(2) k by (simp add: mult.assoc power_add[symmetric])
    then have "round_even ?M k \<le> n * 2 ^ (d - k)" by (rule round_even_le)
    ultimately show ?thesis
      using f64_round_bounds[of "round_even ?M k" "d - k" n] round_even_nonneg[OF M(1)] k by simp
  qed
qed

lemma scaled_integer:
  assumes "m = 0 \<or> (m = 1 \<and> e = 0)" "0 \<le> e" "0 \<le> n" "n < 2 ^ 32"
  shows "f64_round (f64_mul_int (m, e) n) = m * n"
proof -
  have "m * n < 2 ^ 32" using assms by auto
  then have "bits (m * n) \<le> 32" by (rule bits_le)
  then show ?thesis using assms by (auto simp: f64_mul_int_def fl53_def Let_def f64_round_def)
qed

lemma clamped_product_bounds:
  assumes "f64_wf v" "0 \<le> n" "n < 2 ^ 32"
  shows "0 \<le> f64_round (f64_mul_int (clamp01 v) n) \<and> f64_round (f64_mul_int (clamp01 v) n) \<le> n"
proof -
  have unit: "f64_round (f64_mul_int (0, 0) n) = 0" "f64_round (f64_mul_int (1, 0) n) = n"
    using scaled_integer[of 0 0 n] scaled_integer[of 1 0 n] assms by simp_all
  show ?thesis
  proof (cases v)
    case (F64_fin m e)
    consider "m < 0 \<or> above_one m e" | "0 \<le> m" "\<not> above_one m e" "0 \<le> e"
      | "0 \<le> m" "\<not> above_one m e" "e < 0" by linarith
    then show ?thesis
    proof cases
      case 1
      then show ?thesis using unit assms F64_fin by (auto simp: clamp01_def)
    next
      case 2
      have "m = 0 \<or> (m = 1 \<and> e = 0)"
      proof (rule ccontr)
        assume "\<not> (m = 0 \<or> (m = 1 \<and> e = 0))"
        with 2 have "2 \<le> m \<or> (m = 1 \<and> 1 \<le> nat e)" by linarith
        then have "1 < m * 2 ^ nat e"
        proof
          assume "2 \<le> m"
          then have "2 * 1 \<le> m * 2 ^ nat e" by (intro mult_mono) simp_all
          then show ?thesis by simp
        next
          assume "m = 1 \<and> 1 \<le> nat e"
          then have "(2::int) ^ 1 \<le> 2 ^ nat e" by (intro power_increasing) simp_all
          with \<open>m = 1 \<and> 1 \<le> nat e\<close> show ?thesis by simp
        qed
        with 2 show False by (simp add: above_one_def)
      qed
      with 2 assms F64_fin scaled_integer[of m e n] show ?thesis by (auto simp: clamp01_def)
    next
      case 3
      then have "m \<le> 2 ^ nat (- e)" by (simp add: above_one_def not_less)
      with 3 assms F64_fin scaled_below_one[of m "nat (- e)" n]
      show ?thesis by (simp add: clamp01_def)
    qed
  qed (use unit assms in \<open>auto simp: clamp01_def\<close>)
qed

lemma contains_clamped:
  assumes "\<not> rect_is_empty w"
    and "sint (rx w) \<le> x" "x < sint (rx w) + uint (rw w)"
    and "sint (ry w) \<le> y" "y < sint (ry w) + uint (rh w)"
  shows "contains w \<lparr>px = clamp_i32 x, py = clamp_i32 y\<rparr>"
  using assms sint_bounds_i32[of "rx w"] sint_bounds_i32[of "ry w"]
  unfolding contains_iff Point.simps sint_clamp_i32 by linarith

lemma int_clamp_bounds: "lo \<le> hi \<Longrightarrow> lo \<le> int_clamp v lo hi \<and> int_clamp v lo hi \<le> hi"
  by (simp add: int_clamp_def)

lemma resolve_contained:
  assumes "\<not> rect_is_empty w" "position_wf pos"
  shows "contains w (resolve pos w)"
proof -
  have ne: "0 < uint (rw w)" "0 < uint (rh w)" using assms(1) by (simp_all add: rect_not_empty_iff)
  show ?thesis
  proof (cases pos)
    case (Pixels p)
    have "resolve pos w =
      \<lparr>px = clamp_i32 (int_clamp (sint (px p)) (sint (rx w)) (sint (rx w) + uint (rw w) - 1)),
       py = clamp_i32 (int_clamp (sint (py p)) (sint (ry w)) (sint (ry w) + uint (rh w) - 1))\<rparr>"
      using assms(1) by (simp add: resolve_def Pixels Let_def)
    then show ?thesis
      using ne int_clamp_bounds[of "sint (rx w)" "sint (rx w) + uint (rw w) - 1" "sint (px p)"]
        int_clamp_bounds[of "sint (ry w)" "sint (ry w) + uint (rh w) - 1" "sint (py p)"]
      by (simp only:) (intro contains_clamped assms(1); linarith)
  next
    case (Normalized x y)
    let ?nx = "f64_round (f64_mul_int (clamp01 x) (uint (rw w) - 1))"
    let ?ny = "f64_round (f64_mul_int (clamp01 y) (uint (rh w) - 1))"
    have "f64_wf x" "f64_wf y" using assms(2) by (simp_all add: position_wf_def Normalized)
    moreover have "uint (rw w) - 1 < 2 ^ 32" "uint (rh w) - 1 < 2 ^ 32"
      using uint_bounds_u32(2)[of "rw w"] uint_bounds_u32(2)[of "rh w"] by (simp_all del: uint_bounds_u32)
    ultimately have "0 \<le> ?nx \<and> ?nx \<le> uint (rw w) - 1" "0 \<le> ?ny \<and> ?ny \<le> uint (rh w) - 1"
      using ne clamped_product_bounds[of x "uint (rw w) - 1"] clamped_product_bounds[of y "uint (rh w) - 1"]
      by simp_all
    moreover have "resolve pos w = \<lparr>px = clamp_i32 (sint (rx w) + ?nx), py = clamp_i32 (sint (ry w) + ?ny)\<rparr>"
      using assms(1) by (simp add: resolve_def Normalized Let_def)
    ultimately show ?thesis
      by (simp only:) (intro contains_clamped assms(1); linarith)
  qed
qed

lemma resolve_empty: "rect_is_empty w \<Longrightarrow> resolve pos w = \<lparr>px = rx w, py = ry w\<rparr>"
  by (simp add: resolve_def)

section \<open>Properties\<close>

text \<open>C27. Every position a client can send, in pixels or normalized (any double, finite or not), resolves
  to a point inside the window when the window is not empty, and to the origin when it is.\<close>

theorem resolve_stays_inside:
  assumes "position_wf pos"
  shows "if rect_is_empty r then resolve pos r = Point_new (rx r) (ry r) else contains r (resolve pos r)"
  using resolve_contained[of r pos] resolve_empty[of r pos] assms by (simp add: Point_new_def)

theorem resolve_stays_inside_witness:
  "contains (Rect_new 0 0 1280 800) (resolve (Normalized (F64_fin 1 (- 1)) F64_nan) (Rect_new 0 0 1280 800))"
  using resolve_stays_inside[of "Normalized (F64_fin 1 (- 1)) F64_nan" "Rect_new 0 0 1280 800"]
  by (simp add: Rect_new_def rect_is_empty_def position_wf_def f64_wf_def)

end
