(* ===== verification/Ordered_Map.thy ===== *)
theory Ordered_Map
  imports Prelude "HOL-Library.List_Lexorder" "HOL-Library.Char_ord"
begin

text \<open>
  \<open>std::collections::BTreeMap\<close> as an association list with strictly ascending keys, so
  that \<open>keys()\<close> and \<open>values()\<close> come out in key order and every operation evaluates. The
  locale \<open>ordered_map\<close> is the interface the components rely on; it is interpreted on the
  list operations at the end.
\<close>

type_synonym ('k, 'v) btree = "('k \<times> 'v) list"

fun bt_insert :: "'k::linorder \<Rightarrow> 'v \<Rightarrow> ('k, 'v) btree \<Rightarrow> ('k, 'v) btree" where
  "bt_insert k v [] = [(k, v)]"
| "bt_insert k v ((k', v') # m) =
     (if k < k' then (k, v) # (k', v') # m
      else if k = k' then (k, v) # m
      else (k', v') # bt_insert k v m)"

definition bt_remove :: "'k::linorder \<Rightarrow> ('k, 'v) btree \<Rightarrow> ('k, 'v) btree" where
  "bt_remove k m = filter (\<lambda>(k', _). k' \<noteq> k) m"

definition bt_get :: "('k::linorder, 'v) btree \<Rightarrow> 'k \<Rightarrow> 'v option" where
  "bt_get m k = map_of m k"

definition bt_contains :: "('k::linorder, 'v) btree \<Rightarrow> 'k \<Rightarrow> bool" where
  "bt_contains m k \<longleftrightarrow> bt_get m k \<noteq> None"

definition bt_keys :: "('k::linorder, 'v) btree \<Rightarrow> 'k list" where
  "bt_keys m = map fst m"

definition bt_values :: "('k::linorder, 'v) btree \<Rightarrow> 'v list" where
  "bt_values m = map snd m"

definition bt_ok :: "('k::linorder, 'v) btree \<Rightarrow> bool" where
  "bt_ok m \<longleftrightarrow> sorted_wrt (<) (bt_keys m)"

section \<open>The interface\<close>

lemma find_append:
  "find P (xs @ [x]) = (case find P xs of Some y \<Rightarrow> Some y | None \<Rightarrow> if P x then Some x else None)"
  by (induction xs) auto

locale ordered_map =
  fixes empty :: "'m"
    and insert :: "'k::linorder \<Rightarrow> 'v \<Rightarrow> 'm \<Rightarrow> 'm"
    and remove :: "'k \<Rightarrow> 'm \<Rightarrow> 'm"
    and get :: "'m \<Rightarrow> 'k \<Rightarrow> 'v option"
    and keys :: "'m \<Rightarrow> 'k list"
    and ok :: "'m \<Rightarrow> bool"
  assumes ok_empty: "ok empty"
    and ok_insert: "ok m \<Longrightarrow> ok (insert k v m)"
    and ok_remove: "ok m \<Longrightarrow> ok (remove k m)"
    and get_empty: "get empty k = None"
    and get_insert: "ok m \<Longrightarrow> get (insert k v m) j = (if j = k then Some v else get m j)"
    and get_remove: "ok m \<Longrightarrow> get (remove k m) j = (if j = k then None else get m j)"
    and keys_sorted: "ok m \<Longrightarrow> sorted_wrt (<) (keys m)"
    and keys_get: "ok m \<Longrightarrow> k \<in> set (keys m) \<longleftrightarrow> get m k \<noteq> None"
begin

lemma keys_distinct: "ok m \<Longrightarrow> distinct (keys m)"
  using keys_sorted[of m] by (simp add: strict_sorted_iff)

lemma keys_insert: "ok m \<Longrightarrow> set (keys (insert k v m)) = Set.insert k (set (keys m))"
  by (auto simp: keys_get ok_insert get_insert split: if_splits)

lemma keys_remove: "ok m \<Longrightarrow> set (keys (remove k m)) = set (keys m) - {k}"
  by (auto simp: keys_get ok_remove get_remove split: if_splits)

lemma length_insert_fresh:
  assumes "ok m" "get m k = None"
  shows "length (keys (insert k v m)) = Suc (length (keys m))"
proof -
  have "card (set (keys (insert k v m))) = Suc (card (set (keys m)))"
    using assms keys_get[of m k] by (simp add: keys_insert)
  then show ?thesis
    using assms keys_distinct[of m] keys_distinct[of "insert k v m"]
    by (simp add: ok_insert distinct_card)
qed

lemma ok_fold_insert: "ok m \<Longrightarrow> ok (fold (\<lambda>x. insert (f x) (g x)) xs m)"
  by (induction xs arbitrary: m) (auto simp: ok_insert)

text \<open>Inserting a list of entries: a key holds the entry inserted last.\<close>

lemma get_fold_insert:
  "ok m \<Longrightarrow> get (fold (\<lambda>x. insert (f x) (g x)) xs m) j =
     (case find (\<lambda>x. f x = j) (rev xs) of Some x \<Rightarrow> Some (g x) | None \<Rightarrow> get m j)"
proof (induction xs arbitrary: m)
  case (Cons x xs)
  have "find (\<lambda>y. f y = j) (rev xs @ [x]) =
      (case find (\<lambda>y. f y = j) (rev xs) of Some y \<Rightarrow> Some y | None \<Rightarrow> if f x = j then Some x else None)"
    by (rule find_append)
  with Cons show ?case by (auto simp: ok_insert get_insert split: option.splits)
qed simp

lemma get_fold_remove:
  "ok m \<Longrightarrow> get (fold remove ks m) j = (if j \<in> set ks then None else get m j)"
  by (induction ks arbitrary: m) (auto simp: ok_remove get_remove)

lemma ok_fold_remove: "ok m \<Longrightarrow> ok (fold remove ks m)"
  by (induction ks arbitrary: m) (auto simp: ok_remove)

end

section \<open>The association list provides it\<close>

lemma bt_ok_Cons: "bt_ok ((k, v) # m) \<longleftrightarrow> (\<forall>k' \<in> fst ` set m. k < k') \<and> bt_ok m"
  by (auto simp: bt_ok_def bt_keys_def)

lemma fst_set_bt_insert: "fst ` set (bt_insert k v m) = Set.insert k (fst ` set m)"
  by (induction k v m rule: bt_insert.induct) auto

lemma bt_ok_insert: "bt_ok m \<Longrightarrow> bt_ok (bt_insert k v m)"
  by (induction k v m rule: bt_insert.induct)
    (auto simp: bt_ok_Cons fst_set_bt_insert bt_ok_def[of "[]"] bt_keys_def dest: less_trans)

lemma bt_get_insert: "bt_get (bt_insert k v m) j = (if j = k then Some v else bt_get m j)"
  by (induction k v m rule: bt_insert.induct) (auto simp: bt_get_def)

lemma bt_get_remove: "bt_get (bt_remove k m) j = (if j = k then None else bt_get m j)"
  by (induction m) (auto simp: bt_get_def bt_remove_def)

lemma bt_ok_remove: "bt_ok m \<Longrightarrow> bt_ok (bt_remove k m)"
  by (induction m) (auto simp: bt_remove_def bt_ok_Cons)

interpretation bt: ordered_map "[]" bt_insert bt_remove bt_get bt_keys bt_ok
proof (unfold_locales, goal_cases)
  case 1 show ?case by (simp add: bt_ok_def bt_keys_def)
next
  case 2 then show ?case by (rule bt_ok_insert)
next
  case 3 then show ?case by (rule bt_ok_remove)
next
  case 4 show ?case by (simp add: bt_get_def)
next
  case 5 show ?case by (rule bt_get_insert)
next
  case 6 show ?case by (rule bt_get_remove)
next
  case 7 then show ?case by (simp add: bt_ok_def)
next
  case 8 show ?case by (simp add: bt_get_def bt_keys_def map_of_eq_None_iff)
qed

lemmas bt_simps [simp] = bt_get_insert bt_get_remove bt.get_empty bt_ok_insert bt_ok_remove bt.ok_empty

lemma bt_values_set: "bt_ok m \<Longrightarrow> v \<in> set (bt_values m) \<longleftrightarrow> (\<exists>k. bt_get m k = Some v)"
  by (force simp: bt_values_def bt_get_def bt_ok_def bt_keys_def strict_sorted_iff)

lemma bt_length: "length (bt_values m) = length (bt_keys m)"
  by (simp add: bt_values_def bt_keys_def)

lemma bt_mem_iff: "bt_ok m \<Longrightarrow> (k, v) \<in> set m \<longleftrightarrow> bt_get m k = Some v"
  by (auto simp: bt_get_def bt_ok_def bt_keys_def strict_sorted_iff)

lemma bt_all_iff:
  "bt_ok m \<Longrightarrow> (\<forall>(k, v) \<in> set m. P k v) \<longleftrightarrow> (\<forall>k v. bt_get m k = Some v \<longrightarrow> P k v)"
  by (auto simp: bt_mem_iff[symmetric])

text \<open>\<open>get_mut\<close> followed by a write: the entry is replaced where it is.\<close>

definition bt_modify :: "'k::linorder \<Rightarrow> ('v \<Rightarrow> 'v) \<Rightarrow> ('k, 'v) btree \<Rightarrow> ('k, 'v) btree" where
  "bt_modify k f m = map (\<lambda>(j, v). (j, if j = k then f v else v)) m"

lemma bt_keys_modify [simp]: "bt_keys (bt_modify k f m) = bt_keys m"
  by (simp add: bt_keys_def bt_modify_def case_prod_beta comp_def)

lemma bt_ok_modify [simp]: "bt_ok (bt_modify k f m) = bt_ok m"
  by (simp add: bt_ok_def)

lemma bt_get_modify [simp]:
  "bt_get (bt_modify k f m) j = (if j = k then map_option f (bt_get m k) else bt_get m j)"
  by (induction m) (auto simp: bt_get_def bt_modify_def)

section \<open>Retaining entries\<close>

definition bt_retain :: "('k::linorder \<Rightarrow> 'v \<Rightarrow> bool) \<Rightarrow> ('k, 'v) btree \<Rightarrow> ('k, 'v) btree" where
  "bt_retain P m = filter (\<lambda>(k, v). P k v) m"

lemma bt_ok_retain [simp]: "bt_ok m \<Longrightarrow> bt_ok (bt_retain P m)"
  by (induction m) (auto simp: bt_retain_def bt_ok_Cons)

lemma bt_get_retain [simp]:
  "bt_ok m \<Longrightarrow> bt_get (bt_retain P m) k =
     (case bt_get m k of Some v \<Rightarrow> if P k v then Some v else None | None \<Rightarrow> None)"
proof (induction m)
  case (Cons p m)
  obtain j v where p: "p = (j, v)" by (cases p)
  with Cons.prems have "bt_ok m" and above: "\<forall>k' \<in> fst ` set m. j < k'" by (simp_all add: bt_ok_Cons)
  moreover have "bt_get m j = None"
    using above by (auto simp: bt_get_def map_of_eq_None_iff)
  ultimately show ?case using Cons.IH p by (auto simp: bt_retain_def bt_get_def split: option.splits)
qed (simp add: bt_retain_def bt_get_def)

end
