(* ===== verification/Core_Types.thy ===== *)
theory Core_Types
  imports Core_Position Ordered_Map
begin

text \<open>
  The value types of \<open>crates/adesk-core/src\<close> that cross component boundaries: identifiers
  (\<open>ids.rs\<close>), errors (\<open>error.rs\<close>), notifications (\<open>notification.rs\<close>), window descriptions
  (\<open>window.rs\<close>), runtime events and observations (\<open>event.rs\<close>). Strings are byte strings
  (the UTF-8 encoding the Rust \<open>String\<close> holds).
\<close>

section \<open>Identifiers\<close>

datatype WindowId = WindowId (window_raw: u64)
datatype ActionId = ActionId (action_raw: u64)
datatype LaunchId = LaunchId (launch_raw: u64)
datatype NotificationId = NotificationId (notification_raw: u64)
type_synonym AppId = string

text \<open>\<open>#[derive(PartialOrd, Ord)]\<close> on the newtypes: the order of the number inside.\<close>

instantiation WindowId :: linorder
begin
definition less_eq_WindowId :: "WindowId \<Rightarrow> WindowId \<Rightarrow> bool" where
  "less_eq_WindowId a b \<longleftrightarrow> window_raw a \<le> window_raw b"
definition less_WindowId :: "WindowId \<Rightarrow> WindowId \<Rightarrow> bool" where
  "less_WindowId a b \<longleftrightarrow> window_raw a < window_raw b"
instance
  by standard (auto simp: less_eq_WindowId_def less_WindowId_def WindowId.expand)
end

instantiation NotificationId :: linorder
begin
definition less_eq_NotificationId :: "NotificationId \<Rightarrow> NotificationId \<Rightarrow> bool" where
  "less_eq_NotificationId a b \<longleftrightarrow> notification_raw a \<le> notification_raw b"
definition less_NotificationId :: "NotificationId \<Rightarrow> NotificationId \<Rightarrow> bool" where
  "less_NotificationId a b \<longleftrightarrow> notification_raw a < notification_raw b"
instance
  by standard (auto simp: less_eq_NotificationId_def less_NotificationId_def NotificationId.expand)
end

instantiation LaunchId :: linorder
begin
definition less_eq_LaunchId :: "LaunchId \<Rightarrow> LaunchId \<Rightarrow> bool" where
  "less_eq_LaunchId a b \<longleftrightarrow> launch_raw a \<le> launch_raw b"
definition less_LaunchId :: "LaunchId \<Rightarrow> LaunchId \<Rightarrow> bool" where
  "less_LaunchId a b \<longleftrightarrow> launch_raw a < launch_raw b"
instance
  by standard (auto simp: less_eq_LaunchId_def less_LaunchId_def LaunchId.expand)
end

lemma id_order_simps [simp]:
  "WindowId a < WindowId b \<longleftrightarrow> a < b" "WindowId a \<le> WindowId b \<longleftrightarrow> a \<le> b"
  "NotificationId a < NotificationId b \<longleftrightarrow> a < b" "NotificationId a \<le> NotificationId b \<longleftrightarrow> a \<le> b"
  "LaunchId a < LaunchId b \<longleftrightarrow> a < b" "LaunchId a \<le> LaunchId b \<longleftrightarrow> a \<le> b"
  by (simp_all add: less_WindowId_def less_eq_WindowId_def less_NotificationId_def
      less_eq_NotificationId_def less_LaunchId_def less_eq_LaunchId_def)

section \<open>Errors\<close>

datatype ErrorCode =
    InvalidRequest | UnknownMethod | UnknownWindow | UnknownApp | UnknownNotification
  | UnknownAccessible | LaunchFailed | CaptureFailed | RenderFailed | Timeout | NotSupported
  | Busy | Internal | ShuttingDown | ProtocolVersionMismatch

fun ErrorCode_as_str :: "ErrorCode \<Rightarrow> string" where
  "ErrorCode_as_str InvalidRequest = ''invalid_request''"
| "ErrorCode_as_str UnknownMethod = ''unknown_method''"
| "ErrorCode_as_str UnknownWindow = ''unknown_window''"
| "ErrorCode_as_str UnknownApp = ''unknown_app''"
| "ErrorCode_as_str UnknownNotification = ''unknown_notification''"
| "ErrorCode_as_str UnknownAccessible = ''unknown_accessible''"
| "ErrorCode_as_str LaunchFailed = ''launch_failed''"
| "ErrorCode_as_str CaptureFailed = ''capture_failed''"
| "ErrorCode_as_str RenderFailed = ''render_failed''"
| "ErrorCode_as_str Timeout = ''timeout''"
| "ErrorCode_as_str NotSupported = ''not_supported''"
| "ErrorCode_as_str Busy = ''busy''"
| "ErrorCode_as_str Internal = ''internal''"
| "ErrorCode_as_str ShuttingDown = ''shutting_down''"
| "ErrorCode_as_str ProtocolVersionMismatch = ''protocol_version_mismatch''"

record Error =
  err_code :: ErrorCode
  err_message :: string

definition Error_new :: "ErrorCode \<Rightarrow> string \<Rightarrow> Error" where
  "Error_new c m = \<lparr>err_code = c, err_message = m\<rparr>"

text \<open>Decimal rendering of an identifier (\<open>fmt::Display\<close> of \<open>u64\<close>).\<close>

fun decimal :: "nat \<Rightarrow> string" where
  "decimal n =
     (if n < 10 then [char_of (n + 48)] else decimal (n div 10) @ [char_of (n mod 10 + 48)])"

declare decimal.simps [simp del]

definition error_invalid_request :: "string \<Rightarrow> Error" where
  "error_invalid_request m = Error_new InvalidRequest m"

definition error_unknown_window :: "WindowId \<Rightarrow> Error" where
  "error_unknown_window w =
     Error_new UnknownWindow (''unknown window '' @ decimal (unat (window_raw w)))"

definition error_internal :: "string \<Rightarrow> Error" where
  "error_internal m = Error_new Internal m"

section \<open>Notifications and windows\<close>

datatype NotificationUrgency = Low | Normal | Critical

record NotificationAction =
  na_key :: string
  na_label :: string

datatype NotificationCloseReason = Dismissed | Action | Expired | Closed

record Notification =
  n_id :: NotificationId
  n_source :: "string option"
  n_title :: string
  n_body :: string
  n_urgency :: NotificationUrgency
  n_category :: "string option"
  n_actions :: "NotificationAction list"
  n_hints :: "(string, string) btree"
  n_posted_seq :: u64
  n_posted_ts_ms :: u64
  n_dismissed :: bool
  n_closed_seq :: "u64 option"
  n_close_reason :: "NotificationCloseReason option"
  n_timeout_ms :: "u64 option"

datatype WindowState = Active | Inactive

record WindowInfo =
  wi_id :: WindowId
  wi_app_id :: "AppId option"
  wi_title :: "string option"
  wi_geometry :: Rect
  wi_state :: WindowState
  wi_mapped :: bool
  wi_pid :: "i32 option"
  wi_created_seq :: u64
  wi_last_commit_seq :: u64
  wi_popup_count :: u32

section \<open>Runtime events\<close>

datatype EventKind =
    KWindowCreated | KWindowDestroyed | KWindowActivated | KTitleChanged | KSurfaceCommit
  | KFocusChanged | KPopupAppeared | KPopupDisappeared | KAppLaunched | KNotification
  | KNotificationClosed | KNotificationAction

text \<open>Every variant starts with its \<open>seq\<close> and \<open>ts_ms\<close>, in the order of the source.\<close>

datatype RuntimeEvent =
    WindowCreated u64 u64 WindowId "AppId option" "i32 option" "LaunchId option" "string option"
  | WindowDestroyed u64 u64 WindowId
  | WindowActivated u64 u64 WindowId "WindowId option"
  | TitleChanged u64 u64 WindowId "string option"
  | SurfaceCommit u64 u64 WindowId u64 Region
  | FocusChanged u64 u64 "WindowId option"
  | PopupAppeared u64 u64 WindowId u64
  | PopupDisappeared u64 u64 WindowId u64
  | AppLaunched u64 u64 LaunchId AppId "i32 option"
  | NotificationPosted u64 u64 Notification
  | NotificationClosed u64 u64 NotificationId NotificationCloseReason
  | NotificationInvoked u64 u64 NotificationId string

fun event_seq :: "RuntimeEvent \<Rightarrow> u64" where
  "event_seq (WindowCreated s _ _ _ _ _ _) = s"
| "event_seq (WindowDestroyed s _ _) = s"
| "event_seq (WindowActivated s _ _ _) = s"
| "event_seq (TitleChanged s _ _ _) = s"
| "event_seq (SurfaceCommit s _ _ _ _) = s"
| "event_seq (FocusChanged s _ _) = s"
| "event_seq (PopupAppeared s _ _ _) = s"
| "event_seq (PopupDisappeared s _ _ _) = s"
| "event_seq (AppLaunched s _ _ _ _) = s"
| "event_seq (NotificationPosted s _ _) = s"
| "event_seq (NotificationClosed s _ _ _) = s"
| "event_seq (NotificationInvoked s _ _ _) = s"

fun event_ts_ms :: "RuntimeEvent \<Rightarrow> u64" where
  "event_ts_ms (WindowCreated _ t _ _ _ _ _) = t"
| "event_ts_ms (WindowDestroyed _ t _) = t"
| "event_ts_ms (WindowActivated _ t _ _) = t"
| "event_ts_ms (TitleChanged _ t _ _) = t"
| "event_ts_ms (SurfaceCommit _ t _ _ _) = t"
| "event_ts_ms (FocusChanged _ t _) = t"
| "event_ts_ms (PopupAppeared _ t _ _) = t"
| "event_ts_ms (PopupDisappeared _ t _ _) = t"
| "event_ts_ms (AppLaunched _ t _ _ _) = t"
| "event_ts_ms (NotificationPosted _ t _) = t"
| "event_ts_ms (NotificationClosed _ t _ _) = t"
| "event_ts_ms (NotificationInvoked _ t _ _) = t"

fun event_kind :: "RuntimeEvent \<Rightarrow> EventKind" where
  "event_kind (WindowCreated _ _ _ _ _ _ _) = KWindowCreated"
| "event_kind (WindowDestroyed _ _ _) = KWindowDestroyed"
| "event_kind (WindowActivated _ _ _ _) = KWindowActivated"
| "event_kind (TitleChanged _ _ _ _) = KTitleChanged"
| "event_kind (SurfaceCommit _ _ _ _ _) = KSurfaceCommit"
| "event_kind (FocusChanged _ _ _) = KFocusChanged"
| "event_kind (PopupAppeared _ _ _ _) = KPopupAppeared"
| "event_kind (PopupDisappeared _ _ _ _) = KPopupDisappeared"
| "event_kind (AppLaunched _ _ _ _ _) = KAppLaunched"
| "event_kind (NotificationPosted _ _ _) = KNotification"
| "event_kind (NotificationClosed _ _ _ _) = KNotificationClosed"
| "event_kind (NotificationInvoked _ _ _ _) = KNotificationAction"

fun event_window_id :: "RuntimeEvent \<Rightarrow> WindowId option" where
  "event_window_id (WindowCreated _ _ w _ _ _ _) = Some w"
| "event_window_id (WindowDestroyed _ _ w) = Some w"
| "event_window_id (WindowActivated _ _ w _) = Some w"
| "event_window_id (TitleChanged _ _ w _) = Some w"
| "event_window_id (SurfaceCommit _ _ w _ _) = Some w"
| "event_window_id (PopupAppeared _ _ w _) = Some w"
| "event_window_id (PopupDisappeared _ _ w _) = Some w"
| "event_window_id (FocusChanged _ _ w) = w"
| "event_window_id (AppLaunched _ _ _ _ _) = None"
| "event_window_id (NotificationPosted _ _ _) = None"
| "event_window_id (NotificationClosed _ _ _ _) = None"
| "event_window_id (NotificationInvoked _ _ _ _) = None"

section \<open>Observations\<close>

record Observation =
  ob_window_id :: "WindowId option"
  ob_after_action :: "ActionId option"
  ob_commits :: u64
  ob_changed_regions :: "Rect list"
  ob_focus_changed :: "bool option"
  ob_title_changed :: bool
  ob_new_windows :: "WindowId list"
  ob_destroyed_windows :: "WindowId list"
  ob_popups_appeared :: "u64 list"
  ob_popups_disappeared :: "u64 list"
  ob_elapsed_ms :: u64
  ob_quiet :: bool
  ob_timed_out :: bool
  ob_last_commit_seq :: u64
  ob_seq :: u64

end
