(* ===== verification/Interfaces.thy ===== *)
theory Interfaces
  imports Prelude
begin

text \<open>
  The two contracts that several components of the runtime share, as locales: a source of
  identifiers that never hands out the same one twice, and a bounded journal of sequence
  numbered events with a running maximum. Each is interpreted in the theory of every
  component that provides it.
\<close>

section \<open>Monotone identifier sources\<close>

text \<open>
  \<open>fresh s\<close> is the number of the next identifier; a step either allocates it or leaves
  the source alone. The counters of the code are \<open>u64\<close>, so the law holds below the last
  one.
\<close>

primrec run_ids ::
  "('op \<Rightarrow> 's \<Rightarrow> 's \<times> u64 option) \<Rightarrow> 'op list \<Rightarrow> 's \<Rightarrow> 's \<times> u64 list" where
  "run_ids step [] s = (s, [])"
| "run_ids step (op # ops) s =
     (let (s', i) = step op s; (s'', is) = run_ids step ops s'
      in (s'', (case i of None \<Rightarrow> is | Some j \<Rightarrow> j # is)))"

locale id_source =
  fixes step :: "'op \<Rightarrow> 's \<Rightarrow> 's \<times> u64 option"
    and fresh :: "'s \<Rightarrow> nat"
  assumes step_alloc: "step op s = (s', Some i) \<Longrightarrow> fresh s < 2 ^ 64 - 1 \<Longrightarrow>
      unat i = fresh s \<and> fresh s' = Suc (fresh s)"
    and step_keep: "step op s = (s', None) \<Longrightarrow> fresh s' = fresh s"
begin

lemma run_ids_enumerates:
  "run_ids step ops s = (s', is) \<Longrightarrow> fresh s + length ops < 2 ^ 64 \<Longrightarrow>
   map unat is = [fresh s ..< fresh s'] \<and> fresh s \<le> fresh s' \<and> fresh s' \<le> fresh s + length ops"
proof (induction ops arbitrary: s s' "is")
  case (Cons op ops)
  obtain t i where st: "step op s = (t, i)" by (cases "step op s")
  obtain t' js where rn: "run_ids step ops t = (t', js)" by (cases "run_ids step ops t")
  show ?case
  proof (cases i)
    case None
    with step_keep st have "fresh t = fresh s" by simp
    with Cons.IH[OF rn] Cons.prems st rn None show ?thesis by simp
  next
    case (Some j)
    with step_alloc[of op s t j] st Cons.prems(2)
    have j: "unat j = fresh s" "fresh t = Suc (fresh s)" by simp_all
    with Cons.IH[OF rn] Cons.prems(2)
    have "map unat js = [fresh t ..< fresh t']" "fresh t \<le> fresh t'" "fresh t' \<le> fresh t + length ops"
      by simp_all
    moreover from Cons.prems(1) st rn Some have "t' = s'" "is = j # js" by simp_all
    ultimately show ?thesis using j by (simp add: upt_conv_Cons Suc_le_eq)
  qed
qed simp

lemma run_ids_sorted:
  assumes "fresh s + length ops < 2 ^ 64"
  shows "sorted_wrt (<) (snd (run_ids step ops s))"
proof -
  obtain s' "is" where r: "run_ids step ops s = (s', is)" by (cases "run_ids step ops s")
  have "sorted_wrt (<) (map unat is)" using run_ids_enumerates[OF r assms] by simp
  then show ?thesis by (simp add: r sorted_wrt_map word_less_nat_alt[abs_def])
qed

lemma run_ids_distinct:
  assumes "fresh s + length ops < 2 ^ 64"
  shows "distinct (snd (run_ids step ops s))"
  using run_ids_sorted[OF assms] by (simp add: strict_sorted_iff)

end

section \<open>Bounded journals\<close>

locale bounded_journal =
  fixes push :: "'e \<Rightarrow> 's \<Rightarrow> 's"
    and contents :: "'s \<Rightarrow> 'e list"
    and cap :: "'s \<Rightarrow> nat"
    and top :: "'s \<Rightarrow> u64"
    and seq_of :: "'e \<Rightarrow> u64"
  assumes cap_push: "cap (push e s) = cap s"
    and top_push: "top (push e s) = max (top s) (seq_of e)"
    and contents_push: "length (contents s) \<le> cap s \<Longrightarrow> 0 < cap s \<Longrightarrow>
      contents (push e s) = last_n (cap s) (contents s @ [e])"
begin

lemma cap_fold: "cap (fold push es s) = cap s"
  by (induction es arbitrary: s) (simp_all add: cap_push)

lemma contents_fold:
  assumes "length (contents s) \<le> cap s" "0 < cap s"
  shows "contents (fold push es s) = last_n (cap s) (contents s @ es)"
proof (induction es rule: rev_induct)
  case Nil
  with assms show ?case by simp
next
  case (snoc e es)
  have "contents (fold push (es @ [e]) s) = last_n (cap s) (last_n (cap s) (contents s @ es) @ [e])"
    using snoc assms by (simp add: contents_push cap_fold)
  with assms show ?case by (simp add: last_n_snoc)
qed

lemma length_fold:
  "length (contents s) \<le> cap s \<Longrightarrow> 0 < cap s \<Longrightarrow> length (contents (fold push es s)) \<le> cap s"
  by (simp add: contents_fold)

lemma top_fold_ge: "top s \<le> top (fold push es s)"
proof (induction es arbitrary: s)
  case (Cons e es)
  have "top s \<le> top (push e s)" by (simp add: top_push)
  with Cons.IH[of "push e s"] show ?case by simp
qed simp

lemma top_fold_bounds: "e \<in> set es \<Longrightarrow> seq_of e \<le> top (fold push es s)"
proof (induction es arbitrary: s)
  case (Cons x es)
  show ?case
  proof (cases "e = x")
    case True
    have "seq_of x \<le> top (push x s)" by (simp add: top_push)
    with True top_fold_ge[of "push x s" es] show ?thesis by simp
  next
    case False
    with Cons show ?thesis by simp
  qed
qed simp

text \<open>The running maximum bounds every retained event: the early exit of a scan is sound.\<close>

lemma retained_below_top:
  assumes "\<forall>e \<in> set (contents s). seq_of e \<le> top s" "length (contents s) \<le> cap s" "0 < cap s"
    and "e \<in> set (contents (fold push es s))"
  shows "seq_of e \<le> top (fold push es s)"
proof -
  from assms(4) have "e \<in> set (contents s) \<or> e \<in> set es"
    using set_last_n by (fastforce simp: contents_fold[OF assms(2,3)])
  then show ?thesis
  proof
    assume "e \<in> set (contents s)"
    with assms(1) top_fold_ge[of s es] show ?thesis by auto
  qed (rule top_fold_bounds)
qed

lemma no_event_above_top:
  assumes "\<forall>e \<in> set (contents s). seq_of e \<le> top s" "top s \<le> p"
  shows "filter (\<lambda>e. p < seq_of e) (contents s) = []"
  using assms by (fastforce simp: filter_empty_conv)

end

end
