(* ===== verification/Window_Policy.thy ===== *)
theory Window_Policy
  imports Core_Types Interfaces
begin

text \<open>
  The window model and tiling policy of \<open>crates/adesk-wm/src\<close>: records and the MRU order
  (\<open>model.rs\<close>), the actions the compositor applies (\<open>action.rs\<close>), the configuration
  (\<open>config.rs\<close>), the pure policy functions (\<open>policy.rs\<close>) and the manager that owns them
  (\<open>manager.rs\<close>). A mutating function returns the new model beside its actions.
\<close>

section \<open>Data\<close>

datatype SurfaceKey = SurfaceKey u64

record WindowRecord =
  r_id :: WindowId
  r_surface_key :: SurfaceKey
  r_app_id :: "AppId option"
  r_pid :: "i32 option"
  r_title :: "string option"
  r_geometry :: Rect
  r_state :: WindowState
  r_mapped :: bool
  r_created_seq :: u64
  r_last_commit_seq :: u64
  r_popup_count :: u32

definition record_info :: "WindowRecord \<Rightarrow> WindowInfo" where
  "record_info r =
     \<lparr>wi_id = r_id r, wi_app_id = r_app_id r, wi_title = r_title r, wi_geometry = r_geometry r,
      wi_state = r_state r, wi_mapped = r_mapped r, wi_pid = r_pid r,
      wi_created_seq = r_created_seq r, wi_last_commit_seq = r_last_commit_seq r,
      wi_popup_count = r_popup_count r\<rparr>"

record MapRequest =
  m_surface_key :: SurfaceKey
  m_app_id :: "AppId option"
  m_pid :: "i32 option"
  m_title :: "string option"
  m_created_seq :: u64

definition MapRequest_new :: "SurfaceKey \<Rightarrow> MapRequest" where
  "MapRequest_new key =
     \<lparr>m_surface_key = key, m_app_id = None, m_pid = None, m_title = None, m_created_seq = 0\<rparr>"

record WindowModel =
  records :: "WindowRecord list"
  mru :: "WindowId list"
  next_id :: u64

definition WindowModel_new :: WindowModel where
  "WindowModel_new = \<lparr>records = [], mru = [], next_id = 1\<rparr>"

record PolicyConfig =
  output_size :: Size

definition config_tiled_rect :: "PolicyConfig \<Rightarrow> Rect" where
  "config_tiled_rect c = from_size (output_size c)"

definition PolicyConfig_default :: PolicyConfig where
  "PolicyConfig_default = \<lparr>output_size = Size_new 1280 800\<rparr>"

datatype WmAction =
    ConfigureWindow WindowId Rect
  | Activate WindowId
  | ActivatePrevious WindowId
  | WmNone

datatype WmError = WmUnknownWindow WindowId

fun wm_error_into :: "WmError \<Rightarrow> Error" where
  "wm_error_into (WmUnknownWindow w) = error_unknown_window w"

section \<open>Policy\<close>

definition index_of :: "WindowModel \<Rightarrow> WindowId \<Rightarrow> nat option" where
  "index_of m i = position (\<lambda>r. r_id r = i) (records m)"

text \<open>\<open>record_mut\<close> and the write through it: the first record with the id, when there is one.\<close>

fun update_first :: "WindowId \<Rightarrow> (WindowRecord \<Rightarrow> WindowRecord) \<Rightarrow> WindowRecord list \<Rightarrow> WindowRecord list" where
  "update_first i f [] = []"
| "update_first i f (r # rs) = (if r_id r = i then f r # rs else r # update_first i f rs)"

definition record_mut :: "WindowModel \<Rightarrow> WindowId \<Rightarrow> (WindowRecord \<Rightarrow> WindowRecord) \<Rightarrow> WindowModel" where
  "record_mut m i f = m\<lparr>records := update_first i f (records m)\<rparr>"

definition mark_active :: "WindowModel \<Rightarrow> WindowId \<Rightarrow> WindowModel" where
  "mark_active m i =
     m\<lparr>records := map (\<lambda>r. r\<lparr>r_state := if r_id r = i then Active else Inactive\<rparr>) (records m)\<rparr>"

definition active_window :: "WindowModel \<Rightarrow> WindowId option" where
  "active_window m = (case mru m of [] \<Rightarrow> None | i # _ \<Rightarrow> Some i)"

definition window :: "WindowModel \<Rightarrow> WindowId \<Rightarrow> WindowRecord option" where
  "window m i = find (\<lambda>r. r_id r = i) (records m)"

definition require_window :: "WindowModel \<Rightarrow> WindowId \<Rightarrow> WmError + WindowRecord" where
  "require_window m i =
     (case window m i of Some r \<Rightarrow> Inr r | None \<Rightarrow> Inl (WmUnknownWindow i))"

definition window_by_surface :: "WindowModel \<Rightarrow> SurfaceKey \<Rightarrow> WindowId option" where
  "window_by_surface m key =
     map_option r_id (find (\<lambda>r. r_surface_key r = key) (records m))"

definition window_info :: "WindowModel \<Rightarrow> WindowId \<Rightarrow> WindowInfo option" where
  "window_info m i = map_option record_info (window m i)"

definition on_map ::
  "WindowModel \<Rightarrow> PolicyConfig \<Rightarrow> MapRequest \<Rightarrow> WindowModel \<times> WindowId \<times> WmAction list" where
  "on_map m config request =
     (case window_by_surface m (m_surface_key request) of
        Some existing \<Rightarrow> (m, existing, [WmNone])
      | None \<Rightarrow>
          let i = WindowId (next_id m);
              m1 = m\<lparr>next_id := next_id m + 1\<rparr>;
              geometry = config_tiled_rect config;
              m2 = m1\<lparr>records := records m1 @
                [\<lparr>r_id = i, r_surface_key = m_surface_key request, r_app_id = m_app_id request,
                  r_pid = m_pid request, r_title = m_title request, r_geometry = geometry,
                  r_state = Active, r_mapped = True, r_created_seq = m_created_seq request,
                  r_last_commit_seq = 0, r_popup_count = 0\<rparr>]\<rparr>;
              m3 = mark_active m2 i;
              m4 = m3\<lparr>mru := i # mru m3\<rparr>
          in (m4, i, [ConfigureWindow i geometry, Activate i]))"

definition on_destroy :: "WindowModel \<Rightarrow> WindowId \<Rightarrow> WindowModel \<times> WmAction list" where
  "on_destroy m i =
     (case index_of m i of
        None \<Rightarrow> (m, [])
      | Some index \<Rightarrow>
          let was_active = (active_window m = Some i);
              m1 = m\<lparr>records := remove_at index (records m)\<rparr>;
              m2 = m1\<lparr>mru := filter (\<lambda>entry. entry \<noteq> i) (mru m1)\<rparr>
          in if \<not> was_active then (m2, [])
             else (case active_window m2 of
                     Some fallback \<Rightarrow> (mark_active m2 fallback, [ActivatePrevious fallback])
                   | None \<Rightarrow> (m2, [])))"

definition on_title :: "WindowModel \<Rightarrow> WindowId \<Rightarrow> string option \<Rightarrow> WindowModel \<times> WmAction list" where
  "on_title m i title = (record_mut m i (\<lambda>r. r\<lparr>r_title := title\<rparr>), [])"

definition on_app_id :: "WindowModel \<Rightarrow> WindowId \<Rightarrow> AppId option \<Rightarrow> WindowModel \<times> WmAction list" where
  "on_app_id m i app = (record_mut m i (\<lambda>r. r\<lparr>r_app_id := app\<rparr>), [])"

definition on_commit ::
  "WindowModel \<Rightarrow> WindowId \<Rightarrow> u64 \<Rightarrow> Region \<Rightarrow> WindowModel \<times> WmAction list" where
  "on_commit m i commit_seq damage =
     (record_mut m i (\<lambda>r. r\<lparr>r_last_commit_seq := max (r_last_commit_seq r) commit_seq\<rparr>), [])"

definition on_popup_added :: "WindowModel \<Rightarrow> WindowId \<Rightarrow> WindowModel \<times> WmAction list" where
  "on_popup_added m i =
     (record_mut m i (\<lambda>r. r\<lparr>r_popup_count := saturating_add (r_popup_count r) 1\<rparr>), [])"

definition on_popup_removed :: "WindowModel \<Rightarrow> WindowId \<Rightarrow> WindowModel \<times> WmAction list" where
  "on_popup_removed m i =
     (record_mut m i (\<lambda>r. r\<lparr>r_popup_count := saturating_sub (r_popup_count r) 1\<rparr>), [])"

definition activate :: "WindowModel \<Rightarrow> WindowId \<Rightarrow> WindowModel \<times> WmAction list" where
  "activate m i =
     (if index_of m i = None then (m, [])
      else if active_window m = Some i then (m, [WmNone])
      else
        let m1 = mark_active m i;
            m2 = m1\<lparr>mru := filter (\<lambda>entry. entry \<noteq> i) (mru m1)\<rparr>;
            m3 = m2\<lparr>mru := i # mru m2\<rparr>
        in (m3, [Activate i]))"

definition on_output_size ::
  "WindowModel \<Rightarrow> PolicyConfig \<Rightarrow> Size \<Rightarrow> WindowModel \<times> PolicyConfig \<times> WmAction list" where
  "on_output_size m c sz =
     (let config' = c\<lparr>output_size := sz\<rparr>;
          rect = config_tiled_rect config'
      in (m\<lparr>records := map (\<lambda>r. r\<lparr>r_geometry := rect\<rparr>) (records m)\<rparr>, config',
          map (\<lambda>r. ConfigureWindow (r_id r) rect) (filter r_mapped (records m))))"

text \<open>\<open>i32::saturating_add\<close> is the clamped sum.\<close>

definition resolve_position :: "WindowModel \<Rightarrow> WindowId \<Rightarrow> Position \<Rightarrow> Point option" where
  "resolve_position m i pos =
     (case window m i of
        None \<Rightarrow> None
      | Some r \<Rightarrow>
          let geometry = r_geometry r;
              loc = resolve pos (from_size (rect_size geometry))
          in Some (Point_new (clamp_i32 (sint (rx geometry) + sint (px loc)))
                             (clamp_i32 (sint (ry geometry) + sint (py loc)))))"

section \<open>The manager and its calls\<close>

record WindowManager =
  config :: PolicyConfig
  model :: WindowModel

definition WindowManager_new :: "PolicyConfig \<Rightarrow> WindowManager" where
  "WindowManager_new c = \<lparr>config = c, model = WindowModel_new\<rparr>"

datatype WmOp =
    OpSetOutputSize Size
  | OpMap MapRequest
  | OpDestroy WindowId
  | OpTitle WindowId "string option"
  | OpAppId WindowId "AppId option"
  | OpCommit WindowId u64 Region
  | OpPopupAdded WindowId
  | OpPopupRemoved WindowId
  | OpActivate WindowId

definition lift_model :: "WindowManager \<Rightarrow> WindowModel \<times> WmAction list \<Rightarrow> WindowManager \<times> WmAction list" where
  "lift_model w q = (w\<lparr>model := fst q\<rparr>, snd q)"

fun wm_apply :: "WmOp \<Rightarrow> WindowManager \<Rightarrow> WindowManager \<times> WmAction list" where
  "wm_apply (OpSetOutputSize sz) w =
     (let (m, c, acts) = on_output_size (model w) (config w) sz
      in (w\<lparr>model := m, config := c\<rparr>, acts))"
| "wm_apply (OpMap request) w =
     (let (m, i, acts) = on_map (model w) (config w) request in (w\<lparr>model := m\<rparr>, acts))"
| "wm_apply (OpDestroy i) w = lift_model w (on_destroy (model w) i)"
| "wm_apply (OpTitle i t) w = lift_model w (on_title (model w) i t)"
| "wm_apply (OpAppId i a) w = lift_model w (on_app_id (model w) i a)"
| "wm_apply (OpCommit i c d) w = lift_model w (on_commit (model w) i c d)"
| "wm_apply (OpPopupAdded i) w = lift_model w (on_popup_added (model w) i)"
| "wm_apply (OpPopupRemoved i) w = lift_model w (on_popup_removed (model w) i)"
| "wm_apply (OpActivate i) w = lift_model w (activate (model w) i)"

text \<open>The managers reachable by \<open>n\<close> calls, in any order and with any arguments.\<close>

inductive wm_reach :: "PolicyConfig \<Rightarrow> nat \<Rightarrow> WindowManager \<Rightarrow> bool" for c where
  start: "wm_reach c 0 (WindowManager_new c)"
| call: "wm_reach c n w \<Longrightarrow> wm_reach c (Suc n) (fst (wm_apply op w))"

inductive_cases wm_reach_SucE: "wm_reach c (Suc n) w"
inductive_simps wm_reach_zero: "wm_reach c 0 w"

section \<open>The policy invariant\<close>

definition ids :: "WindowModel \<Rightarrow> WindowId list" where
  "ids m = map r_id (records m)"

definition wm_inv :: "WindowManager \<Rightarrow> bool" where
  "wm_inv w \<longleftrightarrow>
     (let m = model w in
       sorted_wrt (<) (ids m) \<and>
       (\<forall>i \<in> set (ids m). window_raw i < next_id m) \<and>
       distinct (map r_surface_key (records m)) \<and>
       distinct (mru m) \<and> set (mru m) = set (ids m) \<and>
       (\<forall>r \<in> set (records m).
          r_state r = (if active_window m = Some (r_id r) then Active else Inactive) \<and>
          r_geometry r = config_tiled_rect (config w) \<and> r_mapped r))"

text \<open>The fields the policy decides on; metadata, counters and titles are the rest.\<close>

definition core :: "WindowRecord \<Rightarrow> WindowId \<times> SurfaceKey \<times> WindowState \<times> Rect \<times> bool" where
  "core r = (r_id r, r_surface_key r, r_state r, r_geometry r, r_mapped r)"

lemma wm_inv_D:
  assumes "wm_inv w"
  shows "sorted_wrt (<) (ids (model w))" "distinct (ids (model w))"
    "i \<in> set (ids (model w)) \<Longrightarrow> window_raw i < next_id (model w)"
    "distinct (map r_surface_key (records (model w)))"
    "distinct (mru (model w))" "set (mru (model w)) = set (ids (model w))"
    "r \<in> set (records (model w)) \<Longrightarrow>
      r_state r = (if active_window (model w) = Some (r_id r) then Active else Inactive)"
    "r \<in> set (records (model w)) \<Longrightarrow> r_geometry r = config_tiled_rect (config w)"
    "r \<in> set (records (model w)) \<Longrightarrow> r_mapped r"
  using assms by (auto simp: wm_inv_def Let_def strict_sorted_iff)

lemma map_update_first: "(\<And>r. h (f r) = h r) \<Longrightarrow> map h (update_first i f rs) = map h rs"
  by (induction rs) auto

lemma core_eq_transfer:
  assumes "map core rs = map core rs'"
  shows "map r_id rs = map r_id rs'" "map r_surface_key rs = map r_surface_key rs'"
    "(\<forall>r \<in> set rs. P (core r)) \<longleftrightarrow> (\<forall>r \<in> set rs'. P (core r))"
proof -
  have "map fst (map core rs) = map fst (map core rs')"
    "map (fst \<circ> snd) (map core rs) = map (fst \<circ> snd) (map core rs')"
    using assms by simp_all
  then show "map r_id rs = map r_id rs'" "map r_surface_key rs = map r_surface_key rs'"
    by (simp_all add: comp_def core_def)
  have "set (map core rs) = set (map core rs')" using assms by simp
  then have "core ` set rs = core ` set rs'" by simp
  then show "(\<forall>r \<in> set rs. P (core r)) \<longleftrightarrow> (\<forall>r \<in> set rs'. P (core r))"
    by (metis (mono_tags, lifting) image_iff)
qed

lemma wm_inv_core:
  assumes "wm_inv w" "map core (records m) = map core (records (model w))"
    "mru m = mru (model w)" "next_id m = next_id (model w)"
  shows "wm_inv (w\<lparr>model := m\<rparr>)"
proof -
  define P where "P = (\<lambda>(i, k :: SurfaceKey, s, g, b).
    s = (if active_window (model w) = Some i then Active else Inactive) \<and>
    g = config_tiled_rect (config w) \<and> b)"
  have "\<forall>r \<in> set (records (model w)). P (core r)"
    using assms(1) by (simp add: P_def core_def wm_inv_def Let_def)
  then have "\<forall>r \<in> set (records m). P (core r)"
    using core_eq_transfer(3)[OF assms(2), of P] by blast
  moreover have "active_window m = active_window (model w)"
    using assms(3) by (simp add: active_window_def)
  moreover have "ids m = ids (model w)" "map r_surface_key (records m) = map r_surface_key (records (model w))"
    using core_eq_transfer(1,2)[OF assms(2)] by (simp_all add: ids_def)
  ultimately show ?thesis
    using assms(1,3,4) by (simp add: wm_inv_def Let_def P_def core_def)
qed

lemma wm_inv_record_mut:
  assumes "wm_inv w" "\<And>r. core (f r) = core r"
  shows "wm_inv (w\<lparr>model := record_mut (model w) i f\<rparr>)"
  using assms(1) by (rule wm_inv_core) (simp_all add: record_mut_def map_update_first assms(2))

lemma ids_mark_active [simp]: "ids (mark_active m i) = ids m"
  by (simp add: ids_def mark_active_def comp_def)

lemma mru_mark_active [simp]: "mru (mark_active m i) = mru m" "next_id (mark_active m i) = next_id m"
  by (simp_all add: mark_active_def)

lemma keys_mark_active [simp]:
  "map r_surface_key (records (mark_active m i)) = map r_surface_key (records m)"
  by (simp add: mark_active_def comp_def)

text \<open>Marking the head of the MRU order restores the state part of the invariant.\<close>

lemma wm_inv_mark_active:
  assumes "sorted_wrt (<) (ids m)" "\<forall>i \<in> set (ids m). window_raw i < n"
    "distinct (map r_surface_key (records m))" "distinct (i # is)" "set (i # is) = set (ids m)"
    "\<forall>r \<in> set (records m). r_geometry r = config_tiled_rect c \<and> r_mapped r"
  shows "wm_inv \<lparr>config = c, model = (mark_active m i)\<lparr>mru := i # is, next_id := n\<rparr>\<rparr>"
proof -
  have "ids ((mark_active m i)\<lparr>mru := i # is, next_id := n\<rparr>) = ids m"
    using ids_mark_active[of m i] by (simp add: ids_def)
  moreover have "\<forall>r \<in> set (records (mark_active m i)). r_geometry r = config_tiled_rect c \<and> r_mapped r
      \<and> r_state r = (if i = r_id r then Active else Inactive)"
    using assms(6) by (auto simp: mark_active_def)
  ultimately show ?thesis
    using assms(1-5) by (simp add: wm_inv_def Let_def active_window_def)
qed

lemma manager_update: "w\<lparr>model := m\<rparr> = \<lparr>config = config w, model = m\<rparr>"
  by (cases w) simp

lemma wm_inv_new: "wm_inv (WindowManager_new c)"
  by (simp add: wm_inv_def WindowManager_new_def WindowModel_new_def ids_def)

lemma index_of_None: "index_of m i = None \<longleftrightarrow> i \<notin> set (ids m)"
  by (auto simp: index_of_def position_None ids_def)

lemma window_by_surface_None:
  "window_by_surface m key = None \<longleftrightarrow> key \<notin> r_surface_key ` set (records m)"
  by (auto simp: window_by_surface_def find_None_iff_all)

lemma wm_inv_on_map:
  assumes inv: "wm_inv w" and room: "unat (next_id (model w)) < 2 ^ 64 - 1"
  shows "wm_inv (w\<lparr>model := fst (on_map (model w) (config w) request)\<rparr>)"
proof (cases "window_by_surface (model w) (m_surface_key request)")
  case (Some i)
  then show ?thesis using inv by (simp add: on_map_def)
next
  case None
  let ?m = "model w" and ?i = "WindowId (next_id (model w))"
  let ?r = "\<lparr>r_id = ?i, r_surface_key = m_surface_key request, r_app_id = m_app_id request,
    r_pid = m_pid request, r_title = m_title request, r_geometry = config_tiled_rect (config w),
    r_state = Active, r_mapped = True, r_created_seq = m_created_seq request,
    r_last_commit_seq = 0, r_popup_count = 0\<rparr>"
  let ?m2 = "?m\<lparr>records := records ?m @ [?r]\<rparr>"
  have below: "window_raw i < next_id ?m" if "i \<in> set (ids ?m)" for i
    using wm_inv_D(3)[OF inv that] .
  have less: "next_id ?m < next_id ?m + 1"
    using room by (simp add: word_less_nat_alt unat_Suc_word)
  have "wm_inv \<lparr>config = config w,
      model = (mark_active ?m2 ?i)\<lparr>mru := ?i # mru ?m, next_id := next_id ?m + 1\<rparr>\<rparr>"
  proof (rule wm_inv_mark_active)
    show "sorted_wrt (<) (ids ?m2)"
      using wm_inv_D(1)[OF inv] below
      by (auto simp: ids_def sorted_wrt_append less_WindowId_def)
    show "\<forall>i \<in> set (ids ?m2). window_raw i < next_id ?m + 1"
      using below less by (auto simp: ids_def intro: less_trans)
    show "distinct (map r_surface_key (records ?m2))"
      using wm_inv_D(4)[OF inv] None by (simp add: window_by_surface_None)
    show "distinct (?i # mru ?m)" "set (?i # mru ?m) = set (ids ?m2)"
      using wm_inv_D(5,6)[OF inv] below[of ?i] by (auto simp: ids_def)
    show "\<forall>r \<in> set (records ?m2). r_geometry r = config_tiled_rect (config w) \<and> r_mapped r"
      using wm_inv_D(8,9)[OF inv] by auto
  qed
  moreover have "w\<lparr>model := fst (on_map ?m (config w) request)\<rparr> = \<lparr>config = config w,
      model = (mark_active ?m2 ?i)\<lparr>mru := ?i # mru ?m, next_id := next_id ?m + 1\<rparr>\<rparr>"
    using None by (simp add: on_map_def Let_def mark_active_def)
  ultimately show ?thesis by simp
qed

lemma ids_filter: "map r_id (filter (\<lambda>r. r_id r \<noteq> i) rs) = filter (\<lambda>j. j \<noteq> i) (map r_id rs)"
  by (simp add: filter_map comp_def)

lemma sorted_wrt_filter_word: "sorted_wrt R xs \<Longrightarrow> sorted_wrt R (filter P xs)"
  by (rule sorted_wrt_filter)

lemma on_destroy_known:
  assumes inv: "wm_inv w" and known: "i \<in> set (ids (model w))"
  shows "on_destroy (model w) i =
    (let m2 = (model w)\<lparr>records := filter (\<lambda>r. r_id r \<noteq> i) (records (model w)),
                        mru := filter (\<lambda>j. j \<noteq> i) (mru (model w))\<rparr>
     in if active_window (model w) \<noteq> Some i then (m2, [])
        else (case active_window m2 of Some f \<Rightarrow> (mark_active m2 f, [ActivatePrevious f]) | None \<Rightarrow> (m2, [])))"
proof -
  obtain k where k: "index_of (model w) i = Some k" using known index_of_None[of "model w" i] by auto
  then have "remove_at k (records (model w)) = filter (\<lambda>r. r_id r \<noteq> i) (records (model w))"
    using wm_inv_D(2)[OF inv] by (intro remove_at_position) (simp_all add: index_of_def ids_def)
  then show ?thesis by (simp add: on_destroy_def k Let_def split: option.split)
qed

lemma wm_inv_on_destroy:
  assumes inv: "wm_inv w"
  shows "wm_inv (w\<lparr>model := fst (on_destroy (model w) i)\<rparr>)"
proof (cases "i \<in> set (ids (model w))")
  case False
  then show ?thesis using inv index_of_None[of "model w" i] by (simp add: on_destroy_def)
next
  case True
  let ?m = "model w"
  define m2 where "m2 = ?m\<lparr>records := filter (\<lambda>r. r_id r \<noteq> i) (records ?m),
    mru := filter (\<lambda>j. j \<noteq> i) (mru ?m)\<rparr>"
  have m2_ids: "ids m2 = filter (\<lambda>j. j \<noteq> i) (ids ?m)" by (simp add: m2_def ids_def ids_filter)
  have keep: "sorted_wrt (<) (ids m2)" "\<forall>j \<in> set (ids m2). window_raw j < next_id ?m"
    "distinct (map r_surface_key (records m2))" "distinct (mru m2)" "set (mru m2) = set (ids m2)"
    "\<forall>r \<in> set (records m2). r_geometry r = config_tiled_rect (config w) \<and> r_mapped r"
    using wm_inv_D[OF inv] m2_ids
    by (auto simp: m2_def sorted_wrt_filter distinct_map_filter)
  show ?thesis
  proof (cases "active_window ?m = Some i")
    case False
    then have d: "on_destroy ?m i = (m2, [])"
      by (simp add: on_destroy_known[OF inv True] m2_def)
    have "active_window m2 = active_window ?m"
      using False by (auto simp: active_window_def m2_def split: list.splits)
    then have "\<forall>r \<in> set (records m2). r_state r = (if active_window m2 = Some (r_id r) then Active else Inactive)"
      using wm_inv_D(7)[OF inv] by (auto simp: m2_def)
    with keep show ?thesis by (simp add: d wm_inv_def Let_def) (simp add: m2_def)
  next
    case active: True
    show ?thesis
    proof (cases "mru m2")
      case Nil
      then have d: "on_destroy ?m i = (m2, [])"
        using active by (simp add: on_destroy_known[OF inv True] m2_def[symmetric] active_window_def)
      from Nil keep(5) have "records m2 = []" by (simp add: ids_def)
      with keep Nil show ?thesis by (simp add: d wm_inv_def Let_def ids_def)
    next
      case (Cons f fs)
      then have d: "on_destroy ?m i = (mark_active m2 f, [ActivatePrevious f])"
        using active by (simp add: on_destroy_known[OF inv True] m2_def[symmetric] active_window_def)
      have "wm_inv \<lparr>config = config w, model = (mark_active m2 f)\<lparr>mru := f # fs, next_id := next_id ?m\<rparr>\<rparr>"
        by (rule wm_inv_mark_active) (use keep Cons in simp_all)
      moreover have "(mark_active m2 f)\<lparr>mru := f # fs, next_id := next_id ?m\<rparr> = mark_active m2 f"
        using Cons by (simp add: mark_active_def m2_def)
      ultimately show ?thesis by (simp add: d manager_update)
    qed
  qed
qed

lemma wm_inv_activate:
  assumes inv: "wm_inv w"
  shows "wm_inv (w\<lparr>model := fst (activate (model w) i)\<rparr>)"
proof (cases "i \<in> set (ids (model w)) \<and> active_window (model w) \<noteq> Some i")
  case False
  then show ?thesis using inv index_of_None[of "model w" i] by (auto simp: activate_def)
next
  case True
  let ?is = "filter (\<lambda>j. j \<noteq> i) (mru (model w))"
  have "wm_inv \<lparr>config = config w,
    model = (mark_active (model w) i)\<lparr>mru := i # ?is, next_id := next_id (model w)\<rparr>\<rparr>"
    by (rule wm_inv_mark_active) (use wm_inv_D[OF inv] True in auto)
  moreover obtain k where "index_of (model w) i = Some k"
    using True index_of_None[of "model w" i] by auto
  then have "fst (activate (model w) i) =
    (mark_active (model w) i)\<lparr>mru := i # ?is, next_id := next_id (model w)\<rparr>"
    using True by (simp add: activate_def Let_def mark_active_def)
  ultimately show ?thesis by (cases w) simp
qed

lemma wm_inv_output_size:
  assumes inv: "wm_inv w"
  shows "wm_inv (w\<lparr>model := fst (on_output_size (model w) (config w) sz),
    config := fst (snd (on_output_size (model w) (config w) sz))\<rparr>)"
  using inv
  by (simp add: wm_inv_def Let_def on_output_size_def ids_def comp_def active_window_def image_image)

lemma wm_inv_apply:
  assumes inv: "wm_inv w" and room: "unat (next_id (model w)) < 2 ^ 64 - 1"
  shows "wm_inv (fst (wm_apply op w))"
proof (cases op)
  case (OpSetOutputSize sz)
  with wm_inv_output_size[OF inv] show ?thesis by (simp add: case_prod_beta)
next
  case (OpMap request)
  with wm_inv_on_map[OF inv room] show ?thesis by (simp add: case_prod_beta)
qed (simp_all add: lift_model_def wm_inv_on_destroy[OF inv] wm_inv_activate[OF inv]
  on_title_def on_app_id_def on_commit_def on_popup_added_def on_popup_removed_def
  wm_inv_record_mut[OF inv] core_def)

lemma next_id_on_map:
  "next_id (fst (on_map m c rq)) =
     (if window_by_surface m (m_surface_key rq) = None then next_id m + 1 else next_id m)"
  by (simp add: on_map_def Let_def split: option.split)

lemma next_id_apply:
  "next_id (model (fst (wm_apply op w))) =
     (case op of OpMap rq \<Rightarrow>
        if window_by_surface (model w) (m_surface_key rq) = None then next_id (model w) + 1 else next_id (model w)
      | _ \<Rightarrow> next_id (model w))"
proof (cases op)
  case (OpMap request)
  then show ?thesis using next_id_on_map[of "model w" "config w" request] by (simp add: case_prod_beta)
qed (simp_all add: lift_model_def on_title_def on_app_id_def on_commit_def on_popup_added_def
  on_popup_removed_def record_mut_def on_output_size_def on_destroy_def activate_def Let_def
  split: option.split)

lemma wm_reach_inv:
  "wm_reach c n w \<Longrightarrow> n < 2 ^ 64 - 1 \<Longrightarrow> wm_inv w \<and> unat (next_id (model w)) \<le> Suc n"
proof (induction rule: wm_reach.induct)
  case start
  show ?case by (simp add: wm_inv_new) (simp add: WindowManager_new_def WindowModel_new_def)
next
  case (call n w op)
  then have inv: "wm_inv w" "unat (next_id (model w)) < 2 ^ 64 - 1" "unat (next_id (model w)) \<le> Suc n"
    by simp_all
  then have "unat (next_id (model w) + 1) = Suc (unat (next_id (model w)))"
    by (intro unat_Suc_word) simp
  with inv wm_inv_apply[OF inv(1,2), of op] show ?case
    by (auto simp: next_id_apply split: WmOp.split)
qed

section \<open>Identifiers\<close>

text \<open>The identifier a call allocates, read off its result.\<close>

definition wm_alloc_step :: "WmOp \<Rightarrow> WindowManager \<Rightarrow> WindowManager \<times> u64 option" where
  "wm_alloc_step op w =
     (fst (wm_apply op w),
      (case op of
         OpMap rq \<Rightarrow>
           (let (m, i, acts) = on_map (model w) (config w) rq
            in if acts = [WmNone] then None else Some (window_raw i))
       | _ \<Rightarrow> None))"

interpretation wm_ids: id_source wm_alloc_step "\<lambda>w. unat (next_id (model w))"
proof (unfold_locales, goal_cases)
  case (1 op w w' i)
  then obtain rq where rq: "op = OpMap rq" by (cases op) (auto simp: wm_alloc_step_def)
  have w': "w' = fst (wm_apply op w)" using 1(1) by (simp add: wm_alloc_step_def)
  show ?case
  proof (cases "window_by_surface (model w) (m_surface_key rq)")
    case None
    with 1(1) rq have "i = next_id (model w)" by (simp add: wm_alloc_step_def on_map_def Let_def)
    moreover have "next_id (model w') = next_id (model w) + 1"
      using next_id_apply[of op w] None rq w' by (simp del: wm_apply.simps)
    ultimately show ?thesis using 1(2) by (simp add: unat_Suc_word)
  next
    case (Some j)
    with 1(1) rq show ?thesis by (simp add: wm_alloc_step_def on_map_def)
  qed
next
  case (2 op w w')
  have w': "w' = fst (wm_apply op w)" using 2 by (simp add: wm_alloc_step_def)
  show ?case
  proof (cases op)
    case (OpMap rq)
    with 2 have "window_by_surface (model w) (m_surface_key rq) \<noteq> None"
      by (auto simp: wm_alloc_step_def on_map_def Let_def split: option.splits)
    with OpMap next_id_apply[of op w] show ?thesis by (simp add: w' del: wm_apply.simps)
  qed (simp_all add: w' next_id_apply del: wm_apply.simps)
qed

section \<open>The abstract policy\<close>

text \<open>
  What the policy promises, without records: a stack of windows (the most recently used
  first, its head visible), who owns which surface in creation order, and the output size.
\<close>

record PolicySpec =
  stack :: "WindowId list"
  owners :: "(SurfaceKey \<times> WindowId) list"
  spec_next :: u64
  spec_size :: Size

fun spec_apply :: "WmOp \<Rightarrow> PolicySpec \<Rightarrow> PolicySpec \<times> WmAction list" where
  "spec_apply (OpSetOutputSize sz) s =
     (s\<lparr>spec_size := sz\<rparr>, map (\<lambda>(k, i). ConfigureWindow i (from_size sz)) (owners s))"
| "spec_apply (OpMap rq) s =
     (if m_surface_key rq \<in> fst ` set (owners s) then (s, [WmNone])
      else let i = WindowId (spec_next s)
           in (s\<lparr>stack := i # stack s, owners := owners s @ [(m_surface_key rq, i)],
                 spec_next := spec_next s + 1\<rparr>,
               [ConfigureWindow i (from_size (spec_size s)), Activate i]))"
| "spec_apply (OpDestroy i) s =
     (if i \<notin> snd ` set (owners s) then (s, [])
      else let rest = filter (\<lambda>j. j \<noteq> i) (stack s)
           in (s\<lparr>stack := rest, owners := filter (\<lambda>(k, j). j \<noteq> i) (owners s)\<rparr>,
               (if stack s \<noteq> [] \<and> hd (stack s) = i \<and> rest \<noteq> [] then [ActivatePrevious (hd rest)] else [])))"
| "spec_apply (OpActivate i) s =
     (if i \<notin> snd ` set (owners s) then (s, [])
      else if stack s \<noteq> [] \<and> hd (stack s) = i then (s, [WmNone])
      else (s\<lparr>stack := i # filter (\<lambda>j. j \<noteq> i) (stack s)\<rparr>, [Activate i]))"
| "spec_apply _ s = (s, [])"

definition wm_abs :: "WindowManager \<Rightarrow> PolicySpec" where
  "wm_abs w = \<lparr>stack = mru (model w),
     owners = map (\<lambda>r. (r_surface_key r, r_id r)) (records (model w)),
     spec_next = next_id (model w), spec_size = output_size (config w)\<rparr>"

lemma active_window_stack: "active_window m = Some i \<longleftrightarrow> mru m \<noteq> [] \<and> hd (mru m) = i"
  by (auto simp: active_window_def split: list.split)

lemma owners_abs: "snd ` set (owners (wm_abs w)) = set (ids (model w))"
  "fst ` set (owners (wm_abs w)) = r_surface_key ` set (records (model w))"
  by (simp_all add: wm_abs_def ids_def image_image)

lemma abs_record_mut:
  assumes "\<And>r. core (f r) = core r"
  shows "wm_abs (w\<lparr>model := record_mut (model w) i f\<rparr>) = wm_abs w"
proof -
  have "\<And>r. r_id (f r) = r_id r" "\<And>r. r_surface_key (f r) = r_surface_key r"
    using assms by (simp_all add: core_def)
  then show ?thesis by (simp add: wm_abs_def record_mut_def map_update_first)
qed

lemma abs_mark_active: "map (\<lambda>r. (r_surface_key r, r_id r)) (records (mark_active m i)) =
  map (\<lambda>r. (r_surface_key r, r_id r)) (records m)"
  by (simp add: mark_active_def comp_def)

lemma abs_update_model:
  "wm_abs (w\<lparr>model := m\<rparr>) = \<lparr>stack = mru m, owners = map (\<lambda>r. (r_surface_key r, r_id r)) (records m),
     spec_next = next_id m, spec_size = output_size (config w)\<rparr>"
  by (simp add: wm_abs_def)

lemma refine_map:
  "spec_apply (OpMap rq) (wm_abs w) = (wm_abs (fst (wm_apply (OpMap rq) w)), snd (wm_apply (OpMap rq) w))"
proof (cases "window_by_surface (model w) (m_surface_key rq)")
  case (Some i)
  then have "m_surface_key rq \<in> r_surface_key ` set (records (model w))"
    using window_by_surface_None[of "model w" "m_surface_key rq"] by simp
  then show ?thesis using Some by (simp add: owners_abs on_map_def)
next
  case None
  then have "m_surface_key rq \<notin> r_surface_key ` set (records (model w))"
    using window_by_surface_None[of "model w" "m_surface_key rq"] by simp
  then show ?thesis
    using None abs_mark_active
    by (simp add: owners_abs on_map_def Let_def abs_update_model)
      (simp add: wm_abs_def config_tiled_rect_def)
qed

lemma refine_destroy:
  assumes inv: "wm_inv w"
  shows "spec_apply (OpDestroy i) (wm_abs w) =
    (wm_abs (fst (wm_apply (OpDestroy i) w)), snd (wm_apply (OpDestroy i) w))"
proof (cases "i \<in> set (ids (model w))")
  case False
  then show ?thesis
    using index_of_None[of "model w" i] by (simp add: owners_abs on_destroy_def lift_model_def)
next
  case True
  have owners: "filter (\<lambda>(k, j). j \<noteq> i) (owners (wm_abs w)) =
      map (\<lambda>r. (r_surface_key r, r_id r)) (filter (\<lambda>r. r_id r \<noteq> i) (records (model w)))"
    by (simp add: wm_abs_def filter_map comp_def)
  have stack: "stack (wm_abs w) = mru (model w)" by (simp add: wm_abs_def)
  let ?rest = "filter (\<lambda>j. j \<noteq> i) (mru (model w))"
  show ?thesis
    using True
    by (cases "active_window (model w) = Some i"; cases ?rest)
      (simp_all add: owners_abs(1) owners stack on_destroy_known[OF inv True] Let_def lift_model_def
        abs_update_model abs_mark_active active_window_stack active_window_def,
       auto simp: wm_abs_def split: list.splits)
qed

lemma refine_activate:
  "spec_apply (OpActivate i) (wm_abs w) =
    (wm_abs (fst (wm_apply (OpActivate i) w)), snd (wm_apply (OpActivate i) w))"
proof (cases "i \<in> set (ids (model w))")
  case False
  then show ?thesis
    using index_of_None[of "model w" i] by (simp add: owners_abs activate_def lift_model_def)
next
  case True
  then obtain k where k: "index_of (model w) i = Some k" using index_of_None[of "model w" i] by auto
  show ?thesis
  proof (cases "active_window (model w) = Some i")
    case act: True
    then have "stack (wm_abs w) \<noteq> [] \<and> hd (stack (wm_abs w)) = i"
      by (simp add: active_window_stack wm_abs_def)
    with act True k show ?thesis by (simp add: owners_abs(1) activate_def lift_model_def)
  next
    case False
    then have "\<not> (stack (wm_abs w) \<noteq> [] \<and> hd (stack (wm_abs w)) = i)"
      by (simp add: active_window_stack wm_abs_def)
    with False True k abs_mark_active[of "model w" i] show ?thesis
      by (simp add: owners_abs(1) activate_def lift_model_def Let_def abs_update_model) (simp add: wm_abs_def)
  qed
qed

lemma refine_resize:
  assumes inv: "wm_inv w"
  shows "spec_apply (OpSetOutputSize sz) (wm_abs w) =
    (wm_abs (fst (wm_apply (OpSetOutputSize sz) w)), snd (wm_apply (OpSetOutputSize sz) w))"
proof -
  have "filter r_mapped (records (model w)) = records (model w)"
    using wm_inv_D(9)[OF inv] by (simp add: filter_id_conv)
  then show ?thesis
    by (simp add: on_output_size_def Let_def wm_abs_def comp_def config_tiled_rect_def)
qed

lemma wm_refines_spec:
  assumes inv: "wm_inv w"
  shows "spec_apply op (wm_abs w) = (wm_abs (fst (wm_apply op w)), snd (wm_apply op w))"
proof (cases op)
  case (OpSetOutputSize sz)
  then show ?thesis using refine_resize[OF inv] by simp
next
  case (OpMap rq)
  then show ?thesis using refine_map by simp
next
  case (OpDestroy i)
  then show ?thesis using refine_destroy[OF inv] by simp
next
  case (OpActivate i)
  then show ?thesis using refine_activate by simp
qed (simp_all add: lift_model_def on_title_def on_app_id_def on_commit_def on_popup_added_def
  on_popup_removed_def abs_record_mut core_def)

text \<open>The visible windows are the head of the abstract stack, and nothing else.\<close>

lemma visible_is_head:
  assumes inv: "wm_inv w"
  shows "map r_id (filter (\<lambda>r. r_state r = Active) (records (model w))) = take 1 (stack (wm_abs w))"
proof (cases "mru (model w)")
  case Nil
  then have "records (model w) = []" using wm_inv_D(6)[OF inv] by (simp add: ids_def)
  then show ?thesis using Nil by (simp add: wm_abs_def)
next
  case (Cons i is')
  have "\<forall>r \<in> set (records (model w)). r_state r = Active \<longleftrightarrow> r_id r = i"
    using wm_inv_D(7)[OF inv] Cons by (auto simp: active_window_def)
  then have "map r_id (filter (\<lambda>r. r_state r = Active) (records (model w))) =
      filter (\<lambda>j. j = i) (ids (model w))"
    by (simp add: ids_def filter_map comp_def cong: filter_cong)
  also have "\<dots> = [i]"
  proof -
    have "i \<in> set (ids (model w))" using wm_inv_D(6)[OF inv] Cons by auto
    with wm_inv_D(2)[OF inv] show ?thesis by (rule filter_eq_singleton)
  qed
  finally show ?thesis using Cons by (simp add: wm_abs_def)
qed

section \<open>Pointer positions and counters\<close>

lemma window_Some: "window m i = Some r \<Longrightarrow> r \<in> set (records m) \<and> r_id r = i"
  unfolding window_def by (drule find_Some_mem) simp

lemma window_None: "window m i = None \<longleftrightarrow> i \<notin> set (ids m)"
  by (auto simp: window_def find_None_iff_all ids_def)

lemma contains_translated:
  assumes "contains (from_size (rect_size g)) q"
  shows "contains g (Point_new (clamp_i32 (sint (rx g) + sint (px q))) (clamp_i32 (sint (ry g) + sint (py q))))"
proof -
  have "\<not> rect_is_empty g"
    using contains_not_empty[OF assms] by (simp add: from_size_def rect_size_def rect_is_empty_def)
  moreover have "0 \<le> sint (px q)" "sint (px q) < uint (rw g)" "0 \<le> sint (py q)" "sint (py q) < uint (rh g)"
    using assms by (simp_all add: contains_iff from_size_def rect_size_def)
  ultimately show ?thesis unfolding Point_new_def by (intro contains_clamped) linarith+
qed

lemma resolve_position_contained:
  assumes "window m i = Some r" "\<not> rect_is_empty (r_geometry r)" "position_wf pos"
  shows "\<exists>p. resolve_position m i pos = Some p \<and> contains (r_geometry r) p"
proof -
  have "\<not> rect_is_empty (from_size (rect_size (r_geometry r)))"
    using assms(2) by (simp add: from_size_def rect_size_def rect_is_empty_def)
  then have "contains (from_size (rect_size (r_geometry r))) (resolve pos (from_size (rect_size (r_geometry r))))"
    using assms(3) by (rule resolve_contained)
  from contains_translated[OF this] show ?thesis by (simp add: resolve_position_def assms(1) Let_def)
qed

text \<open>How a call changes the commit watermark of a record that it keeps.\<close>

lemma record_mut_watermark:
  assumes "\<And>r. r_id (f r) = r_id r" "\<And>r. r_last_commit_seq r \<le> r_last_commit_seq (f r)"
    and "window m j = Some r" "window (record_mut m i f) j = Some r'"
  shows "r_last_commit_seq r \<le> r_last_commit_seq r'"
proof -
  have "find (\<lambda>r. r_id r = j) (update_first i f rs) = Some r' \<Longrightarrow> find (\<lambda>r. r_id r = j) rs = Some r \<Longrightarrow>
    r_last_commit_seq r \<le> r_last_commit_seq r'" for rs
    by (induction rs) (auto simp: assms(1,2) split: if_splits)
  with assms(3,4) show ?thesis by (simp add: window_def record_mut_def)
qed

lemma find_map_same:
  assumes "\<And>r. r_id (f r) = r_id r"
  shows "find (\<lambda>r. r_id r = j) (map f rs) = map_option f (find (\<lambda>r. r_id r = j) rs)"
  by (induction rs) (auto simp: assms)

lemma find_filter_same:
  "find (\<lambda>r. r_id r = j) (filter (\<lambda>r. r_id r \<noteq> i) rs) =
    (if j = i then None else find (\<lambda>r. r_id r = j) rs)"
  by (induction rs) auto

lemma window_mark_active: "window (mark_active m k) j =
  map_option (\<lambda>r. r\<lparr>r_state := if r_id r = k then Active else Inactive\<rparr>) (window m j)"
  unfolding window_def mark_active_def by (simp add: find_map_same)

lemma window_mru_update [simp]: "window (m\<lparr>mru := x\<rparr>) j = window m j"
  by (simp add: window_def)

lemma window_append: "window (m\<lparr>next_id := n, records := records m @ rs\<rparr>) j =
  (case window m j of Some r \<Rightarrow> Some r | None \<Rightarrow> find (\<lambda>r. r_id r = j) rs)"
proof -
  have "find P (xs @ ys) = (case find P xs of Some r \<Rightarrow> Some r | None \<Rightarrow> find P ys)" for P and xs ys :: "WindowRecord list"
    by (induction xs) auto
  then show ?thesis by (simp add: window_def)
qed

lemma destroy_window:
  assumes inv: "wm_inv w" and "window (fst (on_destroy (model w) i)) j = Some r'"
    and "window (model w) j = Some r"
  shows "r_last_commit_seq r' = r_last_commit_seq r"
proof (cases "i \<in> set (ids (model w))")
  case False
  then show ?thesis using assms index_of_None[of "model w" i] by (simp add: on_destroy_def)
next
  case True
  let ?m2 = "(model w)\<lparr>records := filter (\<lambda>r. r_id r \<noteq> i) (records (model w)),
    mru := filter (\<lambda>j. j \<noteq> i) (mru (model w))\<rparr>"
  have "window ?m2 j = (if j = i then None else window (model w) j)"
    by (simp add: window_def find_filter_same)
  with assms(2,3) show ?thesis
    by (auto simp: on_destroy_known[OF inv True] Let_def window_mark_active split: if_splits option.splits)
qed

lemma watermark_monotone:
  assumes inv: "wm_inv w" and "window (model w) j = Some r"
    and "window (model (fst (wm_apply op w))) j = Some r'"
  shows "r_last_commit_seq r \<le> r_last_commit_seq r'"
proof (cases op)
  case (OpSetOutputSize sz)
  with assms show ?thesis by (auto simp: on_output_size_def Let_def window_def find_map_same)
next
  case (OpMap rq)
  with assms show ?thesis
    by (auto simp: on_map_def Let_def window_mark_active case_prod_beta window_append split: option.splits)
next
  case (OpDestroy i)
  with assms destroy_window[OF inv, of i j r' r] show ?thesis by (simp add: lift_model_def)
next
  case (OpActivate i)
  with assms show ?thesis
    by (auto simp: lift_model_def activate_def Let_def window_mark_active split: if_splits)
next
  case (OpTitle i t)
  with assms(3) have "window (fst (on_title (model w) i t)) j = Some r'" by (simp add: lift_model_def)
  then show ?thesis
    unfolding on_title_def fst_conv by (rule record_mut_watermark[OF _ _ assms(2), rotated -1]) simp_all
next
  case (OpAppId i a)
  with assms(3) have "window (fst (on_app_id (model w) i a)) j = Some r'" by (simp add: lift_model_def)
  then show ?thesis
    unfolding on_app_id_def fst_conv by (rule record_mut_watermark[OF _ _ assms(2), rotated -1]) simp_all
next
  case (OpCommit i c d)
  with assms(3) have "window (fst (on_commit (model w) i c d)) j = Some r'" by (simp add: lift_model_def)
  then show ?thesis
    unfolding on_commit_def fst_conv by (rule record_mut_watermark[OF _ _ assms(2), rotated -1]) simp_all
next
  case (OpPopupAdded i)
  with assms(3) have "window (fst (on_popup_added (model w) i)) j = Some r'" by (simp add: lift_model_def)
  then show ?thesis
    unfolding on_popup_added_def fst_conv by (rule record_mut_watermark[OF _ _ assms(2), rotated -1]) simp_all
next
  case (OpPopupRemoved i)
  with assms(3) have "window (fst (on_popup_removed (model w) i)) j = Some r'" by (simp add: lift_model_def)
  then show ?thesis
    unfolding on_popup_removed_def fst_conv by (rule record_mut_watermark[OF _ _ assms(2), rotated -1]) simp_all
qed

text \<open>The definitions a concrete run of calls unfolds.\<close>

lemmas wm_eval = on_map_def window_by_surface_def WindowManager_new_def WindowModel_new_def Let_def
  mark_active_def window_def PolicyConfig_default_def config_tiled_rect_def from_size_def
  Size_new_def Rect_new_def MapRequest_new_def lift_model_def on_commit_def record_mut_def

section \<open>Properties\<close>

text \<open>After any sequence of calls the window model is consistent: identifiers ascend and are below the
  next one, surfaces are distinct, the MRU order is a permutation of the windows, exactly its head
  is active, and every window is mapped at the tiled rectangle of the output.\<close>

theorem wm_reachable_consistent:
  assumes "wm_reach c n w" "n < 2 ^ 64 - 1"
  shows "wm_inv w"
  using wm_reach_inv[OF assms] by simp

theorem wm_reachable_consistent_witness:
  "wm_inv (fst (wm_apply (OpDestroy (WindowId 1))
     (fst (wm_apply (OpMap (MapRequest_new (SurfaceKey 7))) (WindowManager_new PolicyConfig_default)))))"
  by (rule wm_reachable_consistent[OF wm_reach.call[OF wm_reach.call[OF wm_reach.start]]]) simp

text \<open>C9. The detailed manager implements the abstract policy (a stack of windows, the owners of the
  surfaces, the output size) call by call: the same actions, and the abstraction of the new state.\<close>

theorem wm_implements_policy:
  assumes "wm_reach c n w" "n < 2 ^ 64 - 1"
  shows "spec_apply op (wm_abs w) = (wm_abs (fst (wm_apply op w)), snd (wm_apply op w))"
  using wm_reach_inv[OF assms] wm_refines_spec by simp

theorem wm_implements_policy_witness:
  "spec_apply (OpMap (MapRequest_new (SurfaceKey 7))) (wm_abs (WindowManager_new PolicyConfig_default)) =
     (wm_abs (fst (wm_apply (OpMap (MapRequest_new (SurfaceKey 7))) (WindowManager_new PolicyConfig_default))),
      [ConfigureWindow (WindowId 1) (Rect_new 0 0 1280 800), Activate (WindowId 1)])"
  using wm_implements_policy[OF wm_reach.start, where c = PolicyConfig_default and op = "OpMap (MapRequest_new (SurfaceKey 7))"]
  by (simp add: wm_eval)

text \<open>Exactly one window is active whenever there is one, and it is the most recently used.\<close>

theorem active_window_is_most_recent:
  assumes "wm_reach c n w" "n < 2 ^ 64 - 1"
  shows "map r_id (filter (\<lambda>r. r_state r = Active) (records (model w))) = take 1 (mru (model w)) \<and>
    active_window (model w) = (if records (model w) = [] then None else Some (hd (mru (model w))))"
proof -
  have inv: "wm_inv w" using wm_reach_inv[OF assms] by simp
  have "mru (model w) = [] \<longleftrightarrow> records (model w) = []"
    using wm_inv_D(6)[OF inv] by (metis ids_def list.map_disc_iff set_empty)
  then show ?thesis
    using visible_is_head[OF inv]
    by (cases "mru (model w)") (simp_all add: wm_abs_def active_window_def)
qed

theorem active_window_is_most_recent_witness:
  "let w = fst (wm_apply (OpMap (MapRequest_new (SurfaceKey 7))) (WindowManager_new PolicyConfig_default))
   in map r_id (filter (\<lambda>r. r_state r = Active) (records (model w))) = take 1 (mru (model w))"
  unfolding Let_def
  using active_window_is_most_recent[OF wm_reach.call[OF wm_reach.start],
      of "OpMap (MapRequest_new (SurfaceKey 7))" PolicyConfig_default] by simp

text \<open>Window identifiers are never reused: the ones a run of calls hands out ascend strictly.\<close>

theorem window_ids_never_reused:
  assumes "length ops < 2 ^ 64 - 1"
  shows "sorted_wrt (<) (snd (run_ids wm_alloc_step ops (WindowManager_new c)))"
  using wm_ids.run_ids_sorted[of "WindowManager_new c" ops] assms
  by (simp add: WindowManager_new_def WindowModel_new_def)

theorem window_ids_never_reused_witness:
  "sorted_wrt (<) (snd (run_ids wm_alloc_step
     [OpMap (MapRequest_new (SurfaceKey 7)), OpDestroy (WindowId 1), OpMap (MapRequest_new (SurfaceKey 7))]
     (WindowManager_new PolicyConfig_default)))"
  by (rule window_ids_never_reused) simp

text \<open>A pointer position relative to a window resolves to a point of the output inside that window.\<close>

theorem pointer_lands_in_window:
  assumes "window m i = Some r" "\<not> rect_is_empty (r_geometry r)" "position_wf pos"
  shows "\<exists>p. resolve_position m i pos = Some p \<and> contains (r_geometry r) p"
  using assms by (rule resolve_position_contained)

theorem pointer_lands_in_window_witness:
  "\<exists>p. resolve_position (model (fst (wm_apply (OpMap (MapRequest_new (SurfaceKey 7)))
      (WindowManager_new PolicyConfig_default)))) (WindowId 1) (Pixels (Point_new 5000 (- 1))) = Some p \<and>
    contains (Rect_new 0 0 1280 800) p"
proof -
  let ?m = "model (fst (wm_apply (OpMap (MapRequest_new (SurfaceKey 7))) (WindowManager_new PolicyConfig_default)))"
  have "case window ?m (WindowId 1) of None \<Rightarrow> False | Some r \<Rightarrow> r_geometry r = Rect_new 0 0 1280 800"
    by (simp add: wm_eval)
  then obtain r where r: "window ?m (WindowId 1) = Some r" "r_geometry r = Rect_new 0 0 1280 800"
    by (rule case_SomeE)
  then show ?thesis
    using pointer_lands_in_window[of ?m "WindowId 1" r "Pixels (Point_new 5000 (- 1))"]
    by (simp add: position_wf_def rect_is_empty_def Rect_new_def del: wm_apply.simps)
qed

text \<open>No call lowers the commit watermark of a window that it keeps, whatever the order in which
  commits arrive.\<close>

theorem commit_watermark_monotone:
  assumes "wm_reach c n w" "n < 2 ^ 64 - 1" "window (model w) j = Some r"
    and "window (model (fst (wm_apply op w))) j = Some r'"
  shows "r_last_commit_seq r \<le> r_last_commit_seq r'"
  using wm_reach_inv[OF assms(1,2)] watermark_monotone[OF _ assms(3,4)] by simp

theorem commit_watermark_monotone_witness:
  "\<exists>r (r' :: WindowRecord). window (model (fst (wm_apply (OpMap (MapRequest_new (SurfaceKey 7)))
      (WindowManager_new PolicyConfig_default)))) (WindowId 1) = Some r \<and>
    r_last_commit_seq r \<le> r_last_commit_seq r' \<and> r_last_commit_seq r' = 9"
proof -
  let ?w = "fst (wm_apply (OpMap (MapRequest_new (SurfaceKey 7))) (WindowManager_new PolicyConfig_default))"
  let ?op = "OpCommit (WindowId 1) 9 region_empty"
  have "case window (model ?w) (WindowId 1) of None \<Rightarrow> False | Some r \<Rightarrow> True"
    by (simp add: wm_eval)
  then obtain r where r: "window (model ?w) (WindowId 1) = Some r" by (rule case_SomeE)
  have "case window (model (fst (wm_apply ?op ?w))) (WindowId 1) of None \<Rightarrow> False | Some r' \<Rightarrow> r_last_commit_seq r' = 9"
    by (simp add: wm_eval)
  then obtain r' where r': "window (model (fst (wm_apply ?op ?w))) (WindowId 1) = Some r'" "r_last_commit_seq r' = 9"
    by (rule case_SomeE)
  have "wm_reach PolicyConfig_default 1 ?w"
    using wm_reach.call[OF wm_reach.start] by (metis One_nat_def)
  then have le: "r_last_commit_seq r \<le> r_last_commit_seq r'"
    by (rule commit_watermark_monotone[OF _ _ r r'(1)]) simp
  show ?thesis by (rule exI[of _ r], rule exI[of _ r'], intro conjI) (fact r, fact le, fact r'(2))
qed

end
