(* ===== verification/Notify_Store.thy ===== *)
theory Notify_Store
  imports Core_Types Interfaces
begin

text \<open>
  The notification store of \<open>crates/adesk-notify/src\<close>: the request type and the store
  (\<open>store.rs\<close>) and the errors with their AGP codes (\<open>error.rs\<close>). A fallible operation
  returns the new store and a sum, \<open>Inl\<close> the error.
\<close>

section \<open>Requests and errors\<close>

record NewNotification =
  nn_source :: "string option"
  nn_title :: string
  nn_body :: string
  nn_urgency :: NotificationUrgency
  nn_category :: "string option"
  nn_actions :: "NotificationAction list"
  nn_hints :: "(string, string) btree"
  nn_timeout_ms :: "u64 option"

definition NewNotification_default :: NewNotification where
  "NewNotification_default =
     \<lparr>nn_source = None, nn_title = [], nn_body = [], nn_urgency = Normal, nn_category = None,
      nn_actions = [], nn_hints = [], nn_timeout_ms = None\<rparr>"

definition NewNotification_new :: "string \<Rightarrow> NewNotification" where
  "NewNotification_new title = NewNotification_default\<lparr>nn_title := title\<rparr>"

definition with_source :: "string \<Rightarrow> NewNotification \<Rightarrow> NewNotification" where
  "with_source s n = n\<lparr>nn_source := Some s\<rparr>"

definition with_body :: "string \<Rightarrow> NewNotification \<Rightarrow> NewNotification" where
  "with_body b n = n\<lparr>nn_body := b\<rparr>"

definition with_urgency :: "NotificationUrgency \<Rightarrow> NewNotification \<Rightarrow> NewNotification" where
  "with_urgency u n = n\<lparr>nn_urgency := u\<rparr>"

definition with_category :: "string \<Rightarrow> NewNotification \<Rightarrow> NewNotification" where
  "with_category c n = n\<lparr>nn_category := Some c\<rparr>"

definition with_actions :: "NotificationAction list \<Rightarrow> NewNotification \<Rightarrow> NewNotification" where
  "with_actions acts n = n\<lparr>nn_actions := acts\<rparr>"

definition with_action :: "string \<Rightarrow> string \<Rightarrow> NewNotification \<Rightarrow> NewNotification" where
  "with_action key label n = n\<lparr>nn_actions := nn_actions n @ [\<lparr>na_key = key, na_label = label\<rparr>]\<rparr>"

definition with_hints :: "(string, string) btree \<Rightarrow> NewNotification \<Rightarrow> NewNotification" where
  "with_hints hints n = n\<lparr>nn_hints := hints\<rparr>"

definition with_hint :: "string \<Rightarrow> string \<Rightarrow> NewNotification \<Rightarrow> NewNotification" where
  "with_hint key v n = n\<lparr>nn_hints := bt_insert key v (nn_hints n)\<rparr>"

definition with_timeout_ms :: "u64 \<Rightarrow> NewNotification \<Rightarrow> NewNotification" where
  "with_timeout_ms t n = n\<lparr>nn_timeout_ms := Some t\<rparr>"

datatype NotifyError =
    NotifyUnknown NotificationId
  | NotifyInvalid string
  | NotifyInternal string

fun notify_error_into :: "NotifyError \<Rightarrow> Error" where
  "notify_error_into (NotifyUnknown i) =
     Error_new UnknownNotification (''unknown notification '' @ decimal (unat (notification_raw i)))"
| "notify_error_into (NotifyInvalid message) = error_invalid_request message"
| "notify_error_into (NotifyInternal message) = error_internal message"

record CloseOutcome =
  co_notification :: Notification
  co_newly_dismissed :: bool

section \<open>The store\<close>

record NotificationStore =
  ns_next_id :: u64
  ns_notifications :: "(NotificationId, Notification) btree"

definition NotificationStore_new :: NotificationStore where
  "NotificationStore_new = \<lparr>ns_next_id = 1, ns_notifications = []\<rparr>"

definition store_post ::
  "NotificationStore \<Rightarrow> NewNotification \<Rightarrow> u64 \<Rightarrow> u64 \<Rightarrow> NotificationStore \<times> (NotifyError + Notification)" where
  "store_post s new sq ts =
     (if nn_title new = [] then (s, Inl (NotifyInvalid ''notification title must not be empty''))
      else
        let n = \<lparr>n_id = NotificationId (ns_next_id s), n_source = nn_source new,
                 n_title = nn_title new, n_body = nn_body new, n_urgency = nn_urgency new,
                 n_category = nn_category new, n_actions = nn_actions new, n_hints = nn_hints new,
                 n_posted_seq = sq, n_posted_ts_ms = ts, n_dismissed = False,
                 n_closed_seq = None, n_close_reason = None, n_timeout_ms = nn_timeout_ms new\<rparr>
        in (\<lparr>ns_next_id = saturating_add (ns_next_id s) 1,
             ns_notifications = bt_insert (n_id n) n (ns_notifications s)\<rparr>, Inr n))"

definition dismiss :: "NotificationCloseReason \<Rightarrow> u64 \<Rightarrow> Notification \<Rightarrow> Notification" where
  "dismiss reason sq n =
     n\<lparr>n_dismissed := True, n_closed_seq := Some sq, n_close_reason := Some reason\<rparr>"

definition store_close ::
  "NotificationStore \<Rightarrow> NotificationId \<Rightarrow> NotificationCloseReason \<Rightarrow> u64
    \<Rightarrow> NotificationStore \<times> (NotifyError + CloseOutcome)" where
  "store_close s i reason sq =
     (case bt_get (ns_notifications s) i of
        None \<Rightarrow> (s, Inl (NotifyUnknown i))
      | Some n \<Rightarrow>
          if n_dismissed n then (s, Inr \<lparr>co_notification = n, co_newly_dismissed = False\<rparr>)
          else (s\<lparr>ns_notifications := bt_modify i (dismiss reason sq) (ns_notifications s)\<rparr>,
                Inr \<lparr>co_notification = dismiss reason sq n, co_newly_dismissed = True\<rparr>))"

text \<open>
  \<open>debug\<close> stands for the standard library's \<open>Debug\<close> rendering of the key, which only the
  message uses.
\<close>

definition store_invoke_action ::
  "(string \<Rightarrow> string) \<Rightarrow> NotificationStore \<Rightarrow> NotificationId \<Rightarrow> string \<Rightarrow> NotifyError + unit" where
  "store_invoke_action debug s i key =
     (case bt_get (ns_notifications s) i of
        None \<Rightarrow> Inl (NotifyUnknown i)
      | Some n \<Rightarrow>
          if \<not> list_ex (\<lambda>a. na_key a = key) (n_actions n)
          then Inl (NotifyInvalid (''notification '' @ decimal (unat (notification_raw i)) @
                 '' has no action '' @ debug key))
          else Inr ())"

definition newest_first :: "Notification \<Rightarrow> Notification \<Rightarrow> bool" where
  "newest_first a b \<longleftrightarrow>
     n_posted_seq b < n_posted_seq a \<or> (n_posted_seq b = n_posted_seq a \<and> n_id b \<le> n_id a)"

definition store_list :: "NotificationStore \<Rightarrow> bool \<Rightarrow> Notification list" where
  "store_list s include_dismissed =
     sort_by newest_first
       (filter (\<lambda>n. include_dismissed \<or> \<not> n_dismissed n) (bt_values (ns_notifications s)))"

definition store_get :: "NotificationStore \<Rightarrow> NotificationId \<Rightarrow> Notification option" where
  "store_get s i = bt_get (ns_notifications s) i"

section \<open>Calls\<close>

datatype StoreOp =
    OpPost NewNotification u64 u64
  | OpClose NotificationId NotificationCloseReason u64

fun store_apply :: "StoreOp \<Rightarrow> NotificationStore \<Rightarrow> NotificationStore" where
  "store_apply (OpPost new sq ts) s = fst (store_post s new sq ts)"
| "store_apply (OpClose i reason sq) s = fst (store_close s i reason sq)"

fun store_alloc_step :: "StoreOp \<Rightarrow> NotificationStore \<Rightarrow> NotificationStore \<times> u64 option" where
  "store_alloc_step (OpPost new sq ts) s =
     (case store_post s new sq ts of
        (s', Inr n) \<Rightarrow> (s', Some (notification_raw (n_id n)))
      | (s', Inl _) \<Rightarrow> (s', None))"
| "store_alloc_step (OpClose i reason sq) s = (fst (store_close s i reason sq), None)"

interpretation notify_ids: id_source store_alloc_step "\<lambda>s. unat (ns_next_id s)"
proof (unfold_locales, goal_cases)
  case (1 op s s' i)
  then show ?case
    by (cases op) (auto simp: store_post_def Let_def int_read min_def split: if_splits)
next
  case (2 op s s')
  then show ?case
    by (cases op)
      (auto simp: store_post_def store_close_def Let_def split: if_splits option.splits)
qed

lemma fst_store_alloc_step: "fst (store_alloc_step op s) = store_apply op s"
  by (cases op) (auto simp: store_post_def Let_def)

section \<open>The store invariant\<close>

text \<open>Entries sit under their own identifier, below the next one, and their closing fields agree.\<close>

definition notification_ok :: "Notification \<Rightarrow> bool" where
  "notification_ok n \<longleftrightarrow> n_title n \<noteq> [] \<and>
     (n_closed_seq n \<noteq> None \<longleftrightarrow> n_dismissed n) \<and> (n_close_reason n \<noteq> None \<longleftrightarrow> n_dismissed n)"

definition store_ok :: "NotificationStore \<Rightarrow> bool" where
  "store_ok s \<longleftrightarrow> bt_ok (ns_notifications s) \<and>
     (\<forall>(i, n) \<in> set (ns_notifications s).
        n_id n = i \<and> notification_raw i < ns_next_id s \<and> notification_ok n)"

lemma store_ok_iff:
  "store_ok s \<longleftrightarrow> bt_ok (ns_notifications s) \<and>
     (\<forall>i n. store_get s i = Some n \<longrightarrow>
        n_id n = i \<and> notification_raw i < ns_next_id s \<and> notification_ok n)"
  by (cases "bt_ok (ns_notifications s)") (simp_all add: store_ok_def store_get_def bt_all_iff)

lemma store_ok_new: "store_ok NotificationStore_new"
  by (simp add: store_ok_def NotificationStore_new_def)

lemma store_get_close:
  "store_get (fst (store_close s i reason sq)) j =
     (if j = i then map_option (\<lambda>n. if n_dismissed n then n else dismiss reason sq n) (store_get s i)
      else store_get s j)"
  by (simp add: store_get_def store_close_def split: option.split)

lemma next_id_close: "ns_next_id (fst (store_close s i reason sq)) = ns_next_id s"
  by (simp add: store_close_def split: option.split)

lemma store_ok_close:
  assumes "store_ok s"
  shows "store_ok (fst (store_close s i reason sq))"
proof -
  have "bt_ok (ns_notifications (fst (store_close s i reason sq)))"
    using assms by (auto simp: store_ok_def store_close_def split: option.split)
  with assms show ?thesis
    unfolding store_ok_iff store_get_close next_id_close
    by (auto simp: notification_ok_def dismiss_def split: if_splits)
qed

lemma store_ok_post:
  assumes "store_ok s" "unat (ns_next_id s) < 2 ^ 64 - 1"
  shows "store_ok (fst (store_post s new sq ts))"
proof (cases "nn_title new = []")
  case False
  have less: "ns_next_id s < saturating_add (ns_next_id s) 1"
    using assms(2) by (simp add: word_less_nat_alt int_read)
  then have "notification_raw i < saturating_add (ns_next_id s) 1" if "store_get s i = Some n" for i n
    using assms(1) that by (fastforce simp: store_ok_iff)
  with assms(1) less False show ?thesis
    by (auto simp: store_ok_iff store_get_def store_post_def Let_def notification_ok_def)
qed (use assms in \<open>simp add: store_post_def\<close>)

lemma next_id_post_le: "ns_next_id s \<le> ns_next_id (fst (store_post s new sq ts))"
  by (simp add: store_post_def Let_def saturating_add_le)

lemma next_id_post: "unat (ns_next_id (fst (store_post s new sq ts))) \<le> Suc (unat (ns_next_id s))"
  by (simp add: store_post_def Let_def int_read)

lemma store_run_ok:
  "store_ok s \<Longrightarrow> unat (ns_next_id s) + length ops < 2 ^ 64 \<Longrightarrow>
   store_ok (fold store_apply ops s) \<and>
   unat (ns_next_id (fold store_apply ops s)) \<le> unat (ns_next_id s) + length ops"
proof (induction ops arbitrary: s)
  case (Cons op ops)
  have room: "unat (ns_next_id s) < 2 ^ 64 - 1" using Cons.prems(2) by simp
  have step: "store_ok (store_apply op s)" "unat (ns_next_id (store_apply op s)) \<le> Suc (unat (ns_next_id s))"
    using store_ok_close store_ok_post Cons.prems(1) room next_id_close next_id_post
    by (cases op; simp)+
  then have "unat (ns_next_id (store_apply op s)) + length ops < 2 ^ 64" using Cons.prems(2) by simp
  from Cons.IH[OF step(1) this] step(2) show ?case by simp
qed simp

section \<open>Lifecycle\<close>

text \<open>The first close of an identifier in a sequence of calls.\<close>

fun first_close :: "NotificationId \<Rightarrow> StoreOp list \<Rightarrow> (NotificationCloseReason \<times> u64) option" where
  "first_close i [] = None"
| "first_close i (OpPost _ _ _ # ops) = first_close i ops"
| "first_close i (OpClose j reason sq # ops) = (if j = i then Some (reason, sq) else first_close i ops)"

lemma store_get_post_other:
  assumes "store_ok s" "store_get s i = Some n"
  shows "store_get (fst (store_post s new sq ts)) i = Some n"
proof -
  have "i \<noteq> NotificationId (ns_next_id s)"
    using assms unfolding store_ok_iff by fastforce
  then show ?thesis using assms(2) by (simp add: store_post_def Let_def store_get_def)
qed

lemma store_get_apply:
  assumes "store_ok s" "store_get s i = Some n"
  shows "store_get (store_apply op s) i =
    Some (case first_close i [op] of
            Some (reason, sq) \<Rightarrow> if n_dismissed n then n else dismiss reason sq n
          | None \<Rightarrow> n)"
proof (cases op)
  case (OpPost new sq ts)
  then show ?thesis using store_get_post_other[OF assms] by simp
next
  case (OpClose j reason sq)
  then show ?thesis using assms(2) by (cases "j = i") (simp_all add: store_get_close)
qed

lemma dismissed_frozen:
  assumes "store_ok s" "store_get s i = Some n" "n_dismissed n"
    and "unat (ns_next_id s) + length ops < 2 ^ 64"
  shows "store_get (fold store_apply ops s) i = Some n"
  using assms
proof (induction ops arbitrary: s)
  case (Cons op ops)
  have "store_get (store_apply op s) i = Some n"
    using store_get_apply[OF Cons.prems(1,2), of op] Cons.prems(3) by (auto split: option.splits)
  moreover have "store_ok (store_apply op s)" "unat (ns_next_id (store_apply op s)) \<le> Suc (unat (ns_next_id s))"
    using store_run_ok[of s "[op]"] Cons.prems(1,4) by simp_all
  ultimately show ?case using Cons.IH[of "store_apply op s"] Cons.prems(3,4) by simp
qed simp

lemma first_close_wins:
  assumes "store_ok s" "store_get s i = Some n" "\<not> n_dismissed n"
    and "unat (ns_next_id s) + length ops < 2 ^ 64"
  shows "store_get (fold store_apply ops s) i =
    Some (case first_close i ops of None \<Rightarrow> n | Some (reason, sq) \<Rightarrow> dismiss reason sq n)"
  using assms
proof (induction ops arbitrary: s)
  case (Cons op ops)
  let ?s = "store_apply op s"
  have ok: "store_ok ?s" "unat (ns_next_id ?s) \<le> Suc (unat (ns_next_id s))"
    using store_run_ok[of s "[op]"] Cons.prems(1,4) by simp_all
  show ?case
  proof (cases "first_close i [op]")
    case None
    then have "store_get ?s i = Some n" using store_get_apply[OF Cons.prems(1,2), of op] by simp
    moreover have "first_close i (op # ops) = first_close i ops"
      using None by (cases op) (auto split: if_splits)
    ultimately show ?thesis using Cons.IH[OF ok(1)] ok(2) Cons.prems(3,4) by simp
  next
    case (Some q)
    obtain reason sq where q: "q = (reason, sq)" by (cases q)
    then have "store_get ?s i = Some (dismiss reason sq n)"
      using Some store_get_apply[OF Cons.prems(1,2), of op] Cons.prems(3) by simp
    then have "store_get (fold store_apply ops ?s) i = Some (dismiss reason sq n)"
      using dismissed_frozen[OF ok(1)] ok(2) Cons.prems(4) by (simp add: dismiss_def)
    moreover have "first_close i (op # ops) = Some q" using Some by (cases op) (auto split: if_splits)
    ultimately show ?thesis using q by simp
  qed
qed simp

section \<open>Listing\<close>

lemma newest_first_order:
  "newest_first a b \<or> newest_first b a" "newest_first a b \<Longrightarrow> newest_first b c \<Longrightarrow> newest_first a c"
  by (auto simp: newest_first_def)

lemma store_list_sorted: "sorted_wrt newest_first (store_list s d)"
  unfolding store_list_def by (rule sorted_sort_by) (use newest_first_order in blast)+

lemma store_list_mem:
  assumes "store_ok s"
  shows "n \<in> set (store_list s d) \<longleftrightarrow> store_get s (n_id n) = Some n \<and> (d \<or> \<not> n_dismissed n)"
proof -
  have "n \<in> set (bt_values (ns_notifications s)) \<longleftrightarrow> store_get s (n_id n) = Some n"
    using assms unfolding store_ok_iff store_get_def by (auto simp: bt_values_set)
  then show ?thesis by (auto simp: store_list_def)
qed

lemma store_values_ids: "store_ok s \<Longrightarrow> map n_id (bt_values (ns_notifications s)) = bt_keys (ns_notifications s)"
  by (auto simp: store_ok_def bt_values_def bt_keys_def)

lemma store_list_distinct:
  assumes "store_ok s"
  shows "distinct (map n_id (store_list s d))"
proof -
  have "distinct (map n_id (bt_values (ns_notifications s)))"
    using store_values_ids[OF assms] assms bt.keys_distinct by (auto simp: store_ok_def)
  then show ?thesis by (simp add: store_list_def distinct_sort_by distinct_map_filter)
qed

text \<open>At the last identifier the saturating counter hands it out twice.\<close>

lemma store_post_exhausted:
  assumes "ns_next_id s = - 1" "nn_title new \<noteq> []" "nn_title new' \<noteq> []"
  shows "\<exists>s' n s'' n'. store_post s new sq ts = (s', Inr n) \<and> store_post s' new' sq' ts' = (s'', Inr n') \<and>
    n_id n' = n_id n \<and> store_get s'' (n_id n) = Some n'"
proof -
  have "saturating_add (- 1 :: u64) 1 = - 1" by (simp add: saturating_add_def unat_max_word)
  with assms show ?thesis by (auto simp: store_post_def Let_def store_get_def)
qed

section \<open>Properties\<close>

text \<open>C31. The first close of a live notification wins: after any sequence of posts and closes its record
  is the posted one with the reason and the sequence of the first close in the sequence, and every
  later close is a no-op.\<close>

theorem first_close_is_final:
  assumes "store_ok s" "store_get s i = Some n" "\<not> n_dismissed n"
    and "unat (ns_next_id s) + length ops < 2 ^ 64"
  shows "store_get (fold store_apply ops s) i =
    Some (case first_close i ops of None \<Rightarrow> n | Some (reason, sq) \<Rightarrow> dismiss reason sq n)"
  using assms by (rule first_close_wins)

theorem first_close_is_final_witness:
  "\<exists>n. store_get (fold store_apply
      [OpClose (NotificationId 1) Expired 5, OpPost (NewNotification_new ''b'') 6 0,
       OpClose (NotificationId 1) Dismissed 7]
      (fst (store_post NotificationStore_new (NewNotification_new ''a'') 4 0))) (NotificationId 1) = Some n \<and>
    n_closed_seq n = Some 5 \<and> n_close_reason n = Some Expired"
proof -
  let ?s = "fst (store_post NotificationStore_new (NewNotification_new ''a'') 4 0)"
  let ?ops = "[OpClose (NotificationId 1) Expired 5, OpPost (NewNotification_new ''b'') 6 0,
       OpClose (NotificationId 1) Dismissed 7]"
  have ok: "store_ok ?s"
    by (intro store_ok_post store_ok_new) (simp add: NotificationStore_new_def)
  have "case store_get ?s (NotificationId 1) of None \<Rightarrow> False | Some n \<Rightarrow> \<not> n_dismissed n"
    by (simp add: store_post_def NotificationStore_new_def NewNotification_new_def
      NewNotification_default_def Let_def store_get_def bt_get_def)
  then obtain n where n: "store_get ?s (NotificationId 1) = Some n" "\<not> n_dismissed n"
    by (rule case_SomeE)
  have "unat (ns_next_id ?s) + length ?ops < 2 ^ 64"
    using next_id_post[of NotificationStore_new "NewNotification_new ''a''" 4 0]
    by (simp add: NotificationStore_new_def)
  from first_close_is_final[OF ok n this] show ?thesis by (simp add: dismiss_def)
qed

text \<open>Listing is complete and ordered: the list holds each notification that passes the filter
  exactly once, newest first, ties by identifier.\<close>

theorem list_is_complete_and_ordered:
  assumes "store_ok s"
  shows "sorted_wrt newest_first (store_list s d) \<and> distinct (map n_id (store_list s d)) \<and>
    (\<forall>n. n \<in> set (store_list s d) \<longleftrightarrow> store_get s (n_id n) = Some n \<and> (d \<or> \<not> n_dismissed n))"
  using store_list_sorted store_list_distinct[OF assms] store_list_mem[OF assms] by blast

theorem list_is_complete_and_ordered_witness:
  "sorted_wrt newest_first (store_list (fst (store_post NotificationStore_new (NewNotification_new ''a'') 4 0)) True)"
  using list_is_complete_and_ordered[of "fst (store_post NotificationStore_new (NewNotification_new ''a'') 4 0)" True]
    store_ok_post[OF store_ok_new] by (simp add: NotificationStore_new_def)

text \<open>Notification identifiers are never reused below the last one, and posting keeps every stored
  record under its own identifier with closing fields that agree.\<close>

theorem notification_ids_never_reused:
  assumes "length ops < 2 ^ 64 - 1"
  shows "sorted_wrt (<) (snd (run_ids store_alloc_step ops NotificationStore_new)) \<and>
    store_ok (fold store_apply ops NotificationStore_new)"
  using notify_ids.run_ids_sorted[of NotificationStore_new ops] store_run_ok[OF store_ok_new, of ops] assms
  by (simp add: NotificationStore_new_def)

theorem notification_ids_never_reused_witness:
  "sorted_wrt (<) (snd (run_ids store_alloc_step
     [OpPost (NewNotification_new ''a'') 4 0, OpPost (NewNotification_new []) 5 0,
      OpPost (NewNotification_new ''b'') 6 0] NotificationStore_new))"
  using notification_ids_never_reused[of "[OpPost (NewNotification_new ''a'') 4 0,
      OpPost (NewNotification_new []) 5 0, OpPost (NewNotification_new ''b'') 6 0]"] by simp

end
