(* ===== verification/Notify_Inbox.thy ===== *)
theory Notify_Inbox
  imports Notify_Store "HOL-Library.Sublist"
begin

text \<open>
  The event inbox of \<open>crates/adesk-notify/src/inbox.rs\<close> and the service facade of
  \<open>service.rs\<close>: the bounded journal, the request filter, and the \<open>wait_for_events\<close> loop as a
  machine whose schedule interleaves the waiting task with the event pump and the clock.

  From \<open>tokio\<close> the model takes the documented behaviour of its \<open>watch\<close> channel (a version
  number bumped by each send; \<open>changed\<close> is ready while the receiver has not seen the newest
  version) and of \<open>sleep_until\<close> (ready from its instant on). Instants are nanoseconds.
\<close>

section \<open>The request\<close>

record EventWaitSpec =
  ew_kinds :: "EventKind list"
  ew_window_id :: "WindowId option"
  ew_timeout_ms :: u64
  ew_max_events :: u32
  ew_since_seq :: "u64 option"

definition EventWaitSpec_default :: EventWaitSpec where
  "EventWaitSpec_default =
     \<lparr>ew_kinds = [], ew_window_id = None, ew_timeout_ms = 5000, ew_max_events = 32, ew_since_seq = None\<rparr>"

definition spec_matches :: "EventWaitSpec \<Rightarrow> RuntimeEvent \<Rightarrow> bool" where
  "spec_matches spec e =
     (if (case ew_window_id spec of Some w \<Rightarrow> event_window_id e \<noteq> Some w | None \<Rightarrow> False) then False
      else ew_kinds spec = [] \<or> event_kind e \<in> set (ew_kinds spec))"

record EventBatch =
  eb_events :: "RuntimeEvent list"
  eb_timed_out :: bool
  eb_elapsed_ms :: u64
  eb_seq :: u64

section \<open>The journal\<close>

record InboxState =
  ib_journal :: "RuntimeEvent list"
  ib_capacity :: nat
  ib_watermark :: u64

definition InboxState_new :: "nat \<Rightarrow> InboxState" where
  "InboxState_new capacity =
     \<lparr>ib_journal = [], ib_capacity = max capacity 1, ib_watermark = 0\<rparr>"

definition inbox_record :: "RuntimeEvent \<Rightarrow> InboxState \<Rightarrow> InboxState" where
  "inbox_record e s =
     (let journal = ib_journal s @ [e]
      in s\<lparr>ib_watermark := max (ib_watermark s) (event_seq e),
           ib_journal := (if ib_capacity s < length journal then tl journal else journal)\<rparr>)"

definition inbox_collect :: "InboxState \<Rightarrow> EventWaitSpec \<Rightarrow> u64 \<Rightarrow> RuntimeEvent list" where
  "inbox_collect s spec filter_point =
     (let limit = unat (ew_max_events spec)
      in if limit = 0 \<or> ib_watermark s \<le> filter_point then []
         else take limit (filter (spec_matches spec)
                (filter (\<lambda>e. filter_point < event_seq e) (ib_journal s))))"

definition inbox_ok :: "InboxState \<Rightarrow> bool" where
  "inbox_ok s \<longleftrightarrow> 0 < ib_capacity s \<and> length (ib_journal s) \<le> ib_capacity s \<and>
     (\<forall>e \<in> set (ib_journal s). event_seq e \<le> ib_watermark s)"

lemma inbox_record_last_n:
  assumes "length (ib_journal s) \<le> ib_capacity s" "0 < ib_capacity s"
  shows "ib_journal (inbox_record e s) = last_n (ib_capacity s) (ib_journal s @ [e])"
proof (cases "length (ib_journal s) = ib_capacity s")
  case True
  with assms(2) show ?thesis
    by (cases "ib_journal s") (auto simp: inbox_record_def Let_def last_n_def drop_Suc)
next
  case False
  with assms(1) show ?thesis by (simp add: inbox_record_def Let_def)
qed

interpretation inbox: bounded_journal inbox_record ib_journal ib_capacity ib_watermark event_seq
  by unfold_locales (simp_all add: inbox_record_last_n, simp_all add: inbox_record_def Let_def)

lemma inbox_ok_new: "inbox_ok (InboxState_new n)"
  by (simp add: inbox_ok_def InboxState_new_def)

lemma inbox_ok_fold: "inbox_ok s \<Longrightarrow> inbox_ok (fold inbox_record es s)"
  unfolding inbox_ok_def
  using inbox.cap_fold inbox.length_fold inbox.retained_below_top by simp

lemma inbox_journal_fold:
  "inbox_ok s \<Longrightarrow> ib_journal (fold inbox_record es s) = last_n (ib_capacity s) (ib_journal s @ es)"
  by (simp add: inbox_ok_def inbox.contents_fold)

text \<open>The early exit of \<open>collect\<close> loses nothing: the batch is the plain filter of the journal.\<close>

definition wanted :: "EventWaitSpec \<Rightarrow> u64 \<Rightarrow> RuntimeEvent \<Rightarrow> bool" where
  "wanted spec p e \<longleftrightarrow> p < event_seq e \<and> spec_matches spec e"

lemma inbox_collect_eq:
  assumes "inbox_ok s"
  shows "inbox_collect s spec p = take (unat (ew_max_events spec)) (filter (wanted spec p) (ib_journal s))"
proof (cases "ib_watermark s \<le> p")
  case True
  then have "filter (wanted spec p) (ib_journal s) = []"
    using assms by (fastforce simp: inbox_ok_def wanted_def filter_empty_conv)
  with True show ?thesis by (simp add: inbox_collect_def)
next
  case False
  then show ?thesis
    by (simp add: inbox_collect_def Let_def wanted_def conj_commute cong: filter_cong)
qed

text \<open>
  A batch cut off at \<open>max_events\<close> reports the watermark, which is past the events it left out: a wait
  resumed from it does not see them.
\<close>

lemma resuming_from_seq_skips:
  assumes "s = inbox_record (FocusChanged 6 9 None) (inbox_record (FocusChanged 5 8 None) (InboxState_new 4096))"
    and "spec = EventWaitSpec_default\<lparr>ew_max_events := 1\<rparr>"
  shows "inbox_collect s spec 4 = [FocusChanged 5 8 None]" "ib_watermark s = 6"
    "inbox_collect s spec (ib_watermark s) = []"
  by (simp_all add: assms inbox_collect_def inbox_record_def InboxState_new_def EventWaitSpec_default_def spec_matches_def
      max_def word_less_nat_alt word_le_nat_alt)

section \<open>The shared inbox and one waiting task\<close>

text \<open>
  \<open>handle_event\<close> is two steps: the journal is written under the mutex, then the generation is
  bumped; \<open>sys_unsent\<close> counts the calls between the two.
\<close>

record InboxSys =
  sys_state :: InboxState
  sys_generation :: u64
  sys_version :: nat
  sys_unsent :: nat
  sys_now :: nat

definition handle_record :: "RuntimeEvent \<Rightarrow> InboxSys \<Rightarrow> InboxSys" where
  "handle_record e y = y\<lparr>sys_state := inbox_record e (sys_state y), sys_unsent := sys_unsent y + 1\<rparr>"

definition handle_bump :: "InboxSys \<Rightarrow> InboxSys" where
  "handle_bump y =
     (if sys_unsent y = 0 then y
      else y\<lparr>sys_generation := sys_generation y + 1, sys_version := sys_version y + 1,
             sys_unsent := sys_unsent y - 1\<rparr>)"

datatype InboxPc =
    Enter
  | Subscribe
  | Capture
  | Mark
  | Collect
  | Decide "RuntimeEvent list" u64
  | Report "RuntimeEvent list" bool u64
  | Park
  | Done EventBatch

record InboxWait =
  iw_pc :: InboxPc
  iw_started :: nat
  iw_deadline :: nat
  iw_filter :: u64
  iw_seen :: nat

definition wait_start :: InboxWait where
  "wait_start = \<lparr>iw_pc = Enter, iw_started = 0, iw_deadline = 0, iw_filter = 0, iw_seen = 0\<rparr>"

fun wait_run :: "EventWaitSpec \<Rightarrow> InboxSys \<Rightarrow> InboxWait \<Rightarrow> InboxWait" where
  "wait_run spec y w =
     (case iw_pc w of
        Enter \<Rightarrow> w\<lparr>iw_started := sys_now y, iw_deadline := sys_now y + millis (ew_timeout_ms spec),
                   iw_pc := Subscribe\<rparr>
      | Subscribe \<Rightarrow> w\<lparr>iw_seen := sys_version y, iw_pc := Capture\<rparr>
      | Capture \<Rightarrow> w\<lparr>iw_filter := (case ew_since_seq spec of Some p \<Rightarrow> p
                                   | None \<Rightarrow> ib_watermark (sys_state y)), iw_pc := Mark\<rparr>
      | Mark \<Rightarrow> w\<lparr>iw_seen := sys_version y, iw_pc := Collect\<rparr>
      | Collect \<Rightarrow> w\<lparr>iw_pc := Decide (inbox_collect (sys_state y) spec (iw_filter w))
                                (ib_watermark (sys_state y))\<rparr>
      | Decide matching sq \<Rightarrow>
          if matching \<noteq> [] then w\<lparr>iw_pc := Report matching False sq\<rparr>
          else if iw_deadline w \<le> sys_now y then w\<lparr>iw_pc := Report [] True sq\<rparr>
          else w\<lparr>iw_pc := Park\<rparr>
      | Report matching timed_out sq \<Rightarrow>
          w\<lparr>iw_pc := Done \<lparr>eb_events = matching, eb_timed_out = timed_out,
                         eb_elapsed_ms = elapsed_ms (iw_started w) (sys_now y), eb_seq = sq\<rparr>\<rparr>
      | Park \<Rightarrow>
          if sys_version y \<noteq> iw_seen w \<or> iw_deadline w \<le> sys_now y then w\<lparr>iw_pc := Mark\<rparr> else w
      | Done b \<Rightarrow> w)"

datatype InboxStep =
    Feed RuntimeEvent
  | Bump
  | Elapse nat
  | Run

fun inbox_step :: "EventWaitSpec \<Rightarrow> InboxStep \<Rightarrow> InboxSys \<times> InboxWait \<Rightarrow> InboxSys \<times> InboxWait" where
  "inbox_step spec (Feed e) (y, w) = (handle_record e y, w)"
| "inbox_step spec Bump (y, w) = (handle_bump y, w)"
| "inbox_step spec (Elapse d) (y, w) = (y\<lparr>sys_now := sys_now y + d\<rparr>, w)"
| "inbox_step spec Run (y, w) = (y, wait_run spec y w)"

definition inbox_run :: "EventWaitSpec \<Rightarrow> InboxStep list \<Rightarrow> InboxSys \<Rightarrow> InboxSys \<times> InboxWait" where
  "inbox_run spec ops y = fold (inbox_step spec) ops (y, wait_start)"

definition EventInbox_new :: "nat \<Rightarrow> nat \<Rightarrow> InboxSys" where
  "EventInbox_new capacity now =
     \<lparr>sys_state = InboxState_new capacity, sys_generation = 0, sys_version = 0, sys_unsent = 0, sys_now = now\<rparr>"

fun fed :: "InboxStep list \<Rightarrow> RuntimeEvent list" where
  "fed [] = []"
| "fed (Feed e # ops) = e # fed ops"
| "fed (_ # ops) = fed ops"

lemma fed_append [simp]: "fed (xs @ ys) = fed xs @ fed ys"
  by (induction xs rule: fed.induct) simp_all

lemma inbox_run_Nil [simp]: "inbox_run spec [] y = (y, wait_start)"
  by (simp add: inbox_run_def)

lemma inbox_run_snoc [simp]:
  "inbox_run spec (ops @ [op]) y = inbox_step spec op (inbox_run spec ops y)"
  by (simp add: inbox_run_def)

lemma state_after: "sys_state (fst (inbox_run spec ops y)) = fold inbox_record (fed ops) (sys_state y)"
proof (induction ops rule: rev_induct)
  case (snoc op ops)
  obtain z w where zw: "inbox_run spec ops y = (z, w)" by fastforce
  with snoc show ?case by (cases op) (simp_all add: handle_record_def handle_bump_def)
qed simp

lemma now_step: "sys_now y \<le> sys_now (fst (inbox_step spec op (y, w)))"
  by (cases op) (simp_all add: handle_record_def handle_bump_def)

section \<open>What a batch holds\<close>

text \<open>
  \<open>snapshot ops k\<close>: the journal after the first \<open>k\<close> steps. A decided, reported or returned
  batch is the filtered journal of one such moment.
\<close>

definition journal_at :: "InboxStep list \<Rightarrow> nat \<Rightarrow> InboxSys \<Rightarrow> RuntimeEvent list" where
  "journal_at ops k y =
     last_n (ib_capacity (sys_state y)) (ib_journal (sys_state y) @ fed (take k ops))"

definition batch_of :: "EventWaitSpec \<Rightarrow> u64 \<Rightarrow> RuntimeEvent list \<Rightarrow> RuntimeEvent list" where
  "batch_of spec p journal = take (unat (ew_max_events spec)) (filter (wanted spec p) journal)"

fun pc_batch :: "InboxPc \<Rightarrow> (RuntimeEvent list \<times> u64) option" where
  "pc_batch (Decide m q) = Some (m, q)"
| "pc_batch (Report m b q) = Some (m, q)"
| "pc_batch (Done b) = Some (eb_events b, eb_seq b)"
| "pc_batch _ = None"

definition batch_inv :: "EventWaitSpec \<Rightarrow> InboxSys \<Rightarrow> InboxStep list \<Rightarrow> bool" where
  "batch_inv spec y ops \<longleftrightarrow>
     (let w = snd (inbox_run spec ops y) in
      (case pc_batch (iw_pc w) of None \<Rightarrow> True
       | Some (m, q) \<Rightarrow> \<exists>k \<le> length ops. m = batch_of spec (iw_filter w) (journal_at ops k y) \<and>
           q = ib_watermark (fold inbox_record (fed (take k ops)) (sys_state y))))"

lemma pc_batch_run:
  "pc_batch (iw_pc (wait_run spec z w)) =
     (case iw_pc w of Collect \<Rightarrow> Some (inbox_collect (sys_state z) spec (iw_filter w), ib_watermark (sys_state z))
      | Decide m q \<Rightarrow> if m = [] \<and> sys_now z < iw_deadline w then None else Some (m, q)
      | _ \<Rightarrow> pc_batch (iw_pc w))"
  by (auto split: InboxPc.split)

lemma filter_run: "pc_batch (iw_pc (wait_run spec z w)) \<noteq> None \<Longrightarrow> iw_filter (wait_run spec z w) = iw_filter w"
  by (auto split: InboxPc.splits)

lemma batch_inv_run:
  assumes ok: "inbox_ok (sys_state y)"
  shows "batch_inv spec y ops"
proof (induction ops rule: rev_induct)
  case (snoc op ops)
  obtain z w where zw: "inbox_run spec ops y = (z, w)" by fastforce
  have state: "sys_state z = fold inbox_record (fed ops) (sys_state y)"
    using state_after[of spec ops y] zw by simp
  have keep: "batch_inv spec y (ops @ [op])"
    if "iw_filter (snd (inbox_step spec op (z, w))) = iw_filter w"
      "pc_batch (iw_pc (snd (inbox_step spec op (z, w)))) = pc_batch (iw_pc w)"
  proof (cases "pc_batch (iw_pc w)")
    case (Some mq)
    with snoc zw obtain k where "k \<le> length ops"
      "fst mq = batch_of spec (iw_filter w) (journal_at ops k y)"
      "snd mq = ib_watermark (fold inbox_record (fed (take k ops)) (sys_state y))"
      by (cases mq) (auto simp: batch_inv_def)
    with that zw Some show ?thesis
      by (cases mq) (auto simp: batch_inv_def journal_at_def intro!: exI[of _ k])
  qed (use that zw in \<open>simp add: batch_inv_def\<close>)
  show ?case
  proof (cases "op = Run \<and> iw_pc w = Collect")
    case True
    have "inbox_ok (sys_state z)" using ok by (simp add: state inbox_ok_fold)
    then have "inbox_collect (sys_state z) spec (iw_filter w) =
        batch_of spec (iw_filter w) (journal_at ops (length ops) y)"
      using ok by (simp add: inbox_collect_eq batch_of_def journal_at_def state inbox_journal_fold)
    with True zw show ?thesis
      by (auto simp: batch_inv_def journal_at_def state intro!: exI[of _ "length ops"])
  next
    case False
    show ?thesis
    proof (cases "pc_batch (iw_pc (snd (inbox_step spec op (z, w))))")
      case None
      then show ?thesis by (simp add: batch_inv_def zw)
    next
      case (Some mq)
      with False have "pc_batch (iw_pc (snd (inbox_step spec op (z, w)))) = pc_batch (iw_pc w)"
        by (cases op) (auto simp: pc_batch_run simp del: wait_run.simps split: InboxPc.splits if_splits)
      moreover have "iw_filter (snd (inbox_step spec op (z, w))) = iw_filter w"
        using Some filter_run[of spec z w] by (cases op) (simp_all del: wait_run.simps)
      ultimately show ?thesis by (rule keep[rotated])
    qed
  qed
qed (simp add: batch_inv_def wait_start_def)

section \<open>No lost wakeup\<close>

definition idle_pc :: "InboxPc \<Rightarrow> bool" where
  "idle_pc pc \<longleftrightarrow> pc = Park \<or> (\<exists>q. pc = Decide [] q)"

definition wake_inv :: "EventWaitSpec \<Rightarrow> InboxSys \<times> InboxWait \<Rightarrow> bool" where
  "wake_inv spec s \<longleftrightarrow>
     iw_seen (snd s) \<le> sys_version (fst s) \<and>
     (idle_pc (iw_pc (snd s)) \<and> iw_seen (snd s) = sys_version (fst s) \<and> sys_unsent (fst s) = 0 \<longrightarrow>
        inbox_collect (sys_state (fst s)) spec (iw_filter (snd s)) = [])"

lemma wake_inv_step:
  assumes "wake_inv spec (y, w)"
  shows "wake_inv spec (inbox_step spec op (y, w))"
proof (cases op)
  case Run
  with assms show ?thesis
    by (cases "iw_pc w") (auto simp: wake_inv_def idle_pc_def)
qed (use assms in \<open>auto simp: wake_inv_def handle_record_def handle_bump_def\<close>)

lemma wake_inv_run: "wake_inv spec (inbox_run spec ops y)"
proof (induction ops rule: rev_induct)
  case Nil
  show ?case by (simp add: wake_inv_def idle_pc_def wait_start_def)
next
  case (snoc op ops)
  then show ?case using wake_inv_step by (cases "inbox_run spec ops y") simp
qed

section \<open>Verdict and time\<close>

definition time_inv :: "EventWaitSpec \<Rightarrow> InboxSys \<times> InboxWait \<Rightarrow> bool" where
  "time_inv spec s \<longleftrightarrow>
     (let y = fst s; w = snd s in
      (iw_pc w \<noteq> Enter \<longrightarrow> iw_started w \<le> sys_now y \<and>
         iw_deadline w = iw_started w + millis (ew_timeout_ms spec)) \<and>
      (case iw_pc w of
         Report m timed_out q \<Rightarrow> (timed_out \<longleftrightarrow> m = []) \<and> (timed_out \<longrightarrow> iw_deadline w \<le> sys_now y)
       | Done b \<Rightarrow> (eb_timed_out b \<longleftrightarrow> eb_events b = []) \<and>
           (eb_timed_out b \<longrightarrow> ew_timeout_ms spec \<le> eb_elapsed_ms b)
       | _ \<Rightarrow> True))"

lemma time_inv_step:
  assumes "time_inv spec (y, w)"
  shows "time_inv spec (inbox_step spec op (y, w))"
proof (cases op)
  case Run
  with assms show ?thesis
    by (cases "iw_pc w") (auto simp: time_inv_def elapsed_after_deadline)
qed (use assms in \<open>auto simp: time_inv_def handle_record_def handle_bump_def split: InboxPc.splits\<close>)

lemma time_inv_run: "time_inv spec (inbox_run spec ops y)"
proof (induction ops rule: rev_induct)
  case Nil
  show ?case by (simp add: time_inv_def wait_start_def)
next
  case (snoc op ops)
  then show ?case using time_inv_step by (cases "inbox_run spec ops y") simp
qed

section \<open>The wait returns\<close>

text \<open>The turns a waiting task still needs once its deadline has passed.\<close>

fun turns_left :: "InboxPc \<Rightarrow> nat" where
  "turns_left (Done _) = 0"
| "turns_left (Report _ _ _) = 1"
| "turns_left (Decide _ _) = 2"
| "turns_left Collect = 3"
| "turns_left Mark = 4"
| "turns_left Capture = 5"
| "turns_left Park = 5"
| "turns_left Subscribe = 6"
| "turns_left Enter = 7"

definition overdue :: "InboxSys \<times> InboxWait \<Rightarrow> bool" where
  "overdue s \<longleftrightarrow> iw_pc (snd s) \<noteq> Enter \<and> iw_deadline (snd s) \<le> sys_now (fst s)"

lemma overdue_step:
  assumes "overdue s"
  shows "overdue (inbox_step spec op s) \<and>
    turns_left (iw_pc (snd (inbox_step spec op s))) \<le>
      turns_left (iw_pc (snd s)) - (if op = Run then 1 else 0)"
proof (cases s)
  case (Pair y w)
  then show ?thesis
  proof (cases op)
    case Run
    with assms Pair show ?thesis by (cases "iw_pc w") (auto simp: overdue_def)
  qed (use assms Pair in \<open>auto simp: overdue_def handle_record_def handle_bump_def\<close>)
qed

lemma overdue_returns:
  assumes "overdue s" "turns_left (iw_pc (snd s)) \<le> count_list ops Run"
  shows "\<exists>b. iw_pc (snd (fold (inbox_step spec) ops s)) = Done b"
  using assms
proof (induction ops arbitrary: s)
  case Nil
  then show ?case by (cases "iw_pc (snd s)") simp_all
next
  case (Cons op ops)
  from overdue_step[OF Cons.prems(1), of spec op] Cons.prems(2)
  have "overdue (inbox_step spec op s)"
    "turns_left (iw_pc (snd (inbox_step spec op s))) \<le> count_list ops Run"
    by (auto split: if_splits)
  from Cons.IH[OF this] show ?case by simp
qed

lemma turns_left_bound: "pc \<noteq> Enter \<Longrightarrow> turns_left pc \<le> 6"
  by (cases pc) simp_all

text \<open>A parked task with a match in the journal leaves with it in five turns of its own.\<close>

lemma parked_match_returns:
  assumes inv: "wake_inv spec (y, w)" and "iw_pc w = Park" "sys_unsent y = 0"
    and m: "inbox_collect (sys_state y) spec (iw_filter w) = m" "m \<noteq> []"
  shows "\<exists>b. iw_pc (snd (fold (inbox_step spec) (replicate 5 Run) (y, w))) = Done b \<and>
    eb_events b = m \<and> \<not> eb_timed_out b"
proof -
  have "iw_seen w \<noteq> sys_version y" using assms by (auto simp: wake_inv_def idle_pc_def)
  with assms(2) m show ?thesis by (simp add: numeral_eq_Suc)
qed

text \<open>The batch a task has returned.\<close>

fun returned :: "InboxPc \<Rightarrow> EventBatch option" where
  "returned (Done b) = Some b"
| "returned _ = None"

lemma returned_Some: "returned pc = Some b \<longleftrightarrow> pc = Done b"
  by (cases pc) simp_all

section \<open>The service\<close>

record NotificationService =
  svc_store :: NotificationStore
  svc_inbox :: InboxSys

definition NotificationService_new :: "nat \<Rightarrow> NotificationService" where
  "NotificationService_new now = \<lparr>svc_store = NotificationStore_new, svc_inbox = EventInbox_new 4096 now\<rparr>"

definition service_post ::
  "NotificationService \<Rightarrow> NewNotification \<Rightarrow> u64 \<Rightarrow> u64 \<Rightarrow> NotificationService \<times> (NotifyError + Notification)" where
  "service_post v new sq ts =
     (let (s, r) = store_post (svc_store v) new sq ts in (v\<lparr>svc_store := s\<rparr>, r))"

definition service_close ::
  "NotificationService \<Rightarrow> NotificationId \<Rightarrow> NotificationCloseReason \<Rightarrow> u64
    \<Rightarrow> NotificationService \<times> (NotifyError + CloseOutcome)" where
  "service_close v i reason sq =
     (let (s, r) = store_close (svc_store v) i reason sq in (v\<lparr>svc_store := s\<rparr>, r))"

definition service_invoke_action ::
  "(string \<Rightarrow> string) \<Rightarrow> NotificationService \<Rightarrow> NotificationId \<Rightarrow> string \<Rightarrow> NotifyError + unit" where
  "service_invoke_action debug v i key = store_invoke_action debug (svc_store v) i key"

definition service_list :: "NotificationService \<Rightarrow> bool \<Rightarrow> Notification list" where
  "service_list v include_dismissed = store_list (svc_store v) include_dismissed"

definition service_get :: "NotificationService \<Rightarrow> NotificationId \<Rightarrow> Notification option" where
  "service_get v i = store_get (svc_store v) i"

definition service_handle_event :: "RuntimeEvent \<Rightarrow> NotificationService \<Rightarrow> NotificationService" where
  "service_handle_event e v = v\<lparr>svc_inbox := handle_bump (handle_record e (svc_inbox v))\<rparr>"

lemma service_event_keeps_store: "svc_store (fold service_handle_event es v) = svc_store v"
  by (induction es arbitrary: v) (simp_all add: service_handle_event_def)

text \<open>The definitions a concrete schedule unfolds.\<close>

lemmas inbox_eval = inbox_run_def wait_start_def EventInbox_new_def EventWaitSpec_default_def handle_record_def
  handle_bump_def InboxState_new_def inbox_record_def inbox_collect_def spec_matches_def millis_def

section \<open>Properties\<close>

text \<open>C25. A returned batch is a snapshot: whatever the schedule, its events are the first \<open>max_events\<close>
  wanted ones (kind, window, and \<open>seq\<close> above the filter point) of the journal as it stood at one
  moment of the wait, in arrival order, and its \<open>seq\<close> is the watermark of that moment.\<close>

theorem batch_is_a_snapshot:
  assumes "inbox_ok (sys_state y)" "iw_pc (snd (inbox_run spec ops y)) = Done b"
  shows "\<exists>k \<le> length ops.
    eb_events b = batch_of spec (iw_filter (snd (inbox_run spec ops y))) (journal_at ops k y) \<and>
    eb_seq b = ib_watermark (fold inbox_record (fed (take k ops)) (sys_state y))"
  using batch_inv_run[OF assms(1), of spec ops] assms(2) by (simp add: batch_inv_def)

theorem batch_is_a_snapshot_witness:
  "let spec = EventWaitSpec_default;
       ops = [Run, Run, Run, Feed (AppLaunched 7 0 (LaunchId 1) ''a'' None), Bump, Run, Run, Run, Run];
       y = EventInbox_new 8 0
   in \<exists>b. iw_pc (snd (inbox_run spec ops y)) = Done b \<and> map event_seq (eb_events b) = [7] \<and>
      (\<exists>k \<le> length ops.
         eb_events b = batch_of spec (iw_filter (snd (inbox_run spec ops y))) (journal_at ops k y) \<and>
         eb_seq b = ib_watermark (fold inbox_record (fed (take k ops)) (sys_state y)))"
proof -
  let ?ops = "[Run, Run, Run, Feed (AppLaunched 7 0 (LaunchId 1) ''a'' None), Bump, Run, Run, Run, Run]"
  let ?y = "EventInbox_new 8 0"
  have ok: "inbox_ok (sys_state ?y)" by (simp add: EventInbox_new_def inbox_ok_new)
  have "case returned (iw_pc (snd (inbox_run EventWaitSpec_default ?ops ?y))) of
      None \<Rightarrow> False | Some b \<Rightarrow> map event_seq (eb_events b) = [7]"
    by (simp add: inbox_eval)
  then obtain b where b: "iw_pc (snd (inbox_run EventWaitSpec_default ?ops ?y)) = Done b"
    "map event_seq (eb_events b) = [7]"
    unfolding returned_Some[symmetric] by (rule case_SomeE)
  show ?thesis
    unfolding Let_def using b batch_is_a_snapshot[OF ok b(1)] by (intro exI[of _ b] conjI)
qed

text \<open>The verdict is honest: a batch is marked as timed out if and only if it is empty, and then at
  least the requested timeout has passed since the wait began.\<close>

theorem timed_out_batch_is_empty_and_late:
  assumes "iw_pc (snd (inbox_run spec ops y)) = Done b"
  shows "(eb_timed_out b \<longleftrightarrow> eb_events b = []) \<and> (eb_timed_out b \<longrightarrow> ew_timeout_ms spec \<le> eb_elapsed_ms b)"
  using time_inv_run[of spec ops y] assms by (simp add: time_inv_def Let_def)

theorem timed_out_batch_is_empty_and_late_witness:
  "\<exists>b. iw_pc (snd (inbox_run EventWaitSpec_default
      [Run, Run, Run, Elapse 5000000001, Run, Run, Run, Run] (EventInbox_new 8 0))) = Done b \<and>
    eb_timed_out b \<and> 5000 \<le> eb_elapsed_ms b"
proof -
  let ?ops = "[Run, Run, Run, Elapse 5000000001, Run, Run, Run, Run]"
  have "case returned (iw_pc (snd (inbox_run EventWaitSpec_default ?ops (EventInbox_new 8 0)))) of
      None \<Rightarrow> False | Some b \<Rightarrow> eb_timed_out b"
    by (simp add: inbox_eval)
  then obtain b where b: "iw_pc (snd (inbox_run EventWaitSpec_default ?ops (EventInbox_new 8 0))) = Done b" "eb_timed_out b"
    unfolding returned_Some[symmetric] by (rule case_SomeE)
  from timed_out_batch_is_empty_and_late[OF b(1)] b show ?thesis by (auto simp: EventWaitSpec_default_def)
qed

text \<open>C24. No wakeup is lost: in every schedule, once no call is between writing the journal and bumping
  the generation, a parked waiter with a wanted event in the journal returns exactly the wanted
  events within five turns of its own, without waiting for another event or for the deadline.\<close>

theorem no_lost_wakeup:
  assumes "inbox_run spec ops y = (z, w)" "iw_pc w = Park" "sys_unsent z = 0"
    and "inbox_collect (sys_state z) spec (iw_filter w) \<noteq> []"
  shows "\<exists>b. iw_pc (snd (inbox_run spec (ops @ replicate 5 Run) y)) = Done b \<and>
    eb_events b = inbox_collect (sys_state z) spec (iw_filter w) \<and> \<not> eb_timed_out b"
proof -
  have "wake_inv spec (z, w)" using wake_inv_run[of spec ops y] assms(1) by simp
  from parked_match_returns[OF this assms(2,3) refl assms(4)] show ?thesis
    using assms(1) by (simp add: inbox_run_def)
qed

theorem no_lost_wakeup_witness:
  "let ops = [Run, Run, Run, Run, Run, Run, Feed (AppLaunched 7 0 (LaunchId 1) ''a'' None), Bump]
   in \<exists>b. iw_pc (snd (inbox_run EventWaitSpec_default (ops @ replicate 5 Run) (EventInbox_new 8 0))) = Done b \<and>
     \<not> eb_timed_out b"
proof -
  let ?ops = "[Run, Run, Run, Run, Run, Run, Feed (AppLaunched 7 0 (LaunchId 1) ''a'' None), Bump]"
  have "case inbox_run EventWaitSpec_default ?ops (EventInbox_new 8 0) of
      (z, w) \<Rightarrow> iw_pc w = Park \<and> sys_unsent z = 0 \<and>
        inbox_collect (sys_state z) EventWaitSpec_default (iw_filter w) \<noteq> []"
    by (simp add: inbox_eval)
  then obtain z w where zw: "inbox_run EventWaitSpec_default ?ops (EventInbox_new 8 0) = (z, w)"
    "iw_pc w = Park" "sys_unsent z = 0" "inbox_collect (sys_state z) EventWaitSpec_default (iw_filter w) \<noteq> []"
    by (auto split: prod.splits)
  from no_lost_wakeup[OF zw] show ?thesis unfolding Let_def by blast
qed

text \<open>The wait ends: once its deadline has passed, six turns of the waiting task are enough for it to
  return, however they interleave with new events and the passing of time.\<close>

theorem overdue_wait_returns:
  assumes "iw_pc (snd s) \<noteq> Enter" "iw_deadline (snd s) \<le> sys_now (fst s)" "6 \<le> count_list ops Run"
  shows "\<exists>b. iw_pc (snd (fold (inbox_step spec) ops s)) = Done b"
  using overdue_returns[of s ops spec] turns_left_bound[OF assms(1)] assms by (simp add: overdue_def)

theorem overdue_wait_returns_witness:
  "\<exists>b. iw_pc (snd (fold (inbox_step EventWaitSpec_default)
      [Run, Run, Feed (AppLaunched 7 0 (LaunchId 1) ''a'' None), Run, Run, Bump, Run, Run]
      (inbox_run EventWaitSpec_default [Run, Elapse 6000000000] (EventInbox_new 8 0)))) = Done b"
  by (rule overdue_wait_returns) (simp_all add: inbox_eval)

end
