(* ===== verification/Observer_Journal.thy ===== *)
theory Observer_Journal
  imports Core_Types Interfaces
begin

text \<open>
  The memory of the observation engine (\<open>crates/adesk-observer/src\<close>): the clock that bridges
  event timestamps and instants (\<open>clock.rs\<close>), the action registry (\<open>actions.rs\<close>) and the
  bounded journal of counted events (\<open>journal.rs\<close>).
\<close>

section \<open>The clock\<close>

record Clock =
  anchor_ts_ms :: u64
  anchor_instant :: instant

definition Clock_new :: "instant \<Rightarrow> Clock" where
  "Clock_new now = \<lparr>anchor_ts_ms = 0, anchor_instant = now\<rparr>"

definition now_ms :: "Clock \<Rightarrow> instant \<Rightarrow> u64" where
  "now_ms c now = saturating_add (anchor_ts_ms c) (elapsed_ms (anchor_instant c) now)"

definition observe_ts :: "u64 \<Rightarrow> Clock \<Rightarrow> instant \<Rightarrow> Clock" where
  "observe_ts ts c now =
     (if now_ms c now < ts then \<lparr>anchor_ts_ms = ts, anchor_instant = now\<rparr> else c)"

definition clock_deadline :: "Clock \<Rightarrow> u64 \<Rightarrow> instant \<Rightarrow> instant" where
  "clock_deadline c ts now = anchor_instant c + millis (saturating_sub ts (now_ms c now))"

lemma now_ms_mono: "now \<le> now' \<Longrightarrow> now_ms c now \<le> now_ms c now'"
  using elapsed_mono[of now now' "anchor_instant c"]
  by (simp add: now_ms_def saturating_add_mono)

lemma observe_ts_now:
  "now_ms (observe_ts ts c now) now = max (now_ms c now) ts"
proof (cases "now_ms c now < ts")
  case True
  then show ?thesis by (simp add: observe_ts_def) (simp add: now_ms_def)
next
  case False
  then show ?thesis by (simp add: observe_ts_def max_def)
qed

lemma clock_never_back:
  assumes "now \<le> now'"
  shows "now_ms c now \<le> now_ms (observe_ts ts c now) now'"
proof -
  have "now_ms c now \<le> now_ms (observe_ts ts c now) now" by (simp add: observe_ts_now)
  also have "\<dots> \<le> now_ms (observe_ts ts c now) now'" using assms by (rule now_ms_mono)
  finally show ?thesis .
qed

text \<open>
  The instant at which the clock reads \<open>ts\<close> is the anchor instant plus \<open>ts - anchor_ts_ms\<close>. A
  deadline computed when time has passed since the anchor is early by that time.
\<close>

lemma deadline_early:
  assumes "now_ms c now \<le> ts" "unat (anchor_ts_ms c) + unat (elapsed_ms (anchor_instant c) now) < 2 ^ 64"
  shows "clock_deadline c ts now + millis (elapsed_ms (anchor_instant c) now) =
    anchor_instant c + millis (saturating_sub ts (anchor_ts_ms c))"
proof -
  have "unat (now_ms c now) = unat (anchor_ts_ms c) + unat (elapsed_ms (anchor_instant c) now)"
    using assms(2) by (simp add: now_ms_def int_read)
  with assms(1) show ?thesis
    by (simp add: clock_deadline_def millis_def int_read word_le_nat_alt flip: add_mult_distrib)
qed

section \<open>The action registry\<close>

datatype ActionKind =
    PointerMove | Click | DoubleClick | MouseDown | MouseUp | Scroll | Drag | Keypress
  | KeyDown | KeyUp | TypeText | ActivateWindow | CloseWindow | InvokeAccessibleAction

definition ActionKind_ALL :: "ActionKind list" where
  "ActionKind_ALL = [PointerMove, Click, DoubleClick, MouseDown, MouseUp, Scroll, Drag, Keypress,
     KeyDown, KeyUp, TypeText, ActivateWindow, CloseWindow, InvokeAccessibleAction]"

definition is_input :: "ActionKind \<Rightarrow> bool" where
  "is_input k \<longleftrightarrow> \<not> (k = ActivateWindow \<or> k = CloseWindow \<or> k = InvokeAccessibleAction)"

fun ActionKind_as_str :: "ActionKind \<Rightarrow> string" where
  "ActionKind_as_str PointerMove = ''pointer_move''"
| "ActionKind_as_str Click = ''click''"
| "ActionKind_as_str DoubleClick = ''double_click''"
| "ActionKind_as_str MouseDown = ''mouse_down''"
| "ActionKind_as_str MouseUp = ''mouse_up''"
| "ActionKind_as_str Scroll = ''scroll''"
| "ActionKind_as_str Drag = ''drag''"
| "ActionKind_as_str Keypress = ''keypress''"
| "ActionKind_as_str KeyDown = ''key_down''"
| "ActionKind_as_str KeyUp = ''key_up''"
| "ActionKind_as_str TypeText = ''type_text''"
| "ActionKind_as_str ActivateWindow = ''activate_window''"
| "ActionKind_as_str CloseWindow = ''close_window''"
| "ActionKind_as_str InvokeAccessibleAction = ''invoke_accessible_action''"

record ActionRecord =
  ar_id :: ActionId
  ar_kind :: ActionKind
  ar_window_id :: "WindowId option"
  ar_position :: "Position option"
  ar_seq :: u64
  ar_ts_ms :: u64

record ActionRegistry =
  last_id :: u64
  action_records :: "(u64, ActionRecord) btree"

definition ActionRegistry_new :: ActionRegistry where
  "ActionRegistry_new = \<lparr>last_id = 0, action_records = []\<rparr>"

definition registry_record ::
  "ActionRegistry \<Rightarrow> ActionKind \<Rightarrow> WindowId option \<Rightarrow> Position option \<Rightarrow> u64 \<Rightarrow> u64
    \<Rightarrow> ActionRegistry \<times> ActionId" where
  "registry_record r kind w pos sq ts =
     (let raw_id = last_id r + 1; i = ActionId raw_id
      in (\<lparr>last_id = raw_id,
           action_records = bt_insert raw_id
             \<lparr>ar_id = i, ar_kind = kind, ar_window_id = w, ar_position = pos, ar_seq = sq, ar_ts_ms = ts\<rparr>
             (action_records r)\<rparr>, i))"

definition registry_get :: "ActionRegistry \<Rightarrow> ActionId \<Rightarrow> ActionRecord option" where
  "registry_get r i = bt_get (action_records r) (action_raw i)"

definition registry_seq_of :: "ActionRegistry \<Rightarrow> ActionId \<Rightarrow> u64 option" where
  "registry_seq_of r i = map_option ar_seq (bt_get (action_records r) (action_raw i))"

definition registry_contains :: "ActionRegistry \<Rightarrow> ActionId \<Rightarrow> bool" where
  "registry_contains r i = bt_contains (action_records r) (action_raw i)"

definition registry_len :: "ActionRegistry \<Rightarrow> nat" where
  "registry_len r = length (action_records r)"

definition registry_is_empty :: "ActionRegistry \<Rightarrow> bool" where
  "registry_is_empty r \<longleftrightarrow> registry_len r = 0"

definition registry_last :: "ActionRegistry \<Rightarrow> ActionRecord option" where
  "registry_last r = (if action_records r = [] then None else Some (snd (last (action_records r))))"

definition registry_records :: "ActionRegistry \<Rightarrow> ActionRecord list" where
  "registry_records r = bt_values (action_records r)"

section \<open>Counted events\<close>

datatype CountedKind =
    Created
  | Destroyed
  | Activated "WindowId option"
  | TitleChange "string option"
  | Commit u64 Region
  | Focus "WindowId option"
  | PopupAppear u64
  | PopupDisappear u64

record CountedEvent =
  ce_seq :: u64
  ce_ts_ms :: u64
  ce_window_id :: "WindowId option"
  ce_kind :: CountedKind

fun from_runtime_event :: "RuntimeEvent \<Rightarrow> CountedEvent option" where
  "from_runtime_event (WindowCreated sq ts w _ _ _ _) =
     Some \<lparr>ce_seq = sq, ce_ts_ms = ts, ce_window_id = Some w, ce_kind = Created\<rparr>"
| "from_runtime_event (WindowDestroyed sq ts w) =
     Some \<lparr>ce_seq = sq, ce_ts_ms = ts, ce_window_id = Some w, ce_kind = Destroyed\<rparr>"
| "from_runtime_event (WindowActivated sq ts w previous) =
     Some \<lparr>ce_seq = sq, ce_ts_ms = ts, ce_window_id = Some w, ce_kind = Activated previous\<rparr>"
| "from_runtime_event (TitleChanged sq ts w title) =
     Some \<lparr>ce_seq = sq, ce_ts_ms = ts, ce_window_id = Some w, ce_kind = TitleChange title\<rparr>"
| "from_runtime_event (SurfaceCommit sq ts w commit_seq damage) =
     Some \<lparr>ce_seq = sq, ce_ts_ms = ts, ce_window_id = Some w, ce_kind = Commit commit_seq damage\<rparr>"
| "from_runtime_event (FocusChanged sq ts w) =
     Some \<lparr>ce_seq = sq, ce_ts_ms = ts, ce_window_id = w, ce_kind = Focus w\<rparr>"
| "from_runtime_event (PopupAppeared sq ts w popup) =
     Some \<lparr>ce_seq = sq, ce_ts_ms = ts, ce_window_id = Some w, ce_kind = PopupAppear popup\<rparr>"
| "from_runtime_event (PopupDisappeared sq ts w popup) =
     Some \<lparr>ce_seq = sq, ce_ts_ms = ts, ce_window_id = Some w, ce_kind = PopupDisappear popup\<rparr>"
| "from_runtime_event (AppLaunched _ _ _ _ _) = None"
| "from_runtime_event (NotificationPosted _ _ _) = None"
| "from_runtime_event (NotificationClosed _ _ _ _) = None"
| "from_runtime_event (NotificationInvoked _ _ _ _) = None"

lemma from_runtime_event_fields:
  "from_runtime_event e = Some c \<Longrightarrow>
   ce_seq c = event_seq e \<and> ce_ts_ms c = event_ts_ms e \<and> ce_window_id c = event_window_id e"
  by (cases e) auto

section \<open>The journal\<close>

record EventJournal =
  ej_buf :: "CountedEvent list"
  ej_capacity :: nat
  ej_dropped :: u64
  ej_max_seq :: u64

definition EventJournal_new :: "nat \<Rightarrow> EventJournal" where
  "EventJournal_new capacity =
     \<lparr>ej_buf = [], ej_capacity = max capacity 1, ej_dropped = 0, ej_max_seq = 0\<rparr>"

definition journal_push :: "CountedEvent \<Rightarrow> EventJournal \<Rightarrow> EventJournal" where
  "journal_push e j =
     (let buf = ej_buf j @ [e]; j1 = j\<lparr>ej_max_seq := max (ej_max_seq j) (ce_seq e)\<rparr>
      in if ej_capacity j < length buf
         then j1\<lparr>ej_buf := tl buf, ej_dropped := ej_dropped j + 1\<rparr>
         else j1\<lparr>ej_buf := buf\<rparr>)"

text \<open>The \<open>while\<close> over the front of the buffer: the shortest suffix that starts above the mark.\<close>

definition prune_through :: "u64 \<Rightarrow> EventJournal \<Rightarrow> EventJournal \<times> nat" where
  "prune_through watermark j =
     (let buf = dropWhile (\<lambda>e. ce_seq e \<le> watermark) (ej_buf j)
      in (j\<lparr>ej_buf := buf\<rparr>, length (ej_buf j) - length buf))"

definition journal_since :: "u64 \<Rightarrow> EventJournal \<Rightarrow> CountedEvent list" where
  "journal_since min_seq j =
     (if ej_max_seq j \<le> min_seq then [] else filter (\<lambda>e. min_seq < ce_seq e) (ej_buf j))"

definition journal_len :: "EventJournal \<Rightarrow> nat" where
  "journal_len j = length (ej_buf j)"

definition journal_ok :: "EventJournal \<Rightarrow> bool" where
  "journal_ok j \<longleftrightarrow> 0 < ej_capacity j \<and> length (ej_buf j) \<le> ej_capacity j \<and>
     (\<forall>e \<in> set (ej_buf j). ce_seq e \<le> ej_max_seq j)"

interpretation journal: bounded_journal journal_push ej_buf ej_capacity ej_max_seq ce_seq
proof (unfold_locales, goal_cases)
  case (3 s e)
  show ?case
  proof (cases "length (ej_buf s) = ej_capacity s")
    case True
    with 3(2) show ?thesis
      by (cases "ej_buf s") (auto simp: journal_push_def Let_def last_n_def drop_Suc)
  next
    case False
    with 3(1) show ?thesis by (simp add: journal_push_def Let_def)
  qed
qed (simp_all add: journal_push_def Let_def)

lemma journal_ok_new: "journal_ok (EventJournal_new n)"
  by (simp add: journal_ok_def EventJournal_new_def)

lemma journal_ok_fold: "journal_ok j \<Longrightarrow> journal_ok (fold journal_push es j)"
  unfolding journal_ok_def
  using journal.cap_fold journal.length_fold journal.retained_below_top by simp

lemma journal_ok_push: "journal_ok j \<Longrightarrow> journal_ok (journal_push e j)"
  using journal_ok_fold[of j "[e]"] by simp

lemma journal_ok_prune: "journal_ok j \<Longrightarrow> journal_ok (fst (prune_through w j))"
  using length_dropWhile_le[of "\<lambda>e. ce_seq e \<le> w" "ej_buf j"]
  by (auto simp: journal_ok_def prune_through_def Let_def dest: set_dropWhileD intro: le_trans)

lemma journal_since_eq:
  "journal_ok j \<Longrightarrow> journal_since p j = filter (\<lambda>e. p < ce_seq e) (ej_buf j)"
  using journal.no_event_above_top[of j p] by (auto simp: journal_since_def journal_ok_def)

lemma journal_push_dropped:
  "journal_ok j \<Longrightarrow> ej_dropped (journal_push e j) = ej_dropped j + 1 \<and> length (ej_buf (journal_push e j)) = length (ej_buf j) \<or>
     ej_dropped (journal_push e j) = ej_dropped j \<and> length (ej_buf (journal_push e j)) = Suc (length (ej_buf j))"
  by (auto simp: journal_push_def Let_def)

text \<open>Nothing is lost silently: what the journal was given is retained or counted as dropped.\<close>

lemma journal_conservation:
  "unat (ej_dropped j) + length es < 2 ^ 64 \<Longrightarrow>
   unat (ej_dropped (fold journal_push es j)) + length (ej_buf (fold journal_push es j)) =
   unat (ej_dropped j) + length (ej_buf j) + length es"
proof (induction es arbitrary: j)
  case (Cons e es)
  have step: "unat (ej_dropped (journal_push e j)) + length (ej_buf (journal_push e j)) =
      Suc (unat (ej_dropped j) + length (ej_buf j))"
    "unat (ej_dropped (journal_push e j)) \<le> Suc (unat (ej_dropped j))"
    using Cons.prems by (auto simp: journal_push_def Let_def unat_Suc_word)
  then have "unat (ej_dropped (journal_push e j)) + length es < 2 ^ 64" using Cons.prems by simp
  from Cons.IH[OF this] step show ?case by simp
qed simp

text \<open>Pruning a journal that is sorted by \<open>seq\<close> leaves exactly the younger events.\<close>

lemma prune_sorted:
  assumes "sorted (map ce_seq (ej_buf j))"
  shows "ej_buf (fst (prune_through w j)) = filter (\<lambda>e. w < ce_seq e) (ej_buf j)"
proof -
  have "sorted (map ce_seq xs) \<Longrightarrow> dropWhile (\<lambda>e. ce_seq e \<le> w) xs = filter (\<lambda>e. w < ce_seq e) xs" for xs
  proof (induction xs)
    case (Cons x xs)
    show ?case
    proof (cases "ce_seq x \<le> w")
      case False
      with Cons.prems have "\<forall>y \<in> set xs. w < ce_seq y" by fastforce
      with False show ?thesis by (simp add: filter_id_conv)
    qed (use Cons in simp)
  qed simp
  with assms show ?thesis by (simp add: prune_through_def Let_def)
qed

text \<open>An unsorted journal is pruned only up to its first younger event.\<close>

lemma prune_stops_at_younger:
  fixes a b :: u64
  assumes "w < a" "b \<le> w" "ej_buf j = [e1, e2]" "ce_seq e1 = a" "ce_seq e2 = b"
  shows "fst (prune_through w j) = j \<and> (\<exists>e \<in> set (ej_buf j). ce_seq e \<le> w)"
  using assms by (auto simp: prune_through_def Let_def)

section \<open>Action identifiers\<close>

definition record_step ::
  "(ActionKind \<times> WindowId option \<times> Position option \<times> u64 \<times> u64) \<Rightarrow> ActionRegistry
    \<Rightarrow> ActionRegistry \<times> u64 option" where
  "record_step q r =
     (case q of (kind, w, pos, sq, ts) \<Rightarrow>
        let (r', i) = registry_record r kind w pos sq ts in (r', Some (action_raw i)))"

interpretation action_ids: id_source record_step "\<lambda>r. Suc (unat (last_id r))"
  by unfold_locales (auto simp: record_step_def registry_record_def Let_def unat_Suc_word split: prod.splits)

definition registry_ok :: "ActionRegistry \<Rightarrow> bool" where
  "registry_ok r \<longleftrightarrow> bt_ok (action_records r) \<and>
     (\<forall>k v. bt_get (action_records r) k = Some v \<longrightarrow> k \<le> last_id r \<and> ar_id v = ActionId k)"

lemma registry_get_record:
  assumes "registry_ok r" "unat (last_id r) < 2 ^ 64 - 1"
  shows "registry_ok (fst (registry_record r kind w pos sq ts))"
    "registry_get (fst (registry_record r kind w pos sq ts)) i =
       (if i = snd (registry_record r kind w pos sq ts)
        then Some \<lparr>ar_id = i, ar_kind = kind, ar_window_id = w, ar_position = pos, ar_seq = sq, ar_ts_ms = ts\<rparr>
        else registry_get r i)"
    "registry_get r (snd (registry_record r kind w pos sq ts)) = None"
proof -
  have less: "last_id r < last_id r + 1" using assms(2) by (simp add: word_less_nat_alt unat_Suc_word)
  with assms(1) show "registry_ok (fst (registry_record r kind w pos sq ts))"
    by (fastforce simp: registry_ok_def registry_record_def Let_def)
  show "registry_get (fst (registry_record r kind w pos sq ts)) i =
       (if i = snd (registry_record r kind w pos sq ts)
        then Some \<lparr>ar_id = i, ar_kind = kind, ar_window_id = w, ar_position = pos, ar_seq = sq, ar_ts_ms = ts\<rparr>
        else registry_get r i)"
    by (cases i) (auto simp: registry_get_def registry_record_def Let_def)
  have "\<not> last_id r + 1 \<le> last_id r" using less by simp
  with assms(1) show "registry_get r (snd (registry_record r kind w pos sq ts)) = None"
    by (auto simp: registry_get_def registry_record_def Let_def registry_ok_def)
       (metis not_None_eq)
qed

section \<open>Properties\<close>

text \<open>The clock of the observation engine never goes back: neither the passing of time nor an event or
  snapshot with any timestamp, old or new, makes a later reading smaller than an earlier one, and
  observing a timestamp makes the clock read at least that.\<close>

theorem clock_is_monotone:
  assumes "now \<le> now'"
  shows "now_ms c now \<le> now_ms (observe_ts ts c now) now' \<and> ts \<le> now_ms (observe_ts ts c now) now'"
proof -
  have "ts \<le> now_ms (observe_ts ts c now) now" by (simp add: observe_ts_now)
  also have "\<dots> \<le> now_ms (observe_ts ts c now) now'" using assms by (rule now_ms_mono)
  finally show ?thesis using clock_never_back[OF assms] by simp
qed

theorem clock_is_monotone_witness:
  "now_ms \<lparr>anchor_ts_ms = 40, anchor_instant = 0\<rparr> 7000000 \<le>
     now_ms (observe_ts 12 \<lparr>anchor_ts_ms = 40, anchor_instant = 0\<rparr> 7000000) 9000000"
  using clock_is_monotone[of 7000000 9000000 "\<lparr>anchor_ts_ms = 40, anchor_instant = 0\<rparr>" 12] by simp

text \<open>A deadline is early by the time that has passed since the anchor: the instant at which the wait
  loop asks to be woken lies exactly that many milliseconds before the one at which the clock
  reads the requested time.\<close>

theorem deadline_is_early_by_the_elapsed_time:
  assumes "now_ms c now \<le> ts"
    and "unat (anchor_ts_ms c) + unat (elapsed_ms (anchor_instant c) now) < 2 ^ 64"
  shows "clock_deadline c ts now + millis (elapsed_ms (anchor_instant c) now) =
    anchor_instant c + millis (saturating_sub ts (anchor_ts_ms c))"
  using assms by (rule deadline_early)

theorem deadline_is_early_by_the_elapsed_time_witness:
  "clock_deadline \<lparr>anchor_ts_ms = 0, anchor_instant = 0\<rparr> 150 100000000 = 50000000 \<and>
   now_ms \<lparr>anchor_ts_ms = 0, anchor_instant = 0\<rparr> 100000000 < 150"
proof -
  let ?c = "\<lparr>anchor_ts_ms = 0, anchor_instant = 0\<rparr>"
  have now: "now_ms ?c 100000000 = 100" by (simp add: now_ms_def elapsed_ms_def saturating_add_def)
  have "clock_deadline ?c 150 100000000 + millis (elapsed_ms 0 100000000) = millis (saturating_sub 150 0)"
    using deadline_is_early_by_the_elapsed_time[of ?c 100000000 150] now
    by (simp add: elapsed_ms_def)
  with now show ?thesis by (simp add: millis_def elapsed_ms_def saturating_sub_def)
qed

text \<open>The journal loses nothing silently: after any pushes the retained and the dropped events add up
  to the ones it was given, it holds the most recent ones up to its capacity, and a scan from any
  point returns exactly the retained events above it.\<close>

theorem journal_accounts_for_every_event:
  assumes "journal_ok j" "unat (ej_dropped j) + length es < 2 ^ 64"
  shows "unat (ej_dropped (fold journal_push es j)) + length (ej_buf (fold journal_push es j)) =
      unat (ej_dropped j) + length (ej_buf j) + length es \<and>
    ej_buf (fold journal_push es j) = last_n (ej_capacity j) (ej_buf j @ es) \<and>
    journal_since p (fold journal_push es j) = filter (\<lambda>e. p < ce_seq e) (last_n (ej_capacity j) (ej_buf j @ es))"
  using journal_conservation[OF assms(2)] journal_since_eq[OF journal_ok_fold[OF assms(1)], of p es]
    journal.contents_fold[of j es] assms(1)
  by (simp add: journal_ok_def)

theorem journal_accounts_for_every_event_witness:
  "let e = (\<lambda>i. \<lparr>ce_seq = i, ce_ts_ms = 0, ce_window_id = None, ce_kind = Created\<rparr>)
   in journal_since 2 (fold journal_push [e 1, e 2, e 3, e 4] (EventJournal_new 3)) = [e 3, e 4]"
  unfolding Let_def
  by (subst journal_accounts_for_every_event[THEN conjunct2, THEN conjunct2])
    (simp_all add: journal_ok_new, simp_all add: EventJournal_new_def last_n_def)

end
