(* ===== verification/Observer_State.thy ===== *)
theory Observer_State
  imports Observer_Journal
begin

text \<open>
  The shared state of the observation engine (\<open>state.rs\<close> and the event pump, resync, waiter
  registration, action and query parts of \<open>service.rs\<close> in \<open>crates/adesk-observer/src\<close>). A
  section under the state mutex is one function of the state; \<open>handle_event\<close>, \<open>resync\<close> and
  \<open>record_action\<close> compose them in the order of the code.
\<close>

section \<open>Data\<close>

record PendingObservation =
  po_since_seq :: u64
  po_started_at :: u64

record WindowTemporalState =
  ts_window_id :: WindowId
  ts_last_commit_seq :: u64
  ts_last_commit_at :: u64
  ts_last_damage :: Region
  ts_last_meaningful_change_at :: u64
  ts_last_input_at :: "u64 option"
  ts_quiet_since :: "u64 option"
  ts_commit_count :: u64
  ts_pending_observation :: "PendingObservation option"
  ts_geometry :: "Rect option"
  ts_state_uncertain :: bool

definition window_created :: "WindowId \<Rightarrow> u64 \<Rightarrow> WindowTemporalState" where
  "window_created w ts =
     \<lparr>ts_window_id = w, ts_last_commit_seq = 0, ts_last_commit_at = 0, ts_last_damage = region_empty,
      ts_last_meaningful_change_at = ts, ts_last_input_at = None, ts_quiet_since = None,
      ts_commit_count = 0, ts_pending_observation = None, ts_geometry = None,
      ts_state_uncertain = False\<rparr>"

record WindowSnapshot =
  ws_window_id :: WindowId
  ws_last_commit_seq :: u64
  ws_geometry :: Rect
  ws_popup_count :: u32

record StateSnapshot =
  ss_seq :: u64
  ss_ts_ms :: u64
  ss_windows :: "WindowSnapshot list"

record ResyncReport =
  rr_snapshot_seq :: u64
  rr_windows_added :: "WindowId list"
  rr_windows_removed :: "WindowId list"
  rr_marked_uncertain :: "WindowId list"
  rr_events_dropped :: nat

record ObserverSnapshot =
  os_seq :: u64
  os_ts_ms :: u64
  os_windows :: "WindowTemporalState list"
  os_actions_len :: nat
  os_journal_len :: nat
  os_events_dropped :: u64

type_synonym waiters = "(u64 \<times> u64, u32) btree"

record ServiceState =
  windows :: "(WindowId, WindowTemporalState) btree"
  journal :: EventJournal
  watermark :: u64
  pending :: "(WindowId, waiters) btree"

definition global_last_commit_seq :: "ServiceState \<Rightarrow> u64" where
  "global_last_commit_seq s = foldr max (map ts_last_commit_seq (bt_values (windows s))) 0"

definition on_demand :: "ServiceState \<Rightarrow> WindowId \<Rightarrow> u64 \<Rightarrow> WindowTemporalState" where
  "on_demand s w ts = (case bt_get (windows s) w of Some st \<Rightarrow> st | None \<Rightarrow> window_created w ts)"

text \<open>\<open>window_on_demand\<close> and the write through the reference it returns.\<close>

definition window_on_demand ::
  "WindowId \<Rightarrow> u64 \<Rightarrow> (WindowTemporalState \<Rightarrow> WindowTemporalState) \<Rightarrow> ServiceState \<Rightarrow> ServiceState" where
  "window_on_demand w ts f s = s\<lparr>windows := bt_insert w (f (on_demand s w ts)) (windows s)\<rparr>"

definition earliest :: "ServiceState \<Rightarrow> WindowId \<Rightarrow> PendingObservation option" where
  "earliest s w =
     (case bt_get (pending s) w of
        Some ((key, n) # _) \<Rightarrow> Some \<lparr>po_since_seq = fst key, po_started_at = snd key\<rparr>
      | _ \<Rightarrow> None)"

definition refresh_pending_observation :: "WindowId \<Rightarrow> ServiceState \<Rightarrow> ServiceState" where
  "refresh_pending_observation w s =
     s\<lparr>windows := bt_modify w (\<lambda>st. st\<lparr>ts_pending_observation := earliest s w\<rparr>) (windows s)\<rparr>"

section \<open>Waiter registration\<close>

definition guard_register :: "WindowId option \<Rightarrow> u64 \<times> u64 \<Rightarrow> ServiceState \<Rightarrow> ServiceState" where
  "guard_register w key s =
     (case w of
        None \<Rightarrow> s
      | Some i \<Rightarrow>
          let waiters = (case bt_get (pending s) i of Some m \<Rightarrow> m | None \<Rightarrow> []);
              count = (case bt_get waiters key of Some n \<Rightarrow> n | None \<Rightarrow> 0)
          in refresh_pending_observation i
               (s\<lparr>pending := bt_insert i (bt_insert key (count + 1) waiters) (pending s)\<rparr>))"

definition guard_drop :: "WindowId option \<Rightarrow> u64 \<times> u64 \<Rightarrow> ServiceState \<Rightarrow> ServiceState" where
  "guard_drop w key s =
     (case w of
        None \<Rightarrow> s
      | Some i \<Rightarrow>
          refresh_pending_observation i
            (case bt_get (pending s) i of
               None \<Rightarrow> s
             | Some waiters \<Rightarrow>
                 let waiters' =
                       (case bt_get waiters key of
                          None \<Rightarrow> waiters
                        | Some n \<Rightarrow>
                            let n' = saturating_sub n 1
                            in if n' = 0 then bt_remove key waiters else bt_insert key n' waiters)
                 in if waiters' = [] then s\<lparr>pending := bt_remove i (pending s)\<rparr>
                    else s\<lparr>pending := bt_insert i waiters' (pending s)\<rparr>))"

section \<open>The event pump\<close>

definition touch :: "u64 \<Rightarrow> WindowTemporalState \<Rightarrow> WindowTemporalState" where
  "touch ts st = st\<lparr>ts_last_meaningful_change_at := ts, ts_state_uncertain := False\<rparr>"

definition commit_update :: "u64 \<Rightarrow> u64 \<Rightarrow> Region \<Rightarrow> WindowTemporalState \<Rightarrow> WindowTemporalState" where
  "commit_update ts commit_seq damage st =
     st\<lparr>ts_last_commit_seq := max (ts_last_commit_seq st) commit_seq,
        ts_last_commit_at := ts,
        ts_last_damage := damage,
        ts_quiet_since := Some ts,
        ts_commit_count := saturating_add (ts_commit_count st) 1,
        ts_last_meaningful_change_at := ts,
        ts_state_uncertain := False\<rparr>"

fun event_windows :: "RuntimeEvent \<Rightarrow> ServiceState \<Rightarrow> ServiceState" where
  "event_windows (WindowCreated _ ts w _ _ _ _) s =
     (case bt_get (windows s) w of
        Some st \<Rightarrow> s\<lparr>windows := bt_insert w (st\<lparr>ts_state_uncertain := False\<rparr>) (windows s)\<rparr>
      | None \<Rightarrow> s\<lparr>windows := bt_insert w (window_created w ts) (windows s)\<rparr>)"
| "event_windows (WindowDestroyed _ _ w) s = s\<lparr>windows := bt_remove w (windows s)\<rparr>"
| "event_windows (SurfaceCommit _ ts w commit_seq damage) s =
     window_on_demand w ts (commit_update ts commit_seq damage) s"
| "event_windows (WindowActivated _ ts w _) s = window_on_demand w ts (touch ts) s"
| "event_windows (TitleChanged _ ts w _) s = window_on_demand w ts (touch ts) s"
| "event_windows (PopupAppeared _ ts w _) s = window_on_demand w ts (touch ts) s"
| "event_windows (PopupDisappeared _ ts w _) s = window_on_demand w ts (touch ts) s"
| "event_windows (FocusChanged _ ts w) s =
     (case w of None \<Rightarrow> s | Some i \<Rightarrow> window_on_demand i ts (touch ts) s)"
| "event_windows (AppLaunched _ _ _ _ _) s = s"
| "event_windows (NotificationPosted _ _ _) s = s"
| "event_windows (NotificationClosed _ _ _ _) s = s"
| "event_windows (NotificationInvoked _ _ _ _) s = s"

definition state_handle_event :: "RuntimeEvent \<Rightarrow> ServiceState \<Rightarrow> ServiceState" where
  "state_handle_event e s =
     (let s1 = s\<lparr>watermark := max (watermark s) (event_seq e)\<rparr>;
          s2 = event_windows e s1;
          s3 = (case event_window_id e of
                  Some w \<Rightarrow> if bt_contains (pending s2) w then refresh_pending_observation w s2 else s2
                | None \<Rightarrow> s2)
      in case from_runtime_event e of
           Some counted \<Rightarrow> s3\<lparr>journal := journal_push counted (journal s3)\<rparr>
         | None \<Rightarrow> s3)"

section \<open>Resync\<close>

text \<open>One turn of the loop over the snapshot's windows: the states and the synthetic events.\<close>

definition resync_window ::
  "StateSnapshot \<Rightarrow> WindowSnapshot \<Rightarrow> (WindowId, WindowTemporalState) btree
    \<Rightarrow> (WindowId, WindowTemporalState) btree \<times> CountedEvent list \<times> bool" where
  "resync_window snap ws wins =
     (let w = ws_window_id ws in
      case bt_get wins w of
        None \<Rightarrow>
          let fresh = (window_created w (ss_ts_ms snap))\<lparr>ts_last_commit_seq := ws_last_commit_seq ws\<rparr>;
              fresh1 = (if 0 < ws_last_commit_seq ws
                        then fresh\<lparr>ts_last_commit_at := ss_ts_ms snap, ts_quiet_since := Some (ss_ts_ms snap)\<rparr>
                        else fresh);
              fresh2 = fresh1\<lparr>ts_geometry := Some (ws_geometry ws), ts_state_uncertain := True\<rparr>
          in (bt_insert w fresh2 wins,
              [\<lparr>ce_seq = ss_seq snap, ce_ts_ms = ss_ts_ms snap, ce_window_id = Some w, ce_kind = Created\<rparr>],
              True)
      | Some existing \<Rightarrow>
          let missed = ts_last_commit_seq existing < ws_last_commit_seq ws;
              existing1 = (if missed
                 then existing\<lparr>ts_last_commit_seq := ws_last_commit_seq ws,
                               ts_last_commit_at := ss_ts_ms snap,
                               ts_quiet_since := Some (ss_ts_ms snap),
                               ts_last_meaningful_change_at := ss_ts_ms snap,
                               ts_commit_count := saturating_add (ts_commit_count existing) 1\<rparr>
                 else existing);
              existing2 = existing1\<lparr>ts_geometry := Some (ws_geometry ws), ts_state_uncertain := True\<rparr>
          in (bt_insert w existing2 wins,
              (if missed
               then [\<lparr>ce_seq = ss_seq snap, ce_ts_ms = ss_ts_ms snap, ce_window_id = Some w,
                      ce_kind = Commit (ws_last_commit_seq ws) region_empty\<rparr>]
               else []),
              False))"

primrec resync_windows ::
  "StateSnapshot \<Rightarrow> WindowSnapshot list \<Rightarrow> (WindowId, WindowTemporalState) btree
    \<Rightarrow> (WindowId, WindowTemporalState) btree \<times> CountedEvent list \<times> WindowId list" where
  "resync_windows snap [] wins = (wins, [], [])"
| "resync_windows snap (ws # rest) wins =
     (let (wins1, evs1, added) = resync_window snap ws wins;
          (wins2, evs2, adds) = resync_windows snap rest wins1
      in (wins2, evs1 @ evs2, (if added then ws_window_id ws # adds else adds)))"

definition destroyed_event :: "StateSnapshot \<Rightarrow> WindowId \<Rightarrow> CountedEvent" where
  "destroyed_event snap w =
     \<lparr>ce_seq = ss_seq snap, ce_ts_ms = ss_ts_ms snap, ce_window_id = Some w, ce_kind = Destroyed\<rparr>"

text \<open>The section under the mutex; the boolean says that the snapshot was used (and waiters woken).\<close>

definition state_resync :: "StateSnapshot \<Rightarrow> ServiceState \<Rightarrow> ServiceState \<times> ResyncReport \<times> bool" where
  "state_resync snap s =
     (if ss_seq snap < watermark s
      then (s, \<lparr>rr_snapshot_seq = watermark s, rr_windows_added = [], rr_windows_removed = [],
                rr_marked_uncertain = [], rr_events_dropped = 0\<rparr>, False)
      else
        let mark = max (watermark s) (ss_seq snap);
            (journal1, dropped) = prune_through (ss_seq snap) (journal s);
            (wins, synthetic, added) = resync_windows snap (ss_windows snap) (windows s);
            covered = map ws_window_id (ss_windows snap);
            gone = filter (\<lambda>w. w \<notin> set covered) (bt_keys wins);
            wins' = fold bt_remove gone wins;
            journal' = fold journal_push (synthetic @ map (destroyed_event snap) gone) journal1
        in (s\<lparr>windows := wins', journal := journal', watermark := mark\<rparr>,
            \<lparr>rr_snapshot_seq = mark, rr_windows_added = added, rr_windows_removed = gone,
             rr_marked_uncertain = covered, rr_events_dropped = dropped\<rparr>, True))"

section \<open>The service\<close>

record Observer =
  sv_state :: ServiceState
  sv_clock :: Clock
  sv_actions :: ActionRegistry
  sv_generation :: u64
  sv_version :: nat

definition ObserverService_new :: "instant \<Rightarrow> Observer" where
  "ObserverService_new now =
     \<lparr>sv_state = \<lparr>windows = [], journal = EventJournal_new 4096, watermark = 0, pending = []\<rparr>,
      sv_clock = Clock_new now, sv_actions = ActionRegistry_new, sv_generation = 0, sv_version = 0\<rparr>"

definition bump_generation :: "Observer \<Rightarrow> Observer" where
  "bump_generation v = v\<lparr>sv_generation := sv_generation v + 1, sv_version := sv_version v + 1\<rparr>"

definition service_observe_ts :: "u64 \<Rightarrow> instant \<Rightarrow> Observer \<Rightarrow> Observer" where
  "service_observe_ts ts now v = v\<lparr>sv_clock := observe_ts ts (sv_clock v) now\<rparr>"

definition handle_event :: "RuntimeEvent \<Rightarrow> instant \<Rightarrow> Observer \<Rightarrow> Observer" where
  "handle_event e now v =
     bump_generation
       ((\<lambda>v. v\<lparr>sv_state := state_handle_event e (sv_state v)\<rparr>)
         (service_observe_ts (event_ts_ms e) now v))"

definition resync :: "StateSnapshot \<Rightarrow> instant \<Rightarrow> Observer \<Rightarrow> Observer \<times> ResyncReport" where
  "resync snap now v =
     (let v1 = service_observe_ts (ss_ts_ms snap) now v;
          (s, report, used) = state_resync snap (sv_state v1);
          v2 = v1\<lparr>sv_state := s\<rparr>
      in ((if used then bump_generation v2 else v2), report))"

definition action_window :: "ActionKind \<Rightarrow> WindowId option \<Rightarrow> u64 \<Rightarrow> ServiceState \<Rightarrow> ServiceState" where
  "action_window kind w now s =
     (case w of
        None \<Rightarrow> s
      | Some i \<Rightarrow> window_on_demand i now
          (\<lambda>st. if is_input kind then st\<lparr>ts_last_input_at := Some now\<rparr> else st) s)"

definition record_action ::
  "ActionKind \<Rightarrow> WindowId option \<Rightarrow> Position option \<Rightarrow> instant \<Rightarrow> Observer \<Rightarrow> Observer \<times> ActionId" where
  "record_action kind w pos now v =
     (let ts = now_ms (sv_clock v) now;
          (acts, i) = registry_record (sv_actions v) kind w pos (watermark (sv_state v)) ts
      in (v\<lparr>sv_actions := acts, sv_state := action_window kind w ts (sv_state v)\<rparr>, i))"

definition service_action :: "Observer \<Rightarrow> ActionId \<Rightarrow> ActionRecord option" where
  "service_action v i = registry_get (sv_actions v) i"

definition service_action_seq :: "Observer \<Rightarrow> ActionId \<Rightarrow> u64 option" where
  "service_action_seq v i = registry_seq_of (sv_actions v) i"

definition service_snapshot :: "Observer \<Rightarrow> instant \<Rightarrow> ObserverSnapshot" where
  "service_snapshot v now =
     \<lparr>os_seq = watermark (sv_state v), os_ts_ms = now_ms (sv_clock v) now,
      os_windows = bt_values (windows (sv_state v)), os_actions_len = registry_len (sv_actions v),
      os_journal_len = journal_len (journal (sv_state v)),
      os_events_dropped = ej_dropped (journal (sv_state v))\<rparr>"

definition service_window_state :: "Observer \<Rightarrow> WindowId \<Rightarrow> WindowTemporalState option" where
  "service_window_state v w = bt_get (windows (sv_state v)) w"

definition window_geometry :: "WindowTemporalState option \<Rightarrow> Rect option" where
  "window_geometry st = (case st of None \<Rightarrow> None | Some x \<Rightarrow> ts_geometry x)"

definition service_window_geometry :: "Observer \<Rightarrow> WindowId \<Rightarrow> Rect option" where
  "service_window_geometry v w = window_geometry (bt_get (windows (sv_state v)) w)"

section \<open>Reading the maps\<close>

lemma get_window_on_demand [simp]:
  "bt_get (windows (window_on_demand w ts f s)) j =
     (if j = w then Some (f (on_demand s w ts)) else bt_get (windows s) j)"
  by (simp add: window_on_demand_def)

lemma window_on_demand_keeps [simp]:
  "watermark (window_on_demand w ts f s) = watermark s"
  "journal (window_on_demand w ts f s) = journal s"
  "pending (window_on_demand w ts f s) = pending s"
  by (simp_all add: window_on_demand_def)

lemma refresh_keeps [simp]:
  "watermark (refresh_pending_observation w s) = watermark s"
  "journal (refresh_pending_observation w s) = journal s"
  "pending (refresh_pending_observation w s) = pending s"
  "earliest (refresh_pending_observation w s) = earliest s"
  by (simp_all add: refresh_pending_observation_def earliest_def fun_eq_iff)

lemma get_refresh [simp]:
  "bt_get (windows (refresh_pending_observation w s)) j =
     (if j = w then map_option (\<lambda>st. st\<lparr>ts_pending_observation := earliest s w\<rparr>) (bt_get (windows s) w)
      else bt_get (windows s) j)"
  by (simp add: refresh_pending_observation_def)

lemma event_windows_keeps [simp]:
  "watermark (event_windows e s) = watermark s" "journal (event_windows e s) = journal s"
  "pending (event_windows e s) = pending s" "earliest (event_windows e s) = earliest s"
  by (cases e; simp split: option.split; simp add: earliest_def fun_eq_iff split: option.split)+

lemma earliest_cong: "pending s = pending s' \<Longrightarrow> earliest s = earliest s'"
  by (simp add: earliest_def fun_eq_iff)

section \<open>Active waiters\<close>

text \<open>How many waiters are registered on a window with a key: the multiset behind \<open>pending\<close>.\<close>

definition waiting :: "ServiceState \<Rightarrow> WindowId \<Rightarrow> u64 \<times> u64 \<Rightarrow> nat" where
  "waiting s w key =
     (case bt_get (pending s) w of None \<Rightarrow> 0
      | Some m \<Rightarrow> (case bt_get m key of None \<Rightarrow> 0 | Some n \<Rightarrow> unat n))"

definition waiters_ok :: "waiters \<Rightarrow> bool" where
  "waiters_ok m \<longleftrightarrow> m \<noteq> [] \<and> bt_ok m \<and> (\<forall>k. bt_get m k \<noteq> Some 0)"

definition pending_ok :: "ServiceState \<Rightarrow> bool" where
  "pending_ok s \<longleftrightarrow> bt_ok (pending s) \<and> (\<forall>w m. bt_get (pending s) w = Some m \<longrightarrow> waiters_ok m)"

lemma waiters_get: "waiters_ok m \<Longrightarrow> bt_get m k \<noteq> Some 0"
  and waiters_okD: "waiters_ok m \<Longrightarrow> m \<noteq> [] \<and> bt_ok m"
  and waiters_okI: "m \<noteq> [] \<Longrightarrow> bt_ok m \<Longrightarrow> (\<And>k. bt_get m k \<noteq> Some 0) \<Longrightarrow> waiters_ok m"
  unfolding waiters_ok_def by blast+

lemma bt_insert_not_Nil [simp]: "bt_insert k v m \<noteq> []"
  by (cases "(k, v, m)" rule: bt_insert.cases) auto

lemma waiters_ok_insert:
  assumes "m = [] \<or> waiters_ok m" "n \<noteq> 0"
  shows "waiters_ok (bt_insert key n m)"
proof (rule waiters_okI)
  fix k
  have "bt_get m k \<noteq> Some 0" using assms(1) waiters_get[of m k] by auto
  then show "bt_get (bt_insert key n m) k \<noteq> Some 0" using assms(2) by simp
  have "bt_ok m" using assms(1) waiters_okD[of m] by auto
  then show "bt_ok (bt_insert key n m)" by (rule bt_ok_insert)
qed simp

lemma waiters_ok_remove:
  assumes "waiters_ok m" "bt_remove key m \<noteq> []"
  shows "waiters_ok (bt_remove key m)"
proof (rule waiters_okI)
  fix k
  show "bt_get (bt_remove key m) k \<noteq> Some 0" using waiters_get[OF assms(1), of k] by simp
qed (use assms(2) waiters_okD[OF assms(1)] in auto)

lemma pending_get: "pending_ok s \<Longrightarrow> bt_get (pending s) w = Some m \<Longrightarrow> waiters_ok m"
  by (simp add: pending_ok_def)

lemma pending_register:
  "pending (guard_register (Some w) key s) =
     bt_insert w (bt_insert key ((case bt_get (case bt_get (pending s) w of Some m \<Rightarrow> m | None \<Rightarrow> []) key of
        Some n \<Rightarrow> n | None \<Rightarrow> 0) + 1) (case bt_get (pending s) w of Some m \<Rightarrow> m | None \<Rightarrow> [])) (pending s)"
  by (simp add: guard_register_def Let_def)

lemma waiting_register:
  assumes "waiting s w key < 2 ^ 32 - 1"
  shows "waiting (guard_register (Some w) key s) j k =
    (if j = w \<and> k = key then Suc (waiting s w key) else waiting s j k)"
  using assms
  by (auto simp: waiting_def pending_register unat_Suc_word split: option.splits)

lemma pending_ok_register:
  assumes "pending_ok s" "waiting s w key < 2 ^ 32 - 1"
  shows "pending_ok (guard_register (Some w) key s)"
proof -
  have nz: "n + 1 \<noteq> 0" if "unat n < 2 ^ 32 - 1" for n :: u32
  proof -
    have "unat (n + 1) = Suc (unat n)" using that by (intro unat_Suc_word) simp
    then show ?thesis by auto
  qed
  let ?m = "case bt_get (pending s) w of Some m \<Rightarrow> m | None \<Rightarrow> []"
  let ?n = "case bt_get ?m key of Some n \<Rightarrow> n | None \<Rightarrow> 0"
  have "?m = [] \<or> waiters_ok ?m" using assms(1) by (auto simp: pending_ok_def split: option.split)
  moreover have "unat ?n < 2 ^ 32 - 1"
    using assms(2) by (auto simp: waiting_def split: option.splits)
  ultimately have "waiters_ok (bt_insert key (?n + 1) ?m)" using nz by (intro waiters_ok_insert) simp_all
  with assms(1) show ?thesis
    by (simp add: pending_ok_def pending_register)
qed

lemma pending_drop:
  assumes "bt_get (pending s) w = Some m" "bt_get m key = Some n"
  shows "pending (guard_drop (Some w) key s) =
    (let m' = (if saturating_sub n 1 = 0 then bt_remove key m else bt_insert key (saturating_sub n 1) m)
     in if m' = [] then bt_remove w (pending s) else bt_insert w m' (pending s))"
  using assms by (simp add: guard_drop_def Let_def)

lemma get_Nil_all: "(\<And>k. bt_get m k = None) \<Longrightarrow> m = []"
  by (cases m) (auto simp: bt_get_def, metis (mono_tags) option.distinct(1))

lemma guard_drop_idle:
  assumes "pending_ok s" "waiting s w key = 0"
  shows "pending (guard_drop (Some w) key s) = pending s \<or>
    (\<exists>m. bt_get (pending s) w = Some m \<and> waiters_ok m \<and>
       pending (guard_drop (Some w) key s) = bt_insert w m (pending s))"
proof (cases "bt_get (pending s) w")
  case (Some m)
  have "bt_get m key = None"
    using waiters_get[OF pending_get[OF assms(1) Some], of key] Some assms(2)
    by (auto simp: waiting_def unat_eq_zero split: option.splits)
  with Some pending_get[OF assms(1) Some] show ?thesis by (auto simp: guard_drop_def waiters_ok_def)
qed (simp add: guard_drop_def)

lemma waiting_drop:
  assumes "pending_ok s"
  shows "waiting (guard_drop (Some w) key s) j k =
    (if j = w \<and> k = key then waiting s w key - 1 else waiting s j k)"
proof (cases "waiting s w key = 0")
  case True
  then show ?thesis
    using guard_drop_idle[OF assms True] by (auto simp: waiting_def)
next
  case False
  then obtain m n where mn: "bt_get (pending s) w = Some m" "bt_get m key = Some n" "0 < unat n"
    by (auto simp: waiting_def split: option.splits)
  then have "unat (saturating_sub n 1) = unat n - 1" by (simp add: int_read)
  moreover from this have "saturating_sub n 1 = 0 \<longleftrightarrow> unat n - 1 = 0" by (metis unat_eq_zero)
  moreover have "bt_remove key m = [] \<Longrightarrow> k \<noteq> key \<Longrightarrow> bt_get m k = None"
    using bt_get_remove[of key m k] by simp
  ultimately show ?thesis
    using mn by (auto simp: waiting_def pending_drop Let_def)
qed

lemma pending_ok_drop:
  assumes "pending_ok s"
  shows "pending_ok (guard_drop (Some w) key s)"
proof (cases "waiting s w key = 0")
  case True
  then show ?thesis
    using guard_drop_idle[OF assms True] assms by (auto simp: pending_ok_def split: if_splits)
next
  case False
  then obtain m n where mn: "bt_get (pending s) w = Some m" "bt_get m key = Some n"
    by (auto simp: waiting_def split: option.splits)
  have m: "waiters_ok m" using assms mn(1) by (rule pending_get)
  let ?m' = "if saturating_sub n 1 = 0 then bt_remove key m else bt_insert key (saturating_sub n 1) m"
  have "?m' = [] \<or> waiters_ok ?m'"
    using m waiters_ok_remove[OF m, of key] waiters_ok_insert[of m "saturating_sub n 1" key] by auto
  with mn assms show ?thesis
    by (cases "saturating_sub n 1 = 0") (auto simp: pending_ok_def pending_drop Let_def)
qed

text \<open>\<open>earliest\<close> is the least registered key.\<close>

lemma earliest_iff:
  assumes "pending_ok s"
  shows "earliest s w = Some p \<longleftrightarrow>
    0 < waiting s w (po_since_seq p, po_started_at p) \<and>
    (\<forall>k. 0 < waiting s w k \<longrightarrow> (po_since_seq p, po_started_at p) \<le> k)"
proof (cases "bt_get (pending s) w")
  case None
  then show ?thesis by (simp add: earliest_def waiting_def)
next
  case (Some m)
  with assms have m: "waiters_ok m" by (simp add: pending_ok_def)
  then obtain key n rest where cons: "m = (key, n) # rest" by (cases m) (auto simp: waiters_ok_def)
  have pos: "0 < waiting s w k \<longleftrightarrow> bt_get m k \<noteq> None" for k
    using waiters_get[OF m, of k] Some by (auto simp: waiting_def unat_gt_0 split: option.split)
  have least: "key \<le> k" if "bt_get m k \<noteq> None" for k
  proof -
    from that obtain v where "(k, v) \<in> set m" using waiters_okD[OF m] by (auto simp: bt_mem_iff)
    then show ?thesis using waiters_okD[OF m] by (fastforce simp: cons bt_ok_Cons)
  qed
  have key: "bt_get m key \<noteq> None" by (simp add: cons bt_get_def)
  have e: "earliest s w = Some \<lparr>po_since_seq = fst key, po_started_at = snd key\<rparr>"
    using Some cons by (simp add: earliest_def)
  show ?thesis
  proof
    assume "earliest s w = Some p"
    with e have p: "(po_since_seq p, po_started_at p) = key" by auto
    show "0 < waiting s w (po_since_seq p, po_started_at p) \<and>
      (\<forall>k. 0 < waiting s w k \<longrightarrow> (po_since_seq p, po_started_at p) \<le> k)"
      unfolding p pos using key least by blast
  next
    assume r: "0 < waiting s w (po_since_seq p, po_started_at p) \<and>
      (\<forall>k. 0 < waiting s w k \<longrightarrow> (po_since_seq p, po_started_at p) \<le> k)"
    have "key \<le> (po_since_seq p, po_started_at p)" using r pos least by blast
    moreover have "(po_since_seq p, po_started_at p) \<le> key" using r pos key by blast
    ultimately have "key = (po_since_seq p, po_started_at p)" by (rule antisym)
    then show "earliest s w = Some p" using e by simp
  qed
qed

section \<open>Annotations follow the active waiters\<close>

definition synced :: "ServiceState \<Rightarrow> bool" where
  "synced s \<longleftrightarrow> (\<forall>w st. bt_get (windows s) w = Some st \<longrightarrow> ts_pending_observation st = earliest s w)"

lemma earliest_other:
  "(\<And>j. j \<noteq> w \<Longrightarrow> bt_get (pending s') j = bt_get (pending s) j) \<Longrightarrow> j \<noteq> w \<Longrightarrow> earliest s' j = earliest s j"
  by (simp add: earliest_def)

lemma synced_refresh:
  assumes "synced s" "windows s' = windows s" "\<And>j. j \<noteq> w \<Longrightarrow> bt_get (pending s') j = bt_get (pending s) j"
  shows "synced (refresh_pending_observation w s')"
  using assms earliest_other[of w s' s] by (auto simp: synced_def)

lemma synced_register: "synced s \<Longrightarrow> synced (guard_register w key s)"
  by (cases w) (auto simp: guard_register_def Let_def intro!: synced_refresh)

lemma synced_drop: "synced s \<Longrightarrow> synced (guard_drop w key s)"
  by (cases w) (auto simp: guard_drop_def Let_def intro!: synced_refresh split: option.split)

definition keeps_pending_field :: "(WindowTemporalState \<Rightarrow> WindowTemporalState) \<Rightarrow> bool" where
  "keeps_pending_field f \<longleftrightarrow> (\<forall>st. ts_pending_observation (f st) = ts_pending_observation st)"

lemma keeps_pending_updates: "keeps_pending_field (touch ts)" "keeps_pending_field (commit_update ts c d)"
  by (simp_all add: keeps_pending_field_def touch_def commit_update_def)

text \<open>What an event does to the entry of a window, and that it leaves the others alone.\<close>

lemma get_event_windows:
  "bt_get (windows (event_windows e s)) j =
     (if event_window_id e \<noteq> Some j then bt_get (windows s) j
      else case e of
        WindowDestroyed _ _ _ \<Rightarrow> None
      | WindowCreated _ ts _ _ _ _ _ \<Rightarrow>
          Some (case bt_get (windows s) j of Some st \<Rightarrow> st\<lparr>ts_state_uncertain := False\<rparr>
                | None \<Rightarrow> window_created j ts)
      | SurfaceCommit _ ts _ c d \<Rightarrow> Some (commit_update ts c d (on_demand s j ts))
      | _ \<Rightarrow> Some (touch (event_ts_ms e) (on_demand s j (event_ts_ms e))))"
  by (cases e) (auto split: option.split)

lemma event_pending_field:
  assumes "bt_get (windows (event_windows e s)) j = Some st"
  shows "ts_pending_observation st =
    (case bt_get (windows s) j of Some old \<Rightarrow> ts_pending_observation old | None \<Rightarrow> None)"
  using assms
  by (cases e)
    (auto simp: get_event_windows on_demand_def touch_def commit_update_def window_created_def
      split: if_splits option.splits)

lemma state_handle_event_simps [simp]:
  "watermark (state_handle_event e s) = max (watermark s) (event_seq e)"
  "pending (state_handle_event e s) = pending s"
  "earliest (state_handle_event e s) = earliest s"
  "journal (state_handle_event e s) =
     (case from_runtime_event e of Some c \<Rightarrow> journal_push c (journal s) | None \<Rightarrow> journal s)"
  by (auto simp: state_handle_event_def Let_def fun_eq_iff earliest_def split: option.split)

lemma get_state_handle_event:
  "bt_get (windows (state_handle_event e s)) j =
     (if event_window_id e = Some j \<and> bt_contains (pending s) j
      then map_option (\<lambda>st. st\<lparr>ts_pending_observation := earliest s j\<rparr>) (bt_get (windows (event_windows e s)) j)
      else bt_get (windows (event_windows e s)) j)"
proof -
  have w: "windows (event_windows e (s\<lparr>watermark := x\<rparr>)) = windows (event_windows e s)" for x
    by (cases e) (auto simp: window_on_demand_def on_demand_def split: option.split)
  have "earliest (s\<lparr>watermark := x\<rparr>) = earliest s" for x by (simp add: earliest_def fun_eq_iff)
  with w show ?thesis
    by (auto simp: state_handle_event_def Let_def split: option.split)
qed

lemma earliest_idle: "\<not> bt_contains (pending s) w \<Longrightarrow> earliest s w = None"
  by (simp add: bt_contains_def earliest_def)

lemma synced_event:
  assumes "synced s"
  shows "synced (state_handle_event e s)"
  unfolding synced_def
proof (intro allI impI)
  fix w st
  assume "bt_get (windows (state_handle_event e s)) w = Some st"
  then consider
    (kept) "bt_get (windows (event_windows e s)) w = Some st" "event_window_id e = Some w \<Longrightarrow> \<not> bt_contains (pending s) w"
  | (fresh) "ts_pending_observation st = earliest s w"
    by (auto simp: get_state_handle_event split: if_splits)
  then show "ts_pending_observation st = earliest (state_handle_event e s) w"
  proof cases
    case kept
    show ?thesis
    proof (cases "bt_get (windows s) w")
      case (Some old)
      with kept assms event_pending_field[OF kept(1)] show ?thesis by (simp add: synced_def)
    next
      case None
      with kept(1) have "event_window_id e = Some w" by (auto simp: get_event_windows split: if_splits)
      with None kept event_pending_field[OF kept(1)] show ?thesis by (simp add: earliest_idle)
    qed
  qed simp
qed

section \<open>What the events say about a window\<close>

text \<open>Its commit numbers since its last destruction, and whether an event still names it alive.\<close>

fun note_commit :: "WindowId \<Rightarrow> RuntimeEvent \<Rightarrow> u64 list \<Rightarrow> u64 list" where
  "note_commit w (SurfaceCommit _ _ v c _) cs = (if v = w then cs @ [c] else cs)"
| "note_commit w (WindowDestroyed _ _ v) cs = (if v = w then [] else cs)"
| "note_commit w _ cs = cs"

definition commits_of :: "WindowId \<Rightarrow> RuntimeEvent list \<Rightarrow> u64 list" where
  "commits_of w es = fold (note_commit w) es []"

definition alive :: "WindowId \<Rightarrow> RuntimeEvent list \<Rightarrow> bool" where
  "alive w es = fold (\<lambda>e b. if event_window_id e = Some w then event_kind e \<noteq> KWindowDestroyed else b) es False"

definition max_of :: "u64 list \<Rightarrow> u64" where
  "max_of cs = foldr max cs 0"

lemma max_of_snoc [simp]: "max_of (cs @ [c]) = max (max_of cs) c"
  by (induction cs) (simp_all add: max_of_def max.assoc)

lemma max_of_simps [simp]: "max_of [] = 0" "max_of [c] = c"
  by (simp_all add: max_of_def)

lemma max_of_ge: "c \<in> set cs \<Longrightarrow> c \<le> max_of cs"
  by (induction cs) (auto simp: max_of_def le_max_iff_disj)

definition empty_state :: "nat \<Rightarrow> ServiceState" where
  "empty_state capacity =
     \<lparr>windows = [], journal = EventJournal_new capacity, watermark = 0, pending = []\<rparr>"

text \<open>The fields of an entry the agent reads as evidence.\<close>

definition evidence_ok :: "RuntimeEvent list \<Rightarrow> WindowId \<Rightarrow> WindowTemporalState \<Rightarrow> bool" where
  "evidence_ok es w st \<longleftrightarrow> ts_window_id st = w \<and> ts_last_commit_seq st = max_of (commits_of w es) \<and>
     unat (ts_commit_count st) = min (length (commits_of w es)) (2 ^ 64 - 1) \<and>
     (ts_quiet_since st = None \<longleftrightarrow> commits_of w es = [])"

lemma fold_events_pending [simp]: "pending (fold state_handle_event es s) = pending s"
  by (induction es arbitrary: s) simp_all

lemma commits_of_snoc: "commits_of w (es @ [e]) = note_commit w e (commits_of w es)"
  by (simp add: commits_of_def)

lemma alive_snoc: "alive w (es @ [e]) =
  (if event_window_id e = Some w then event_kind e \<noteq> KWindowDestroyed else alive w es)"
  by (simp add: alive_def)

lemma not_alive_no_commits: "\<not> alive w es \<Longrightarrow> commits_of w es = []"
proof (induction es rule: rev_induct)
  case (snoc e es)
  then show ?case by (cases e) (auto simp: alive_snoc commits_of_snoc split: if_splits)
qed (simp add: commits_of_def)

lemma tracked_evidence:
  "case bt_get (windows (fold state_handle_event es (empty_state n))) w of
     None \<Rightarrow> \<not> alive w es
   | Some st \<Rightarrow> alive w es \<and> evidence_ok es w st"
proof (induction es rule: rev_induct)
  case Nil
  show ?case by (simp add: empty_state_def alive_def)
next
  case (snoc e es)
  let ?s = "fold state_handle_event es (empty_state n)"
  have no: "\<not> bt_contains (pending ?s) w" by (simp add: empty_state_def bt_contains_def)
  have get: "bt_get (windows (state_handle_event e ?s)) w = bt_get (windows (event_windows e ?s)) w" for e
    using no by (simp add: get_state_handle_event)
  show ?case
  proof (cases "bt_get (windows ?s) w")
    case None
    with snoc have "\<not> alive w es" "commits_of w es = []" by (simp_all add: not_alive_no_commits)
    with None show ?thesis
      by (cases e)
        (auto simp: get get_event_windows alive_snoc commits_of_snoc evidence_ok_def on_demand_def
          touch_def commit_update_def window_created_def int_read simp del: event_windows.simps)
  next
    case (Some st)
    with snoc have "alive w es" "evidence_ok es w st" by simp_all
    with Some show ?thesis
      by (cases e)
        (auto simp: get get_event_windows alive_snoc commits_of_snoc evidence_ok_def on_demand_def
          touch_def commit_update_def int_read simp del: event_windows.simps)
  qed
qed

section \<open>What a resync leaves\<close>

definition resynced :: "WindowSnapshot \<Rightarrow> WindowTemporalState option \<Rightarrow> WindowTemporalState \<Rightarrow> bool" where
  "resynced ws old st \<longleftrightarrow>
     ts_last_commit_seq st =
       max (case old of None \<Rightarrow> 0 | Some x \<Rightarrow> ts_last_commit_seq x) (ws_last_commit_seq ws) \<and>
     ts_geometry st = Some (ws_geometry ws) \<and> ts_state_uncertain st"

text \<open>The event that tells waiters what the lag hid about a window of the snapshot.\<close>

definition synthetic_for :: "StateSnapshot \<Rightarrow> WindowSnapshot \<Rightarrow> WindowTemporalState option \<Rightarrow> CountedEvent list" where
  "synthetic_for snap ws old =
     (case old of
        None \<Rightarrow> [\<lparr>ce_seq = ss_seq snap, ce_ts_ms = ss_ts_ms snap, ce_window_id = Some (ws_window_id ws),
                   ce_kind = Created\<rparr>]
      | Some st \<Rightarrow>
          if ts_last_commit_seq st < ws_last_commit_seq ws
          then [\<lparr>ce_seq = ss_seq snap, ce_ts_ms = ss_ts_ms snap, ce_window_id = Some (ws_window_id ws),
                 ce_kind = Commit (ws_last_commit_seq ws) region_empty\<rparr>]
          else [])"

lemma resync_window_entry:
  "\<exists>st. fst (resync_window snap ws wins) = bt_insert (ws_window_id ws) st wins \<and>
     resynced ws (bt_get wins (ws_window_id ws)) st"
  "fst (snd (resync_window snap ws wins)) = synthetic_for snap ws (bt_get wins (ws_window_id ws))"
  "snd (snd (resync_window snap ws wins)) \<longleftrightarrow> bt_get wins (ws_window_id ws) = None"
  by (auto simp: resync_window_def Let_def synthetic_for_def resynced_def max_def window_created_def
      split: option.split)

lemma resync_windows_Cons:
  "resync_windows snap (ws # rest) wins =
     (let wins1 = fst (resync_window snap ws wins); r = resync_windows snap rest wins1
      in (fst r, synthetic_for snap ws (bt_get wins (ws_window_id ws)) @ fst (snd r),
          (if bt_get wins (ws_window_id ws) = None then ws_window_id ws # snd (snd r) else snd (snd r))))"
  using resync_window_entry(2,3)[of snap ws wins]
  by (auto simp: Let_def split: prod.split)

lemma resync_windows_result:
  "distinct (map ws_window_id wss) \<Longrightarrow> bt_ok wins \<Longrightarrow>
   bt_ok (fst (resync_windows snap wss wins)) \<and>
   (\<forall>j. j \<notin> ws_window_id ` set wss \<longrightarrow> bt_get (fst (resync_windows snap wss wins)) j = bt_get wins j) \<and>
   (\<forall>ws \<in> set wss. \<exists>st. bt_get (fst (resync_windows snap wss wins)) (ws_window_id ws) = Some st \<and>
      resynced ws (bt_get wins (ws_window_id ws)) st) \<and>
   fst (snd (resync_windows snap wss wins)) =
     concat (map (\<lambda>ws. synthetic_for snap ws (bt_get wins (ws_window_id ws))) wss) \<and>
   snd (snd (resync_windows snap wss wins)) =
     filter (\<lambda>w. bt_get wins w = None) (map ws_window_id wss)"
proof (induction wss arbitrary: wins)
  case (Cons ws rest)
  let ?w = "ws_window_id ws"
  obtain st where st: "fst (resync_window snap ws wins) = bt_insert ?w st wins"
    "resynced ws (bt_get wins ?w) st"
    using resync_window_entry(1) by blast
  have other: "bt_get (bt_insert ?w st wins) (ws_window_id x) = bt_get wins (ws_window_id x)" if "x \<in> set rest" for x
  proof -
    have "ws_window_id x \<noteq> ?w" using Cons.prems(1) that by (metis distinct.simps(2) image_eqI list.set_map list.simps(9))
    then show ?thesis by simp
  qed
  have cong: "map (\<lambda>ws'. synthetic_for snap ws' (bt_get (bt_insert ?w st wins) (ws_window_id ws'))) rest =
      map (\<lambda>ws'. synthetic_for snap ws' (bt_get wins (ws_window_id ws'))) rest"
    "filter (\<lambda>w. bt_get (bt_insert ?w st wins) w = None) (map ws_window_id rest) =
      filter (\<lambda>w. bt_get wins w = None) (map ws_window_id rest)"
  proof -
    show "map (\<lambda>ws'. synthetic_for snap ws' (bt_get (bt_insert ?w st wins) (ws_window_id ws'))) rest =
      map (\<lambda>ws'. synthetic_for snap ws' (bt_get wins (ws_window_id ws'))) rest"
      by (rule map_cong) (simp_all only: other)
    show "filter (\<lambda>w. bt_get (bt_insert ?w st wins) w = None) (map ws_window_id rest) =
      filter (\<lambda>w. bt_get wins w = None) (map ws_window_id rest)"
    proof (rule filter_cong)
      fix w assume "w \<in> set (map ws_window_id rest)"
      then obtain x where "x \<in> set rest" "w = ws_window_id x" by auto
      then show "(bt_get (bt_insert ?w st wins) w = None) = (bt_get wins w = None)"
        by (simp only: other)
    qed simp
  qed
  have IH: "distinct (map ws_window_id rest)" "bt_ok (bt_insert ?w st wins)"
    using Cons.prems by simp_all
  note IH' = Cons.IH[OF IH, unfolded cong]
  have own: "?w \<notin> ws_window_id ` set rest" using Cons.prems(1) by simp
  show ?case
    unfolding resync_windows_Cons Let_def st(1) fst_conv snd_conv
    using IH' own st(2) Cons.prems(1) other
    by (intro conjI) (auto simp del: resync_windows.simps)
qed simp

lemma state_resync_used:
  assumes "watermark s \<le> ss_seq snap"
  shows "state_resync snap s =
    (let r = resync_windows snap (ss_windows snap) (windows s);
         covered = map ws_window_id (ss_windows snap);
         gone = filter (\<lambda>w. w \<notin> set covered) (bt_keys (fst r));
         p = prune_through (ss_seq snap) (journal s)
     in (s\<lparr>windows := fold bt_remove gone (fst r),
           journal := fold journal_push (fst (snd r) @ map (destroyed_event snap) gone) (fst p),
           watermark := ss_seq snap\<rparr>,
         \<lparr>rr_snapshot_seq = ss_seq snap, rr_windows_added = snd (snd r), rr_windows_removed = gone,
          rr_marked_uncertain = covered, rr_events_dropped = snd p\<rparr>, True))"
  using assms by (simp add: state_resync_def Let_def max_absorb2 not_less split: prod.split)

lemma resync_tracks_snapshot:
  assumes "watermark s \<le> ss_seq snap" "distinct (map ws_window_id (ss_windows snap))" "bt_ok (windows s)"
  shows "bt_get (windows (fst (state_resync snap s))) w \<noteq> None \<longleftrightarrow> w \<in> ws_window_id ` set (ss_windows snap)"
    and "ws \<in> set (ss_windows snap) \<Longrightarrow>
      \<exists>st. bt_get (windows (fst (state_resync snap s))) (ws_window_id ws) = Some st \<and>
        resynced ws (bt_get (windows s) (ws_window_id ws)) st"
proof -
  let ?r = "resync_windows snap (ss_windows snap) (windows s)"
  let ?gone = "filter (\<lambda>w. w \<notin> set (map ws_window_id (ss_windows snap))) (bt_keys (fst ?r))"
  note r = resync_windows_result[OF assms(2,3), of snap]
  have get: "bt_get (windows (fst (state_resync snap s))) j =
      (if j \<in> set ?gone then None else bt_get (fst ?r) j)" for j
    by (simp add: state_resync_used[OF assms(1)] Let_def bt.get_fold_remove r)
  have keys: "j \<in> set (bt_keys (fst ?r)) \<longleftrightarrow> bt_get (fst ?r) j \<noteq> None" for j
    using r bt.keys_get by blast
  show "bt_get (windows (fst (state_resync snap s))) w \<noteq> None \<longleftrightarrow> w \<in> ws_window_id ` set (ss_windows snap)"
  proof (cases "w \<in> ws_window_id ` set (ss_windows snap)")
    case True
    with r have "bt_get (fst ?r) w \<noteq> None" by fastforce
    with True show ?thesis by (simp add: get)
  next
    case False
    then show ?thesis by (auto simp: get keys)
  qed
  show "\<exists>st. bt_get (windows (fst (state_resync snap s))) (ws_window_id ws) = Some st \<and>
        resynced ws (bt_get (windows s) (ws_window_id ws)) st" if "ws \<in> set (ss_windows snap)"
    using r that by (auto simp: get)
qed

lemma resync_stale:
  "ss_seq snap < watermark s \<Longrightarrow> fst (state_resync snap s) = s"
  by (simp add: state_resync_def)

lemma resync_watermark: "watermark (fst (state_resync snap s)) = max (watermark s) (ss_seq snap)"
proof (cases "ss_seq snap < watermark s")
  case False
  then show ?thesis by (simp add: state_resync_used Let_def max_absorb2)
qed (simp add: resync_stale max_absorb1)

section \<open>Registrations and events interleaved\<close>

datatype PendingOp =
    PEvent RuntimeEvent
  | PRegister "WindowId option" "u64 \<times> u64"
  | PDrop "WindowId option" "u64 \<times> u64"

fun pending_apply :: "PendingOp \<Rightarrow> ServiceState \<Rightarrow> ServiceState" where
  "pending_apply (PEvent e) s = state_handle_event e s"
| "pending_apply (PRegister w key) s = guard_register w key s"
| "pending_apply (PDrop w key) s = guard_drop w key s"

lemma pending_apply_synced: "synced s \<Longrightarrow> synced (fold pending_apply ops s)"
proof (induction ops arbitrary: s)
  case (Cons op ops)
  then show ?case by (cases op) (simp_all add: synced_event synced_register synced_drop)
qed simp

lemma waiting_event [simp]: "waiting (state_handle_event e s) = waiting s"
  by (simp add: waiting_def fun_eq_iff)

lemma waiting_fold_events [simp]: "waiting (fold state_handle_event es s) = waiting s"
  by (induction es arbitrary: s) simp_all

lemma pending_ok_cong: "pending s' = pending s \<Longrightarrow> pending_ok s' = pending_ok s"
  by (simp add: pending_ok_def)

lemma pending_apply_step:
  assumes "pending_ok s" "\<forall>w key. waiting s w key \<le> n" "n < 2 ^ 32 - 1"
  shows "pending_ok (pending_apply op s) \<and> (\<forall>w key. waiting (pending_apply op s) w key \<le> Suc n)"
proof (cases op)
  case (PEvent e)
  with assms show ?thesis by (simp add: pending_ok_cong[of "state_handle_event e s" s] le_SucI)
next
  case (PRegister w key)
  show ?thesis
  proof (cases w)
    case None
    with assms PRegister show ?thesis by (simp add: guard_register_def le_SucI)
  next
    case (Some i)
    have le: "waiting s i key \<le> n" using assms(2) by blast
    with assms(3) have "waiting s i key < 2 ^ 32 - 1" by simp
    with assms(1,2) PRegister Some le pending_ok_register[OF assms(1)] show ?thesis
      by (simp add: waiting_register le_SucI)
  qed
next
  case (PDrop w key)
  show ?thesis
  proof (cases w)
    case None
    with assms PDrop show ?thesis by (simp add: guard_drop_def le_SucI)
  next
    case (Some i)
    have "waiting s i key - 1 \<le> Suc n"
      using assms(2) by (meson diff_le_self le_SucI order_trans)
    with assms(1,2) PDrop Some pending_ok_drop[OF assms(1)] show ?thesis
      by (simp add: waiting_drop le_SucI)
  qed
qed

lemma pending_apply_ok:
  "pending_ok s \<Longrightarrow> \<forall>w key. waiting s w key \<le> n \<Longrightarrow> n + length ops < 2 ^ 32 \<Longrightarrow>
   pending_ok (fold pending_apply ops s)"
proof (induction ops arbitrary: s n)
  case (Cons op ops)
  have "n < 2 ^ 32 - 1" using Cons.prems(3) by simp
  from pending_apply_step[OF Cons.prems(1,2) this, of op]
  have "pending_ok (pending_apply op s)" "\<forall>w key. waiting (pending_apply op s) w key \<le> Suc n"
    by blast+
  moreover have "Suc n + length ops < 2 ^ 32" using Cons.prems(3) by simp
  ultimately show ?case using Cons.IH by simp
qed simp

text \<open>
  Recording an action on a window that was destroyed brings its state back without the
  annotation of the waiters that are still registered on it.
\<close>

lemma action_hides_waiter:
  assumes "bt_get (windows s) w = None" "pending_ok s" "0 < waiting s w key"
  shows "\<exists>st. bt_get (windows (action_window kind (Some w) now s)) w = Some st \<and>
    ts_pending_observation st = None \<and> earliest (action_window kind (Some w) now s) w \<noteq> None"
proof -
  obtain m where m: "bt_get (pending s) w = Some m" using assms(3) by (auto simp: waiting_def split: option.splits)
  then have "m \<noteq> []" using assms(2) pending_get waiters_okD by blast
  then have "earliest s w \<noteq> None" using m by (cases m) (auto simp: earliest_def)
  moreover have "earliest (action_window kind (Some w) now s) w = earliest s w"
    by (simp add: action_window_def earliest_def)
  ultimately show ?thesis
    using assms(1) by (simp add: action_window_def on_demand_def window_created_def)
qed

section \<open>Properties\<close>

text \<open>C28. What the engine knows about a window is what the events said: after any events a window is
  tracked if and only if the last event that names it is not its destruction, its commit number is
  the largest of the commits since it was last destroyed (in any order), its counter is their
  number, and it is quiet since some time only if it committed.\<close>

theorem tracked_state_is_evidence:
  "case bt_get (windows (fold state_handle_event es (empty_state n))) w of
     None \<Rightarrow> \<not> alive w es
   | Some st \<Rightarrow> alive w es \<and> evidence_ok es w st"
  by (rule tracked_evidence)

text \<open>Every tracked window shows its earliest active waiter: events, registrations and drops in any
  order keep each annotation equal to the least registered key of that window.\<close>

theorem annotation_is_earliest_waiter:
  assumes "length ops < 2 ^ 32" "bt_get (windows (fold pending_apply ops (empty_state n))) w = Some st"
  shows "ts_pending_observation st = Some p \<longleftrightarrow>
    0 < waiting (fold pending_apply ops (empty_state n)) w (po_since_seq p, po_started_at p) \<and>
    (\<forall>k. 0 < waiting (fold pending_apply ops (empty_state n)) w k \<longrightarrow> (po_since_seq p, po_started_at p) \<le> k)"
proof -
  have "pending_ok (fold pending_apply ops (empty_state n))"
    by (rule pending_apply_ok[where n = 0]) (use assms(1) in \<open>simp_all add: pending_ok_def waiting_def empty_state_def\<close>)
  moreover have "synced (fold pending_apply ops (empty_state n))"
    by (rule pending_apply_synced) (simp add: synced_def empty_state_def)
  ultimately show ?thesis using earliest_iff assms(2) by (simp add: synced_def)
qed

theorem annotation_is_earliest_waiter_witness:
  "\<exists>st. bt_get (windows (fold pending_apply
      [PEvent (WindowCreated 1 0 (WindowId 1) None None None None), PRegister (Some (WindowId 1)) (9, 5),
       PRegister (Some (WindowId 1)) (4, 6)] (empty_state 8))) (WindowId 1) = Some st \<and>
    ts_pending_observation st = Some \<lparr>po_since_seq = 4, po_started_at = 6\<rparr>"
proof -
  let ?ops = "[PEvent (WindowCreated 1 0 (WindowId 1) None None None None), PRegister (Some (WindowId 1)) (9, 5),
       PRegister (Some (WindowId 1)) (4, 6)]"
  let ?s = "fold pending_apply ?ops (empty_state 8)"
  have "case bt_get (windows ?s) (WindowId 1) of None \<Rightarrow> False | Some st \<Rightarrow> True"
    by (simp add: guard_register_def empty_state_def state_handle_event_def Let_def bt_get_def bt_contains_def
      window_created_def refresh_pending_observation_def bt_modify_def)
  then obtain st where st: "bt_get (windows ?s) (WindowId 1) = Some st" by (rule case_SomeE)
  have w: "waiting ?s (WindowId 1) k = (if k = (4, 6) \<or> k = (9, 5) then 1 else 0)" for k
  proof -
    have "waiting (empty_state 8) i k = 0" for i k by (simp add: waiting_def empty_state_def)
    then show ?thesis by (simp add: waiting_register)
  qed
  have "ts_pending_observation st = Some \<lparr>po_since_seq = 4, po_started_at = 6\<rparr>"
    by (rule annotation_is_earliest_waiter[OF _ st, of "\<lparr>po_since_seq = 4, po_started_at = 6\<rparr>",
        unfolded w, THEN iffD2]) simp_all
  with st show ?thesis by (intro exI[of _ st] conjI)
qed

text \<open>A waiter leaves no trace: registering and dropping it, with any events in between, restores the
  number of waiters under every key, so a disconnected client cannot pin an annotation.\<close>

theorem waiter_leaves_no_trace:
  assumes "pending_ok s" "waiting s w key < 2 ^ 32 - 1"
  shows "waiting (guard_drop (Some w) key (fold state_handle_event es (guard_register (Some w) key s))) = waiting s"
proof -
  have "pending_ok (fold state_handle_event es (guard_register (Some w) key s))"
    using pending_ok_register[OF assms] by (simp add: pending_ok_def)
  from waiting_drop[OF this, of w key] show ?thesis
    using waiting_register[OF assms(2)] by (simp add: fun_eq_iff)
qed

theorem waiter_leaves_no_trace_witness:
  "waiting (guard_drop (Some (WindowId 1)) (3, 4) (fold state_handle_event [WindowDestroyed 5 0 (WindowId 1)]
     (guard_register (Some (WindowId 1)) (3, 4) (empty_state 8)))) = waiting (empty_state 8)"
  by (rule waiter_leaves_no_trace) (simp_all add: pending_ok_def waiting_def empty_state_def)

text \<open>A resync leaves the engine in agreement with the compositor: the tracked windows are exactly the
  ones of the snapshot, each at the larger of the two commit numbers, with its geometry and marked
  as uncertain, and the watermark is the snapshot's; a stale snapshot changes nothing.\<close>

theorem resync_agrees_with_snapshot:
  assumes "bt_ok (windows s)" "distinct (map ws_window_id (ss_windows snap))"
  shows "if ss_seq snap < watermark s then fst (state_resync snap s) = s
    else watermark (fst (state_resync snap s)) = ss_seq snap \<and>
      (\<forall>w. bt_get (windows (fst (state_resync snap s))) w \<noteq> None \<longleftrightarrow> w \<in> ws_window_id ` set (ss_windows snap)) \<and>
      (\<forall>ws \<in> set (ss_windows snap). \<exists>st.
        bt_get (windows (fst (state_resync snap s))) (ws_window_id ws) = Some st \<and>
        resynced ws (bt_get (windows s) (ws_window_id ws)) st)"
  using resync_tracks_snapshot[OF _ assms(2,1)] resync_stale[of snap s] resync_watermark[of snap s]
  by (simp add: not_less max_absorb2)

theorem resync_agrees_with_snapshot_witness:
  "bt_get (windows (fst (state_resync
      \<lparr>ss_seq = 9, ss_ts_ms = 70, ss_windows = [\<lparr>ws_window_id = WindowId 2, ws_last_commit_seq = 4,
         ws_geometry = Rect_new 0 0 8 8, ws_popup_count = 0\<rparr>]\<rparr>
      (state_handle_event (WindowCreated 1 0 (WindowId 1) None None None None) (empty_state 8))))) (WindowId 1) = None"
proof -
  let ?s = "state_handle_event (WindowCreated 1 0 (WindowId 1) None None None None) (empty_state 8)"
  let ?snap = "\<lparr>ss_seq = 9, ss_ts_ms = 70, ss_windows = [\<lparr>ws_window_id = WindowId 2, ws_last_commit_seq = 4,
         ws_geometry = Rect_new 0 0 8 8, ws_popup_count = 0\<rparr>]\<rparr>"
  have ok: "bt_ok (windows ?s)" and fresh: "\<not> ss_seq ?snap < watermark ?s"
    by (simp_all add: state_handle_event_def empty_state_def bt_contains_def bt_ok_def bt_keys_def)
  have "distinct (map ws_window_id (ss_windows ?snap))" by simp
  from resync_agrees_with_snapshot[OF ok this, unfolded if_not_P[OF fresh],
      THEN conjunct2, THEN conjunct1, rule_format, of "WindowId 1"]
  show ?thesis by simp
qed

end
