(* ===== verification/Observer_Wait.thy ===== *)
theory Observer_Wait
  imports Observer_State
begin

text \<open>
  The wait engine of \<open>crates/adesk-observer/src\<close>: the requests (\<open>spec.rs\<close>), the filters, the
  accumulator and the conditions (\<open>waiter.rs\<close>), the errors (\<open>error.rs\<close>) and the shared wait
  loop of \<open>service.rs\<close>, as a machine whose schedule interleaves the waiting task with the event
  pump, resyncs, other requests and the clock.

  From \<open>tokio\<close> the model takes the documented behaviour of \<open>watch\<close> (a version number per send;
  \<open>changed\<close> is ready while the receiver has not seen the newest one and marks it seen;
  \<open>borrow\<close> marks nothing), of \<open>sleep_until\<close> (ready from its instant on) and of \<open>select!\<close>
  (any ready branch).
\<close>

section \<open>Requests\<close>

datatype Condition = CondChange | CondQuiet u64 | CondTimeout

record WaitSpec =
  wsp_window_id :: "WindowId option"
  wsp_since_commit :: "u64 option"
  wsp_timeout_ms :: u64

record QuietSpec =
  qsp_window_id :: "WindowId option"
  qsp_quiet_ms :: u64
  qsp_timeout_ms :: u64
  qsp_after_action :: "ActionId option"

record ObserveSpec =
  osp_window_id :: "WindowId option"
  osp_after_action :: "ActionId option"
  osp_until :: Condition
  osp_timeout_ms :: u64

definition WaitSpec_default :: WaitSpec where
  "WaitSpec_default = \<lparr>wsp_window_id = None, wsp_since_commit = None, wsp_timeout_ms = 5000\<rparr>"

definition QuietSpec_default :: QuietSpec where
  "QuietSpec_default =
     \<lparr>qsp_window_id = None, qsp_quiet_ms = 250, qsp_timeout_ms = 5000, qsp_after_action = None\<rparr>"

definition ObserveSpec_default :: ObserveSpec where
  "ObserveSpec_default =
     \<lparr>osp_window_id = None, osp_after_action = None, osp_until = CondQuiet 250, osp_timeout_ms = 5000\<rparr>"

datatype ObserverError =
    ObsUnknownWindow WindowId
  | ObsUnknownAction ActionId
  | ObsInternal string

fun observer_error_into :: "ObserverError \<Rightarrow> Error" where
  "observer_error_into (ObsUnknownWindow w) = error_unknown_window w"
| "observer_error_into (ObsUnknownAction i) =
     error_invalid_request (''action '' @ decimal (unat (action_raw i)) @ '' is not known'')"
| "observer_error_into (ObsInternal message) = error_internal message"

section \<open>Filters, plans and the accumulator\<close>

record Filters =
  fl_window_id :: "WindowId option"
  fl_min_seq :: u64
  fl_since_commit :: "u64 option"

definition Filters_new :: "WindowId option \<Rightarrow> u64 \<Rightarrow> u64 option \<Rightarrow> Filters" where
  "Filters_new w min_seq since_commit =
     \<lparr>fl_window_id = w, fl_min_seq = min_seq, fl_since_commit = since_commit\<rparr>"

definition filters_counts :: "Filters \<Rightarrow> CountedEvent \<Rightarrow> bool" where
  "filters_counts f e =
     (if ce_seq e \<le> fl_min_seq f then False
      else if (case fl_window_id f of Some w \<Rightarrow> ce_window_id e \<noteq> Some w | None \<Rightarrow> False) then False
      else case (fl_since_commit f, ce_kind e) of
             (Some min_commit, Commit commit_seq _) \<Rightarrow> min_commit < commit_seq
           | _ \<Rightarrow> True)"

datatype WaitCondition = WaitChange | WaitQuiet u64 | WaitTimeout

fun quiet_threshold_ms :: "WaitCondition \<Rightarrow> u64" where
  "quiet_threshold_ms (WaitQuiet quiet_ms) = quiet_ms"
| "quiet_threshold_ms WaitChange = 250"
| "quiet_threshold_ms WaitTimeout = 250"

fun wait_condition :: "Condition \<Rightarrow> WaitCondition" where
  "wait_condition CondChange = WaitChange"
| "wait_condition (CondQuiet quiet_ms) = WaitQuiet quiet_ms"
| "wait_condition CondTimeout = WaitTimeout"

record WaitPlan =
  wp_window_id :: "WindowId option"
  wp_after_action :: "ActionId option"
  wp_filters :: Filters
  wp_condition :: WaitCondition
  wp_timeout_ms :: u64
  wp_anchor_ts :: u64
  wp_started_at :: u64

definition plan_deadline_ms :: "WaitPlan \<Rightarrow> u64" where
  "plan_deadline_ms p = saturating_add (wp_started_at p) (wp_timeout_ms p)"

definition plan_quiet_deadline_ms :: "WaitPlan \<Rightarrow> u64 \<Rightarrow> u64 option" where
  "plan_quiet_deadline_ms p anchor =
     (case wp_condition p of WaitQuiet quiet_ms \<Rightarrow> Some (saturating_add anchor quiet_ms) | _ \<Rightarrow> None)"

record Accumulator =
  ac_filters :: Filters
  ac_last_commit_ts :: "u64 option"
  ac_last_commit_seq :: u64
  ac_commits :: u64
  ac_damage :: Region
  ac_new_windows :: "WindowId list"
  ac_destroyed_windows :: "WindowId list"
  ac_popups_appeared :: "u64 list"
  ac_popups_disappeared :: "u64 list"
  ac_focus_changed :: "bool option"
  ac_title_changed :: bool
  ac_events :: u64

definition Accumulator_new :: "Filters \<Rightarrow> Accumulator" where
  "Accumulator_new filters =
     \<lparr>ac_filters = filters, ac_last_commit_ts = None, ac_last_commit_seq = 0, ac_commits = 0,
      ac_damage = region_empty, ac_new_windows = [], ac_destroyed_windows = [],
      ac_popups_appeared = [], ac_popups_disappeared = [], ac_focus_changed = None,
      ac_title_changed = False, ac_events = 0\<rparr>"

definition contained_in :: "Rect \<Rightarrow> Rect \<Rightarrow> bool" where
  "contained_in r bounds \<longleftrightarrow>
     sint (rx bounds) \<le> sint (rx r) \<and> sint (ry bounds) \<le> sint (ry r) \<and>
     sint (right r) \<le> sint (right bounds) \<and> sint (bottom r) \<le> sint (bottom bounds)"

primrec push_clipped :: "Rect \<Rightarrow> Rect list \<Rightarrow> Region \<Rightarrow> Region" where
  "push_clipped geometry [] d = d"
| "push_clipped geometry (r # rs) d =
     push_clipped geometry rs
       (if contained_in r geometry then region_push d r
        else case intersect r geometry of Some part \<Rightarrow> region_push d part | None \<Rightarrow> d)"

definition absorb :: "CountedEvent \<Rightarrow> Rect option \<Rightarrow> Accumulator \<Rightarrow> Accumulator" where
  "absorb e clip a =
     (let a = a\<lparr>ac_events := ac_events a + 1\<rparr> in
      case ce_kind e of
        Created \<Rightarrow> (case ce_window_id e of
                     Some w \<Rightarrow> a\<lparr>ac_new_windows := ac_new_windows a @ [w]\<rparr> | None \<Rightarrow> a)
      | Destroyed \<Rightarrow> (case ce_window_id e of
                     Some w \<Rightarrow> a\<lparr>ac_destroyed_windows := ac_destroyed_windows a @ [w]\<rparr> | None \<Rightarrow> a)
      | Activated _ \<Rightarrow> a
      | TitleChange _ \<Rightarrow> a\<lparr>ac_title_changed := True\<rparr>
      | Commit commit_seq damage \<Rightarrow>
          a\<lparr>ac_commits := ac_commits a + 1,
            ac_last_commit_seq := max (ac_last_commit_seq a) commit_seq,
            ac_last_commit_ts := Some (ce_ts_ms e),
            ac_damage := (case clip of
                            Some geometry \<Rightarrow> push_clipped geometry (rects damage) (ac_damage a)
                          | None \<Rightarrow> region_extend (ac_damage a) damage)\<rparr>
      | Focus _ \<Rightarrow> a\<lparr>ac_focus_changed := Some True\<rparr>
      | PopupAppear popup \<Rightarrow> a\<lparr>ac_popups_appeared := ac_popups_appeared a @ [popup]\<rparr>
      | PopupDisappear popup \<Rightarrow> a\<lparr>ac_popups_disappeared := ac_popups_disappeared a @ [popup]\<rparr>)"

definition ac_counted :: "Accumulator \<Rightarrow> bool" where
  "ac_counted a \<longleftrightarrow> 0 < ac_events a"

definition quiet_anchor :: "Accumulator \<Rightarrow> u64 \<Rightarrow> u64" where
  "quiet_anchor a anchor_ts = (case ac_last_commit_ts a of Some ts \<Rightarrow> ts | None \<Rightarrow> anchor_ts)"

record ResolveContext =
  rc_window_id :: "WindowId option"
  rc_after_action :: "ActionId option"
  rc_started_at :: u64
  rc_anchor_ts :: u64
  rc_now_ms :: u64
  rc_watermark :: u64
  rc_quiet_threshold_ms :: u64
  rc_window_state :: "WindowTemporalState option"
  rc_global_last_commit_seq :: u64
  rc_timed_out :: bool

definition ac_resolve :: "Accumulator \<Rightarrow> ResolveContext \<Rightarrow> Observation" where
  "ac_resolve a ctx =
     \<lparr>ob_window_id = rc_window_id ctx, ob_after_action = rc_after_action ctx,
      ob_commits = ac_commits a, ob_changed_regions = simplified (ac_damage a),
      ob_focus_changed = ac_focus_changed a, ob_title_changed = ac_title_changed a,
      ob_new_windows = ac_new_windows a, ob_destroyed_windows = ac_destroyed_windows a,
      ob_popups_appeared = ac_popups_appeared a, ob_popups_disappeared = ac_popups_disappeared a,
      ob_elapsed_ms = saturating_sub (rc_now_ms ctx) (rc_started_at ctx),
      ob_quiet = (rc_quiet_threshold_ms ctx \<le>
                    saturating_sub (rc_now_ms ctx) (quiet_anchor a (rc_anchor_ts ctx))),
      ob_timed_out = rc_timed_out ctx,
      ob_last_commit_seq =
        (case rc_window_id ctx of
           Some _ \<Rightarrow> (case rc_window_state ctx of
                        Some st \<Rightarrow> ts_last_commit_seq st | None \<Rightarrow> ac_last_commit_seq a)
         | None \<Rightarrow> rc_global_last_commit_seq ctx),
      ob_seq = rc_watermark ctx\<rparr>"

definition commit_anchor :: "Accumulator \<Rightarrow> u64 \<Rightarrow> u64" where
  "commit_anchor a anchor_ts =
     max anchor_ts (case ac_last_commit_ts a of Some ts \<Rightarrow> ts | None \<Rightarrow> 0)"

definition condition_met :: "WaitCondition \<Rightarrow> Accumulator \<Rightarrow> u64 \<Rightarrow> u64 \<Rightarrow> bool" where
  "condition_met condition a anchor_ts now =
     (case condition of
        WaitChange \<Rightarrow> ac_counted a
      | WaitQuiet quiet_ms \<Rightarrow> quiet_ms \<le> saturating_sub now (commit_anchor a anchor_ts)
      | WaitTimeout \<Rightarrow> False)"

section \<open>Planning a wait\<close>

datatype WaitRequest =
    WaitForChange WaitSpec
  | WaitForQuiet QuietSpec
  | Observe ObserveSpec

definition action_anchor ::
  "Observer \<Rightarrow> ActionId option \<Rightarrow> u64 \<Rightarrow> ObserverError + (ActionId option \<times> u64 \<times> u64)" where
  "action_anchor v after_action started_at =
     (case after_action of
        Some i \<Rightarrow>
          (case registry_get (sv_actions v) i of
             None \<Rightarrow> Inl (ObsUnknownAction i)
           | Some r \<Rightarrow> Inr (Some i, ar_seq r, ar_ts_ms r))
      | None \<Rightarrow> Inr (None, watermark (sv_state v), started_at))"

fun wait_plan :: "Observer \<Rightarrow> WaitRequest \<Rightarrow> u64 \<Rightarrow> ObserverError + WaitPlan" where
  "wait_plan v (WaitForChange spec) started_at =
     Inr \<lparr>wp_window_id = wsp_window_id spec, wp_after_action = None,
          wp_filters = Filters_new (wsp_window_id spec) (watermark (sv_state v)) (wsp_since_commit spec),
          wp_condition = WaitChange, wp_timeout_ms = wsp_timeout_ms spec,
          wp_anchor_ts = started_at, wp_started_at = started_at\<rparr>"
| "wait_plan v (WaitForQuiet spec) started_at =
     (case action_anchor v (qsp_after_action spec) started_at of
        Inl e \<Rightarrow> Inl e
      | Inr (after_action, min_seq, anchor_ts) \<Rightarrow>
          Inr \<lparr>wp_window_id = qsp_window_id spec, wp_after_action = after_action,
               wp_filters = Filters_new (qsp_window_id spec) min_seq None,
               wp_condition = WaitQuiet (qsp_quiet_ms spec), wp_timeout_ms = qsp_timeout_ms spec,
               wp_anchor_ts = anchor_ts, wp_started_at = started_at\<rparr>)"
| "wait_plan v (Observe spec) started_at =
     (case action_anchor v (osp_after_action spec) started_at of
        Inl e \<Rightarrow> Inl e
      | Inr (after_action, min_seq, anchor_ts) \<Rightarrow>
          Inr \<lparr>wp_window_id = osp_window_id spec, wp_after_action = after_action,
               wp_filters = Filters_new (osp_window_id spec) min_seq None,
               wp_condition = wait_condition (osp_until spec), wp_timeout_ms = osp_timeout_ms spec,
               wp_anchor_ts = anchor_ts, wp_started_at = started_at\<rparr>)"

section \<open>One look at the journal\<close>

text \<open>The loop over \<open>journal.since(cursor)\<close>; the iterator keeps the cursor it was made with.\<close>

definition absorb_event ::
  "WaitPlan \<Rightarrow> ServiceState \<Rightarrow> CountedEvent \<Rightarrow> Accumulator \<times> u64 \<Rightarrow> Accumulator \<times> u64" where
  "absorb_event p s e q =
     (let cursor = (if snd q < ce_seq e then ce_seq e else snd q)
      in if \<not> filters_counts (wp_filters p) e then (fst q, cursor)
         else (absorb e (window_geometry
                 (case ce_window_id e of Some w \<Rightarrow> bt_get (windows s) w | None \<Rightarrow> None)) (fst q), cursor))"

definition absorb_since :: "WaitPlan \<Rightarrow> ServiceState \<Rightarrow> Accumulator \<times> u64 \<Rightarrow> Accumulator \<times> u64" where
  "absorb_since p s q = fold (absorb_event p s) (journal_since (snd q) (journal s)) q"

definition resolve_context :: "WaitPlan \<Rightarrow> ServiceState \<Rightarrow> u64 \<Rightarrow> bool \<Rightarrow> ResolveContext" where
  "resolve_context p s now timed_out =
     \<lparr>rc_window_id = wp_window_id p, rc_after_action = wp_after_action p,
      rc_started_at = wp_started_at p, rc_anchor_ts = wp_anchor_ts p, rc_now_ms = now,
      rc_watermark = watermark s, rc_quiet_threshold_ms = quiet_threshold_ms (wp_condition p),
      rc_window_state = (case wp_window_id p of Some w \<Rightarrow> bt_get (windows s) w | None \<Rightarrow> None),
      rc_global_last_commit_seq = global_last_commit_seq s, rc_timed_out = timed_out\<rparr>"

definition plan_horizon :: "WaitPlan \<Rightarrow> u64 \<Rightarrow> u64" where
  "plan_horizon p anchor =
     (case plan_quiet_deadline_ms p anchor of
        None \<Rightarrow> plan_deadline_ms p
      | Some quiet \<Rightarrow> min quiet (plan_deadline_ms p))"

section \<open>The wait loop\<close>

datatype WaitPc =
    WBegin
  | WPlan u64
  | WValidate
  | WSubscribe
  | WRegister
  | WHead
  | WClock u64
  | WLook u64 u64
  | WJudge u64 u64 bool u64
  | WSleep u64
  | WPark instant
  | WNow bool
  | WResolve bool u64
  | WRelease Observation
  | WDone Observation
  | WFailed ObserverError
  | WCancelled

record WaitTask =
  wt_pc :: WaitPc
  wt_plan :: WaitPlan
  wt_acc :: Accumulator
  wt_cursor :: u64
  wt_seen :: nat

definition wait_key :: "WaitPlan \<Rightarrow> u64 \<times> u64" where
  "wait_key p = (fl_min_seq (wp_filters p), wp_started_at p)"

text \<open>
  One turn of the waiting task. \<open>pick\<close> is the choice of \<open>select!\<close> when both branches are ready.
\<close>

fun wait_turn :: "WaitRequest \<Rightarrow> bool \<Rightarrow> instant \<Rightarrow> Observer \<times> WaitTask \<Rightarrow> Observer \<times> WaitTask" where
  "wait_turn request pick now (v, t) =
     (let p = wt_plan t in
      case wt_pc t of
        WBegin \<Rightarrow> (v, t\<lparr>wt_pc := WPlan (now_ms (sv_clock v) now)\<rparr>)
      | WPlan started_at \<Rightarrow>
          (case wait_plan v request started_at of
             Inl e \<Rightarrow> (v, t\<lparr>wt_pc := WFailed e\<rparr>)
           | Inr q \<Rightarrow> (v, t\<lparr>wt_pc := WValidate, wt_plan := q\<rparr>))
      | WValidate \<Rightarrow>
          (case wp_window_id p of
             Some w \<Rightarrow> if bt_contains (windows (sv_state v)) w then (v, t\<lparr>wt_pc := WSubscribe\<rparr>)
                       else (v, t\<lparr>wt_pc := WFailed (ObsUnknownWindow w)\<rparr>)
           | None \<Rightarrow> (v, t\<lparr>wt_pc := WSubscribe\<rparr>))
      | WSubscribe \<Rightarrow> (v, t\<lparr>wt_pc := WRegister, wt_seen := sv_version v\<rparr>)
      | WRegister \<Rightarrow>
          (v\<lparr>sv_state := guard_register (wp_window_id p) (wait_key p) (sv_state v)\<rparr>,
           t\<lparr>wt_pc := WHead, wt_acc := Accumulator_new (wp_filters p), wt_cursor := fl_min_seq (wp_filters p)\<rparr>)
      | WHead \<Rightarrow> (v, t\<lparr>wt_pc := WClock (sv_generation v)\<rparr>)
      | WClock generation \<Rightarrow> (v, t\<lparr>wt_pc := WLook generation (now_ms (sv_clock v) now)\<rparr>)
      | WLook generation at \<Rightarrow>
          let (a, cursor) = absorb_since p (sv_state v) (wt_acc t, wt_cursor t)
          in (v, t\<lparr>wt_pc := WJudge generation at (condition_met (wp_condition p) a (wp_anchor_ts p) at)
                              (commit_anchor a (wp_anchor_ts p)),
                   wt_acc := a, wt_cursor := cursor\<rparr>)
      | WJudge generation at met anchor \<Rightarrow>
          if met \<and> sv_generation v \<noteq> generation then (v, t\<lparr>wt_pc := WHead\<rparr>)
          else if met then (v, t\<lparr>wt_pc := WNow False\<rparr>)
          else if plan_deadline_ms p \<le> at then (v, t\<lparr>wt_pc := WNow (wp_condition p \<noteq> WaitTimeout)\<rparr>)
          else (v, t\<lparr>wt_pc := WSleep (plan_horizon p anchor)\<rparr>)
      | WSleep horizon \<Rightarrow> (v, t\<lparr>wt_pc := WPark (clock_deadline (sv_clock v) horizon now)\<rparr>)
      | WPark until \<Rightarrow>
          if sv_version v \<noteq> wt_seen t \<and> (pick \<or> now < until)
          then (v, t\<lparr>wt_pc := WHead, wt_seen := sv_version v\<rparr>)
          else if until \<le> now then (v, t\<lparr>wt_pc := WHead\<rparr>)
          else (v, t)
      | WNow timed_out \<Rightarrow> (v, t\<lparr>wt_pc := WResolve timed_out (now_ms (sv_clock v) now)\<rparr>)
      | WResolve timed_out at \<Rightarrow>
          (v, t\<lparr>wt_pc := WRelease (ac_resolve (wt_acc t) (resolve_context p (sv_state v) at timed_out))\<rparr>)
      | WRelease obs \<Rightarrow>
          (v\<lparr>sv_state := guard_drop (wp_window_id p) (wait_key p) (sv_state v)\<rparr>, t\<lparr>wt_pc := WDone obs\<rparr>)
      | _ \<Rightarrow> (v, t))"

text \<open>The guard is alive from registration to release; dropping the task drops it.\<close>

fun guard_alive :: "WaitPc \<Rightarrow> bool" where
  "guard_alive WHead = True"
| "guard_alive (WClock _) = True"
| "guard_alive (WLook _ _) = True"
| "guard_alive (WJudge _ _ _ _) = True"
| "guard_alive (WSleep _) = True"
| "guard_alive (WPark _) = True"
| "guard_alive (WNow _) = True"
| "guard_alive (WResolve _ _) = True"
| "guard_alive (WRelease _) = True"
| "guard_alive _ = False"

definition wait_cancel :: "Observer \<times> WaitTask \<Rightarrow> Observer \<times> WaitTask" where
  "wait_cancel q =
     (let v = fst q; t = snd q; p = wt_plan t
      in ((if guard_alive (wt_pc t)
           then v\<lparr>sv_state := guard_drop (wp_window_id p) (wait_key p) (sv_state v)\<rparr> else v),
          t\<lparr>wt_pc := WCancelled\<rparr>))"

section \<open>Schedules\<close>

text \<open>
  What can happen between two turns: the sections of \<open>handle_event\<close> and \<open>resync\<close> (the clock, the
  state, the bump; \<open>y_unsent\<close> counts the calls whose bump is still to come), other requests, the
  passing of time, and the cancellation of the task.
\<close>

record WaitSys =
  y_obs :: Observer
  y_task :: WaitTask
  y_time :: instant
  y_unsent :: nat

datatype ObsStep =
    EClock u64
  | EEvent RuntimeEvent
  | EResync StateSnapshot
  | EBump
  | EAction ActionKind "WindowId option" "Position option"
  | EJoin "WindowId option" "u64 \<times> u64"
  | ELeave "WindowId option" "u64 \<times> u64"
  | EElapse nat
  | ETurn bool
  | ECancel

definition with_state :: "(ServiceState \<Rightarrow> ServiceState) \<Rightarrow> Observer \<Rightarrow> Observer" where
  "with_state f v = v\<lparr>sv_state := f (sv_state v)\<rparr>"

fun obs_step :: "WaitRequest \<Rightarrow> ObsStep \<Rightarrow> WaitSys \<Rightarrow> WaitSys" where
  "obs_step rq (EClock ts) y = y\<lparr>y_obs := service_observe_ts ts (y_time y) (y_obs y)\<rparr>"
| "obs_step rq (EEvent e) y =
     y\<lparr>y_obs := with_state (state_handle_event e) (y_obs y), y_unsent := Suc (y_unsent y)\<rparr>"
| "obs_step rq (EResync snap) y =
     (let (s, report, used) = state_resync snap (sv_state (y_obs y))
      in y\<lparr>y_obs := (y_obs y)\<lparr>sv_state := s\<rparr>, y_unsent := (if used then Suc (y_unsent y) else y_unsent y)\<rparr>)"
| "obs_step rq EBump y =
     (if y_unsent y = 0 then y
      else y\<lparr>y_obs := bump_generation (y_obs y), y_unsent := y_unsent y - 1\<rparr>)"
| "obs_step rq (EAction kind w pos) y =
     y\<lparr>y_obs := fst (record_action kind w pos (y_time y) (y_obs y))\<rparr>"
| "obs_step rq (EJoin w key) y = y\<lparr>y_obs := with_state (guard_register w key) (y_obs y)\<rparr>"
| "obs_step rq (ELeave w key) y = y\<lparr>y_obs := with_state (guard_drop w key) (y_obs y)\<rparr>"
| "obs_step rq (EElapse d) y = y\<lparr>y_time := y_time y + d\<rparr>"
| "obs_step rq (ETurn pick) y =
     (let (v, t) = wait_turn rq pick (y_time y) (y_obs y, y_task y) in y\<lparr>y_obs := v, y_task := t\<rparr>)"
| "obs_step rq ECancel y =
     (let (v, t) = wait_cancel (y_obs y, y_task y) in y\<lparr>y_obs := v, y_task := t\<rparr>)"

definition idle_plan :: WaitPlan where
  "idle_plan = \<lparr>wp_window_id = None, wp_after_action = None, wp_filters = Filters_new None 0 None,
     wp_condition = WaitChange, wp_timeout_ms = 0, wp_anchor_ts = 0, wp_started_at = 0\<rparr>"

definition task_start :: WaitTask where
  "task_start = \<lparr>wt_pc = WBegin, wt_plan = idle_plan, wt_acc = Accumulator_new (Filters_new None 0 None),
     wt_cursor = 0, wt_seen = 0\<rparr>"

definition wait_init :: "Observer \<Rightarrow> instant \<Rightarrow> nat \<Rightarrow> WaitSys" where
  "wait_init v now unsent = \<lparr>y_obs = v, y_task = task_start, y_time = now, y_unsent = unsent\<rparr>"

definition wait_schedule :: "WaitRequest \<Rightarrow> ObsStep list \<Rightarrow> WaitSys \<Rightarrow> WaitSys" where
  "wait_schedule rq ops y = fold (obs_step rq) ops y"

lemma wait_schedule_simps [simp]:
  "wait_schedule rq [] y = y"
  "wait_schedule rq (op # ops) y = wait_schedule rq ops (obs_step rq op y)"
  "wait_schedule rq (ops @ ops') y = wait_schedule rq ops' (wait_schedule rq ops y)"
  by (simp_all add: wait_schedule_def)

definition sys_now_ms :: "WaitSys \<Rightarrow> u64" where
  "sys_now_ms y = now_ms (sv_clock (y_obs y)) (y_time y)"

text \<open>An environment step leaves the task alone and the clock never goes back.\<close>

fun env_step :: "ObsStep \<Rightarrow> bool" where
  "env_step (ETurn _) = False"
| "env_step ECancel = False"
| "env_step _ = True"

lemma env_keeps_task: "env_step op \<Longrightarrow> y_task (obs_step rq op y) = y_task y"
  by (cases op) (simp_all add: Let_def split: prod.split)

lemma turn_clock: "sv_clock (fst (wait_turn rq pick now (v, t))) = sv_clock v"
  by (auto simp: Let_def split: WaitPc.split option.split sum.split prod.split)

lemma step_now_mono: "sys_now_ms y \<le> sys_now_ms (obs_step rq op y)"
proof (cases op)
  case (EClock ts)
  then show ?thesis
    by (simp add: sys_now_ms_def service_observe_ts_def observe_ts_now)
next
  case (EElapse d)
  then show ?thesis by (simp add: sys_now_ms_def now_ms_mono)
next
  case (ETurn pick)
  then show ?thesis
    using turn_clock[of rq pick "y_time y" "y_obs y" "y_task y"]
    by (simp add: sys_now_ms_def case_prod_beta del: wait_turn.simps)
qed (auto simp: sys_now_ms_def with_state_def bump_generation_def record_action_def wait_cancel_def
    Let_def case_prod_beta)

section \<open>The verdict\<close>

definition verdict :: "WaitPlan \<Rightarrow> Accumulator \<Rightarrow> bool \<Rightarrow> u64 \<Rightarrow> bool" where
  "verdict p a timed_out at \<longleftrightarrow>
     (timed_out \<longrightarrow> wp_condition p \<noteq> WaitTimeout \<and> plan_deadline_ms p \<le> at) \<and>
     (\<not> timed_out \<longrightarrow>
        (if wp_condition p = WaitTimeout then plan_deadline_ms p \<le> at
         else condition_met (wp_condition p) a (wp_anchor_ts p) at))"

lemma condition_met_mono: "condition_met c a ts n \<Longrightarrow> n \<le> n' \<Longrightarrow> condition_met c a ts n'"
  by (cases c) (auto simp: condition_met_def intro: order.trans saturating_sub_mono)

lemma verdict_mono: "verdict p a b n \<Longrightarrow> n \<le> n' \<Longrightarrow> verdict p a b n'"
  using condition_met_mono[of "wp_condition p" a "wp_anchor_ts p" n n']
  by (auto simp: verdict_def split: if_splits)

definition result_ok :: "WaitPlan \<Rightarrow> Observation \<Rightarrow> bool" where
  "result_ok p obs \<longleftrightarrow>
     (\<exists>a s at timed_out. obs = ac_resolve a (resolve_context p s at timed_out) \<and>
        verdict p a timed_out at \<and> wp_started_at p \<le> at)"

text \<open>What the position of the task says about its plan, its accumulator and the time.\<close>

fun pc_ok :: "WaitPlan \<Rightarrow> Accumulator \<Rightarrow> u64 \<Rightarrow> WaitPc \<Rightarrow> bool" where
  "pc_ok p a now (WPlan started_at) \<longleftrightarrow> started_at \<le> now"
| "pc_ok p a now (WLook g at) \<longleftrightarrow> wp_started_at p \<le> now \<and> at \<le> now"
| "pc_ok p a now (WJudge g at met anchor) \<longleftrightarrow> wp_started_at p \<le> now \<and> at \<le> now \<and>
     (met \<longleftrightarrow> condition_met (wp_condition p) a (wp_anchor_ts p) at)"
| "pc_ok p a now (WNow timed_out) \<longleftrightarrow> wp_started_at p \<le> now \<and> verdict p a timed_out now"
| "pc_ok p a now (WResolve timed_out at) \<longleftrightarrow> wp_started_at p \<le> at \<and> verdict p a timed_out at"
| "pc_ok p a now (WRelease obs) \<longleftrightarrow> result_ok p obs"
| "pc_ok p a now (WDone obs) \<longleftrightarrow> result_ok p obs"
| "pc_ok p a now pc \<longleftrightarrow> pc \<in> {WBegin, WCancelled} \<or> (\<exists>e. pc = WFailed e) \<or> wp_started_at p \<le> now"

definition verdict_inv :: "WaitSys \<Rightarrow> bool" where
  "verdict_inv y \<longleftrightarrow> pc_ok (wt_plan (y_task y)) (wt_acc (y_task y)) (sys_now_ms y) (wt_pc (y_task y))"

lemma pc_ok_mono: "pc_ok p a now pc \<Longrightarrow> now \<le> now' \<Longrightarrow> pc_ok p a now' pc"
  by (cases pc) (auto intro: verdict_mono)

lemma plan_started: "wait_plan v rq started = Inr p \<Longrightarrow> wp_started_at p = started"
  by (cases rq) (auto split: sum.splits prod.splits)

lemma condition_not_timeout: "condition_met c a ts m \<Longrightarrow> c \<noteq> WaitTimeout"
  by (auto simp: condition_met_def)

lemma pc_ok_turn:
  assumes "pc_ok (wt_plan t) (wt_acc t) (now_ms (sv_clock v) n) (wt_pc t)"
    and "wait_turn rq pick n (v, t) = (v', t')"
  shows "pc_ok (wt_plan t') (wt_acc t') (now_ms (sv_clock v) n) (wt_pc t')"
proof (cases "wt_pc t")
  case (WPlan st)
  with assms show ?thesis using plan_started[of v rq st] by (auto split: sum.splits)
next
  case (WJudge g at met anchor)
  with assms show ?thesis
    using condition_met_mono[of "wp_condition (wt_plan t)" "wt_acc t" "wp_anchor_ts (wt_plan t)" at "now_ms (sv_clock v) n"]
    by (auto simp: Let_def verdict_def dest: condition_not_timeout split: if_splits)
next
  case (WResolve b at)
  have "result_ok (wt_plan t) (ac_resolve (wt_acc t) (resolve_context (wt_plan t) (sv_state v) at b))"
    unfolding result_ok_def using assms(1) WResolve by auto
  with assms(2) WResolve show ?thesis by auto
qed (use assms in \<open>auto simp: Let_def split: option.splits if_splits prod.splits\<close>)

lemma verdict_inv_env:
  "verdict_inv y \<Longrightarrow> y_task y' = y_task y \<Longrightarrow> sys_now_ms y \<le> sys_now_ms y' \<Longrightarrow> verdict_inv y'"
  by (simp add: verdict_inv_def pc_ok_mono)

lemma verdict_inv_turn:
  assumes "verdict_inv y"
  shows "verdict_inv (obs_step rq (ETurn pick) y)"
proof -
  obtain v' t' where t: "wait_turn rq pick (y_time y) (y_obs y, y_task y) = (v', t')" by fastforce
  then have "sv_clock v' = sv_clock (y_obs y)"
    using turn_clock[of rq pick "y_time y" "y_obs y" "y_task y"] by simp
  with assms pc_ok_turn[OF _ t] t show ?thesis
    by (simp add: verdict_inv_def sys_now_ms_def del: wait_turn.simps)
qed

lemma verdict_inv_step: "verdict_inv y \<Longrightarrow> verdict_inv (obs_step rq op y)"
proof -
  assume inv: "verdict_inv y"
  show ?thesis
  proof (cases "env_step op")
    case True
    then show ?thesis using verdict_inv_env[OF inv] env_keeps_task step_now_mono by blast
  next
    case False
    then consider pick where "op = ETurn pick" | "op = ECancel" by (cases op) auto
    then show ?thesis
    proof cases
      case 1
      then show ?thesis using verdict_inv_turn[OF inv] by simp
    next
      case 2
      then show ?thesis by (simp add: verdict_inv_def wait_cancel_def Let_def)
    qed
  qed
qed

lemma verdict_inv_schedule: "verdict_inv (wait_schedule rq ops (wait_init v now u))"
proof (induction ops rule: rev_induct)
  case Nil
  show ?case by (simp add: verdict_inv_def wait_init_def task_start_def)
next
  case (snoc op ops)
  then show ?case by (simp add: verdict_inv_step)
qed

lemma done_result:
  assumes "wt_pc (y_task (wait_schedule rq ops (wait_init v now u))) = WDone obs"
  shows "result_ok (wt_plan (y_task (wait_schedule rq ops (wait_init v now u)))) obs"
  using verdict_inv_schedule[of rq ops v now u] assms by (simp add: verdict_inv_def)

text \<open>Reading the verdict off the observation.\<close>

lemma quiet_evidence:
  assumes "verdict p a False at" "wp_condition p = WaitQuiet q"
  shows "q \<le> saturating_sub at (quiet_anchor a (wp_anchor_ts p))"
proof -
  have "quiet_anchor a (wp_anchor_ts p) \<le> commit_anchor a (wp_anchor_ts p)"
    by (auto simp: quiet_anchor_def commit_anchor_def split: option.split)
  then have "saturating_sub at (commit_anchor a (wp_anchor_ts p)) \<le> saturating_sub at (quiet_anchor a (wp_anchor_ts p))"
    by (rule saturating_sub_antimono)
  moreover have "q \<le> saturating_sub at (commit_anchor a (wp_anchor_ts p))"
    using assms by (simp add: verdict_def condition_met_def)
  ultimately show ?thesis by (rule order.trans[rotated])
qed

lemma result_quiet:
  assumes "result_ok p obs" "wp_condition p = WaitQuiet q" "\<not> ob_timed_out obs"
  shows "ob_quiet obs"
proof -
  obtain a s at timed_out where o: "obs = ac_resolve a (resolve_context p s at timed_out)"
    "verdict p a timed_out at"
    using assms(1) by (auto simp: result_ok_def)
  then have "\<not> timed_out" using assms(3) by (simp add: ac_resolve_def resolve_context_def)
  with o quiet_evidence[of p a at q] assms(2) show ?thesis
    by (simp add: ac_resolve_def resolve_context_def)
qed

lemma result_elapsed:
  assumes "result_ok p obs" "ob_timed_out obs \<or> wp_condition p = WaitTimeout"
  shows "saturating_sub (plan_deadline_ms p) (wp_started_at p) \<le> ob_elapsed_ms obs"
proof -
  obtain a s at timed_out where o: "obs = ac_resolve a (resolve_context p s at timed_out)"
    "verdict p a timed_out at"
    using assms(1) by (auto simp: result_ok_def)
  have "plan_deadline_ms p \<le> at"
    using o assms(2) by (cases timed_out) (auto simp: verdict_def ac_resolve_def resolve_context_def)
  then show ?thesis using o by (simp add: ac_resolve_def resolve_context_def saturating_sub_mono)
qed

lemma result_timeout_condition:
  "result_ok p obs \<Longrightarrow> wp_condition p = WaitTimeout \<Longrightarrow> \<not> ob_timed_out obs"
  by (auto simp: result_ok_def verdict_def ac_resolve_def resolve_context_def)

section \<open>No lost wakeup\<close>

lemma absorb_event_snd: "snd (absorb_event p s e q) = max (snd q) (ce_seq e)"
  by (auto simp: absorb_event_def Let_def max_def)

lemma fold_absorb_snd:
  "snd q \<le> snd (fold (absorb_event p s) es q) \<and> (\<forall>e \<in> set es. ce_seq e \<le> snd (fold (absorb_event p s) es q))"
proof (induction es arbitrary: q)
  case (Cons e es)
  from Cons.IH[of "absorb_event p s e q"] show ?case
    by (auto simp: absorb_event_snd intro: order.trans)
qed simp

lemma absorb_since_exhausts:
  assumes "journal_ok (journal s)"
  shows "journal_since (snd (absorb_since p s q)) (journal s) = []"
proof -
  have "ce_seq e \<le> snd (absorb_since p s q)" if e: "e \<in> set (ej_buf (journal s))" for e
  proof (cases "snd q < ce_seq e")
    case True
    with e assms have "e \<in> set (journal_since (snd q) (journal s))" by (simp add: journal_since_eq)
    then show ?thesis unfolding absorb_since_def using fold_absorb_snd by blast
  next
    case False
    moreover have "snd q \<le> snd (absorb_since p s q)" unfolding absorb_since_def using fold_absorb_snd by blast
    ultimately show ?thesis by simp
  qed
  then show ?thesis using assms by (force simp: journal_since_eq filter_empty_conv not_less)
qed

fun looked :: "WaitPc \<Rightarrow> bool" where
  "looked (WJudge _ _ _ _) = True"
| "looked (WSleep _) = True"
| "looked (WPark _) = True"
| "looked _ = False"

definition sys_ok :: "WaitSys \<Rightarrow> bool" where
  "sys_ok y \<longleftrightarrow> journal_ok (journal (sv_state (y_obs y)))"

definition lost_inv :: "WaitSys \<Rightarrow> bool" where
  "lost_inv y \<longleftrightarrow> sys_ok y \<and>
     wt_seen (y_task y) \<le> sv_version (y_obs y) \<and>
     (looked (wt_pc (y_task y)) \<and> wt_seen (y_task y) = sv_version (y_obs y) \<and> y_unsent y = 0 \<longrightarrow>
        journal_since (wt_cursor (y_task y)) (journal (sv_state (y_obs y))) = [])"

lemma state_event_journal_ok: "journal_ok (journal s) \<Longrightarrow> journal_ok (journal (state_handle_event e s))"
  by (simp add: journal_ok_push split: option.split)

lemma state_resync_journal_ok:
  "journal_ok (journal s) \<Longrightarrow> journal_ok (journal (fst (state_resync snap s)))"
  by (cases "ss_seq snap < watermark s")
    (simp_all add: resync_stale state_resync_used Let_def journal_ok_fold journal_ok_prune)

lemma guard_keeps_journal [simp]:
  "journal (guard_register w key s) = journal s" "journal (guard_drop w key s) = journal s"
  by (auto simp: guard_register_def guard_drop_def Let_def split: option.split)

lemma action_keeps_journal [simp]: "journal (action_window kind w ts s) = journal s"
  by (simp add: action_window_def split: option.split)

lemma resync_used_iff: "snd (snd (state_resync snap s)) \<longleftrightarrow> \<not> ss_seq snap < watermark s"
  by (simp add: state_resync_def Let_def split: prod.split)

lemma lost_inv_env:
  assumes inv: "lost_inv y" and env: "env_step op"
  shows "lost_inv (obs_step rq op y)"
proof (cases op)
  case (EEvent e)
  with inv show ?thesis
    by (simp add: lost_inv_def sys_ok_def with_state_def state_event_journal_ok del: state_handle_event_simps)
next
  case (EResync snap)
  show ?thesis
  proof (cases "ss_seq snap < watermark (sv_state (y_obs y))")
    case True
    with EResync inv resync_stale[OF True] show ?thesis
      by (auto simp: lost_inv_def sys_ok_def case_prod_beta resync_used_iff)
  next
    case False
    then have "snd (snd (state_resync snap (sv_state (y_obs y))))" by (simp add: resync_used_iff)
    with EResync inv state_resync_journal_ok show ?thesis
      by (auto simp: lost_inv_def sys_ok_def case_prod_beta)
  qed
qed (use inv env in \<open>auto simp: lost_inv_def sys_ok_def with_state_def bump_generation_def
    record_action_def service_observe_ts_def Let_def case_prod_beta\<close>)

lemma lost_inv_turn:
  assumes inv: "lost_inv y"
  shows "lost_inv (obs_step rq (ETurn pick) y)"
proof -
  obtain v t n u where y: "y = \<lparr>y_obs = v, y_task = t, y_time = n, y_unsent = u\<rparr>" by (cases y) auto
  show ?thesis
  proof (cases "wt_pc t")
    case (WLook g at)
    have "journal_since (snd (absorb_since (wt_plan t) (sv_state v) (wt_acc t, wt_cursor t))) (journal (sv_state v)) = []"
      using inv by (intro absorb_since_exhausts) (simp add: y lost_inv_def sys_ok_def)
    with WLook inv show ?thesis
      by (simp add: y lost_inv_def sys_ok_def Let_def case_prod_beta)
  qed (use inv in \<open>auto simp: y lost_inv_def sys_ok_def Let_def split: option.split sum.split\<close>)
qed

lemma lost_inv_step: "lost_inv y \<Longrightarrow> lost_inv (obs_step rq op y)"
proof -
  assume inv: "lost_inv y"
  show ?thesis
  proof (cases "env_step op")
    case False
    then consider pick where "op = ETurn pick" | "op = ECancel" by (cases op) auto
    then show ?thesis
    proof cases
      case 1
      then show ?thesis using lost_inv_turn[OF inv] by simp
    next
      case 2
      with inv show ?thesis by (auto simp: lost_inv_def sys_ok_def wait_cancel_def Let_def)
    qed
  qed (rule lost_inv_env[OF inv])
qed

lemma lost_inv_schedule:
  assumes "journal_ok (journal (sv_state v))"
  shows "lost_inv (wait_schedule rq ops (wait_init v now u))"
proof (induction ops rule: rev_induct)
  case Nil
  show ?case using assms by (simp add: lost_inv_def sys_ok_def wait_init_def task_start_def)
next
  case (snoc op ops)
  then show ?case by (simp add: lost_inv_step)
qed

text \<open>
  The evidence flag and the condition measure from different anchors when the last counted
  commit carries an older timestamp than the anchor: a quiet flag without a met condition.
\<close>

lemma evidence_without_condition:
  assumes "ac_last_commit_ts a = Some ts" "ts < wp_anchor_ts p" "wp_condition p = WaitQuiet q"
    and "q \<le> saturating_sub at ts" "saturating_sub at (wp_anchor_ts p) < q"
  shows "\<not> condition_met (wp_condition p) a (wp_anchor_ts p) at \<and>
    ob_quiet (ac_resolve a (resolve_context p s at True))"
  using assms
  by (auto simp: condition_met_def commit_anchor_def max_def ac_resolve_def resolve_context_def
      quiet_anchor_def not_le)

section \<open>The wait returns\<close>

lemma head_returns:
  assumes "wt_pc t = WHead" "plan_deadline_ms (wt_plan t) \<le> now_ms (sv_clock v) n"
    and y: "y = \<lparr>y_obs = v, y_task = t, y_time = n, y_unsent = u\<rparr>"
  shows "\<exists>obs. wt_pc (y_task (wait_schedule rq (replicate 7 (ETurn pick)) y)) = WDone obs"
  using assms(1,2) by (simp add: y numeral_eq_Suc Let_def case_prod_beta)

lemma parked_returns:
  assumes "wt_pc t = WPark until" "until \<le> n \<or> sv_version v \<noteq> wt_seen t"
    and "plan_deadline_ms (wt_plan t) \<le> now_ms (sv_clock v) n"
    and y: "y = \<lparr>y_obs = v, y_task = t, y_time = n, y_unsent = u\<rparr>"
  shows "\<exists>obs. wt_pc (y_task (wait_schedule rq (replicate 8 (ETurn pick)) y)) = WDone obs"
proof -
  obtain seen where turn: "obs_step rq (ETurn pick) y =
      \<lparr>y_obs = v, y_task = t\<lparr>wt_pc := WHead, wt_seen := seen\<rparr>, y_time = n, y_unsent = u\<rparr>"
  proof -
    have "\<exists>seen. obs_step rq (ETurn pick) y =
      \<lparr>y_obs = v, y_task = t\<lparr>wt_pc := WHead, wt_seen := seen\<rparr>, y_time = n, y_unsent = u\<rparr>"
    proof (cases "sv_version v \<noteq> wt_seen t \<and> (pick \<or> n < until)")
      case True
      then show ?thesis using assms(1) by (auto simp: y intro!: exI[of _ "sv_version v"])
    next
      case False
      with assms(2) have "until \<le> n" by auto
      with False assms(1) show ?thesis by (auto simp: y intro!: exI[of _ "wt_seen t"])
    qed
    then show ?thesis using that by blast
  qed
  have "\<exists>obs. wt_pc (y_task (wait_schedule rq (replicate 7 (ETurn pick)) (obs_step rq (ETurn pick) y))) = WDone obs"
    using assms(3) by (intro head_returns[OF _ _ turn]) simp_all
  then show ?thesis by (simp add: eval_nat_numeral del: obs_step.simps)
qed

section \<open>Looking twice counts nothing twice\<close>

text \<open>A look before each burst of events and one after the last.\<close>

primrec look_all ::
  "WaitPlan \<Rightarrow> ServiceState \<Rightarrow> CountedEvent list list \<Rightarrow> Accumulator \<times> u64 \<Rightarrow> Accumulator \<times> u64" where
  "look_all p s [] q = absorb_since p s q"
| "look_all p s (burst # bursts) q =
     look_all p (s\<lparr>journal := fold journal_push burst (journal s)\<rparr>) bursts (absorb_since p s q)"

lemma absorb_event_journal [simp]: "absorb_event p (s\<lparr>journal := j\<rparr>) = absorb_event p s"
  by (simp add: absorb_event_def fun_eq_iff split: option.split)

lemma fold_absorb_least:
  "snd q < k \<Longrightarrow> (\<forall>e \<in> set es. ce_seq e < k) \<Longrightarrow> snd (fold (absorb_event p s) es q) < k"
  by (induction es arbitrary: q) (auto simp: absorb_event_snd)

lemma sorted_drop_append: "sorted_wrt R (xs @ ys) \<Longrightarrow> sorted_wrt R (drop k xs @ ys)"
  by (auto simp: sorted_wrt_append sorted_wrt_drop dest: in_set_dropD)

lemma last_n_suffix:
  assumes "length ys \<le> n"
  shows "\<exists>zs. last_n n (xs @ ys) = zs @ ys \<and> set zs \<subseteq> set xs"
proof -
  have "last_n n (xs @ ys) = drop (length xs + length ys - n) xs @ ys"
    using assms by (simp add: last_n_def)
  then show ?thesis
    using set_drop_subset[of "length xs + length ys - n" xs] by (intro exI conjI)
qed

lemma look_all_once:
  assumes "journal_ok (journal s)" "\<forall>b \<in> set bursts. length b \<le> ej_capacity (journal s)"
    and "sorted_wrt (<) (map ce_seq (ej_buf (journal s) @ concat bursts))"
  shows "look_all p s bursts q =
    fold (absorb_event p s) (filter (\<lambda>e. snd q < ce_seq e) (ej_buf (journal s) @ concat bursts)) q"
  using assms
proof (induction bursts arbitrary: s q)
  case Nil
  then show ?case by (simp add: absorb_since_def journal_since_eq)
next
  case (Cons b bs)
  let ?j = "fold journal_push b (journal s)" and ?buf = "ej_buf (journal s)"
  let ?s = "s\<lparr>journal := ?j\<rparr>" and ?q = "absorb_since p s q"
  have ok: "journal_ok ?j" "ej_capacity ?j = ej_capacity (journal s)"
    using Cons.prems(1) by (simp_all add: journal_ok_fold journal.cap_fold)
  have buf: "ej_buf ?j = last_n (ej_capacity (journal s)) (?buf @ b)"
    using Cons.prems(1) by (simp add: journal_ok_def journal.contents_fold)
  obtain zs where zs: "ej_buf ?j = zs @ b" "set zs \<subseteq> set ?buf"
    using last_n_suffix[of b "ej_capacity (journal s)" ?buf] Cons.prems(2) buf by auto
  have q: "?q = fold (absorb_event p s) (filter (\<lambda>e. snd q < ce_seq e) ?buf) q"
    using Cons.prems(1) by (simp add: absorb_since_def journal_since_eq)
  have old: "ce_seq e \<le> snd ?q" if "e \<in> set ?buf" for e
    using fold_absorb_snd[of q p s "filter (\<lambda>e. snd q < ce_seq e) ?buf"] that
    unfolding q by (cases "snd q < ce_seq e") auto
  have new: "snd ?q < ce_seq e \<longleftrightarrow> snd q < ce_seq e" if "e \<in> set (b @ concat bs)" for e
  proof
    assume "snd ?q < ce_seq e"
    then show "snd q < ce_seq e"
      using fold_absorb_snd[of q p s "filter (\<lambda>e. snd q < ce_seq e) ?buf"] unfolding q by auto
  next
    assume "snd q < ce_seq e"
    moreover have "\<forall>x \<in> set ?buf. ce_seq x < ce_seq e"
    proof -
      have "sorted_wrt (<) (map ce_seq ?buf @ map ce_seq (b @ concat bs))" using Cons.prems(3) by simp
      then show ?thesis using that unfolding sorted_wrt_append by fastforce
    qed
    ultimately show "snd ?q < ce_seq e" unfolding q by (intro fold_absorb_least) auto
  qed
  have "filter (\<lambda>e. snd ?q < ce_seq e) zs = []"
    using old zs(2) by (auto simp: filter_empty_conv not_less)
  moreover have "filter (\<lambda>e. snd ?q < ce_seq e) (b @ concat bs) = filter (\<lambda>e. snd q < ce_seq e) (b @ concat bs)"
    using new by (intro filter_cong) auto
  ultimately have split: "filter (\<lambda>e. snd ?q < ce_seq e) (ej_buf ?j @ concat bs) =
      filter (\<lambda>e. snd q < ce_seq e) (b @ concat bs)"
    by (simp add: zs(1))
  have "sorted_wrt (<) (map ce_seq (ej_buf ?j @ concat bs))"
  proof -
    have "sorted_wrt (<) (map ce_seq (?buf @ b) @ map ce_seq (concat bs))" using Cons.prems(3) by simp
    from sorted_drop_append[OF this, of "length (?buf @ b) - ej_capacity (journal s)"]
    show ?thesis unfolding buf last_n_def drop_map map_append[symmetric] .
  qed
  then have "look_all p ?s bs ?q =
      fold (absorb_event p s) (filter (\<lambda>e. snd ?q < ce_seq e) (ej_buf ?j @ concat bs)) ?q"
    using Cons.IH[of ?s ?q] ok Cons.prems(2) by simp
  also have "\<dots> = fold (absorb_event p s) (filter (\<lambda>e. snd q < ce_seq e) (?buf @ concat (b # bs))) q"
    unfolding split by (simp add: q)
  finally show ?case by simp
qed

section \<open>Damage\<close>

lemma clamped_edge:
  fixes q a b :: int
  assumes "q < a" "q < 2147483647" "- 2147483648 \<le> q"
    and "max (- 2147483648) (min 2147483647 a) \<le> max (- 2147483648) (min 2147483647 b)"
  shows "q < b"
  using assms by linarith

lemma contained_in_points:
  assumes "contained_in r g" "contains r p" "inner_point p"
  shows "contains g p"
  using assms
    clamped_edge[of "sint (px p)" "sint (rx r) + uint (rw r)" "sint (rx g) + uint (rw g)"]
    clamped_edge[of "sint (py p)" "sint (ry r) + uint (rh r)" "sint (ry g) + uint (rh g)"]
  unfolding contained_in_def contains_iff inner_point_def right_def bottom_def sint_clamp_i32
  by (auto intro: order.trans)

lemma push_clipped_covers:
  assumes "inner_point p"
  shows "covers (rects (push_clipped g rs d)) p \<longleftrightarrow> covers (rects d) p \<or> (covers rs p \<and> contains g p)"
proof (induction rs arbitrary: d)
  case (Cons r rs)
  show ?case
  proof (cases "contained_in r g")
    case True
    with Cons contained_in_points[OF True _ assms] show ?thesis by auto
  next
    case False
    have "(case intersect r g of None \<Rightarrow> False | Some c \<Rightarrow> contains c p) \<longleftrightarrow> contains r p \<and> contains g p"
      using intersect_points[of r g p] by (auto split: option.split)
    with Cons False show ?thesis by (auto split: option.splits)
  qed
qed simp

lemma absorb_commit_damage:
  assumes "ce_kind e = Commit c damage" "inner_point p"
  shows "covers (rects (ac_damage (absorb e (Some g) a))) p \<longleftrightarrow>
    covers (rects (ac_damage a)) p \<or> covers (rects (region_clip damage g)) p"
  using assms by (simp add: absorb_def push_clipped_covers region_clip_covers)

section \<open>Concrete schedules\<close>

fun observed :: "WaitPc \<Rightarrow> Observation option" where
  "observed (WDone obs) = Some obs"
| "observed _ = None"

lemma observed_Some: "observed pc = Some obs \<longleftrightarrow> pc = WDone obs"
  by (cases pc) simp_all

lemmas wait_eval = wait_schedule_def wait_init_def task_start_def ObserverService_new_def Clock_new_def
  now_ms_def elapsed_ms_def action_anchor_def plan_deadline_ms_def plan_quiet_deadline_ms_def plan_horizon_def
  clock_deadline_def millis_def guard_register_def guard_drop_def absorb_since_def journal_since_def
  condition_met_def commit_anchor_def ac_counted_def Accumulator_new_def Filters_new_def
  EventJournal_new_def saturating_add_def saturating_sub_def ac_resolve_def resolve_context_def
  QuietSpec_default_def WaitSpec_default_def Let_def

text \<open>
  A quiet wait of 5 ms that sleeps once, and a change wait of 3 ms that times out: the position in
  which each is parked, how it gets there and how it ends.
\<close>

definition quiet_request :: WaitRequest where
  "quiet_request = WaitForQuiet (QuietSpec_default\<lparr>qsp_quiet_ms := 5\<rparr>)"

definition late_request :: WaitRequest where
  "late_request = WaitForChange (WaitSpec_default\<lparr>wsp_timeout_ms := 3\<rparr>)"

definition sleep_ops :: "nat \<Rightarrow> ObsStep list" where
  "sleep_ops d = [ETurn True, ETurn True, ETurn True, ETurn True, ETurn True, ETurn True, ETurn True,
     ETurn True, ETurn True, ETurn True, EElapse d]"

definition wake_ops :: "ObsStep list" where
  "wake_ops = [ETurn True, ETurn True, ETurn True, ETurn True, ETurn True, ETurn True, ETurn True, ETurn True]"

definition quiet_mid :: WaitSys where
  "quiet_mid = \<lparr>y_obs = ObserverService_new 0,
     y_task = \<lparr>wt_pc = WPark 5000000,
       wt_plan = \<lparr>wp_window_id = None, wp_after_action = None, wp_filters = Filters_new None 0 None,
         wp_condition = WaitQuiet 5, wp_timeout_ms = 5000, wp_anchor_ts = 1, wp_started_at = 1\<rparr>,
       wt_acc = Accumulator_new (Filters_new None 0 None), wt_cursor = 0, wt_seen = 0\<rparr>,
     y_time = 7000000, y_unsent = 0\<rparr>"

definition late_mid :: WaitSys where
  "late_mid = \<lparr>y_obs = ObserverService_new 0,
     y_task = \<lparr>wt_pc = WPark 3000000,
       wt_plan = \<lparr>wp_window_id = None, wp_after_action = None, wp_filters = Filters_new None 0 None,
         wp_condition = WaitChange, wp_timeout_ms = 3, wp_anchor_ts = 1, wp_started_at = 1\<rparr>,
       wt_acc = Accumulator_new (Filters_new None 0 None), wt_cursor = 0, wt_seen = 0\<rparr>,
     y_time = 5000000, y_unsent = 0\<rparr>"

lemma runs_to_mid:
  "wait_schedule quiet_request (sleep_ops 6000000) (wait_init (ObserverService_new 0) 1000000 0) = quiet_mid"
  "wait_schedule late_request (sleep_ops 4000000) (wait_init (ObserverService_new 0) 1000000 0) = late_mid"
  by (simp_all add: quiet_mid_def late_mid_def quiet_request_def late_request_def sleep_ops_def wait_eval,
    simp_all add: word_le_nat_alt)

lemma runs_end:
  "case observed (wt_pc (y_task (wait_schedule quiet_request wake_ops quiet_mid))) of
     None \<Rightarrow> False | Some obs \<Rightarrow> \<not> ob_timed_out obs"
  "wp_condition (wt_plan (y_task (wait_schedule quiet_request wake_ops quiet_mid))) = WaitQuiet 5"
  "case observed (wt_pc (y_task (wait_schedule late_request wake_ops late_mid))) of
     None \<Rightarrow> False | Some obs \<Rightarrow> ob_timed_out obs"
  "wt_plan (y_task (wait_schedule late_request wake_ops late_mid)) = wt_plan (y_task late_mid)"
  by (simp_all add: quiet_mid_def late_mid_def quiet_request_def late_request_def wake_ops_def wait_eval)

section \<open>Properties\<close>

text \<open>C1. Evidence agrees with the condition: in every schedule, a quiet wait that did not time out returns
  an observation whose \<open>quiet\<close> flag is true, although the flag is computed later and from another
  anchor than the condition.\<close>

theorem met_quiet_wait_reports_quiet:
  assumes "y = wait_schedule rq ops (wait_init v now u)" "wt_pc (y_task y) = WDone obs"
    and "wp_condition (wt_plan (y_task y)) = WaitQuiet q" "\<not> ob_timed_out obs"
  shows "ob_quiet obs"
  using done_result[of rq ops v now u obs] result_quiet[OF _ assms(3,4)] assms(1,2) by simp

theorem met_quiet_wait_reports_quiet_witness:
  "\<exists>obs. wt_pc (y_task (wait_schedule quiet_request (sleep_ops 6000000 @ wake_ops)
      (wait_init (ObserverService_new 0) 1000000 0))) = WDone obs \<and> ob_quiet obs"
proof -
  let ?y = "wait_schedule quiet_request (sleep_ops 6000000 @ wake_ops) (wait_init (ObserverService_new 0) 1000000 0)"
  have y: "?y = wait_schedule quiet_request wake_ops quiet_mid" by (simp only: wait_schedule_simps runs_to_mid)
  obtain obs where obs: "wt_pc (y_task ?y) = WDone obs" "\<not> ob_timed_out obs"
    using runs_end(1) unfolding y[symmetric] observed_Some[symmetric] by (rule case_SomeE)
  have "ob_quiet obs"
    by (rule met_quiet_wait_reports_quiet[OF refl obs(1) _ obs(2), of 5]) (simp only: y runs_end(2))
  with obs(1) show ?thesis by (intro exI[of _ obs] conjI)
qed

text \<open>C29. No wait gives up early: in every schedule an observation is marked as timed out, or returned by a
  sampling wait, only after the full timeout (saturated at the end of the clock), and a sampling wait
  never reports a timeout.\<close>

theorem timeout_is_never_early:
  assumes "y = wait_schedule rq ops (wait_init v now u)" "wt_pc (y_task y) = WDone obs"
    and "p = wt_plan (y_task y)"
  shows "(ob_timed_out obs \<or> wp_condition p = WaitTimeout \<longrightarrow>
      saturating_sub (plan_deadline_ms p) (wp_started_at p) \<le> ob_elapsed_ms obs) \<and>
    (wp_condition p = WaitTimeout \<longrightarrow> \<not> ob_timed_out obs)"
  using done_result[of rq ops v now u obs] result_elapsed[of p obs] result_timeout_condition[of p obs] assms by simp

theorem timeout_is_never_early_witness:
  "\<exists>obs. wt_pc (y_task (wait_schedule late_request (sleep_ops 4000000 @ wake_ops)
      (wait_init (ObserverService_new 0) 1000000 0))) = WDone obs \<and> ob_timed_out obs \<and> 3 \<le> ob_elapsed_ms obs"
proof -
  let ?y = "wait_schedule late_request (sleep_ops 4000000 @ wake_ops) (wait_init (ObserverService_new 0) 1000000 0)"
  have y: "?y = wait_schedule late_request wake_ops late_mid" by (simp only: wait_schedule_simps runs_to_mid)
  obtain obs where obs: "wt_pc (y_task ?y) = WDone obs" "ob_timed_out obs"
    using runs_end(3) unfolding y[symmetric] observed_Some[symmetric] by (rule case_SomeE)
  have "saturating_sub (plan_deadline_ms (wt_plan (y_task late_mid))) (wp_started_at (wt_plan (y_task late_mid))) \<le> ob_elapsed_ms obs"
    using timeout_is_never_early[OF refl obs(1) refl] obs(2) unfolding y runs_end(4) by blast
  then have "3 \<le> ob_elapsed_ms obs"
    by (simp add: late_mid_def plan_deadline_ms_def saturating_add_def saturating_sub_def)
  with obs show ?thesis by (intro exI[of _ obs] conjI)
qed



text \<open>C30. The wait ends: a task at the head of its loop whose deadline has passed returns after seven turns
  of its own, and a parked one whose sleep is over or that was woken after eight.\<close>

theorem overdue_observation_returns:
  assumes "plan_deadline_ms (wt_plan (y_task y)) \<le> sys_now_ms y"
    and "wt_pc (y_task y) = WHead \<or> (\<exists>until. wt_pc (y_task y) = WPark until \<and>
      (until \<le> y_time y \<or> sv_version (y_obs y) \<noteq> wt_seen (y_task y)))"
  shows "\<exists>n \<le> 8. \<exists>obs. wt_pc (y_task (wait_schedule rq (replicate n (ETurn pick)) y)) = WDone obs"
proof -
  obtain v t n u where y: "y = \<lparr>y_obs = v, y_task = t, y_time = n, y_unsent = u\<rparr>" by (cases y) auto
  from assms(2) consider "wt_pc t = WHead" | until where "wt_pc t = WPark until" "until \<le> n \<or> sv_version v \<noteq> wt_seen t"
    by (auto simp: y)
  then show ?thesis
  proof cases
    case 1
    then show ?thesis
      using head_returns[OF 1 _ y, of rq pick] assms(1) by (intro exI[of _ 7]) (simp add: y sys_now_ms_def)
  next
    case 2
    then show ?thesis
      using parked_returns[OF 2 _ y, of rq pick] assms(1) by (intro exI[of _ 8]) (simp add: y sys_now_ms_def)
  qed
qed

theorem overdue_observation_returns_witness:
  "\<exists>n \<le> 8. \<exists>obs. wt_pc (y_task (wait_schedule late_request (replicate n (ETurn False)) late_mid)) = WDone obs"
  by (rule overdue_observation_returns)
    (simp_all add: late_mid_def sys_now_ms_def wait_eval)

text \<open>C23. Nothing is counted twice and nothing is skipped: however often a waiter looks at the journal while
  events arrive in order, with at most a journal's capacity between two looks, it has absorbed exactly
  the events above its filter point, once each and in order.\<close>

theorem every_event_absorbed_once:
  assumes "journal_ok (journal s)" "\<forall>b \<in> set bursts. length b \<le> ej_capacity (journal s)"
    and "sorted_wrt (<) (map ce_seq (ej_buf (journal s) @ concat bursts))"
  shows "look_all p s bursts q =
    fold (absorb_event p s) (filter (\<lambda>e. snd q < ce_seq e) (ej_buf (journal s) @ concat bursts)) q"
  using assms by (rule look_all_once)

theorem every_event_absorbed_once_witness:
  "let e = (\<lambda>i. \<lparr>ce_seq = i, ce_ts_ms = 0, ce_window_id = Some (WindowId 1), ce_kind = Created\<rparr>)
   in look_all idle_plan (empty_state 2) [[e 1, e 2], [e 3]] (Accumulator_new (Filters_new None 0 None), 1) =
     fold (absorb_event idle_plan (empty_state 2)) [e 2, e 3] (Accumulator_new (Filters_new None 0 None), 1)"
  unfolding Let_def
  by (subst every_event_absorbed_once)
    (simp_all add: empty_state_def journal_ok_new, simp_all add: EventJournal_new_def)

text \<open>The damage an accumulator collects from a commit is the commit's damage clipped to the window:
  keeping contained rectangles as they are and cutting the others covers the same points.\<close>

theorem absorbed_damage_is_clipped:
  assumes "ce_kind e = Commit c damage" "inner_point p"
  shows "covers (rects (ac_damage (absorb e (Some g) a))) p \<longleftrightarrow>
    covers (rects (ac_damage a)) p \<or> covers (rects (region_clip damage g)) p"
  using assms by (rule absorb_commit_damage)

theorem absorbed_damage_is_clipped_witness:
  "\<not> covers (rects (ac_damage (absorb
      \<lparr>ce_seq = 1, ce_ts_ms = 0, ce_window_id = Some (WindowId 1), ce_kind = Commit 1 (from_rect (Rect_new 0 0 9 9))\<rparr>
      (Some (Rect_new 0 0 4 4)) (Accumulator_new (Filters_new None 0 None))))) (Point_new 5 5)"
  by (subst absorbed_damage_is_clipped)
    (simp_all add: inner_point_def Point_new_def region_clip_covers contains_iff Rect_new_def
      Accumulator_new_def region_empty_def)

end
