(* ===== verification/Rust_Text.thy ===== *)
theory Rust_Text
  imports Prelude "HOL-Library.Sublist"
begin

text \<open>
  What the sources use of \<open>str\<close>, on the UTF-8 bytes a \<open>String\<close> holds (one \<open>char\<close> of HOL per
  byte), and of \<open>std::path\<close>. The delimiters the code splits on are ASCII, so a byte of a
  multi-byte character never equals one of them; the Unicode white space \<open>trim\<close> removes is
  listed by its encodings.
\<close>

section \<open>Splitting\<close>

text \<open>\<open>str::split_once\<close> on one character.\<close>

fun split_once :: "char \<Rightarrow> string \<Rightarrow> (string \<times> string) option" where
  "split_once c [] = None"
| "split_once c (x # xs) =
     (if x = c then Some ([], xs)
      else map_option (\<lambda>(a, b). (x # a, b)) (split_once c xs))"

text \<open>\<open>str::split\<close> on one character: one more part than there are separators.\<close>

fun split_char :: "char \<Rightarrow> string \<Rightarrow> string list" where
  "split_char c [] = [[]]"
| "split_char c (x # xs) =
     (if x = c then [] # split_char c xs
      else case split_char c xs of [] \<Rightarrow> [[x]] | p # ps \<Rightarrow> (x # p) # ps)"

definition strip_prefix :: "string \<Rightarrow> string \<Rightarrow> string option" where
  "strip_prefix p s = (if prefix p s then Some (drop (length p) s) else None)"

definition strip_suffix :: "string \<Rightarrow> string \<Rightarrow> string option" where
  "strip_suffix p s = (if suffix p s then Some (take (length s - length p) s) else None)"

text \<open>\<open>str::contains\<close> a substring.\<close>

definition str_contains :: "string \<Rightarrow> string \<Rightarrow> bool" where
  "str_contains hay needle \<longleftrightarrow> sublist needle hay"

fun join_with :: "string \<Rightarrow> string list \<Rightarrow> string" where
  "join_with sep [] = []"
| "join_with sep [x] = x"
| "join_with sep (x # y # ys) = x @ sep @ join_with sep (y # ys)"

text \<open>\<open>str::lines\<close>: split at line feeds, without the empty rest after a final one and without
  one carriage return at the end of a line.\<close>

definition strip_cr :: "string \<Rightarrow> string" where
  "strip_cr l = (case strip_suffix [CHR 0x0D] l of Some l' \<Rightarrow> l' | None \<Rightarrow> l)"

definition str_lines :: "string \<Rightarrow> string list" where
  "str_lines s =
     (let ps = split_char (CHR 0x0A) s
      in map strip_cr (if last ps = [] then butlast ps else ps))"

section \<open>White space\<close>

text \<open>\<open>u8::is_ascii_whitespace\<close>: not the vertical tab.\<close>

definition is_ascii_whitespace :: "char \<Rightarrow> bool" where
  "is_ascii_whitespace c \<longleftrightarrow> c \<in> {CHR 0x20, CHR 0x09, CHR 0x0A, CHR 0x0C, CHR 0x0D}"

text \<open>The characters of \<open>char::is_whitespace\<close>, encoded.\<close>

definition unicode_spaces :: "string list" where
  "unicode_spaces =
     [[CHR 0x20], [CHR 0x09], [CHR 0x0A], [CHR 0x0B], [CHR 0x0C], [CHR 0x0D],
      [CHR 0xC2, CHR 0x85], [CHR 0xC2, CHR 0xA0], [CHR 0xE1, CHR 0x9A, CHR 0x80],
      [CHR 0xE2, CHR 0x80, CHR 0x80], [CHR 0xE2, CHR 0x80, CHR 0x81], [CHR 0xE2, CHR 0x80, CHR 0x82],
      [CHR 0xE2, CHR 0x80, CHR 0x83], [CHR 0xE2, CHR 0x80, CHR 0x84], [CHR 0xE2, CHR 0x80, CHR 0x85],
      [CHR 0xE2, CHR 0x80, CHR 0x86], [CHR 0xE2, CHR 0x80, CHR 0x87], [CHR 0xE2, CHR 0x80, CHR 0x88],
      [CHR 0xE2, CHR 0x80, CHR 0x89], [CHR 0xE2, CHR 0x80, CHR 0x8A], [CHR 0xE2, CHR 0x80, CHR 0xA8],
      [CHR 0xE2, CHR 0x80, CHR 0xA9], [CHR 0xE2, CHR 0x80, CHR 0xAF], [CHR 0xE2, CHR 0x81, CHR 0x9F],
      [CHR 0xE3, CHR 0x80, CHR 0x80]]"

lemma unicode_spaces_nonempty: "sp \<in> set unicode_spaces \<Longrightarrow> sp \<noteq> []"
  by (auto simp: unicode_spaces_def)

function strip_leading :: "string list \<Rightarrow> string \<Rightarrow> string" where
  "strip_leading sps s =
     (case find (\<lambda>sp. sp \<noteq> [] \<and> prefix sp s) sps of
        None \<Rightarrow> s
      | Some sp \<Rightarrow> strip_leading sps (drop (length sp) s))"
  by pat_completeness auto
termination
  by (relation "measure (\<lambda>(sps, s). length s)")
    (auto dest!: find_Some_mem simp: prefix_def)

declare strip_leading.simps [simp del]

definition trim_start :: "string \<Rightarrow> string" where
  "trim_start = strip_leading unicode_spaces"

definition trim_end :: "string \<Rightarrow> string" where
  "trim_end s = rev (strip_leading (map rev unicode_spaces) (rev s))"

definition trim :: "string \<Rightarrow> string" where
  "trim s = trim_end (trim_start s)"

text \<open>\<open>str::split_ascii_whitespace\<close>.\<close>

fun ascii_words :: "string \<Rightarrow> string \<Rightarrow> string list" where
  "ascii_words cur [] = (if cur = [] then [] else [cur])"
| "ascii_words cur (c # cs) =
     (if is_ascii_whitespace c
      then (if cur = [] then ascii_words [] cs else cur # ascii_words [] cs)
      else ascii_words (cur @ [c]) cs)"

definition split_ascii_whitespace :: "string \<Rightarrow> string list" where
  "split_ascii_whitespace = ascii_words []"

section \<open>ASCII case\<close>

definition ascii_lower :: "char \<Rightarrow> char" where
  "ascii_lower c = (if 0x41 \<le> (of_char c :: nat) \<and> (of_char c :: nat) \<le> 0x5A then char_of (of_char c + 0x20 :: nat) else c)"

definition eq_ignore_ascii_case :: "string \<Rightarrow> string \<Rightarrow> bool" where
  "eq_ignore_ascii_case a b \<longleftrightarrow> map ascii_lower a = map ascii_lower b"

section \<open>UTF-8\<close>

definition is_cont :: "char \<Rightarrow> bool" where
  "is_cont c \<longleftrightarrow> 0x80 \<le> (of_char c :: nat) \<and> (of_char c :: nat) < 0xC0"

text \<open>\<open>str::from_utf8\<close>: no overlong forms, no surrogates, nothing above U+10FFFF.\<close>

fun utf8_valid :: "string \<Rightarrow> bool" where
  "utf8_valid [] = True"
| "utf8_valid (a # s) =
     (let x = of_char a :: nat
      in if x < 0x80 then utf8_valid s
         else if 0xC2 \<le> x \<and> x \<le> 0xDF then
           (case s of b # s' \<Rightarrow> is_cont b \<and> utf8_valid s' | [] \<Rightarrow> False)
         else if 0xE0 \<le> x \<and> x \<le> 0xEF then
           (case s of
              b # c # s' \<Rightarrow> is_cont b \<and> is_cont c \<and>
                (x = 0xE0 \<longrightarrow> 0xA0 \<le> (of_char b :: nat)) \<and> (x = 0xED \<longrightarrow> (of_char b :: nat) < 0xA0) \<and>
                utf8_valid s'
            | _ \<Rightarrow> False)
         else if 0xF0 \<le> x \<and> x \<le> 0xF4 then
           (case s of
              b # c # d # s' \<Rightarrow> is_cont b \<and> is_cont c \<and> is_cont d \<and>
                (x = 0xF0 \<longrightarrow> 0x90 \<le> (of_char b :: nat)) \<and> (x = 0xF4 \<longrightarrow> (of_char b :: nat) < 0x90) \<and>
                utf8_valid s'
            | _ \<Rightarrow> False)
         else False)"

section \<open>Paths\<close>

text \<open>
  \<open>Path::components\<close> on Unix: repeated and trailing separators vanish, and so does \<open>.\<close> except
  as the very first component of a relative path. Paths are equal when their components are.
\<close>

datatype component = RootDir | CurDir | ParentDir | NormalComp string

definition component_of :: "string \<Rightarrow> component" where
  "component_of p = (if p = ''..'' then ParentDir else NormalComp p)"

definition path_components :: "string \<Rightarrow> component list" where
  "path_components s =
     (let ps = split_char (CHR ''/'') s;
          body = map component_of (filter (\<lambda>p. p \<noteq> [] \<and> p \<noteq> ''.'') ps)
      in if prefix ''/'' s then RootDir # body
         else if hd ps = ''.'' then CurDir # body
         else body)"

definition path_is_absolute :: "string \<Rightarrow> bool" where
  "path_is_absolute s = prefix ''/'' s"

definition path_eq :: "string \<Rightarrow> string \<Rightarrow> bool" where
  "path_eq a b \<longleftrightarrow> path_components a = path_components b"

definition path_join :: "string \<Rightarrow> string \<Rightarrow> string" where
  "path_join base p =
     (if path_is_absolute p then p
      else if base = [] \<or> suffix ''/'' base then base @ p
      else base @ ''/'' @ p)"

text \<open>\<open>Path::file_name\<close>: the last component when it is a normal one.\<close>

definition path_file_name :: "string \<Rightarrow> string option" where
  "path_file_name s =
     (case rev (path_components s) of NormalComp n # _ \<Rightarrow> Some n | _ \<Rightarrow> None)"

section \<open>Facts\<close>

lemma split_once_None: "split_once c s = None \<longleftrightarrow> c \<notin> set s"
  by (induction s) auto

lemma split_once_append: "c \<notin> set a \<Longrightarrow> split_once c (a @ c # b) = Some (a, b)"
  by (induction a) auto

lemma split_char_nonempty [simp]: "split_char c s \<noteq> []"
  by (induction s) (auto split: list.split)

lemma split_char_single: "c \<notin> set s \<Longrightarrow> split_char c s = [s]"
  by (induction s) auto

lemma split_char_append: "c \<notin> set a \<Longrightarrow> split_char c (a @ c # b) = a # split_char c b"
  by (induction a) auto

lemma split_char_no_sep: "p \<in> set (split_char c s) \<Longrightarrow> c \<notin> set p"
  by (induction s arbitrary: p) (auto split: if_splits list.splits)

lemma str_lines_append: "CHR 0x0A \<notin> set a \<Longrightarrow> str_lines (a @ CHR 0x0A # b) = strip_cr a # str_lines b"
  by (simp add: str_lines_def split_char_append Let_def)

lemma str_lines_Nil [simp]: "str_lines [] = []"
  by (simp add: str_lines_def)

lemma strip_leading_none:
  "(\<forall>sp \<in> set sps. sp = [] \<or> \<not> prefix sp s) \<Longrightarrow> strip_leading sps s = s"
  by (subst strip_leading.simps) (auto dest!: find_Some_mem split: option.split)

lemma strip_leading_suffix: "suffix (strip_leading sps s) s"
proof (induction sps s rule: strip_leading.induct)
  case (1 sps s)
  then show ?case
    by (subst strip_leading.simps)
      (auto split: option.split intro: suffix_drop suffix_order.trans)
qed

lemma trim_eq_self:
  assumes "\<forall>sp \<in> set unicode_spaces. \<not> prefix sp s \<and> \<not> suffix sp s"
  shows "trim s = s"
proof -
  have "trim_start s = s" using assms by (auto simp: trim_start_def intro!: strip_leading_none)
  moreover have "strip_leading (map rev unicode_spaces) (rev s) = rev s"
    using assms by (intro strip_leading_none) (auto simp: suffix_to_prefix)
  then have "trim_end s = s" by (simp add: trim_end_def)
  ultimately show ?thesis by (simp add: trim_def)
qed

lemma trim_Nil [simp]: "trim [] = []"
  by (rule trim_eq_self) (auto simp: unicode_spaces_def)

end
