(* ===== verification/App_Exec.thy ===== *)
theory App_Exec
  imports Rust_Text
begin

text \<open>
  \<open>Exec\<close> lines of desktop entries (\<open>crates/adesk-app-registry/src/exec.rs\<close>): the tokenizer and
  the field-code expansion. Offsets are byte offsets, as in the code; every character the code
  tests for is ASCII, so the loops over characters are loops over bytes.
\<close>

section \<open>Tokenizing\<close>

datatype ExecError = UnterminatedQuote nat

definition is_quoting_escape :: "char \<Rightarrow> bool" where
  "is_quoting_escape c \<longleftrightarrow> c \<in> {CHR 0x22, CHR 0x60, CHR ''$'', CHR 0x5C}"

text \<open>
  The loop over \<open>char_indices().peekable()\<close> with its locals: the index of the next character,
  \<open>tokens\<close>, \<open>current\<close>, \<open>started\<close> and \<open>quote_offset\<close>.
\<close>

fun tokenize_loop ::
  "nat \<Rightarrow> string list \<Rightarrow> string \<Rightarrow> bool \<Rightarrow> nat option \<Rightarrow> string \<Rightarrow> ExecError + string list" where
  "tokenize_loop i tokens current started quote_offset [] =
     (case quote_offset of
        Some offset \<Rightarrow> Inl (UnterminatedQuote offset)
      | None \<Rightarrow> Inr (if started then tokens @ [current] else tokens))"
| "tokenize_loop i tokens current started quote_offset (ch # rest) =
     (if ch = CHR 0x22 then
        tokenize_loop (i + 1) tokens current True (if quote_offset \<noteq> None then None else Some i) rest
      else if ch = CHR 0x5C then
        (case rest of
           next # rest' \<Rightarrow>
             if is_quoting_escape next
             then tokenize_loop (i + 2) tokens (current @ [next]) True quote_offset rest'
             else tokenize_loop (i + 1) tokens (current @ [CHR 0x5C]) True quote_offset rest
         | [] \<Rightarrow> tokenize_loop (i + 1) tokens (current @ [CHR 0x5C]) True quote_offset rest)
      else if quote_offset = None \<and> is_ascii_whitespace ch then
        (if started then tokenize_loop (i + 1) (tokens @ [current]) [] False quote_offset rest
         else tokenize_loop (i + 1) tokens current started quote_offset rest)
      else tokenize_loop (i + 1) tokens (current @ [ch]) True quote_offset rest)"

definition tokenize :: "string \<Rightarrow> ExecError + string list" where
  "tokenize exec = tokenize_loop 0 [] [] False None exec"

section \<open>Field codes\<close>

record ExecContext =
  xc_name :: string
  xc_icon :: "string option"
  xc_desktop_file :: "string option"
  xc_files :: "string list"

text \<open>\<open>lossy\<close> stands for the standard library's \<open>to_string_lossy\<close>, the identity on valid UTF-8.\<close>

fun expand_codes :: "(string \<Rightarrow> string) \<Rightarrow> ExecContext \<Rightarrow> string \<Rightarrow> string" where
  "expand_codes lossy ctx [] = []"
| "expand_codes lossy ctx (ch # cs) =
     (if ch \<noteq> CHR ''%'' then ch # expand_codes lossy ctx cs
      else
        (case cs of
           [] \<Rightarrow> [CHR ''%'']
         | code # rest \<Rightarrow>
             (if code = CHR ''c'' then xc_name ctx
              else if code = CHR ''k'' then
                (case xc_desktop_file ctx of Some path \<Rightarrow> lossy path | None \<Rightarrow> [])
              else if code = CHR ''%'' then [CHR ''%'']
              else if code \<in> set ''dDnNvm'' then []
              else [CHR ''%'', code]) @ expand_codes lossy ctx rest))"

definition expand_token :: "(string \<Rightarrow> string) \<Rightarrow> ExecContext \<Rightarrow> string \<Rightarrow> string list" where
  "expand_token lossy ctx token =
     (if token = [] then [[]]
      else if token = ''%f'' \<or> token = ''%u'' then
        (case xc_files ctx of first # _ \<Rightarrow> [first] | [] \<Rightarrow> [])
      else if token = ''%F'' \<or> token = ''%U'' then xc_files ctx
      else if token = ''%i'' then
        (case xc_icon ctx of Some icon \<Rightarrow> [''--icon'', icon] | None \<Rightarrow> [])
      else
        let expanded = expand_codes lossy ctx token
        in if expanded \<noteq> [] then [expanded] else [])"

definition expand_tokens :: "(string \<Rightarrow> string) \<Rightarrow> string list \<Rightarrow> ExecContext \<Rightarrow> string list" where
  "expand_tokens lossy tokens ctx = concat (map (expand_token lossy ctx) tokens)"

definition expand :: "(string \<Rightarrow> string) \<Rightarrow> string \<Rightarrow> ExecContext \<Rightarrow> ExecError + string list" where
  "expand lossy exec ctx =
     (case tokenize exec of
        Inl e \<Rightarrow> Inl e
      | Inr tokens \<Rightarrow> Inr (expand_tokens lossy tokens ctx))"

section \<open>Quoting, the reference\<close>

text \<open>
  How the desktop-entry specification writes an argument: in double quotes, with a backslash
  before each of the four special characters, and every percent sign doubled.
\<close>

fun quote_chars :: "string \<Rightarrow> string" where
  "quote_chars [] = []"
| "quote_chars (c # cs) =
     (if is_quoting_escape c then [CHR 0x5C, c] else [c]) @ quote_chars cs"

definition quote_argument :: "string \<Rightarrow> string" where
  "quote_argument a = [CHR 0x22] @ quote_chars a @ [CHR 0x22]"

fun double_percents :: "string \<Rightarrow> string" where
  "double_percents [] = []"
| "double_percents (c # cs) = (if c = CHR ''%'' then ''%%'' else [c]) @ double_percents cs"

definition exec_line :: "string list \<Rightarrow> string" where
  "exec_line args = join_with '' '' (map (quote_argument \<circ> double_percents) args)"

section \<open>Every argument vector has an Exec line\<close>

lemma tokenize_inside_quotes:
  "\<exists>j. tokenize_loop i tokens current True (Some q) (quote_chars a @ rest) =
       tokenize_loop j tokens (current @ a) True (Some q) rest"
proof (induction a arbitrary: i current)
  case Nil
  show ?case by auto
next
  case (Cons c cs)
  show ?case
  proof (cases "is_quoting_escape c")
    case True
    with Cons.IH[of "i + 2" "current @ [c]"] show ?thesis
      by (auto simp: is_quoting_escape_def)
  next
    case False
    with Cons.IH[of "i + 1" "current @ [c]"] show ?thesis
      by (auto simp: is_quoting_escape_def)
  qed
qed

lemma tokenize_quoted:
  "\<exists>j. tokenize_loop i tokens current st None (quote_argument a @ rest) =
       tokenize_loop j tokens (current @ a) True None rest"
proof -
  obtain j where "tokenize_loop (i + 1) tokens current True (Some i) (quote_chars a @ CHR 0x22 # rest) =
      tokenize_loop j tokens (current @ a) True (Some i) (CHR 0x22 # rest)"
    using tokenize_inside_quotes by blast
  then show ?thesis by (auto simp: quote_argument_def)
qed

lemma tokenize_joined:
  "tokenize_loop i tokens [] False None (join_with '' '' (map quote_argument args)) = Inr (tokens @ args)"
proof (induction args arbitrary: i tokens)
  case (Cons a args)
  show ?case
  proof (cases args)
    case Nil
    obtain j where "tokenize_loop i tokens [] False None (quote_argument a @ []) =
        tokenize_loop j tokens ([] @ a) True None []"
      using tokenize_quoted by blast
    with Nil show ?thesis by simp
  next
    case (Cons b bs)
    let ?rest = "join_with '' '' (map quote_argument args)"
    obtain j where "tokenize_loop i tokens [] False None (quote_argument a @ CHR '' '' # ?rest) =
        tokenize_loop j tokens ([] @ a) True None (CHR '' '' # ?rest)"
      using tokenize_quoted by blast
    with Cons.IH[of "j + 1" "tokens @ [a]"] Cons show ?thesis
      by (simp add: is_ascii_whitespace_def)
  qed
qed simp

lemma expand_double_percents [simp]: "expand_codes lossy ctx (double_percents a) = a"
  by (induction a) auto

lemma expand_token_double_percents: "expand_token lossy ctx (double_percents a) = [a]"
proof -
  have "double_percents a \<noteq> [CHR ''%'', c]" if "c \<noteq> CHR ''%''" for c
    using that by (cases a; cases "tl a") (auto split: if_splits)
  moreover have "double_percents a = [] \<longleftrightarrow> a = []" by (cases a) auto
  ultimately show ?thesis by (auto simp: expand_token_def Let_def)
qed

text \<open>Any list of arguments, written by the specification's quoting as an \<open>Exec\<close> line, is read back
  as exactly that list, whatever the context.\<close>

lemma exec_line_round_trip: "expand lossy (exec_line args) ctx = Inr args"
proof -
  have "tokenize (exec_line args) = Inr (map double_percents args)"
    using tokenize_joined[of 0 "[]" "map double_percents args"]
    by (simp add: tokenize_def exec_line_def comp_def)
  moreover have "expand_tokens lossy (map double_percents args) ctx = args"
    by (simp add: expand_tokens_def expand_token_double_percents comp_def)
  ultimately show ?thesis by (simp add: expand_def)
qed

section \<open>Which lines are rejected\<close>

text \<open>The offsets of the double quotes that are not escaped.\<close>

fun bare_quotes :: "nat \<Rightarrow> string \<Rightarrow> nat list" where
  "bare_quotes i [] = []"
| "bare_quotes i (c # cs) =
     (if c = CHR 0x22 then i # bare_quotes (i + 1) cs
      else if c = CHR 0x5C then
        (case cs of
           next # cs' \<Rightarrow> if is_quoting_escape next then bare_quotes (i + 2) cs' else bare_quotes (i + 1) cs
         | [] \<Rightarrow> [])
      else bare_quotes (i + 1) cs)"

lemma tokenize_loop_error:
  "tokenize_loop i tokens current st q s = Inl (UnterminatedQuote off) \<longleftrightarrow>
   (case q of
      None \<Rightarrow> odd (length (bare_quotes i s)) \<and> off = last (bare_quotes i s)
    | Some o' \<Rightarrow> even (length (bare_quotes i s)) \<and> off = last (o' # bare_quotes i s))"
proof (induction i tokens current st q s rule: tokenize_loop.induct)
  case (1 i tokens current st q)
  then show ?case by (auto split: option.split)
next
  case (2 i tokens current st q ch rest)
  show ?case
  proof (cases "ch = CHR 0x22")
    case True
    with "2.IH"(1) show ?thesis by (cases q) auto
  next
    case quote: False
    show ?thesis
    proof (cases "ch = CHR 0x5C")
      case True
      with quote "2.IH"(2-4) show ?thesis by (cases rest) (auto split: option.split)
    next
      case False
      with quote "2.IH"(5-7) show ?thesis by (auto split: option.split)
    qed
  qed
qed

text \<open>An \<open>Exec\<close> line is rejected exactly when it has an odd number of quotes that are not
  escaped, and the reported offset is that of the last of them, the one left open.\<close>

theorem unterminated_quote_is_last:
  "tokenize exec = Inl (UnterminatedQuote offset) \<longleftrightarrow>
   odd (length (bare_quotes 0 exec)) \<and> offset = last (bare_quotes 0 exec)"
  by (simp add: tokenize_def tokenize_loop_error)

end
