(* ===== verification/App_Entry.thy ===== *)
theory App_Entry
  imports Rust_Text Core_Types
begin

text \<open>
  Desktop entries (\<open>crates/adesk-app-registry/src\<close>): the parser of the \<open>[Desktop Entry]\<close> group
  and its typed form (\<open>parser.rs\<close>), the derivation of desktop-file ids (\<open>app_id.rs\<close>), and the
  description the registry hands out (\<open>AppInfo\<close> of \<open>crates/adesk-core/src/app.rs\<close>).
\<close>

section \<open>The raw group\<close>

record RawEntry =
  re_values :: "(string \<times> string) list"

definition raw_get :: "RawEntry \<Rightarrow> string \<Rightarrow> string option" where
  "raw_get raw key = map_option snd (find (\<lambda>(candidate, _). candidate = key) (rev (re_values raw)))"

definition non_empty_str :: "string \<Rightarrow> string option" where
  "non_empty_str s = (if s \<noteq> [] then Some s else None)"

definition locale_candidates :: "string option \<Rightarrow> string list" where
  "locale_candidates loc =
     (case loc of
        None \<Rightarrow> []
      | Some l \<Rightarrow>
          let (core, modifier) = (case split_once (CHR ''@'') l of
                Some (core, m) \<Rightarrow> (core, Some m) | None \<Rightarrow> (l, None));
              core = (case split_once (CHR ''.'') core of Some (c, _) \<Rightarrow> c | None \<Rightarrow> core);
              modifier = Option.bind modifier non_empty_str;
              (lang, country) = (case split_once (CHR ''_'') core of
                Some (lang, c) \<Rightarrow> (lang, Some c) | None \<Rightarrow> (core, None));
              country = Option.bind country non_empty_str;
              lang = non_empty_str lang
          in (case (lang, country, modifier) of
                (Some lg, Some c, Some m) \<Rightarrow> [lg @ ''_'' @ c @ ''@'' @ m] | _ \<Rightarrow> []) @
             (case (lang, modifier) of (Some lg, Some m) \<Rightarrow> [lg @ ''@'' @ m] | _ \<Rightarrow> []) @
             (case (lang, country) of (Some lg, Some c) \<Rightarrow> [lg @ ''_'' @ c] | _ \<Rightarrow> []) @
             (case lang of Some lg \<Rightarrow> [lg] | None \<Rightarrow> []))"

text \<open>The loop of \<open>localized\<close>: the first candidate key with a non-empty value.\<close>

fun localized_loop :: "RawEntry \<Rightarrow> string \<Rightarrow> string list \<Rightarrow> string option" where
  "localized_loop raw key [] = raw_get raw key"
| "localized_loop raw key (sfx # sfxs) =
     (case raw_get raw (key @ ''['' @ sfx @ '']'') of
        Some value \<Rightarrow> if value \<noteq> [] then Some value else localized_loop raw key sfxs
      | None \<Rightarrow> localized_loop raw key sfxs)"

definition localized :: "RawEntry \<Rightarrow> string \<Rightarrow> string option \<Rightarrow> string option" where
  "localized raw key loc = localized_loop raw key (locale_candidates loc)"

section \<open>Parsing\<close>

datatype ParseError = MissingGroup

fun unescape :: "string \<Rightarrow> string" where
  "unescape [] = []"
| "unescape (ch # cs) =
     (if ch \<noteq> CHR 0x5C then ch # unescape cs
      else
        (case cs of
           [] \<Rightarrow> [CHR 0x5C]
         | code # rest \<Rightarrow>
             (if code = CHR ''s'' then [CHR 0x20]
              else if code = CHR ''n'' then [CHR 0x0A]
              else if code = CHR ''t'' then [CHR 0x09]
              else if code = CHR ''r'' then [CHR 0x0D]
              else if code = CHR 0x5C then [CHR 0x5C]
              else [CHR 0x5C, code]) @ unescape rest))"

definition group_name :: "string \<Rightarrow> string option" where
  "group_name line =
     Option.bind (strip_prefix ''['' line) (\<lambda>l. map_option trim (strip_suffix '']'' l))"

definition DESKTOP_ENTRY_GROUP :: string where
  "DESKTOP_ENTRY_GROUP = ''Desktop Entry''"

text \<open>One turn of the loop over the lines: the pairs so far, \<open>in_entry_group\<close> and
  \<open>saw_entry_group\<close>.\<close>

definition parse_line ::
  "string \<Rightarrow> (string \<times> string) list \<times> bool \<times> bool \<Rightarrow> (string \<times> string) list \<times> bool \<times> bool" where
  "parse_line raw_line = (\<lambda>(values, in_group, saw).
     let line = trim raw_line
     in if line = [] \<or> prefix ''#'' line then (values, in_group, saw)
        else case group_name line of
          Some g \<Rightarrow>
            let in_group' = (g = DESKTOP_ENTRY_GROUP) in (values, in_group', saw \<or> in_group')
        | None \<Rightarrow>
            if \<not> in_group then (values, in_group, saw)
            else case split_once (CHR ''='') line of
              None \<Rightarrow> (values, in_group, saw)
            | Some (key, value) \<Rightarrow>
                let key = trim key
                in if key = [] then (values, in_group, saw)
                   else (values @ [(key, unescape (trim value))], in_group, saw))"

definition BOM :: string where
  "BOM = [CHR 0xEF, CHR 0xBB, CHR 0xBF]"

definition parse_str :: "string \<Rightarrow> ParseError + RawEntry" where
  "parse_str text =
     (let body = (case strip_prefix BOM text of Some t \<Rightarrow> t | None \<Rightarrow> text);
          (values, in_group, saw) = fold parse_line (str_lines body) ([], False, False)
      in if saw then Inr \<lparr>re_values = values\<rparr> else Inl MissingGroup)"

section \<open>Typed entries\<close>

datatype EntryError = MissingType | NotApplication string | MissingName

record DesktopEntry =
  de_id :: AppId
  de_path :: string
  de_name :: string
  de_exec :: "string option"
  de_icon :: "string option"
  de_terminal :: bool
  de_no_display :: bool
  de_hidden :: bool
  de_categories :: "string list"
  de_startup_wm_class :: "string option"
  de_dbus_activatable :: bool
  de_try_exec :: "string option"

definition non_empty :: "string option \<Rightarrow> string option" where
  "non_empty value = Option.bind value non_empty_str"

definition boolean :: "string option \<Rightarrow> bool" where
  "boolean value = (case value of Some v \<Rightarrow> eq_ignore_ascii_case v ''true'' | None \<Rightarrow> False)"

definition split_categories :: "string option \<Rightarrow> string list" where
  "split_categories value =
     filter (\<lambda>item. item \<noteq> [])
       (map trim (split_char (CHR '';'') (case value of Some v \<Rightarrow> v | None \<Rightarrow> [])))"

definition from_raw ::
  "AppId \<Rightarrow> string \<Rightarrow> RawEntry \<Rightarrow> string option \<Rightarrow> EntryError + DesktopEntry" where
  "from_raw i path raw loc =
     (case Option.bind (raw_get raw ''Type'') (\<lambda>v. if trim v \<noteq> [] then Some v else None) of
        None \<Rightarrow> Inl MissingType
      | Some entry_type \<Rightarrow>
          if entry_type \<noteq> ''Application'' then Inl (NotApplication entry_type)
          else
            (case Option.bind (localized raw ''Name'' loc) (\<lambda>v. if trim v \<noteq> [] then Some v else None) of
               None \<Rightarrow> Inl MissingName
             | Some name \<Rightarrow>
                 Inr \<lparr>de_id = i, de_path = path, de_name = name, de_exec = raw_get raw ''Exec'',
                   de_icon = non_empty (raw_get raw ''Icon''),
                   de_terminal = boolean (raw_get raw ''Terminal''),
                   de_no_display = boolean (raw_get raw ''NoDisplay''),
                   de_hidden = boolean (raw_get raw ''Hidden''),
                   de_categories = split_categories (raw_get raw ''Categories''),
                   de_startup_wm_class = non_empty (raw_get raw ''StartupWMClass''),
                   de_dbus_activatable = boolean (raw_get raw ''DBusActivatable''),
                   de_try_exec = non_empty (raw_get raw ''TryExec'')\<rparr>))"

definition is_listable :: "DesktopEntry \<Rightarrow> bool \<Rightarrow> bool" where
  "is_listable e include_hidden \<longleftrightarrow> include_hidden \<or> \<not> (de_hidden e \<or> de_no_display e)"

record AppInfo =
  ai_id :: AppId
  ai_name :: string
  ai_icon :: "string option"
  ai_exec :: "string option"
  ai_terminal :: bool
  ai_categories :: "string list"
  ai_startup_wm_class :: "string option"
  ai_dbus_activatable :: bool
  ai_hidden :: bool
  ai_no_display :: bool
  ai_try_exec :: "string option"

definition to_app_info :: "DesktopEntry \<Rightarrow> AppInfo" where
  "to_app_info e =
     \<lparr>ai_id = de_id e, ai_name = de_name e, ai_icon = de_icon e, ai_exec = de_exec e,
      ai_terminal = de_terminal e, ai_categories = de_categories e,
      ai_startup_wm_class = de_startup_wm_class e, ai_dbus_activatable = de_dbus_activatable e,
      ai_hidden = de_hidden e, ai_no_display = de_no_display e, ai_try_exec = de_try_exec e\<rparr>"

section \<open>Desktop-file ids\<close>

definition DESKTOP_EXTENSION :: string where
  "DESKTOP_EXTENSION = ''.desktop''"

definition is_desktop_file :: "string \<Rightarrow> bool" where
  "is_desktop_file path =
     (case path_file_name path of Some name \<Rightarrow> suffix DESKTOP_EXTENSION name | None \<Rightarrow> False)"

text \<open>\<open>Path::strip_prefix\<close> as components: what is left of \<open>path\<close> after those of \<open>dir\<close>.\<close>

definition strip_dir :: "string \<Rightarrow> string \<Rightarrow> component list option" where
  "strip_dir dir path =
     (if prefix (path_components dir) (path_components path)
      then Some (drop (length (path_components dir)) (path_components path)) else None)"

fun id_segments :: "component list \<Rightarrow> string list option" where
  "id_segments [] = Some []"
| "id_segments (NormalComp s # cs) =
     (if utf8_valid s then map_option (\<lambda>ss. s # ss) (id_segments cs) else None)"
| "id_segments (CurDir # cs) = id_segments cs"
| "id_segments (_ # cs) = None"

definition desktop_file_id :: "string \<Rightarrow> string \<Rightarrow> AppId option" where
  "desktop_file_id applications_dir path =
     (case strip_dir applications_dir path of
        None \<Rightarrow> None
      | Some relative \<Rightarrow>
          (case id_segments relative of
             None \<Rightarrow> None
           | Some segments \<Rightarrow>
               if segments = [] then None
               else
                 (case strip_suffix DESKTOP_EXTENSION (last segments) of
                    None \<Rightarrow> None
                  | Some stem \<Rightarrow>
                      if stem = [] then None
                      else Some (concat (map (\<lambda>d. d @ ''.'') (butlast segments)) @ stem))))"

section \<open>Writing entries, the reference\<close>

text \<open>How the specification writes a value: white space and backslashes escaped.\<close>

fun escape :: "string \<Rightarrow> string" where
  "escape [] = []"
| "escape (c # cs) =
     (if c = CHR 0x20 then [CHR 0x5C, CHR ''s'']
      else if c = CHR 0x0A then [CHR 0x5C, CHR ''n'']
      else if c = CHR 0x09 then [CHR 0x5C, CHR ''t'']
      else if c = CHR 0x0D then [CHR 0x5C, CHR ''r'']
      else if c = CHR 0x5C then [CHR 0x5C, CHR 0x5C]
      else [c]) @ escape cs"

definition entry_line :: "string \<times> string \<Rightarrow> string" where
  "entry_line kv = fst kv @ ''='' @ escape (snd kv)"

definition entry_text :: "(string \<times> string) list \<Rightarrow> string" where
  "entry_text kvs = concat (map (\<lambda>l. l @ [CHR 0x0A]) (''[Desktop Entry]'' # map entry_line kvs))"

definition edges_clean :: "string \<Rightarrow> bool" where
  "edges_clean s \<longleftrightarrow> list_all (\<lambda>sp. \<not> prefix sp s \<and> \<not> suffix sp s) unicode_spaces"

text \<open>
  A key is not empty, has no separator in it, does not look like a comment or a group, and, like
  the escaped value, has no white space that trimming would take away at its ends (Unicode white
  space has no escape).
\<close>

definition writable :: "string \<times> string \<Rightarrow> bool" where
  "writable kv \<longleftrightarrow>
     fst kv \<noteq> [] \<and> hd (fst kv) \<notin> set ''#['' \<and> CHR ''='' \<notin> set (fst kv) \<and> CHR 0x0A \<notin> set (fst kv) \<and>
     edges_clean (fst kv) \<and> edges_clean (escape (snd kv))"

section \<open>Reading back what was written\<close>

lemma unescape_escape [simp]: "unescape (escape v) = v"
  by (induction v) auto

lemma escape_no_newline [simp]: "CHR 0x0A \<notin> set (escape v)"
  by (induction v) auto

lemma trim_clean: "edges_clean s \<Longrightarrow> trim s = s"
  by (rule trim_eq_self) (simp add: edges_clean_def list_all_iff)

lemma space_bytes: "sp \<in> set unicode_spaces \<Longrightarrow> CHR ''='' \<notin> set sp \<and> sp \<noteq> []"
  by (auto simp: unicode_spaces_def)

lemma prefix_before_sep:
  assumes "c \<notin> set sp" "prefix sp (a @ c # b)"
  shows "prefix sp a"
  using assms by (auto simp: prefix_append prefix_Cons)

lemma entry_line_edges:
  assumes "writable kv"
  shows "edges_clean (entry_line kv)"
proof -
  have "\<not> prefix sp (entry_line kv) \<and> \<not> suffix sp (entry_line kv)" if sp: "sp \<in> set unicode_spaces" for sp
  proof
    show "\<not> prefix sp (entry_line kv)"
      using prefix_before_sep[of "CHR ''=''" sp "fst kv" "escape (snd kv)"] space_bytes[OF sp] assms sp
      by (auto simp: entry_line_def writable_def edges_clean_def list_all_iff)
    show "\<not> suffix sp (entry_line kv)"
      using prefix_before_sep[of "CHR ''=''" "rev sp" "rev (escape (snd kv))" "rev (fst kv)"]
        space_bytes[OF sp] assms sp
      by (auto simp: entry_line_def writable_def edges_clean_def list_all_iff suffix_to_prefix)
  qed
  then show ?thesis by (simp add: edges_clean_def list_all_iff)
qed

lemma parse_entry_line:
  assumes "writable kv"
  shows "parse_line (entry_line kv) (vs, True, saw) = (vs @ [kv], True, saw)"
proof -
  obtain c k where k: "fst kv = c # k" "c \<noteq> CHR ''#''" "c \<noteq> CHR ''[''"
    using assms by (cases "fst kv") (auto simp: writable_def)
  have "trim (entry_line kv) = entry_line kv" using trim_clean[OF entry_line_edges[OF assms]] .
  moreover have "split_once (CHR ''='') (entry_line kv) = Some (fst kv, escape (snd kv))"
    using assms by (simp add: entry_line_def writable_def split_once_append)
  moreover have "trim (fst kv) = fst kv" "trim (escape (snd kv)) = escape (snd kv)"
    using assms by (simp_all add: writable_def trim_clean)
  moreover have "entry_line kv \<noteq> []" "\<not> prefix ''#'' (entry_line kv)" "group_name (entry_line kv) = None"
    using k by (simp_all add: entry_line_def group_name_def strip_prefix_def)
  moreover have "(c # k, snd kv) = kv" using k(1) by (cases kv) simp
  ultimately show ?thesis using k by (simp add: parse_line_def Let_def)
qed

lemma strip_cr_clean: "edges_clean l \<Longrightarrow> strip_cr l = l"
  by (auto simp: strip_cr_def strip_suffix_def edges_clean_def unicode_spaces_def)

lemma parse_entry_lines:
  "list_all writable kvs \<Longrightarrow>
   fold parse_line (str_lines (concat (map (\<lambda>l. l @ [CHR 0x0A]) (map entry_line kvs)))) (vs, True, saw) =
   (vs @ kvs, True, saw)"
proof (induction kvs arbitrary: vs)
  case (Cons kv kvs)
  then have "CHR 0x0A \<notin> set (entry_line kv)" by (auto simp: entry_line_def writable_def)
  moreover have "strip_cr (entry_line kv) = entry_line kv"
    using Cons.prems by (simp add: strip_cr_clean entry_line_edges)
  ultimately show ?case
    using Cons by (simp add: str_lines_append parse_entry_line)
qed simp

lemmas clean_eval = edges_clean_def unicode_spaces_def suffix_to_prefix

lemma parse_header: "parse_line ''[Desktop Entry]'' ([], False, False) = ([], True, True)"
proof -
  have "edges_clean ''[Desktop Entry]''" "edges_clean ''Desktop Entry''" by (simp_all add: clean_eval)
  then show ?thesis
    by (simp add: parse_line_def trim_clean group_name_def strip_prefix_def strip_suffix_def
        suffix_to_prefix DESKTOP_ENTRY_GROUP_def)
qed

text \<open>C37. The parser reads back every list of keys and values written by the specification's
  rules, in order and with duplicates: escapes, \<open>=\<close> inside values and non-ASCII text included.\<close>

theorem entry_text_round_trip:
  assumes "list_all writable kvs"
  shows "parse_str (entry_text kvs) = Inr \<lparr>re_values = kvs\<rparr>"
proof -
  have "str_lines (entry_text kvs) = ''[Desktop Entry]'' #
      str_lines (concat (map (\<lambda>l. l @ [CHR 0x0A]) (map entry_line kvs)))"
    using str_lines_append[of "''[Desktop Entry]''"]
    by (simp add: entry_text_def strip_cr_def strip_suffix_def suffix_to_prefix)
  moreover have "strip_prefix BOM (entry_text kvs) = None"
    by (simp add: strip_prefix_def BOM_def entry_text_def)
  ultimately show ?thesis
    using parse_entry_lines[OF assms, of "[]" True] parse_header by (simp add: parse_str_def)
qed

theorem entry_text_round_trip_witness:
  "parse_str (entry_text [(''Name'', ''My editor''), (''Exec'', ''edit --mode=x %f''), (''Name'', [])]) =
   Inr \<lparr>re_values = [(''Name'', ''My editor''), (''Exec'', ''edit --mode=x %f''), (''Name'', [])]\<rparr>"
  by (rule entry_text_round_trip) (simp add: writable_def clean_eval)

end
