(* ===== verification/App_Registry.thy ===== *)
theory App_Registry
  imports App_Exec App_Entry Interfaces
begin

text \<open>
  The application registry (\<open>crates/adesk-app-registry/src\<close>): search directories (\<open>xdg.rs\<close>),
  discovery and the entry table (\<open>registry.rs\<close>), \<open>TryExec\<close> (\<open>try_exec.rs\<close>), the terminal wrapper
  (\<open>terminal.rs\<close>), launching (\<open>launch.rs\<close>, \<open>registry.rs\<close>) and the errors (\<open>error.rs\<close>).

  The file system is a record of the calls of \<open>std::fs\<close> the code makes, each answering for a
  path; the process spawner, the clock and the Unicode lower-casing of the standard library are
  parameters.
\<close>

section \<open>Search directories\<close>

definition DEFAULT_DATA_DIRS :: string where
  "DEFAULT_DATA_DIRS = ''/usr/local/share:/usr/share''"

definition APPLICATIONS_SUBDIR :: string where
  "APPLICATIONS_SUBDIR = ''applications''"

definition push_unique :: "string list \<Rightarrow> string \<Rightarrow> string list" where
  "push_unique dirs dir = (if list_ex (path_eq dir) dirs then dirs else dirs @ [dir])"

definition home_base :: "string option \<Rightarrow> string option \<Rightarrow> string option" where
  "home_base data_home home =
     (case Option.bind data_home (\<lambda>b. if path_is_absolute b then Some b else None) of
        Some b \<Rightarrow> Some b
      | None \<Rightarrow>
          (case home of
             None \<Rightarrow> None
           | Some h \<Rightarrow> if \<not> path_is_absolute h then None else Some (path_join h ''.local/share'')))"

definition search_dirs_with :: "string option \<Rightarrow> string option \<Rightarrow> string option \<Rightarrow> string list" where
  "search_dirs_with data_home data_dirs home =
     (let dirs0 = (case home_base data_home home of
            Some b \<Rightarrow> push_unique [] (path_join b APPLICATIONS_SUBDIR) | None \<Rightarrow> []);
          usable = filter (\<lambda>e. e \<noteq> [] \<and> path_is_absolute e)
            (split_char (CHR '':'') (case data_dirs of Some d \<Rightarrow> d | None \<Rightarrow> DEFAULT_DATA_DIRS));
          add = (\<lambda>e ds. push_unique ds (path_join e APPLICATIONS_SUBDIR));
          dirs1 = fold add usable dirs0
      in if usable = [] then fold add (split_char (CHR '':'') DEFAULT_DATA_DIRS) dirs1 else dirs1)"

section \<open>Walking a search directory\<close>

datatype IoError = NotFound | IoOther string

datatype FileType = FtDir | FtFile | FtOther

record DirEntry =
  dn_name :: string
  dn_type :: "IoError + FileType"

record Fs =
  fs_read_dir :: "string \<Rightarrow> IoError + (IoError + DirEntry) list"
  fs_is_file :: "string \<Rightarrow> IoError + bool"
  fs_read :: "string \<Rightarrow> IoError + string"
  fs_executable :: "string \<Rightarrow> bool"

datatype IssueReason =
    CannotReadDirectory IoError
  | CannotReadEntry IoError
  | CannotReadFile IoError
  | CannotStat IoError
  | BadGroup ParseError
  | NoDesktopId
  | BadEntry EntryError

record ScanIssue =
  si_path :: string
  si_reason :: IssueReason

record ScanReport =
  rp_dirs_scanned :: nat
  rp_files_scanned :: nat
  rp_apps :: nat
  rp_skipped :: nat
  rp_issues :: "ScanIssue list"

definition is_hidden :: "string \<Rightarrow> bool" where
  "is_hidden name \<longleftrightarrow> prefix ''.'' name"

text \<open>The walk's locals: the stack of directories to read (its top first), the files and issues
  so far, and \<open>root_walked\<close>.\<close>

record Walk =
  wk_stack :: "string list"
  wk_files :: "string list"
  wk_issues :: "ScanIssue list"
  wk_root :: bool

definition walk_issue :: "string \<Rightarrow> IssueReason \<Rightarrow> Walk \<Rightarrow> Walk" where
  "walk_issue path reason k = k\<lparr>wk_issues := wk_issues k @ [\<lparr>si_path = path, si_reason = reason\<rparr>]\<rparr>"

definition walk_entry :: "Fs \<Rightarrow> string \<Rightarrow> IoError + DirEntry \<Rightarrow> Walk \<Rightarrow> Walk" where
  "walk_entry fs current entry k =
     (case entry of
        Inl source \<Rightarrow> walk_issue current (CannotReadEntry source) k
      | Inr d \<Rightarrow>
          if is_hidden (dn_name d) then k
          else
            let path = path_join current (dn_name d)
            in case dn_type d of
                 Inr FtDir \<Rightarrow> k\<lparr>wk_stack := path # wk_stack k\<rparr>
               | Inr FtFile \<Rightarrow>
                   if is_desktop_file path then k\<lparr>wk_files := wk_files k @ [path]\<rparr> else k
               | Inr FtOther \<Rightarrow>
                   if \<not> is_desktop_file path then k
                   else (case fs_is_file fs path of
                           Inr b \<Rightarrow> if b then k\<lparr>wk_files := wk_files k @ [path]\<rparr> else k
                         | Inl source \<Rightarrow> walk_issue path (CannotReadFile source) k)
               | Inl source \<Rightarrow> walk_issue path (CannotStat source) k)"

definition walk_dir :: "Fs \<Rightarrow> string \<Rightarrow> string \<Rightarrow> Walk \<Rightarrow> Walk" where
  "walk_dir fs dir current k =
     (case fs_read_dir fs current of
        Inl source \<Rightarrow> if source = NotFound then k else walk_issue current (CannotReadDirectory source) k
      | Inr entries \<Rightarrow>
          fold (walk_entry fs current) entries
            (if path_eq current dir then k\<lparr>wk_root := True\<rparr> else k))"

text \<open>\<open>while let Some(current) = stack.pop()\<close>, with fuel: \<^const>\<open>None\<close> is a walk that has not ended.\<close>

fun walk_loop :: "nat \<Rightarrow> Fs \<Rightarrow> string \<Rightarrow> Walk \<Rightarrow> Walk option" where
  "walk_loop fuel fs dir k =
     (case wk_stack k of
        [] \<Rightarrow> Some k
      | current # stack \<Rightarrow>
          (case fuel of
             0 \<Rightarrow> None
           | Suc fuel' \<Rightarrow> walk_loop fuel' fs dir (walk_dir fs dir current (k\<lparr>wk_stack := stack\<rparr>))))"

declare walk_loop.simps [simp del]

definition collect_desktop_files ::
  "nat \<Rightarrow> Fs \<Rightarrow> string \<Rightarrow> ScanIssue list \<Rightarrow> (string list option \<times> ScanIssue list) option" where
  "collect_desktop_files fuel fs dir issues =
     (case walk_loop fuel fs dir \<lparr>wk_stack = [dir], wk_files = [], wk_issues = issues, wk_root = False\<rparr> of
        None \<Rightarrow> None
      | Some k \<Rightarrow> Some (if wk_root k then Some (wk_files k) else None, wk_issues k))"

section \<open>Scanning\<close>

type_synonym AppTable = "(AppId, DesktopEntry) btree"

definition scan_issue :: "string \<Rightarrow> IssueReason \<Rightarrow> ScanReport \<Rightarrow> ScanReport" where
  "scan_issue path reason rp = rp\<lparr>rp_issues := rp_issues rp @ [\<lparr>si_path = path, si_reason = reason\<rparr>]\<rparr>"

definition or_insert :: "'k::linorder \<Rightarrow> 'v \<Rightarrow> ('k, 'v) btree \<Rightarrow> ('k, 'v) btree" where
  "or_insert k v m = (if bt_contains m k then m else bt_insert k v m)"

definition scan_file ::
  "Fs \<Rightarrow> string option \<Rightarrow> string \<Rightarrow> string \<Rightarrow> ScanReport \<times> AppTable \<Rightarrow> ScanReport \<times> AppTable" where
  "scan_file fs loc dir path = (\<lambda>(rp, table).
     case fs_read fs path of
       Inl source \<Rightarrow> (scan_issue path (CannotReadFile source) rp, table)
     | Inr text \<Rightarrow>
         let rp = rp\<lparr>rp_files_scanned := rp_files_scanned rp + 1\<rparr>
         in case parse_str text of
              Inl e \<Rightarrow> (scan_issue path (BadGroup e) rp, table)
            | Inr raw \<Rightarrow>
                (case desktop_file_id dir path of
                   None \<Rightarrow> (scan_issue path NoDesktopId rp, table)
                 | Some i \<Rightarrow>
                     (case from_raw i path raw loc of
                        Inr entry \<Rightarrow> (rp, or_insert i entry table)
                      | Inl (NotApplication _) \<Rightarrow> (rp\<lparr>rp_skipped := rp_skipped rp + 1\<rparr>, table)
                      | Inl e \<Rightarrow> (scan_issue path (BadEntry e) rp, table))))"

definition scan_dir ::
  "nat \<Rightarrow> Fs \<Rightarrow> string option \<Rightarrow> string \<Rightarrow> ScanReport \<times> AppTable \<Rightarrow> (ScanReport \<times> AppTable) option" where
  "scan_dir fuel fs loc dir = (\<lambda>(rp, table).
     case collect_desktop_files fuel fs dir (rp_issues rp) of
       None \<Rightarrow> None
     | Some (files, issues) \<Rightarrow>
         let rp = rp\<lparr>rp_issues := issues\<rparr>
         in case files of
              None \<Rightarrow> Some (rp, table)
            | Some fl \<Rightarrow>
                Some (fold (scan_file fs loc dir) fl
                        (rp\<lparr>rp_dirs_scanned := rp_dirs_scanned rp + 1\<rparr>, table)))"

fun scan_dirs ::
  "nat \<Rightarrow> Fs \<Rightarrow> string option \<Rightarrow> string list \<Rightarrow> ScanReport \<times> AppTable \<Rightarrow> (ScanReport \<times> AppTable) option" where
  "scan_dirs fuel fs loc [] q = Some q"
| "scan_dirs fuel fs loc (dir # dirs) q =
     (case scan_dir fuel fs loc dir q of None \<Rightarrow> None | Some q' \<Rightarrow> scan_dirs fuel fs loc dirs q')"

definition scan :: "nat \<Rightarrow> Fs \<Rightarrow> string option \<Rightarrow> string list \<Rightarrow> (ScanReport \<times> AppTable) option" where
  "scan fuel fs loc dirs =
     map_option (\<lambda>(rp, table). (rp\<lparr>rp_apps := length table\<rparr>, table))
       (scan_dirs fuel fs loc dirs
          (\<lparr>rp_dirs_scanned = 0, rp_files_scanned = 0, rp_apps = 0, rp_skipped = 0, rp_issues = []\<rparr>, []))"

section \<open>Queries\<close>

definition registry_list ::
  "(string \<Rightarrow> string) \<Rightarrow> AppTable \<Rightarrow> string option \<Rightarrow> bool \<Rightarrow> AppInfo list" where
  "registry_list lower entries query include_hidden =
     (let query = map_option lower query
      in map to_app_info
           (filter (\<lambda>e. case query of
                None \<Rightarrow> True
              | Some q \<Rightarrow> str_contains (lower (de_id e)) q \<or> str_contains (lower (de_name e)) q)
             (filter (\<lambda>e. is_listable e include_hidden) (bt_values entries))))"

definition registry_get :: "AppTable \<Rightarrow> AppId \<Rightarrow> AppInfo option" where
  "registry_get entries i = map_option to_app_info (bt_get entries i)"

section \<open>The walk ends\<close>

text \<open>The directories a directory adds to the stack, in the order they are pushed.\<close>

definition subdirs_entry :: "string \<Rightarrow> IoError + DirEntry \<Rightarrow> string list" where
  "subdirs_entry d entry =
     (case entry of
        Inr e \<Rightarrow> if \<not> is_hidden (dn_name e) \<and> dn_type e = Inr FtDir then [path_join d (dn_name e)] else []
      | Inl _ \<Rightarrow> [])"

definition subdirs :: "Fs \<Rightarrow> string \<Rightarrow> string list" where
  "subdirs fs d =
     (case fs_read_dir fs d of Inl _ \<Rightarrow> [] | Inr entries \<Rightarrow> concat (map (subdirs_entry d) entries))"

text \<open>\<open>dir_tree fs d n\<close>: below \<open>d\<close>, itself included, there are finitely many directories, \<open>n\<close>
  of them.\<close>

inductive dir_tree :: "Fs \<Rightarrow> string \<Rightarrow> nat \<Rightarrow> bool" where
  node: "list_all2 (dir_tree fs) (subdirs fs d) ns \<Longrightarrow> dir_tree fs d (Suc (sum_list ns))"

inductive_cases dir_treeE: "dir_tree fs d n"

lemma stack_walk_entry: "wk_stack (walk_entry fs d e k) = subdirs_entry d e @ wk_stack k"
  by (auto simp: walk_entry_def subdirs_entry_def walk_issue_def Let_def
      split: sum.split FileType.split)

lemma stack_fold_entries:
  "wk_stack (fold (walk_entry fs d) es k) = rev (concat (map (subdirs_entry d) es)) @ wk_stack k"
proof (induction es arbitrary: k)
  case (Cons e es)
  have "rev (subdirs_entry d e) = subdirs_entry d e"
    by (auto simp: subdirs_entry_def split: sum.split)
  with Cons show ?case by (simp add: stack_walk_entry)
qed simp

lemma stack_walk_dir: "wk_stack (walk_dir fs dir d k) = rev (subdirs fs d) @ wk_stack k"
  by (auto simp: walk_dir_def subdirs_def walk_issue_def stack_fold_entries split: sum.split)

lemma walk_loop_ends:
  "list_all2 (dir_tree fs) (wk_stack k) ns \<Longrightarrow> sum_list ns \<le> fuel \<Longrightarrow> walk_loop fuel fs dir k \<noteq> None"
proof (induction fuel arbitrary: k ns)
  case 0
  have "wk_stack k = []"
  proof (rule ccontr)
    assume "wk_stack k \<noteq> []"
    with "0.prems"(1) obtain d n ds ms where "ns = n # ms" "dir_tree fs d n"
      by (cases "wk_stack k"; cases ns) auto
    with "0.prems"(2) show False by (auto elim: dir_treeE)
  qed
  then show ?case by (subst walk_loop.simps) simp
next
  case (Suc fuel)
  show ?case
  proof (cases "wk_stack k")
    case Nil
    then show ?thesis by (subst walk_loop.simps) simp
  next
    case (Cons d ds)
    with Suc.prems obtain n ms where ns: "ns = n # ms" "dir_tree fs d n" "list_all2 (dir_tree fs) ds ms"
      by (auto simp: list_all2_Cons1)
    then obtain cs where cs: "n = Suc (sum_list cs)" "list_all2 (dir_tree fs) (subdirs fs d) cs"
      by (auto elim: dir_treeE)
    let ?k = "walk_dir fs dir d (k\<lparr>wk_stack := ds\<rparr>)"
    have "list_all2 (dir_tree fs) (wk_stack ?k) (rev cs @ ms)"
      using ns cs by (auto simp: stack_walk_dir intro: list_all2_appendI)
    moreover have "sum_list (rev cs @ ms) \<le> fuel" using Suc.prems(2) ns cs by simp
    ultimately have "walk_loop fuel fs dir ?k \<noteq> None" by (rule Suc.IH)
    with Cons show ?thesis by (subst walk_loop.simps) simp
  qed
qed

lemma walk_loop_mono: "walk_loop fuel fs dir k = Some r \<Longrightarrow> fuel \<le> fuel' \<Longrightarrow> walk_loop fuel' fs dir k = Some r"
proof (induction fuel arbitrary: fuel' k)
  case 0
  then show ?case by (subst walk_loop.simps) (auto simp: walk_loop.simps[of 0] split: list.splits)
next
  case (Suc fuel)
  then obtain f where "fuel' = Suc f" "fuel \<le> f" by (cases fuel') auto
  with Suc.prems(1) Suc.IH show ?case
    by (simp add: walk_loop.simps[of "Suc _"] split: list.splits)
qed

lemma scan_dir_ends:
  assumes "dir_tree fs dir n" "n \<le> fuel"
  shows "\<exists>r. \<forall>fuel' \<ge> fuel. scan_dir fuel' fs loc dir q = Some r"
proof -
  obtain rp table where q: "q = (rp, table)" by (cases q)
  let ?k = "\<lparr>wk_stack = [dir], wk_files = [], wk_issues = rp_issues rp, wk_root = False\<rparr>"
  have "walk_loop fuel fs dir ?k \<noteq> None"
    using assms by (intro walk_loop_ends[of fs _ "[n]"]) auto
  then obtain k where "walk_loop fuel fs dir ?k = Some k" by auto
  then have "walk_loop fuel' fs dir ?k = Some k" if "fuel \<le> fuel'" for fuel'
    using walk_loop_mono that by blast
  then show ?thesis
    by (auto simp: scan_dir_def collect_desktop_files_def q Let_def split: option.split)
qed

lemma scan_dirs_ends:
  "\<forall>dir \<in> set dirs. \<exists>n \<le> fuel. dir_tree fs dir n \<Longrightarrow>
   \<exists>r. \<forall>fuel' \<ge> fuel. scan_dirs fuel' fs loc dirs q = Some r"
proof (induction dirs arbitrary: q)
  case (Cons dir dirs)
  then obtain n where "dir_tree fs dir n" "n \<le> fuel" by auto
  then obtain q' where q': "\<forall>fuel' \<ge> fuel. scan_dir fuel' fs loc dir q = Some q'"
    using scan_dir_ends by blast
  from Cons obtain r where "\<forall>fuel' \<ge> fuel. scan_dirs fuel' fs loc dirs q' = Some r" by fastforce
  with q' show ?case by auto
qed simp

text \<open>C36. A scan of search directories whose trees are finite ends: as much fuel as the largest
  of them has directories is enough, and more fuel changes nothing.\<close>

theorem scan_terminates:
  assumes "\<forall>dir \<in> set dirs. \<exists>n \<le> fuel. dir_tree fs dir n"
  shows "\<exists>r. \<forall>fuel' \<ge> fuel. scan fuel' fs loc dirs = Some r"
  using scan_dirs_ends[OF assms] by (fastforce simp: scan_def)

text \<open>The witness: one search directory with a subdirectory that holds one entry.\<close>

definition sample_fs :: Fs where
  "sample_fs =
     \<lparr>fs_read_dir = (\<lambda>d. if d = ''/a'' then Inr [Inr \<lparr>dn_name = ''kde'', dn_type = Inr FtDir\<rparr>]
                      else if d = ''/a/kde'' then Inr [Inr \<lparr>dn_name = ''kate.desktop'', dn_type = Inr FtFile\<rparr>]
                      else Inl NotFound),
      fs_is_file = (\<lambda>_. Inl NotFound),
      fs_read = (\<lambda>_. Inr ''[Desktop Entry]''),
      fs_executable = (\<lambda>_. False)\<rparr>"

lemma sample_tree: "dir_tree sample_fs ''/a'' 2"
proof -
  have "subdirs sample_fs ''/a/kde'' = []"
    by (simp add: subdirs_def sample_fs_def subdirs_entry_def)
  then have "dir_tree sample_fs ''/a/kde'' 1" using node[of sample_fs "''/a/kde''" "[]"] by simp
  moreover have "subdirs sample_fs ''/a'' = [''/a/kde'']"
    by (simp add: subdirs_def sample_fs_def subdirs_entry_def is_hidden_def path_join_def
        path_is_absolute_def suffix_to_prefix)
  ultimately show ?thesis using node[of sample_fs "''/a''" "[1]"] by (simp add: numeral_2_eq_2)
qed

theorem scan_terminates_witness: "\<exists>r. \<forall>fuel' \<ge> 2. scan fuel' sample_fs None [''/a'', ''/a''] = Some r"
  by (rule scan_terminates) (auto intro!: exI[of _ 2] sample_tree)

section \<open>The first search directory wins\<close>

text \<open>What a file yields: its id and entry when it is a readable application entry.\<close>

definition file_app :: "Fs \<Rightarrow> string option \<Rightarrow> string \<Rightarrow> string \<Rightarrow> (AppId \<times> DesktopEntry) option" where
  "file_app fs loc dir path =
     (case (fs_read fs path, desktop_file_id dir path) of
        (Inr text, Some i) \<Rightarrow>
          (case parse_str text of
             Inr raw \<Rightarrow> (case from_raw i path raw loc of Inr e \<Rightarrow> Some (i, e) | Inl _ \<Rightarrow> None)
           | Inl _ \<Rightarrow> None)
      | _ \<Rightarrow> None)"

definition dir_files :: "nat \<Rightarrow> Fs \<Rightarrow> string \<Rightarrow> string list" where
  "dir_files fuel fs dir =
     (case collect_desktop_files fuel fs dir [] of Some (Some files, _) \<Rightarrow> files | _ \<Rightarrow> [])"

definition dir_apps :: "nat \<Rightarrow> Fs \<Rightarrow> string option \<Rightarrow> string \<Rightarrow> (AppId \<times> DesktopEntry) list" where
  "dir_apps fuel fs loc dir = List.map_filter (file_app fs loc dir) (dir_files fuel fs dir)"

text \<open>Issues found earlier do not change a walk.\<close>

definition with_issues :: "ScanIssue list \<Rightarrow> Walk \<Rightarrow> Walk" where
  "with_issues is0 k = k\<lparr>wk_issues := is0 @ wk_issues k\<rparr>"

lemma with_issues_sel [simp]:
  "wk_stack (with_issues x k) = wk_stack k" "wk_files (with_issues x k) = wk_files k"
  "wk_root (with_issues x k) = wk_root k" "wk_issues (with_issues x k) = x @ wk_issues k"
  by (simp_all add: with_issues_def)

lemma with_issues_upd:
  "(with_issues x k)\<lparr>wk_root := b\<rparr> = with_issues x (k\<lparr>wk_root := b\<rparr>)"
  "(with_issues x k)\<lparr>wk_stack := st\<rparr> = with_issues x (k\<lparr>wk_stack := st\<rparr>)"
  by (simp_all add: with_issues_def)

lemma walk_entry_with_issues: "walk_entry fs d e (with_issues x k) = with_issues x (walk_entry fs d e k)"
  by (auto simp: walk_entry_def with_issues_def walk_issue_def Let_def split: sum.split FileType.split)

lemma fold_entries_with_issues:
  "fold (walk_entry fs d) es (with_issues x k) = with_issues x (fold (walk_entry fs d) es k)"
  by (induction es arbitrary: k) (simp_all add: walk_entry_with_issues)

lemma walk_dir_with_issues: "walk_dir fs dir d (with_issues x k) = with_issues x (walk_dir fs dir d k)"
proof (cases "fs_read_dir fs d")
  case (Inr es)
  then show ?thesis by (simp add: walk_dir_def fold_entries_with_issues with_issues_upd)
qed (auto simp: walk_dir_def walk_issue_def with_issues_def)

lemma walk_loop_with_issues:
  "walk_loop fuel fs dir (with_issues x k) = map_option (with_issues x) (walk_loop fuel fs dir k)"
proof (induction fuel arbitrary: k)
  case 0
  then show ?case by (simp add: walk_loop.simps[of 0] split: list.split)
next
  case (Suc fuel)
  then show ?case
    by (simp add: walk_loop.simps[of "Suc _"] walk_dir_with_issues with_issues_upd split: list.split)
qed

lemma collect_files:
  assumes "collect_desktop_files fuel fs dir is0 = Some (files, is1)"
  shows "dir_files fuel fs dir = (case files of Some fl \<Rightarrow> fl | None \<Rightarrow> [])"
proof -
  let ?k = "\<lparr>wk_stack = [dir], wk_files = [], wk_issues = [], wk_root = False\<rparr>"
  have "\<lparr>wk_stack = [dir], wk_files = [], wk_issues = is0, wk_root = False\<rparr> = with_issues is0 ?k"
    by (simp add: with_issues_def)
  with assms show ?thesis
    by (auto simp: collect_desktop_files_def walk_loop_with_issues dir_files_def split: option.splits)
qed

text \<open>The table built from a list of accepted entries: the first entry of an id stays.\<close>

definition table_of :: "(AppId \<times> DesktopEntry) list \<Rightarrow> AppTable \<Rightarrow> AppTable" where
  "table_of apps table = fold (\<lambda>(i, e). or_insert i e) apps table"

lemma table_of_append [simp]: "table_of (xs @ ys) t = table_of ys (table_of xs t)"
  by (simp add: table_of_def)

lemma scan_file_table:
  "snd (scan_file fs loc dir path q) =
   (case file_app fs loc dir path of Some a \<Rightarrow> table_of [a] (snd q) | None \<Rightarrow> snd q)"
  by (cases q) (auto simp: scan_file_def file_app_def table_of_def Let_def
      split: sum.split option.split EntryError.split)

lemma scan_files_table:
  "snd (fold (scan_file fs loc dir) fl q) = table_of (List.map_filter (file_app fs loc dir) fl) (snd q)"
proof (induction fl arbitrary: q)
  case Nil
  show ?case by (simp add: table_of_def map_filter_simps)
next
  case (Cons f fl)
  show ?case
  proof (cases "file_app fs loc dir f")
    case None
    then show ?thesis by (simp add: Cons scan_file_table map_filter_simps)
  next
    case (Some a)
    have "table_of (a # xs) t = table_of xs (table_of [a] t)" for xs t by (simp add: table_of_def)
    from this[of "List.map_filter (file_app fs loc dir) fl" "snd q"]
    show ?thesis by (simp add: Some Cons scan_file_table map_filter_simps)
  qed
qed

lemma scan_dir_table:
  assumes "scan_dir fuel fs loc dir q = Some q'"
  shows "snd q' = table_of (dir_apps fuel fs loc dir) (snd q)"
proof -
  obtain rp table where q: "q = (rp, table)" by (cases q)
  from assms obtain files is1 where c: "collect_desktop_files fuel fs dir (rp_issues rp) = Some (files, is1)"
    by (auto simp: scan_dir_def q split: option.splits)
  with assms show ?thesis
    by (cases files) (auto simp: scan_dir_def q Let_def dir_apps_def collect_files[OF c] scan_files_table
        table_of_def map_filter_simps)
qed

lemma scan_dirs_table:
  "scan_dirs fuel fs loc dirs q = Some q' \<Longrightarrow>
   snd q' = table_of (concat (map (dir_apps fuel fs loc) dirs)) (snd q)"
proof (induction dirs arbitrary: q)
  case (Cons dir dirs)
  then obtain q1 where "scan_dir fuel fs loc dir q = Some q1" "scan_dirs fuel fs loc dirs q1 = Some q'"
    by (auto split: option.splits)
  with Cons.IH scan_dir_table show ?case by simp
qed (simp add: table_of_def)

lemma table_of_ok: "bt_ok t \<Longrightarrow> bt_ok (table_of apps t)"
  by (induction apps arbitrary: t) (auto simp: table_of_def or_insert_def)

lemma table_of_get:
  "bt_ok t \<Longrightarrow> bt_get (table_of apps t) i = (case bt_get t i of Some e \<Rightarrow> Some e | None \<Rightarrow> map_of apps i)"
proof (induction apps arbitrary: t)
  case Nil
  then show ?case by (simp add: table_of_def split: option.split)
next
  case (Cons a apps)
  obtain j e where a: "a = (j, e)" by (cases a)
  have "bt_ok (or_insert j e t)" using Cons.prems by (simp add: or_insert_def)
  with Cons.IH show ?case
    by (auto simp: a table_of_def or_insert_def bt_contains_def split: option.split)
qed

text \<open>C35. A finished scan's table holds, for every id, the first entry of that id in the order of
  the search directories and their files, whatever unreadable, malformed or foreign files are met
  on the way, and the report counts the distinct ids.\<close>

theorem scan_first_directory_wins:
  assumes "scan fuel fs loc dirs = Some (rp, table)"
  defines "apps \<equiv> concat (map (dir_apps fuel fs loc) dirs)"
  shows "bt_get table i = map_of apps i \<and> bt_ok table \<and> rp_apps rp = card (fst ` set apps)"
proof -
  from assms(1) obtain rp0 where
    "scan_dirs fuel fs loc dirs
       (\<lparr>rp_dirs_scanned = 0, rp_files_scanned = 0, rp_apps = 0, rp_skipped = 0, rp_issues = []\<rparr>, []) = Some (rp0, table)"
    and rp: "rp_apps rp = length table"
    by (auto simp: scan_def)
  then have t: "table = table_of apps []" using scan_dirs_table by (fastforce simp: apps_def)
  then have ok: "bt_ok table" by (simp add: table_of_ok)
  have get: "bt_get table j = map_of apps j" for j by (simp add: t table_of_get)
  have "set (bt_keys table) = fst ` set apps"
    using bt.keys_get[OF ok] by (auto simp: get map_of_eq_None_iff)
  moreover have "length table = card (set (bt_keys table))"
    using distinct_card[OF bt.keys_distinct[OF ok]] by (simp add: bt_keys_def)
  ultimately show ?thesis using ok get rp by simp
qed

text \<open>The witness: two search directories with an entry of the same id.\<close>

definition two_dirs :: Fs where
  "two_dirs =
     \<lparr>fs_read_dir = (\<lambda>d. Inr [Inr \<lparr>dn_name = ''x.desktop'', dn_type = Inr FtFile\<rparr>]),
      fs_is_file = (\<lambda>_. Inl NotFound),
      fs_read = (\<lambda>p. Inr (''[Desktop Entry]'' @ [CHR 0x0A] @ ''Type=Application'' @ [CHR 0x0A] @ ''Name='' @ take 2 p)),
      fs_executable = (\<lambda>_. False)\<rparr>"

lemma two_dirs_scan:
  "case scan 1 two_dirs None [''/a'', ''/b''] of
     None \<Rightarrow> False
   | Some r \<Rightarrow> map_option de_name (bt_get (snd r) ''x'') = Some ''/a'' \<and> rp_files_scanned (fst r) = 2"
  by code_simp

theorem scan_first_directory_wins_witness:
  "\<exists>rp table. scan 1 two_dirs None [''/a'', ''/b''] = Some (rp, table) \<and>
     rp_files_scanned rp = 2 \<and> map_option de_name (bt_get table ''x'') = Some ''/a'' \<and>
     bt_get table ''x'' = map_of (concat (map (dir_apps 1 two_dirs None) [''/a'', ''/b''])) ''x''"
proof -
  obtain r where r: "scan 1 two_dirs None [''/a'', ''/b''] = Some r"
    "map_option de_name (bt_get (snd r) ''x'') = Some ''/a''" "rp_files_scanned (fst r) = 2"
    using two_dirs_scan by (rule case_SomeE) simp
  obtain rp table where "r = (rp, table)" by (cases r)
  with r scan_first_directory_wins[of 1 two_dirs None "[''/a'', ''/b'']" rp table "''x''"] show ?thesis by auto
qed

end
