(* ===== verification/App_Launch.thy ===== *)
theory App_Launch
  imports App_Registry
begin

text \<open>
  Launching applications and attributing windows to launches
  (\<open>crates/adesk-app-registry/src\<close>): \<open>try_exec.rs\<close>, \<open>terminal.rs\<close>, \<open>launch.rs\<close>, the \<open>launch\<close>
  pipeline of \<open>registry.rs\<close>, \<open>error.rs\<close>, \<open>clock.rs\<close> and \<open>correlate.rs\<close>. The process spawner is a
  function of the command; the clock's reading is an argument.
\<close>

section \<open>TryExec and terminals\<close>

definition resolve_try_exec_with :: "Fs \<Rightarrow> string \<Rightarrow> string option \<Rightarrow> string option" where
  "resolve_try_exec_with fs program path =
     (if trim program = [] then None
      else if CHR ''/'' \<in> set program then
        (if fs_executable fs program then Some program else None)
      else
        (case path of
           None \<Rightarrow> None
         | Some p \<Rightarrow>
             find (fs_executable fs)
               (map (\<lambda>component. path_join component program)
                 (filter (\<lambda>component. component \<noteq> []) (split_char (CHR '':'') p)))))"

record SpawnCommand =
  sc_program :: string
  sc_args :: "string list"
  sc_env :: "(string \<times> string) list"
  sc_env_remove :: "string list"

record TerminalSpec =
  tm_program :: string
  tm_prefix_args :: "string list"

definition EXEC_SEPARATOR :: string where
  "EXEC_SEPARATOR = ''-e''"

definition TerminalSpec_new :: "string \<Rightarrow> TerminalSpec" where
  "TerminalSpec_new program = \<lparr>tm_program = program, tm_prefix_args = [EXEC_SEPARATOR]\<rparr>"

definition DEFAULT_TERMINAL :: string where
  "DEFAULT_TERMINAL = ''x-terminal-emulator''"

definition terminal_from_env_value :: "string option \<Rightarrow> TerminalSpec" where
  "terminal_from_env_value value =
     (case value of
        None \<Rightarrow> TerminalSpec_new DEFAULT_TERMINAL
      | Some v \<Rightarrow>
          (case split_ascii_whitespace v of
             [] \<Rightarrow> TerminalSpec_new DEFAULT_TERMINAL
           | program # tokens \<Rightarrow>
               \<lparr>tm_program = program, tm_prefix_args = tokens @ [EXEC_SEPARATOR]\<rparr>))"

definition terminal_wrap :: "TerminalSpec \<Rightarrow> string list \<Rightarrow> SpawnCommand option" where
  "terminal_wrap t command =
     (if command = [] then None
      else Some \<lparr>sc_program = tm_program t, sc_args = tm_prefix_args t @ command,
                 sc_env = [], sc_env_remove = []\<rparr>)"

section \<open>Launch records and environments\<close>

record LaunchRecord =
  lr_launch_id :: LaunchId
  lr_app_id :: AppId
  lr_pid :: "i32 option"
  lr_started_at_ms :: u64

record LaunchEnv =
  le_wayland_display :: "string option"
  le_xdg_runtime_dir :: "string option"
  le_extra :: "(string \<times> string) list"
  le_removals :: "string list"

definition overrides :: "LaunchEnv \<Rightarrow> (string \<times> string) list" where
  "overrides env =
     (case le_wayland_display env of Some v \<Rightarrow> [(''WAYLAND_DISPLAY'', v)] | None \<Rightarrow> []) @
     (case le_xdg_runtime_dir env of Some v \<Rightarrow> [(''XDG_RUNTIME_DIR'', v)] | None \<Rightarrow> []) @
     le_extra env"

text \<open>\<open>build_command\<close>: the environment of the child, from the inherited one.\<close>

definition child_env :: "SpawnCommand \<Rightarrow> (string \<rightharpoonup> string) \<Rightarrow> (string \<rightharpoonup> string)" where
  "child_env command inherited =
     fold (\<lambda>(k, v) m. m(k \<mapsto> v)) (sc_env command)
       (fold (\<lambda>k m. m(k := None)) (sc_env_remove command) inherited)"

section \<open>Errors\<close>

datatype SpawnError = SpawnIo string string | SpawnOther string

datatype RegistryError =
    UnknownApp AppId
  | InvalidEntry string string
  | NoExec AppId
  | InvalidExec AppId ExecError
  | TryExecNotFound string
  | Spawn SpawnError
  | RegistryIo string string
  | InvalidArgument string

fun registry_error_code :: "RegistryError \<Rightarrow> ErrorCode" where
  "registry_error_code (UnknownApp _) = ErrorCode.UnknownApp"
| "registry_error_code (InvalidEntry _ _) = ErrorCode.Internal"
| "registry_error_code (NoExec _) = ErrorCode.NotSupported"
| "registry_error_code (InvalidExec _ _) = ErrorCode.LaunchFailed"
| "registry_error_code (TryExecNotFound _) = ErrorCode.LaunchFailed"
| "registry_error_code (Spawn _) = ErrorCode.LaunchFailed"
| "registry_error_code (RegistryIo _ _) = ErrorCode.Internal"
| "registry_error_code (InvalidArgument _) = ErrorCode.InvalidRequest"

section \<open>Launching\<close>

text \<open>What a launch takes from its surroundings.\<close>

record LaunchHost =
  lh_fs :: Fs
  lh_path :: "string option"
  lh_terminal :: TerminalSpec
  lh_spawn :: "SpawnCommand \<Rightarrow> SpawnError + i32 option"
  lh_now_ms :: u64
  lh_lossy :: "string \<Rightarrow> string"

record AppRegistry =
  ar_entries :: AppTable
  ar_next_launch_id :: u64

text \<open>Steps 1 to 6: the command to spawn, or why there is none.\<close>

definition launch_command ::
  "LaunchHost \<Rightarrow> AppTable \<Rightarrow> AppId \<Rightarrow> string list \<Rightarrow> LaunchEnv \<Rightarrow> RegistryError + DesktopEntry \<times> SpawnCommand" where
  "launch_command h entries i args env =
     (case bt_get entries i of
        None \<Rightarrow> Inl (UnknownApp i)
      | Some entry \<Rightarrow>
          (case Option.bind (de_try_exec entry) (\<lambda>program.
                  if resolve_try_exec_with (lh_fs h) program (lh_path h) = None then Some program else None) of
             Some program \<Rightarrow> Inl (TryExecNotFound program)
           | None \<Rightarrow>
               let ctx = \<lparr>xc_name = de_name entry, xc_icon = de_icon entry,
                          xc_desktop_file = Some (de_path entry), xc_files = []\<rparr>
               in case (case de_exec entry of
                          Some exec \<Rightarrow> expand (lh_lossy h) exec ctx | None \<Rightarrow> Inr []) of
                    Inl source \<Rightarrow> Inl (InvalidExec (de_id entry) source)
                  | Inr argv \<Rightarrow>
                      if argv = [] then Inl (NoExec (de_id entry))
                      else
                        (case (if de_terminal entry then terminal_wrap (lh_terminal h) (argv @ args)
                               else (case argv @ args of
                                       [] \<Rightarrow> None
                                     | program # rest \<Rightarrow>
                                         Some \<lparr>sc_program = program, sc_args = rest, sc_env = [], sc_env_remove = []\<rparr>)) of
                           None \<Rightarrow> Inl (NoExec (de_id entry))
                         | Some command \<Rightarrow>
                             Inr (entry, command\<lparr>sc_env := overrides env, sc_env_remove := le_removals env\<rparr>))))"

text \<open>Steps 7 and 8: \<open>fetch_add\<close> wraps around, the clock is read, the process is spawned.\<close>

definition launch ::
  "LaunchHost \<Rightarrow> AppRegistry \<Rightarrow> AppId \<Rightarrow> string list \<Rightarrow> LaunchEnv \<Rightarrow> AppRegistry \<times> (RegistryError + LaunchRecord)" where
  "launch h reg i args env =
     (case launch_command h (ar_entries reg) i args env of
        Inl e \<Rightarrow> (reg, Inl e)
      | Inr (entry, command) \<Rightarrow>
          let launch_id = LaunchId (ar_next_launch_id reg);
              reg' = reg\<lparr>ar_next_launch_id := ar_next_launch_id reg + 1\<rparr>
          in (case lh_spawn h command of
                Inl e \<Rightarrow> (reg', Inl (Spawn e))
              | Inr pid \<Rightarrow>
                  (reg', Inr \<lparr>lr_launch_id = launch_id, lr_app_id = de_id entry, lr_pid = pid,
                              lr_started_at_ms = lh_now_ms h\<rparr>)))"

definition AppRegistry_new :: AppRegistry where
  "AppRegistry_new = \<lparr>ar_entries = [], ar_next_launch_id = 1\<rparr>"

section \<open>Correlation\<close>

record WindowCandidate =
  wc_window_id :: WindowId
  wc_pid :: "i32 option"
  wc_app_id :: "string option"
  wc_title :: "string option"

datatype CorrelationEvidence = Pid | StartupWmClass | AppIdOrTitleSubstring

record Correlation =
  cr_window_id :: WindowId
  cr_launch :: LaunchRecord
  cr_evidence :: CorrelationEvidence

record PendingLaunch =
  pl_record :: LaunchRecord
  pl_startup_wm_class :: "string option"
  pl_name :: string

record Correlator =
  co_timeout :: nat \<comment> \<open>nanoseconds\<close>
  co_pending :: "PendingLaunch list"

definition DEFAULT_CORRELATION_TIMEOUT :: nat where
  "DEFAULT_CORRELATION_TIMEOUT = 10000000000"

definition Correlator_new :: Correlator where
  "Correlator_new = \<lparr>co_timeout = DEFAULT_CORRELATION_TIMEOUT, co_pending = []\<rparr>"

definition matches_pid :: "PendingLaunch \<Rightarrow> WindowCandidate \<Rightarrow> bool" where
  "matches_pid p w = (case (lr_pid (pl_record p), wc_pid w) of (Some a, Some b) \<Rightarrow> a = b | _ \<Rightarrow> False)"

definition matches_startup_wm_class :: "(string \<Rightarrow> string) \<Rightarrow> PendingLaunch \<Rightarrow> WindowCandidate \<Rightarrow> bool" where
  "matches_startup_wm_class lower p w =
     (case (Option.bind (pl_startup_wm_class p) non_empty_str, Option.bind (wc_app_id w) non_empty_str) of
        (Some cls, Some app) \<Rightarrow> lower cls = lower app | _ \<Rightarrow> False)"

definition matches_app_id_or_title :: "(string \<Rightarrow> string) \<Rightarrow> PendingLaunch \<Rightarrow> WindowCandidate \<Rightarrow> bool" where
  "matches_app_id_or_title lower p w =
     (let haystacks = map lower (List.map_filter id [wc_app_id w, wc_title w])
      in if haystacks = [] then False
         else
           let app_id = lr_app_id (pl_record p);
               last_segment = last (split_char (CHR ''.'') app_id)
           in list_ex (\<lambda>needle. list_ex (\<lambda>haystack. str_contains haystack (lower needle)) haystacks)
                (filter (\<lambda>needle. needle \<noteq> []) [app_id, last_segment, pl_name p]))"

fun matcher_for ::
  "(string \<Rightarrow> string) \<Rightarrow> CorrelationEvidence \<Rightarrow> PendingLaunch \<Rightarrow> WindowCandidate \<Rightarrow> bool" where
  "matcher_for lower Pid = matches_pid"
| "matcher_for lower StartupWmClass = matches_startup_wm_class lower"
| "matcher_for lower AppIdOrTitleSubstring = matches_app_id_or_title lower"

definition TIERS :: "CorrelationEvidence list" where
  "TIERS = [Pid, StartupWmClass, AppIdOrTitleSubstring]"

definition is_expired :: "u64 \<Rightarrow> nat \<Rightarrow> PendingLaunch \<Rightarrow> bool" where
  "is_expired now timeout p \<longleftrightarrow> millis (saturating_sub now (lr_started_at_ms (pl_record p))) > timeout"

definition record_launch :: "LaunchRecord \<Rightarrow> AppInfo \<Rightarrow> Correlator \<Rightarrow> Correlator" where
  "record_launch r app c =
     c\<lparr>co_pending := co_pending c @
       [\<lparr>pl_record = r, pl_startup_wm_class = Option.bind (ai_startup_wm_class app) non_empty_str,
         pl_name = ai_name app\<rparr>]\<rparr>"

definition prune_expired :: "u64 \<Rightarrow> Correlator \<Rightarrow> Correlator" where
  "prune_expired now c = c\<lparr>co_pending := filter (\<lambda>p. \<not> is_expired now (co_timeout c) p) (co_pending c)\<rparr>"

text \<open>\<open>Iterator::max_by_key\<close>: the last of the greatest elements.\<close>

definition max_by_key :: "('a \<Rightarrow> 'k::linorder) \<Rightarrow> 'a list \<Rightarrow> 'a option" where
  "max_by_key key xs =
     fold (\<lambda>x best. case best of None \<Rightarrow> Some x | Some b \<Rightarrow> if key b \<le> key x then Some x else Some b) xs None"

definition launch_key :: "PendingLaunch \<Rightarrow> u64 \<times> u64" where
  "launch_key p = (lr_started_at_ms (pl_record p), launch_raw (lr_launch_id (pl_record p)))"

definition best_match :: "Correlator \<Rightarrow> (PendingLaunch \<Rightarrow> bool) \<Rightarrow> PendingLaunch option" where
  "best_match c matches = max_by_key launch_key (filter matches (co_pending c))"

fun tier_loop ::
  "(string \<Rightarrow> string) \<Rightarrow> Correlator \<Rightarrow> WindowCandidate \<Rightarrow> CorrelationEvidence list \<Rightarrow> Correlation option" where
  "tier_loop lower c w [] = None"
| "tier_loop lower c w (evidence # tiers) =
     (case best_match c (\<lambda>p. matcher_for lower evidence p w) of
        Some m \<Rightarrow> Some \<lparr>cr_window_id = wc_window_id w, cr_launch = pl_record m, cr_evidence = evidence\<rparr>
      | None \<Rightarrow> tier_loop lower c w tiers)"

text \<open>\<^const>\<open>None\<close> is \<open>Uncorrelated\<close>.\<close>

definition correlate ::
  "(string \<Rightarrow> string) \<Rightarrow> u64 \<Rightarrow> WindowCandidate \<Rightarrow> Correlator \<Rightarrow> Correlator \<times> Correlation option" where
  "correlate lower now w c =
     (let c' = prune_expired now c in (c', tier_loop lower c' w TIERS))"

section \<open>The command that is spawned\<close>

text \<open>Overrides win over removals, and of two overrides of a variable the later one.\<close>

lemma child_env_lookup:
  "child_env command inherited k =
   (case map_of (rev (sc_env command)) k of
      Some v \<Rightarrow> Some v
    | None \<Rightarrow> if k \<in> set (sc_env_remove command) then None else inherited k)"
proof -
  have "fold (\<lambda>k m. m(k := None)) ks m k = (if k \<in> set ks then None else m k)" for ks and m :: "string \<rightharpoonup> string"
    by (induction ks arbitrary: m) auto
  moreover have "fold (\<lambda>(k, v) m. m(k \<mapsto> v)) kvs m k = (case map_of (rev kvs) k of Some v \<Rightarrow> Some v | None \<Rightarrow> m k)"
    for kvs and m :: "string \<rightharpoonup> string"
    by (induction kvs arbitrary: m) (auto simp: map_add_def split: option.split)
  ultimately show ?thesis by (simp add: child_env_def split: option.split)
qed

definition spawnable :: "LaunchHost \<Rightarrow> DesktopEntry \<Rightarrow> bool" where
  "spawnable h entry \<longleftrightarrow>
     (case de_try_exec entry of
        None \<Rightarrow> True | Some program \<Rightarrow> resolve_try_exec_with (lh_fs h) program (lh_path h) \<noteq> None)"

text \<open>C32. An installed entry whose \<open>Exec\<close> line writes a program and its arguments in the
  specification's quoting spawns exactly that program with exactly those arguments followed by the
  caller's, behind the terminal's own arguments when the entry asks for a terminal, and with the
  requested environment.\<close>

theorem launch_passes_arguments:
  assumes "bt_get entries i = Some entry" "spawnable h entry"
    and "de_exec entry = Some (exec_line (program # arguments))"
  shows "launch_command h entries i args env = Inr (entry,
    (if de_terminal entry
     then \<lparr>sc_program = tm_program (lh_terminal h),
           sc_args = tm_prefix_args (lh_terminal h) @ program # arguments @ args,
           sc_env = overrides env, sc_env_remove = le_removals env\<rparr>
     else \<lparr>sc_program = program, sc_args = arguments @ args,
           sc_env = overrides env, sc_env_remove = le_removals env\<rparr>))"
  using assms
  by (auto simp: launch_command_def spawnable_def exec_line_round_trip terminal_wrap_def Let_def
      split: option.splits)

definition sample_entry :: DesktopEntry where
  "sample_entry =
     \<lparr>de_id = ''ed'', de_path = ''/a/ed.desktop'', de_name = ''Ed'',
      de_exec = Some (exec_line [''ed'', ''100%'', ''a b'']), de_icon = None, de_terminal = False,
      de_no_display = False, de_hidden = False, de_categories = [], de_startup_wm_class = None,
      de_dbus_activatable = False, de_try_exec = None\<rparr>"

definition sample_host :: LaunchHost where
  "sample_host =
     \<lparr>lh_fs = sample_fs, lh_path = None, lh_terminal = TerminalSpec_new DEFAULT_TERMINAL,
      lh_spawn = (\<lambda>c. if sc_program c = ''ed'' then Inr (Some 42) else Inl (SpawnOther ''no such file'')),
      lh_now_ms = 7, lh_lossy = id\<rparr>"

definition no_env :: LaunchEnv where
  "no_env = \<lparr>le_wayland_display = Some ''wayland-1'', le_xdg_runtime_dir = None, le_extra = [], le_removals = [''DISPLAY'']\<rparr>"

theorem launch_passes_arguments_witness:
  "launch_command sample_host [(''ed'', sample_entry)] ''ed'' [''--new''] no_env = Inr (sample_entry,
     \<lparr>sc_program = ''ed'', sc_args = [''100%'', ''a b'', ''--new''],
      sc_env = [(''WAYLAND_DISPLAY'', ''wayland-1'')], sc_env_remove = [''DISPLAY'']\<rparr>)"
  using launch_passes_arguments[of "[(''ed'', sample_entry)]" "''ed''" sample_entry sample_host "''ed''"
      "[''100%'', ''a b'']" "[''--new'']" no_env]
  by (simp add: bt_get_def sample_entry_def spawnable_def no_env_def overrides_def)

section \<open>Errors and identifiers\<close>

text \<open>C33. A launch leaves the table alone. It takes the next launch id exactly when it gets as far
  as spawning, also when the spawn fails; before that, an error takes none. A record carries that
  id, the clock's reading and the pid of the process.\<close>

theorem launch_takes_an_id_iff_it_spawns:
  assumes "launch h reg i args env = (reg', r)"
  shows "reg' = reg\<lparr>ar_next_launch_id := ar_next_launch_id reg +
      (case r of Inl (Spawn _) \<Rightarrow> 1 | Inl _ \<Rightarrow> 0 | Inr _ \<Rightarrow> 1)\<rparr> \<and>
    (case r of
       Inr record \<Rightarrow> \<exists>entry command. launch_command h (ar_entries reg) i args env = Inr (entry, command) \<and>
         lh_spawn h command = Inr (lr_pid record) \<and> lr_launch_id record = LaunchId (ar_next_launch_id reg) \<and>
         lr_app_id record = de_id entry \<and> lr_started_at_ms record = lh_now_ms h
     | Inl (Spawn e) \<Rightarrow> \<exists>entry command. launch_command h (ar_entries reg) i args env = Inr (entry, command) \<and>
         lh_spawn h command = Inl e
     | Inl e \<Rightarrow> launch_command h (ar_entries reg) i args env = Inl e)"
proof (cases "launch_command h (ar_entries reg) i args env")
  case (Inl e)
  then have "e \<noteq> Spawn x" for x
    by (auto simp: launch_command_def Let_def split: option.splits sum.splits if_splits list.splits)
  with Inl assms show ?thesis by (cases e) (auto simp: launch_def)
next
  case (Inr ec)
  with assms show ?thesis by (auto simp: launch_def Let_def split: sum.splits prod.splits)
qed

theorem launch_takes_an_id_iff_it_spawns_witness:
  "\<exists>reg' r. launch sample_host \<lparr>ar_entries = [(''ed'', sample_entry)], ar_next_launch_id = 5\<rparr> ''ed'' [] no_env = (reg', Inr r) \<and>
     ar_next_launch_id reg' = 6 \<and> lr_launch_id r = LaunchId 5"
proof -
  let ?reg = "\<lparr>ar_entries = [(''ed'', sample_entry)], ar_next_launch_id = 5\<rparr>"
  have "snd (launch sample_host ?reg ''ed'' [] no_env) =
      Inr \<lparr>lr_launch_id = LaunchId 5, lr_app_id = ''ed'', lr_pid = Some 42, lr_started_at_ms = 7\<rparr>"
    by (simp add: launch_def launch_command_def bt_get_def sample_entry_def exec_line_round_trip
        sample_host_def overrides_def Let_def)
  then obtain reg' r where "launch sample_host ?reg ''ed'' [] no_env = (reg', Inr r)"
    by (cases "launch sample_host ?reg ''ed'' [] no_env") simp
  with launch_takes_an_id_iff_it_spawns[of sample_host ?reg "''ed''" "[]" no_env reg' "Inr r"]
  show ?thesis by auto
qed

text \<open>Launch ids as an identifier source.\<close>

type_synonym LaunchCall = "LaunchHost \<times> AppId \<times> string list \<times> LaunchEnv"

definition launch_step :: "LaunchCall \<Rightarrow> AppRegistry \<Rightarrow> AppRegistry \<times> u64 option" where
  "launch_step = (\<lambda>(h, i, args, env) reg.
     (fst (launch h reg i args env),
      case launch_command h (ar_entries reg) i args env of
        Inr _ \<Rightarrow> Some (ar_next_launch_id reg) | Inl _ \<Rightarrow> None))"

interpretation launch_ids: id_source launch_step "\<lambda>reg. unat (ar_next_launch_id reg)"
  by unfold_locales
    (auto simp: launch_step_def launch_def Let_def unat_Suc_word split: sum.splits prod.splits)

section \<open>Correlation\<close>

lemma max_by_key_snoc:
  "max_by_key key (xs @ [x]) =
   (case max_by_key key xs of None \<Rightarrow> Some x | Some b \<Rightarrow> if key b \<le> key x then Some x else Some b)"
  by (simp add: max_by_key_def)

lemma max_by_key_None: "max_by_key key xs = None \<longleftrightarrow> xs = []"
  by (cases xs rule: rev_cases) (auto simp: max_by_key_snoc max_by_key_def[of _ "[]"] split: option.split)

lemma max_by_key_Some:
  "max_by_key key xs = Some b \<Longrightarrow> b \<in> set xs \<and> (\<forall>x \<in> set xs. key x \<le> key b)"
proof (induction xs arbitrary: b rule: rev_induct)
  case Nil
  then show ?case by (simp add: max_by_key_def)
next
  case (snoc x xs)
  show ?case
  proof (cases "max_by_key key xs")
    case None
    with snoc.prems show ?thesis by (auto simp: max_by_key_snoc max_by_key_None)
  next
    case (Some c)
    with snoc.IH[OF Some] snoc.prems show ?thesis
      by (auto simp: max_by_key_snoc split: if_splits intro: order_trans)
  qed
qed

lemma best_match_None: "best_match c m = None \<longleftrightarrow> (\<forall>p \<in> set (co_pending c). \<not> m p)"
  by (simp add: best_match_def max_by_key_None filter_empty_conv)

lemma tier_loop_None:
  "tier_loop lower c w tiers = None \<longleftrightarrow>
   (\<forall>t \<in> set tiers. \<forall>p \<in> set (co_pending c). \<not> matcher_for lower t p w)"
proof (induction tiers)
  case (Cons t tiers)
  then show ?case
    by (cases "best_match c (\<lambda>p. matcher_for lower t p w)")
      (use best_match_None[of c "\<lambda>p. matcher_for lower t p w"] in auto)
qed simp

lemma tier_loop_Some:
  "tier_loop lower c w tiers = Some r \<Longrightarrow>
   \<exists>earlier later p. tiers = earlier @ cr_evidence r # later \<and>
     (\<forall>t \<in> set earlier. \<forall>q \<in> set (co_pending c). \<not> matcher_for lower t q w) \<and>
     p \<in> set (co_pending c) \<and> cr_launch r = pl_record p \<and> matcher_for lower (cr_evidence r) p w \<and>
     (\<forall>q \<in> set (co_pending c). matcher_for lower (cr_evidence r) q w \<longrightarrow> launch_key q \<le> launch_key p) \<and>
     cr_window_id r = wc_window_id w"
proof (induction tiers)
  case (Cons t tiers)
  show ?case
  proof (cases "best_match c (\<lambda>p. matcher_for lower t p w)")
    case None
    with Cons obtain earlier later p where
      "tiers = earlier @ cr_evidence r # later" and rest:
      "\<forall>t \<in> set earlier. \<forall>q \<in> set (co_pending c). \<not> matcher_for lower t q w"
      "p \<in> set (co_pending c)" "cr_launch r = pl_record p" "matcher_for lower (cr_evidence r) p w"
      "\<forall>q \<in> set (co_pending c). matcher_for lower (cr_evidence r) q w \<longrightarrow> launch_key q \<le> launch_key p"
      "cr_window_id r = wc_window_id w"
      by auto
    moreover from None have "\<forall>q \<in> set (co_pending c). \<not> matcher_for lower t q w"
      by (simp add: best_match_None)
    ultimately show ?thesis by (intro exI[of _ "t # earlier"] exI[of _ later] exI[of _ p]) auto
  next
    case (Some m)
    with max_by_key_Some[of launch_key "filter (\<lambda>p. matcher_for lower t p w) (co_pending c)" m] Cons.prems
    show ?thesis
      by (intro exI[of _ "[]"] exI[of _ tiers] exI[of _ m]) (auto simp: best_match_def)
  qed
qed simp

text \<open>A launch the correlator has recorded and that has not outlived the timeout.\<close>

definition fresh_launch :: "u64 \<Rightarrow> Correlator \<Rightarrow> PendingLaunch \<Rightarrow> bool" where
  "fresh_launch now c p \<longleftrightarrow> p \<in> set (co_pending c) \<and> \<not> is_expired now (co_timeout c) p"

text \<open>C34. A window is attributed to a launch only on evidence: the launch was recorded, is not
  stale, matches the window by the reported rule, no fresh launch matches by a stronger rule, and
  none that matches by this rule started later. A window is reported uncorrelated exactly when no
  fresh launch matches by any rule. Fresh launches stay pending.\<close>

theorem correlation_is_evidence:
  assumes "correlate lower now w c = (c', r)"
  shows "(case r of
      Some cr \<Rightarrow> \<exists>p stronger weaker. fresh_launch now c p \<and> cr_launch cr = pl_record p \<and>
        TIERS = stronger @ cr_evidence cr # weaker \<and> matcher_for lower (cr_evidence cr) p w \<and>
        (\<forall>t \<in> set stronger. \<forall>q. fresh_launch now c q \<longrightarrow> \<not> matcher_for lower t q w) \<and>
        (\<forall>q. fresh_launch now c q \<and> matcher_for lower (cr_evidence cr) q w \<longrightarrow> launch_key q \<le> launch_key p)
    | None \<Rightarrow> \<forall>q t. fresh_launch now c q \<longrightarrow> \<not> matcher_for lower t q w) \<and>
    (\<forall>q. q \<in> set (co_pending c') \<longleftrightarrow> fresh_launch now c q)"
proof -
  have c': "c' = prune_expired now c" and r: "r = tier_loop lower c' w TIERS"
    using assms by (auto simp: correlate_def Let_def)
  have pend: "q \<in> set (co_pending c') \<longleftrightarrow> fresh_launch now c q" for q
    by (auto simp: c' prune_expired_def fresh_launch_def)
  show ?thesis
  proof (cases r)
    case None
    have "t \<in> set TIERS" for t by (cases t) (simp_all add: TIERS_def)
    moreover from None r have "\<forall>t \<in> set TIERS. \<forall>q \<in> set (co_pending c'). \<not> matcher_for lower t q w"
      using tier_loop_None by metis
    ultimately show ?thesis using None pend by simp
  next
    case (Some cr)
    with r tier_loop_Some[of lower c' w TIERS cr] obtain earlier later p where
      "TIERS = earlier @ cr_evidence cr # later"
      "\<forall>t \<in> set earlier. \<forall>q \<in> set (co_pending c'). \<not> matcher_for lower t q w"
      "p \<in> set (co_pending c')" "cr_launch cr = pl_record p" "matcher_for lower (cr_evidence cr) p w"
      "\<forall>q \<in> set (co_pending c'). matcher_for lower (cr_evidence cr) q w \<longrightarrow> launch_key q \<le> launch_key p"
      by auto
    with pend have "\<exists>p stronger weaker. fresh_launch now c p \<and> cr_launch cr = pl_record p \<and>
        TIERS = stronger @ cr_evidence cr # weaker \<and> matcher_for lower (cr_evidence cr) p w \<and>
        (\<forall>t \<in> set stronger. \<forall>q. fresh_launch now c q \<longrightarrow> \<not> matcher_for lower t q w) \<and>
        (\<forall>q. fresh_launch now c q \<and> matcher_for lower (cr_evidence cr) q w \<longrightarrow> launch_key q \<le> launch_key p)"
      by (intro exI[of _ p] exI[of _ earlier] exI[of _ later]) auto
    with Some pend show ?thesis by simp
  qed
qed

definition two_launches :: Correlator where
  "two_launches =
     (let app = to_app_info sample_entry;
          r = (\<lambda>n t. \<lparr>lr_launch_id = LaunchId n, lr_app_id = ''org.ed'', lr_pid = None, lr_started_at_ms = t\<rparr>)
      in record_launch (r 2 20) app (record_launch (r 1 10) app Correlator_new))"

definition mapped_window :: WindowCandidate where
  "mapped_window = \<lparr>wc_window_id = WindowId 4, wc_pid = Some 42, wc_app_id = Some ''ed'', wc_title = None\<rparr>"

lemmas correlation_eval =
  correlate_def prune_expired_def is_expired_def two_launches_def record_launch_def Correlator_new_def
  DEFAULT_CORRELATION_TIMEOUT_def to_app_info_def sample_entry_def mapped_window_def TIERS_def
  best_match_def max_by_key_def launch_key_def matches_pid_def matches_startup_wm_class_def
  matches_app_id_or_title_def map_filter_simps str_contains_def sublist_Cons_right saturating_sub_def
  millis_def less_eq_prod_def Let_def

theorem correlation_is_evidence_witness:
  "\<exists>c' cr p stronger weaker. correlate id 30 mapped_window two_launches = (c', Some cr) \<and>
     cr_launch cr = pl_record p \<and> lr_launch_id (pl_record p) = LaunchId 2 \<and>
     fresh_launch 30 two_launches p \<and> TIERS = stronger @ cr_evidence cr # weaker \<and>
     (\<forall>t \<in> set stronger. \<forall>q. fresh_launch 30 two_launches q \<longrightarrow> \<not> matcher_for id t q mapped_window)"
proof -
  have eval: "case snd (correlate id 30 mapped_window two_launches) of
      None \<Rightarrow> False | Some cr \<Rightarrow> lr_launch_id (cr_launch cr) = LaunchId 2"
    by (simp add: correlation_eval)
  obtain c' cr where cr: "correlate id 30 mapped_window two_launches = (c', Some cr)"
    "lr_launch_id (cr_launch cr) = LaunchId 2"
    using eval by (cases "correlate id 30 mapped_window two_launches") (auto elim: case_SomeE)
  from correlation_is_evidence[OF cr(1)] obtain p stronger weaker where
    "fresh_launch 30 two_launches p" "cr_launch cr = pl_record p" "TIERS = stronger @ cr_evidence cr # weaker"
    "\<forall>t \<in> set stronger. \<forall>q. fresh_launch 30 two_launches q \<longrightarrow> \<not> matcher_for id t q mapped_window"
    by auto
  with cr show ?thesis
    by (intro exI[of _ c'] exI[of _ cr] exI[of _ p] exI[of _ stronger] exI[of _ weaker]) simp
qed

end
