(* ===== verification/Machine_Runtime.thy ===== *)
theory Machine_Runtime
  imports Core_Types Rust_Text
begin

text \<open>
  Machines and their backends (\<open>crates/adesk-machine/src\<close>): identity and state (\<open>state.rs\<close>), the
  machine specification (\<open>spec.rs\<close>), the errors (\<open>error.rs\<close>), the backend interface
  (\<open>runtime.rs\<close>) as a record of its operations and as a locale of the laws a lifecycle manager
  relies on, and the in-memory backend (\<open>runtime/mock.rs\<close>), which provides them.
\<close>

section \<open>Data\<close>

type_synonym MachineId = string
type_synonym MachineName = string

datatype MachineState =
    Created
  | Running
  | Stopped
  | Exited i32
  | Failed string

definition state_is_running :: "MachineState \<Rightarrow> bool" where
  "state_is_running s \<longleftrightarrow> s = Running"

fun MachineState_as_str :: "MachineState \<Rightarrow> string" where
  "MachineState_as_str Created = ''created''"
| "MachineState_as_str Running = ''running''"
| "MachineState_as_str Stopped = ''stopped''"
| "MachineState_as_str (Exited _) = ''exited''"
| "MachineState_as_str (Failed _) = ''failed''"

record Mount =
  mt_host_path :: string
  mt_container_path :: string
  mt_read_only :: bool

datatype NetworkMode = NetNone | NetHost | NetPrivate

datatype ViewerExposure =
    UnixSocket string string
  | TcpPort u16 u16
  | NoViewer

record MachineSpec =
  ms_name :: MachineName
  ms_image :: string
  ms_command :: "string list"
  ms_env :: "(string, string) btree"
  ms_mounts :: "Mount list"
  ms_memory_mb :: "u64 option"
  ms_cpus :: "f64 option"
  ms_network :: NetworkMode
  ms_viewer :: ViewerExposure
  ms_labels :: "(string, string) btree"

definition MachineSpec_default :: MachineSpec where
  "MachineSpec_default =
     \<lparr>ms_name = ''adesk'', ms_image = ''ghcr.io/adesk/machine:latest'', ms_command = [''adesk-server''],
      ms_env = [], ms_mounts = [], ms_memory_mb = Some 4096, ms_cpus = Some (F64_fin 2 0),
      ms_network = NetPrivate,
      ms_viewer = UnixSocket ''/run/adesk/viewer.sock'' ''/run/adesk/viewer.sock'',
      ms_labels = bt_insert ''adesk.io/role'' ''machine'' []\<rparr>"

definition MachineSpec_new :: "MachineName \<Rightarrow> string \<Rightarrow> MachineSpec" where
  "MachineSpec_new name img = MachineSpec_default\<lparr>ms_name := name, ms_image := img\<rparr>"

text \<open>\<open>MachineSpec::new\<close> documents an empty command; it keeps the default's.\<close>

lemma MachineSpec_new_keeps_command: "ms_command (MachineSpec_new name img) = [''adesk-server'']"
  by (simp add: MachineSpec_new_def MachineSpec_default_def)

record MachineStatus =
  st_id :: MachineId
  st_name :: MachineName
  st_image :: string
  st_state :: MachineState
  st_pid :: "u32 option"
  st_created_at_ms :: u64
  st_viewer :: ViewerExposure

datatype MachineError =
    MRuntime string
  | MBackend string i32 string
  | MNotFound MachineName
  | MDuplicate MachineName
  | MInvalidSpec string
  | MInvalidState MachineName string string
  | MIo string
  | MSpawn string

section \<open>The backend interface\<close>

text \<open>\<open>trait ContainerRuntime\<close>: each call returns the backend's new state beside its result.\<close>

record 'r ContainerRuntime =
  rt_create :: "MachineSpec \<Rightarrow> 'r \<Rightarrow> 'r \<times> (MachineError + MachineId)"
  rt_start :: "MachineId \<Rightarrow> 'r \<Rightarrow> 'r \<times> (MachineError + unit)"
  rt_stop :: "MachineId \<Rightarrow> u64 \<Rightarrow> 'r \<Rightarrow> 'r \<times> (MachineError + unit)"
  rt_remove :: "MachineId \<Rightarrow> bool \<Rightarrow> 'r \<Rightarrow> 'r \<times> (MachineError + unit)"
  rt_status :: "MachineId \<Rightarrow> 'r \<Rightarrow> 'r \<times> (MachineError + MachineStatus)"
  rt_list :: "'r \<Rightarrow> 'r \<times> (MachineError + MachineStatus list)"

text \<open>
  What a lifecycle manager relies on. \<open>names\<close> is the backend's name table; \<open>room\<close> is the number
  of machines it can still number, which a creation lowers by at most one.
\<close>

locale container_runtime =
  fixes R :: "'r ContainerRuntime"
    and names :: "'r \<Rightarrow> MachineName \<Rightarrow> MachineId option"
    and room :: "'r \<Rightarrow> nat"
    and ok :: "'r \<Rightarrow> bool"
  assumes names_inj: "ok r \<Longrightarrow> names r n = Some i \<Longrightarrow> names r n' = Some i \<Longrightarrow> n = n'"
    and create_ok: "rt_create R spec r = (r', Inr i) \<Longrightarrow> ok r \<Longrightarrow> 0 < room r \<Longrightarrow>
      ok r' \<and> names r (ms_name spec) = None \<and> names r' = (names r)(ms_name spec \<mapsto> i) \<and> room r \<le> Suc (room r')"
    and create_err: "rt_create R spec r = (r', Inl e) \<Longrightarrow> ok r \<Longrightarrow> ok r' \<and> names r' = names r \<and> room r \<le> room r'"
    and start: "rt_start R i r = (r', res) \<Longrightarrow> ok r \<Longrightarrow> ok r' \<and> names r' = names r \<and> room r \<le> room r'"
    and stop: "rt_stop R i t r = (r', res) \<Longrightarrow> ok r \<Longrightarrow> ok r' \<and> names r' = names r \<and> room r \<le> room r'"
    and remove_ok: "rt_remove R i force r = (r', Inr u) \<Longrightarrow> ok r \<Longrightarrow>
      ok r' \<and> names r' = (\<lambda>n. if names r n = Some i then None else names r n) \<and> room r \<le> room r'"
    and remove_err: "rt_remove R i force r = (r', Inl e) \<Longrightarrow> ok r \<Longrightarrow> ok r' \<and> names r' = names r \<and> room r \<le> room r'"
    and status: "rt_status R i r = (r', qr) \<Longrightarrow> ok r \<Longrightarrow> ok r' \<and> names r' = names r \<and> room r \<le> room r' \<and>
      (\<forall>st. qr = Inr st \<longrightarrow> st_id st = i \<and> names r (st_name st) = Some i)"
    and list: "rt_list R r = (r', lr) \<Longrightarrow> ok r \<Longrightarrow> ok r' \<and> names r' = names r \<and> room r \<le> room r' \<and>
      (\<forall>sts. lr = Inr sts \<longrightarrow> (\<forall>n i. (\<exists>st \<in> set sts. st_name st = n \<and> st_id st = i) \<longleftrightarrow> names r n = Some i))"

section \<open>The in-memory backend\<close>

datatype RuntimeCall =
    CallCreate MachineName
  | CallStart MachineId
  | CallStop MachineId u64
  | CallRemove MachineId bool
  | CallStatus MachineId
  | CallList

record MockMachine =
  mm_spec :: MachineSpec
  mm_state :: MachineState
  mm_created_at_ms :: u64
  mm_pid :: u32

text \<open>The interior and the reading of the clock.\<close>

record MockRuntime =
  mk_machines :: "(MachineId, MockMachine) btree"
  mk_names :: "(MachineName, MachineId) btree"
  mk_next_seq :: u32
  mk_calls :: "RuntimeCall list"
  mk_clock :: u64

definition MockRuntime_new :: "u64 \<Rightarrow> MockRuntime" where
  "MockRuntime_new now = \<lparr>mk_machines = [], mk_names = [], mk_next_seq = 0, mk_calls = [], mk_clock = now\<rparr>"

definition mock_status :: "MockMachine \<Rightarrow> MachineId \<Rightarrow> MachineStatus" where
  "mock_status m i =
     \<lparr>st_id = i, st_name = ms_name (mm_spec m), st_image = ms_image (mm_spec m), st_state = mm_state m,
      st_pid = (if state_is_running (mm_state m) then Some (mm_pid m) else None),
      st_created_at_ms = mm_created_at_ms m, st_viewer = ms_viewer (mm_spec m)\<rparr>"

definition record_call :: "RuntimeCall \<Rightarrow> MockRuntime \<Rightarrow> MockRuntime" where
  "record_call c k = k\<lparr>mk_calls := mk_calls k @ [c]\<rparr>"

definition invalid_state :: "MockMachine \<Rightarrow> string \<Rightarrow> MachineError" where
  "invalid_state m action = MInvalidState (ms_name (mm_spec m)) (MachineState_as_str (mm_state m)) action"

definition machine_id :: "u32 \<Rightarrow> MachineId" where
  "machine_id sq = ''machine-'' @ decimal (unat sq)"

definition mock_create :: "MachineSpec \<Rightarrow> MockRuntime \<Rightarrow> MockRuntime \<times> (MachineError + MachineId)" where
  "mock_create spec k0 =
     (let k = record_call (CallCreate (ms_name spec)) k0
      in if bt_contains (mk_names k) (ms_name spec) then (k, Inl (MDuplicate (ms_name spec)))
         else
           let sq = mk_next_seq k + 1;
               i = machine_id sq;
               m = \<lparr>mm_spec = spec, mm_state = Created, mm_created_at_ms = mk_clock k, mm_pid = 1000 + sq\<rparr>
           in (k\<lparr>mk_next_seq := sq, mk_machines := bt_insert i m (mk_machines k),
                 mk_names := bt_insert (ms_name spec) i (mk_names k)\<rparr>, Inr i))"

text \<open>\<open>get_mut\<close> and a transition allowed in some states.\<close>

definition mock_transition ::
  "RuntimeCall \<Rightarrow> MachineId \<Rightarrow> MachineState set \<Rightarrow> MachineState \<Rightarrow> string \<Rightarrow> MockRuntime
    \<Rightarrow> MockRuntime \<times> (MachineError + unit)" where
  "mock_transition call i allowed target action k0 =
     (let k = record_call call k0
      in case bt_get (mk_machines k) i of
           None \<Rightarrow> (k, Inl (MNotFound i))
         | Some m \<Rightarrow>
             if mm_state m \<in> allowed
             then (k\<lparr>mk_machines := bt_insert i (m\<lparr>mm_state := target\<rparr>) (mk_machines k)\<rparr>, Inr ())
             else (k, Inl (invalid_state m action)))"

definition mock_start :: "MachineId \<Rightarrow> MockRuntime \<Rightarrow> MockRuntime \<times> (MachineError + unit)" where
  "mock_start i = mock_transition (CallStart i) i {Created, Stopped} Running ''start''"

definition mock_stop :: "MachineId \<Rightarrow> u64 \<Rightarrow> MockRuntime \<Rightarrow> MockRuntime \<times> (MachineError + unit)" where
  "mock_stop i timeout = mock_transition (CallStop i timeout) i {Running} Stopped ''stop''"

definition mock_remove :: "MachineId \<Rightarrow> bool \<Rightarrow> MockRuntime \<Rightarrow> MockRuntime \<times> (MachineError + unit)" where
  "mock_remove i force k0 =
     (let k = record_call (CallRemove i force) k0
      in case bt_get (mk_machines k) i of
           None \<Rightarrow> (k, Inl (MNotFound i))
         | Some m \<Rightarrow>
             if state_is_running (mm_state m) \<and> \<not> force then (k, Inl (invalid_state m ''remove''))
             else (k\<lparr>mk_machines := bt_remove i (mk_machines k),
                     mk_names := bt_remove (ms_name (mm_spec m)) (mk_names k)\<rparr>, Inr ()))"

definition mock_query :: "MachineId \<Rightarrow> MockRuntime \<Rightarrow> MockRuntime \<times> (MachineError + MachineStatus)" where
  "mock_query i k0 =
     (let k = record_call (CallStatus i) k0
      in (k, case bt_get (mk_machines k) i of None \<Rightarrow> Inl (MNotFound i) | Some m \<Rightarrow> Inr (mock_status m i)))"

definition mock_list :: "MockRuntime \<Rightarrow> MockRuntime \<times> (MachineError + MachineStatus list)" where
  "mock_list k0 =
     (let k = record_call CallList k0 in (k, Inr (map (\<lambda>(i, m). mock_status m i) (mk_machines k))))"

definition Mock :: "MockRuntime ContainerRuntime" where
  "Mock = \<lparr>rt_create = mock_create, rt_start = mock_start, rt_stop = mock_stop, rt_remove = mock_remove,
     rt_status = mock_query, rt_list = mock_list\<rparr>"

section \<open>The in-memory backend keeps the laws\<close>

definition undecimal :: "string \<Rightarrow> nat" where
  "undecimal s = fold (\<lambda>c n. n * 10 + (of_char c - 48)) s 0"

lemma undecimal_decimal: "undecimal (decimal n) = n"
proof (induction n rule: decimal.induct)
  case (1 n)
  have digit: "of_char (char_of (d + 48) :: char) = d + 48" if "d < 10" for d :: nat
    using that by simp
  show ?case
  proof (cases "n < 10")
    case True
    then show ?thesis by (subst decimal.simps) (simp add: undecimal_def digit)
  next
    case False
    with 1 have "undecimal (decimal (n div 10)) = n div 10" by simp
    with False show ?thesis by (subst decimal.simps) (simp add: undecimal_def digit)
  qed
qed

lemma machine_id_inj: "machine_id a = machine_id b \<longleftrightarrow> a = b"
  by (metis machine_id_def same_append_eq undecimal_decimal word_unat_eq_iff)

text \<open>
  Machines and names point at each other, and every identifier in use has been handed out.
\<close>

lemma mock_status_sel [simp]:
  "st_id (mock_status m i) = i" "st_name (mock_status m i) = ms_name (mm_spec m)"
  "st_state (mock_status m i) = mm_state m"
  by (simp_all add: mock_status_def)

definition mock_ok :: "MockRuntime \<Rightarrow> bool" where
  "mock_ok k \<longleftrightarrow> bt_ok (mk_machines k) \<and> bt_ok (mk_names k) \<and>
     (\<forall>i m. bt_get (mk_machines k) i = Some m \<longrightarrow> bt_get (mk_names k) (ms_name (mm_spec m)) = Some i) \<and>
     (\<forall>n i. bt_get (mk_names k) n = Some i \<longrightarrow>
        (\<exists>m. bt_get (mk_machines k) i = Some m \<and> ms_name (mm_spec m) = n) \<and>
        (\<exists>sq \<le> mk_next_seq k. i = machine_id sq))"

lemma mock_named:
  assumes "mock_ok k" "bt_get (mk_names k) n = Some i"
  obtains m where "bt_get (mk_machines k) i = Some m" "ms_name (mm_spec m) = n"
  using assms unfolding mock_ok_def by blast

lemma mock_owner:
  assumes "mock_ok k" "bt_get (mk_machines k) i = Some m"
  shows "bt_get (mk_names k) n = Some i \<longleftrightarrow> n = ms_name (mm_spec m)"
proof
  assume "bt_get (mk_names k) n = Some i"
  with assms(1) obtain m' where "bt_get (mk_machines k) i = Some m'" "ms_name (mm_spec m') = n"
    by (rule mock_named)
  with assms(2) show "n = ms_name (mm_spec m)" by simp
next
  assume "n = ms_name (mm_spec m)"
  with assms show "bt_get (mk_names k) n = Some i" by (simp add: mock_ok_def)
qed

definition mock_room :: "MockRuntime \<Rightarrow> nat" where
  "mock_room k = 2 ^ 32 - 1 - unat (mk_next_seq k)"

lemma mock_room_Suc:
  assumes "0 < mock_room k"
  shows "mk_next_seq k < mk_next_seq k + 1" "2 ^ 32 - 1 - unat (mk_next_seq k) \<le> Suc (2 ^ 32 - 1 - unat (mk_next_seq k + 1))"
proof -
  have "unat (mk_next_seq k + 1) = Suc (unat (mk_next_seq k))"
    using assms by (intro unat_Suc_word) (simp add: mock_room_def)
  then show "mk_next_seq k < mk_next_seq k + 1"
    "2 ^ 32 - 1 - unat (mk_next_seq k) \<le> Suc (2 ^ 32 - 1 - unat (mk_next_seq k + 1))"
    by (simp_all add: word_less_nat_alt)
qed

lemma record_call_ok [simp]:
  "mock_ok (record_call c k) = mock_ok k" "mk_names (record_call c k) = mk_names k"
  "mk_machines (record_call c k) = mk_machines k" "mk_next_seq (record_call c k) = mk_next_seq k"
  "mk_clock (record_call c k) = mk_clock k" "mock_room (record_call c k) = mock_room k"
  by (simp_all add: record_call_def mock_ok_def mock_room_def)

lemma mock_create_ok:
  assumes "mock_create spec k = (k', Inr i)" "mock_ok k" "0 < mock_room k"
  shows "mock_ok k' \<and> bt_get (mk_names k) (ms_name spec) = None \<and>
    bt_get (mk_names k') = (bt_get (mk_names k))(ms_name spec \<mapsto> i) \<and> mock_room k \<le> Suc (mock_room k')"
proof -
  let ?sq = "mk_next_seq k + 1"
  have step: "mk_next_seq k < ?sq" using mock_room_Suc(1)[OF assms(3)] .
  have i: "i = machine_id ?sq" and new: "bt_get (mk_names k) (ms_name spec) = None"
    and k': "mk_names k' = bt_insert (ms_name spec) i (mk_names k)" "mk_next_seq k' = ?sq"
      "\<exists>m. mm_spec m = spec \<and> mk_machines k' = bt_insert i m (mk_machines k)"
    using assms(1)
    by (auto simp: mock_create_def Let_def bt_contains_def split: if_splits intro!: exI[of _ "MockMachine.make spec _ _ _"]
        simp: MockMachine.make_def)
  obtain m where m: "mm_spec m = spec" "mk_machines k' = bt_insert i m (mk_machines k)" using k'(3) by blast
  have fresh: "bt_get (mk_names k) n \<noteq> Some i" for n
  proof
    assume "bt_get (mk_names k) n = Some i"
    with assms(2) obtain sq where "sq \<le> mk_next_seq k" "i = machine_id sq" unfolding mock_ok_def by blast
    with i step show False by (simp add: machine_id_inj)
  qed
  have unused: "ms_name (mm_spec m') \<noteq> ms_name spec" if "bt_get (mk_machines k) j = Some m'" for j m'
    using mock_owner[OF assms(2) that, of "ms_name spec"] new by auto
  have numbered: "\<exists>sq \<le> ?sq. j = machine_id sq" if "bt_get (mk_names k) n = Some j" for n j
  proof -
    from assms(2) that obtain sq where "sq \<le> mk_next_seq k" "j = machine_id sq" unfolding mock_ok_def by blast
    with step show ?thesis by (intro exI[of _ sq]) simp
  qed
  have "mock_ok k'"
    using assms(2) fresh new unused numbered unfolding mock_ok_def k' m(2)
    by (auto simp: m(1) i split: if_splits)
  with new k' mock_room_Suc(2)[OF assms(3)] show ?thesis
    by (auto simp: mock_room_def fun_eq_iff)
qed

lemma mock_transition_laws:
  assumes "mock_transition call i allowed target action k = (k', r)" "mock_ok k"
  shows "mock_ok k' \<and> bt_get (mk_names k') = bt_get (mk_names k) \<and> mock_room k \<le> mock_room k'"
proof (cases "bt_get (mk_machines k) i")
  case None
  with assms show ?thesis by (auto simp: mock_transition_def Let_def)
next
  case (Some m)
  show ?thesis
  proof (cases "mm_state m \<in> allowed")
    case True
    with assms(1) Some have k': "k' = (record_call call k)
        \<lparr>mk_machines := bt_insert i (m\<lparr>mm_state := target\<rparr>) (mk_machines k)\<rparr>"
      by (auto simp: mock_transition_def Let_def)
    have "mock_ok k'"
      using assms(2) mock_owner[OF assms(2) Some] unfolding mock_ok_def k' by (auto split: if_splits)
    then show ?thesis by (simp add: k' mock_room_def record_call_def)
  next
    case False
    with assms Some show ?thesis by (auto simp: mock_transition_def Let_def)
  qed
qed

lemma mock_remove_laws:
  assumes "mock_remove i force k = (k', r)" "mock_ok k"
  shows "mock_ok k' \<and> mock_room k \<le> mock_room k' \<and> bt_get (mk_names k') =
    (case r of Inr _ \<Rightarrow> (\<lambda>n. if bt_get (mk_names k) n = Some i then None else bt_get (mk_names k) n)
     | Inl _ \<Rightarrow> bt_get (mk_names k))"
proof (cases "bt_get (mk_machines k) i")
  case None
  with assms show ?thesis by (auto simp: mock_remove_def Let_def)
next
  case (Some m)
  note owner = mock_owner[OF assms(2) Some]
  show ?thesis
  proof (cases "state_is_running (mm_state m) \<and> \<not> force")
    case True
    with assms Some show ?thesis by (auto simp: mock_remove_def Let_def)
  next
    case False
    with assms(1) Some have k': "k' = (record_call (CallRemove i force) k)
        \<lparr>mk_machines := bt_remove i (mk_machines k), mk_names := bt_remove (ms_name (mm_spec m)) (mk_names k)\<rparr>"
      "r = Inr ()"
      by (auto simp: mock_remove_def Let_def)
    have "ia = i" if "bt_get (mk_machines k) ia = Some ma" "ms_name (mm_spec ma) = ms_name (mm_spec m)" for ia ma
      using mock_owner[OF assms(2) that(1), of "ms_name (mm_spec m)"] owner[of "ms_name (mm_spec m)"] that(2) by simp
    then have "mock_ok k'"
      using assms(2) owner unfolding mock_ok_def k' by (auto split: if_splits)
    then show ?thesis using owner by (auto simp: k' mock_room_def fun_eq_iff record_call_def)
  qed
qed

interpretation mock: container_runtime Mock "\<lambda>k. bt_get (mk_names k)" mock_room mock_ok
proof (unfold_locales, goal_cases)
  case (1 r n i n')
  from 1(1,2) obtain m where "bt_get (mk_machines r) i = Some m" by (rule mock_named)
  with 1 mock_owner show ?case by metis
next
  case (2 spec r r' i)
  then show ?case using mock_create_ok by (simp add: Mock_def)
next
  case (3 spec r r' e)
  then show ?case by (auto simp: Mock_def mock_create_def Let_def split: if_splits)
next
  case (4 i r r' sr)
  then show ?case using mock_transition_laws by (fastforce simp: Mock_def mock_start_def)
next
  case (5 i t r r' sr)
  then show ?case using mock_transition_laws by (fastforce simp: Mock_def mock_stop_def)
next
  case (6 i force r r' u)
  then show ?case using mock_remove_laws by (fastforce simp: Mock_def)
next
  case (7 i force r r' e)
  then show ?case using mock_remove_laws by (fastforce simp: Mock_def)
next
  case (8 i r r' qr)
  then show ?case
    by (auto simp: Mock_def mock_query_def Let_def mock_ok_def split: option.splits)
next
  case (9 r r' lr)
  then have lr: "lr = Inr (map (\<lambda>(i, m). mock_status m i) (mk_machines r))"
    and r': "r' = record_call CallList r" and ok: "mock_ok r"
    by (auto simp: Mock_def mock_list_def Let_def)
  have bt: "bt_ok (mk_machines r)" using ok by (simp add: mock_ok_def)
  have "(\<exists>st \<in> set (map (\<lambda>(i, m). mock_status m i) (mk_machines r)). st_name st = n \<and> st_id st = i)
      \<longleftrightarrow> (\<exists>m. (i, m) \<in> set (mk_machines r) \<and> ms_name (mm_spec m) = n)" for n i
    by force
  then have "(\<exists>st \<in> set (map (\<lambda>(i, m). mock_status m i) (mk_machines r)). st_name st = n \<and> st_id st = i)
      \<longleftrightarrow> (\<exists>m. bt_get (mk_machines r) i = Some m \<and> ms_name (mm_spec m) = n)" for n i
    by (simp only: bt_mem_iff[OF bt])
  moreover have "(\<exists>m. bt_get (mk_machines r) i = Some m \<and> ms_name (mm_spec m) = n) \<longleftrightarrow>
      bt_get (mk_names r) n = Some i" for n i
    using mock_owner[OF ok] mock_named[OF ok] by metis
  ultimately have "(\<exists>st \<in> set (map (\<lambda>(i, m). mock_status m i) (mk_machines r)). st_name st = n \<and> st_id st = i)
      \<longleftrightarrow> bt_get (mk_names r) n = Some i" for n i
    by (simp only:)
  then show ?case unfolding lr r' using ok by simp
qed

end
