(* ===== verification/Machine_Manager.thy ===== *)
theory Machine_Manager
  imports Machine_Runtime
begin

text \<open>
  The host side of machines (\<open>crates/adesk-machine/src\<close>): the registry (\<open>registry.rs\<close>), the
  lifecycle manager over a backend (\<open>manager.rs\<close>), approvals (\<open>approval.rs\<close>) and the control plane
  (\<open>host.rs\<close>). A manager call runs to its end before the next one starts; the backend's state is
  threaded through. The laws of the registry are proved once for every backend that keeps the
  contract, and rest on the in-memory backend's interpretation.
\<close>

section \<open>The registry\<close>

record MachineRegistry =
  mr_ids :: "(MachineName, MachineId) btree"
  mr_statuses :: "(MachineName, MachineStatus) btree"

definition MachineRegistry_new :: MachineRegistry where
  "MachineRegistry_new = \<lparr>mr_ids = [], mr_statuses = []\<rparr>"

definition registry_contains :: "MachineRegistry \<Rightarrow> MachineName \<Rightarrow> bool" where
  "registry_contains g n = bt_contains (mr_statuses g) n"

definition registry_insert :: "MachineStatus \<Rightarrow> MachineRegistry \<Rightarrow> MachineRegistry" where
  "registry_insert st g =
     g\<lparr>mr_ids := bt_insert (st_name st) (st_id st) (mr_ids g),
       mr_statuses := bt_insert (st_name st) st (mr_statuses g)\<rparr>"

definition registry_update :: "MachineStatus \<Rightarrow> MachineRegistry \<Rightarrow> MachineRegistry" where
  "registry_update st g = (if \<not> bt_contains (mr_ids g) (st_name st) then g else registry_insert st g)"

definition registry_remove :: "MachineName \<Rightarrow> MachineRegistry \<Rightarrow> MachineRegistry" where
  "registry_remove n g = g\<lparr>mr_ids := bt_remove n (mr_ids g), mr_statuses := bt_remove n (mr_statuses g)\<rparr>"

section \<open>The manager\<close>

record 'r Manager =
  mg_runtime :: 'r
  mg_registry :: MachineRegistry

definition Manager_new :: "'r \<Rightarrow> 'r Manager" where
  "Manager_new r = \<lparr>mg_runtime = r, mg_registry = MachineRegistry_new\<rparr>"

definition resolve_name :: "MachineName \<Rightarrow> 'r Manager \<Rightarrow> MachineError + MachineId" where
  "resolve_name n g = (case bt_get (mr_ids (mg_registry g)) n of Some i \<Rightarrow> Inr i | None \<Rightarrow> Inl (MNotFound n))"

text \<open>\<open>status(&id).await?\<close> and then \<open>f\<close> on the registry.\<close>

definition query_then ::
  "'r ContainerRuntime \<Rightarrow> MachineId \<Rightarrow> (MachineStatus \<Rightarrow> MachineRegistry \<Rightarrow> MachineRegistry)
    \<Rightarrow> 'r Manager \<Rightarrow> 'r Manager \<times> (MachineError + MachineStatus)" where
  "query_then R i f g =
     (let (r, res) = rt_status R i (mg_runtime g)
      in case res of
           Inl e \<Rightarrow> (g\<lparr>mg_runtime := r\<rparr>, Inl e)
         | Inr st \<Rightarrow> (g\<lparr>mg_runtime := r, mg_registry := f st (mg_registry g)\<rparr>, Inr st))"

definition mgr_create ::
  "'r ContainerRuntime \<Rightarrow> MachineSpec \<Rightarrow> 'r Manager \<Rightarrow> 'r Manager \<times> (MachineError + MachineStatus)" where
  "mgr_create R spec g =
     (if registry_contains (mg_registry g) (ms_name spec) then (g, Inl (MDuplicate (ms_name spec)))
      else
        let (r, res) = rt_create R spec (mg_runtime g); g = g\<lparr>mg_runtime := r\<rparr>
        in case res of
             Inl (MDuplicate _) \<Rightarrow> (g, Inl (MDuplicate (ms_name spec)))
           | Inl e \<Rightarrow> (g, Inl e)
           | Inr i \<Rightarrow> query_then R i registry_insert g)"

definition mgr_start ::
  "'r ContainerRuntime \<Rightarrow> MachineName \<Rightarrow> 'r Manager \<Rightarrow> 'r Manager \<times> (MachineError + MachineStatus)" where
  "mgr_start R n g =
     (case resolve_name n g of
        Inl e \<Rightarrow> (g, Inl e)
      | Inr i \<Rightarrow>
          let (r, res) = rt_start R i (mg_runtime g); g = g\<lparr>mg_runtime := r\<rparr>
          in case res of Inl e \<Rightarrow> (g, Inl e) | Inr _ \<Rightarrow> query_then R i registry_update g)"

definition mgr_stop ::
  "'r ContainerRuntime \<Rightarrow> MachineName \<Rightarrow> u64 \<Rightarrow> 'r Manager \<Rightarrow> 'r Manager \<times> (MachineError + MachineStatus)" where
  "mgr_stop R n timeout g =
     (case resolve_name n g of
        Inl e \<Rightarrow> (g, Inl e)
      | Inr i \<Rightarrow>
          let (r, res) = rt_stop R i timeout (mg_runtime g); g = g\<lparr>mg_runtime := r\<rparr>
          in case res of Inl e \<Rightarrow> (g, Inl e) | Inr _ \<Rightarrow> query_then R i registry_update g)"

definition RESTART_STOP_TIMEOUT_MS :: u64 where
  "RESTART_STOP_TIMEOUT_MS = 10000"

definition mgr_restart ::
  "'r ContainerRuntime \<Rightarrow> MachineName \<Rightarrow> 'r Manager \<Rightarrow> 'r Manager \<times> (MachineError + MachineStatus)" where
  "mgr_restart R n g =
     (let (g, res) = mgr_stop R n RESTART_STOP_TIMEOUT_MS g
      in case res of Inl e \<Rightarrow> (g, Inl e) | Inr _ \<Rightarrow> mgr_start R n g)"

definition mgr_remove ::
  "'r ContainerRuntime \<Rightarrow> MachineName \<Rightarrow> bool \<Rightarrow> 'r Manager \<Rightarrow> 'r Manager \<times> (MachineError + MachineStatus)" where
  "mgr_remove R n force g =
     (case resolve_name n g of
        Inl e \<Rightarrow> (g, Inl e)
      | Inr i \<Rightarrow>
          let (r, res) = rt_status R i (mg_runtime g); g = g\<lparr>mg_runtime := r\<rparr>
          in case res of
               Inl e \<Rightarrow> (g, Inl e)
             | Inr lst \<Rightarrow>
                 let (r, res) = rt_remove R i force (mg_runtime g); g = g\<lparr>mg_runtime := r\<rparr>
                 in case res of
                      Inl e \<Rightarrow> (g, Inl e)
                    | Inr _ \<Rightarrow> (g\<lparr>mg_registry := registry_remove n (mg_registry g)\<rparr>, Inr lst))"

definition mgr_status ::
  "'r ContainerRuntime \<Rightarrow> MachineName \<Rightarrow> 'r Manager \<Rightarrow> 'r Manager \<times> (MachineError + MachineStatus)" where
  "mgr_status R n g =
     (case resolve_name n g of Inl e \<Rightarrow> (g, Inl e) | Inr i \<Rightarrow> query_then R i registry_update g)"

definition mgr_list ::
  "'r ContainerRuntime \<Rightarrow> 'r Manager \<Rightarrow> 'r Manager \<times> (MachineError + MachineStatus list)" where
  "mgr_list R g =
     (let (r, res) = rt_list R (mg_runtime g); g = g\<lparr>mg_runtime := r\<rparr>
      in case res of
           Inl e \<Rightarrow> (g, Inl e)
         | Inr sts \<Rightarrow> (g\<lparr>mg_registry := fold registry_insert sts MachineRegistry_new\<rparr>, Inr sts))"

section \<open>Approvals and the control plane\<close>

record ApprovalRequest =
  aq_id :: u64
  aq_machine :: MachineName
  aq_capability :: string
  aq_description :: string

datatype ApprovalDecision = Allow | Deny string

record ApprovalRouter =
  rtr_approver :: "ApprovalRequest \<Rightarrow> ApprovalDecision"
  rtr_pre_approved :: "string list"

definition auto_approve :: "ApprovalRequest \<Rightarrow> ApprovalDecision" where
  "auto_approve req = Allow"

definition auto_deny :: "string \<Rightarrow> ApprovalRequest \<Rightarrow> ApprovalDecision" where
  "auto_deny reason req = Deny reason"

definition pre_approve :: "string \<Rightarrow> ApprovalRouter \<Rightarrow> ApprovalRouter" where
  "pre_approve capability p = p\<lparr>rtr_pre_approved := List.insert capability (rtr_pre_approved p)\<rparr>"

definition router_request :: "ApprovalRouter \<Rightarrow> ApprovalRequest \<Rightarrow> ApprovalDecision" where
  "router_request p req =
     (if aq_capability req \<in> set (rtr_pre_approved p) then Allow else rtr_approver p req)"

record HostCapabilities =
  hc_gpu :: bool
  hc_kvm :: bool
  hc_allowed_mounts :: "string list"
  hc_publish_ports :: bool

definition HostCapabilities_default :: HostCapabilities where
  "HostCapabilities_default =
     \<lparr>hc_gpu = False, hc_kvm = False, hc_allowed_mounts = [], hc_publish_ports = False\<rparr>"

text \<open>\<open>Path::starts_with\<close>: a prefix of components.\<close>

definition allows_mount :: "HostCapabilities \<Rightarrow> string \<Rightarrow> bool" where
  "allows_mount c path =
     list_ex (\<lambda>allowed. prefix (path_components allowed) (path_components path)) (hc_allowed_mounts c)"

definition allows_port :: "HostCapabilities \<Rightarrow> u16 \<Rightarrow> bool" where
  "allows_port c port = hc_publish_ports c"

text \<open>A sibling that shares the spelling is not allowed; a path that climbs out again is.\<close>

lemma allows_mount_by_component:
  "\<not> allows_mount (HostCapabilities_default\<lparr>hc_allowed_mounts := [''/data'']\<rparr>) ''/database/x''"
  "allows_mount (HostCapabilities_default\<lparr>hc_allowed_mounts := [''/data'']\<rparr>) ''/data/../etc''"
  by code_simp+

record 'r HostControlPlane =
  hp_manager :: "'r Manager"
  hp_capabilities :: HostCapabilities
  hp_router :: ApprovalRouter

definition HostControlPlane_new :: "'r Manager \<Rightarrow> HostCapabilities \<Rightarrow> 'r HostControlPlane" where
  "HostControlPlane_new g c =
     \<lparr>hp_manager = g, hp_capabilities = c, hp_router = \<lparr>rtr_approver = auto_approve, rtr_pre_approved = []\<rparr>\<rparr>"

section \<open>Calls\<close>

datatype ManagerCall =
    MCreate MachineSpec
  | MStart MachineName
  | MStop MachineName u64
  | MRestart MachineName
  | MRemove MachineName bool
  | MStatus MachineName
  | MList

fun mgr_call :: "'r ContainerRuntime \<Rightarrow> ManagerCall \<Rightarrow> 'r Manager \<Rightarrow> 'r Manager \<times> (MachineError + MachineStatus list)" where
  "mgr_call R (MCreate spec) g = apsnd (map_sum id (\<lambda>st. [st])) (mgr_create R spec g)"
| "mgr_call R (MStart n) g = apsnd (map_sum id (\<lambda>st. [st])) (mgr_start R n g)"
| "mgr_call R (MStop n t) g = apsnd (map_sum id (\<lambda>st. [st])) (mgr_stop R n t g)"
| "mgr_call R (MRestart n) g = apsnd (map_sum id (\<lambda>st. [st])) (mgr_restart R n g)"
| "mgr_call R (MRemove n force) g = apsnd (map_sum id (\<lambda>st. [st])) (mgr_remove R n force g)"
| "mgr_call R (MStatus n) g = apsnd (map_sum id (\<lambda>st. [st])) (mgr_status R n g)"
| "mgr_call R MList g = mgr_list R g"

text \<open>The control plane passes lifecycle calls on.\<close>

definition plane_call ::
  "'r ContainerRuntime \<Rightarrow> ManagerCall \<Rightarrow> 'r HostControlPlane \<Rightarrow> 'r HostControlPlane \<times> (MachineError + MachineStatus list)" where
  "plane_call R c h = (let (g, res) = mgr_call R c (hp_manager h) in (h\<lparr>hp_manager := g\<rparr>, res))"

definition mgr_run :: "'r ContainerRuntime \<Rightarrow> ManagerCall list \<Rightarrow> 'r Manager \<Rightarrow> 'r Manager" where
  "mgr_run R calls g = fold (\<lambda>c g. fst (mgr_call R c g)) calls g"

section \<open>The registry never lies\<close>

definition registry_ok :: "MachineRegistry \<Rightarrow> bool" where
  "registry_ok g \<longleftrightarrow> bt_ok (mr_ids g) \<and> bt_ok (mr_statuses g) \<and>
     (\<forall>n. map_option st_id (bt_get (mr_statuses g) n) = bt_get (mr_ids g) n) \<and>
     (\<forall>n st. bt_get (mr_statuses g) n = Some st \<longrightarrow> st_name st = n)"

lemma registry_ok_ops:
  "registry_ok MachineRegistry_new"
  "registry_ok g \<Longrightarrow> registry_ok (registry_insert st g)"
  "registry_ok g \<Longrightarrow> registry_ok (registry_update st g)"
  "registry_ok g \<Longrightarrow> registry_ok (registry_remove n g)"
  by (auto simp: registry_ok_def MachineRegistry_new_def registry_insert_def registry_update_def registry_remove_def)

lemma registry_ok_fold: "registry_ok g \<Longrightarrow> registry_ok (fold registry_insert sts g)"
  by (induction sts arbitrary: g) (simp_all add: registry_ok_ops)

lemma registry_ids:
  "bt_get (mr_ids MachineRegistry_new) n = None"
  "bt_get (mr_ids (registry_insert st g)) n = (if n = st_name st then Some (st_id st) else bt_get (mr_ids g) n)"
  "bt_get (mr_ids (registry_update st g)) n =
     (if n = st_name st \<and> bt_get (mr_ids g) n \<noteq> None then Some (st_id st) else bt_get (mr_ids g) n)"
  "bt_get (mr_ids (registry_remove m g)) n = (if n = m then None else bt_get (mr_ids g) n)"
  by (simp_all add: MachineRegistry_new_def registry_insert_def registry_update_def registry_remove_def bt_contains_def)

lemma registry_contains_ids: "registry_ok g \<Longrightarrow> registry_contains g n \<longleftrightarrow> bt_get (mr_ids g) n \<noteq> None"
  by (metis bt_contains_def map_option_is_None registry_contains_def registry_ok_def)

text \<open>What the cache says is what the backend would say, for a backend with name table \<open>names\<close>.\<close>

definition cache_sound :: "('r \<Rightarrow> MachineName \<Rightarrow> MachineId option) \<Rightarrow> 'r Manager \<Rightarrow> bool" where
  "cache_sound names g \<longleftrightarrow> registry_ok (mg_registry g) \<and>
     (\<forall>n i. bt_get (mr_ids (mg_registry g)) n = Some i \<longrightarrow> names (mg_runtime g) n = Some i)"

lemma cache_sound_update:
  assumes "cache_sound names g" "names r (st_name st) = Some (st_id st)" "names r = names (mg_runtime g)"
  shows "cache_sound names (g\<lparr>mg_runtime := r, mg_registry := registry_insert st (mg_registry g)\<rparr>)"
    and "cache_sound names (g\<lparr>mg_runtime := r, mg_registry := registry_update st (mg_registry g)\<rparr>)"
  using assms by (auto simp: cache_sound_def registry_ok_ops registry_ids split: if_splits)

lemma cache_sound_runtime:
  "cache_sound names g \<Longrightarrow> names r = names (mg_runtime g) \<Longrightarrow> cache_sound names (g\<lparr>mg_runtime := r\<rparr>)"
  by (simp add: cache_sound_def)

context container_runtime
begin

lemma query_sound:
  assumes "query_then R i f g = (g', res)" "f = registry_insert \<or> f = registry_update"
    and "cache_sound names g" "ok (mg_runtime g)"
  shows "cache_sound names g' \<and> ok (mg_runtime g') \<and> room (mg_runtime g) \<le> room (mg_runtime g') \<and>
    names (mg_runtime g') = names (mg_runtime g)"
proof -
  obtain r qr where q: "rt_status R i (mg_runtime g) = (r, qr)" by (cases "rt_status R i (mg_runtime g)")
  note law = status[OF q assms(4)]
  show ?thesis
  proof (cases qr)
    case (Inl e)
    with assms q law show ?thesis by (auto simp: query_then_def cache_sound_runtime)
  next
    case (Inr st)
    with law have "names r (st_name st) = Some (st_id st)" "names r = names (mg_runtime g)" by auto
    from cache_sound_update[OF assms(3) this] assms(1,2) q law Inr show ?thesis
      by (auto simp: query_then_def)
  qed
qed

lemma transition_sound:
  assumes "cache_sound names g" "ok r \<and> names r = names (mg_runtime g) \<and> room (mg_runtime g) \<le> room r"
    and "(case sr of Inl e \<Rightarrow> (g\<lparr>mg_runtime := r\<rparr>, Inl e)
          | Inr _ \<Rightarrow> query_then R i registry_update (g\<lparr>mg_runtime := r\<rparr>)) = (g', res)"
  shows "cache_sound names g' \<and> ok (mg_runtime g') \<and> room (mg_runtime g) \<le> room (mg_runtime g')"
proof (cases sr)
  case (Inl e)
  with assms show ?thesis by (auto simp: cache_sound_runtime)
next
  case (Inr u)
  with assms(3) have "query_then R i registry_update (g\<lparr>mg_runtime := r\<rparr>) = (g', res)" by simp
  from query_sound[OF this] assms(1,2) show ?thesis by (auto simp: cache_sound_runtime)
qed

lemma start_sound:
  assumes "mgr_start R n g = (g', res)" "cache_sound names g" "ok (mg_runtime g)"
  shows "cache_sound names g' \<and> ok (mg_runtime g') \<and> room (mg_runtime g) \<le> room (mg_runtime g')"
proof (cases "resolve_name n g")
  case (Inr i)
  obtain r sr where r: "rt_start R i (mg_runtime g) = (r, sr)" by (cases "rt_start R i (mg_runtime g)")
  show ?thesis
    using assms(1) Inr r by (intro transition_sound[OF assms(2) start[OF r assms(3)]]) (simp add: mgr_start_def Let_def)
qed (use assms in \<open>simp add: mgr_start_def\<close>)

lemma stop_sound:
  assumes "mgr_stop R n t g = (g', res)" "cache_sound names g" "ok (mg_runtime g)"
  shows "cache_sound names g' \<and> ok (mg_runtime g') \<and> room (mg_runtime g) \<le> room (mg_runtime g')"
proof (cases "resolve_name n g")
  case (Inr i)
  obtain r sr where r: "rt_stop R i t (mg_runtime g) = (r, sr)" by (cases "rt_stop R i t (mg_runtime g)")
  show ?thesis
    using assms(1) Inr r by (intro transition_sound[OF assms(2) stop[OF r assms(3)]]) (simp add: mgr_stop_def Let_def)
qed (use assms in \<open>simp add: mgr_stop_def\<close>)

lemma restart_sound:
  assumes "mgr_restart R n g = (g', res)" "cache_sound names g" "ok (mg_runtime g)"
  shows "cache_sound names g' \<and> ok (mg_runtime g') \<and> room (mg_runtime g) \<le> room (mg_runtime g')"
proof -
  obtain g1 s1 where s: "mgr_stop R n RESTART_STOP_TIMEOUT_MS g = (g1, s1)"
    by (cases "mgr_stop R n RESTART_STOP_TIMEOUT_MS g")
  note stopped = stop_sound[OF s assms(2,3)]
  show ?thesis
  proof (cases s1)
    case (Inl e)
    with s stopped assms(1) show ?thesis by (simp add: mgr_restart_def)
  next
    case (Inr st)
    with s assms(1) have "mgr_start R n g1 = (g', res)" by (simp add: mgr_restart_def)
    from start_sound[OF this] stopped show ?thesis by auto
  qed
qed

lemma status_sound:
  assumes "mgr_status R n g = (g', res)" "cache_sound names g" "ok (mg_runtime g)"
  shows "cache_sound names g' \<and> ok (mg_runtime g') \<and> room (mg_runtime g) \<le> room (mg_runtime g')"
  using assms query_sound by (fastforce simp: mgr_status_def split: sum.splits)

lemma create_sound:
  assumes "mgr_create R spec g = (g', res)" "cache_sound names g" "ok (mg_runtime g)" "0 < room (mg_runtime g)"
  shows "cache_sound names g' \<and> ok (mg_runtime g') \<and> room (mg_runtime g) \<le> Suc (room (mg_runtime g'))"
proof (cases "registry_contains (mg_registry g) (ms_name spec)")
  case True
  with assms show ?thesis by (simp add: mgr_create_def)
next
  case False
  obtain r cr where c: "rt_create R spec (mg_runtime g) = (r, cr)" by (cases "rt_create R spec (mg_runtime g)")
  show ?thesis
  proof (cases cr)
    case (Inl e)
    with c create_err[of spec "mg_runtime g" r e] assms(3)
    have "ok r" "names r = names (mg_runtime g)" "room (mg_runtime g) \<le> room r" by auto
    moreover have "g' = g\<lparr>mg_runtime := r\<rparr>"
      using Inl c assms(1) False by (auto simp: mgr_create_def Let_def split: MachineError.splits)
    ultimately show ?thesis using assms(2) by (simp add: cache_sound_runtime)
  next
    case (Inr i)
    with c create_ok[of spec "mg_runtime g" r i] assms
    have r: "ok r" "names r = (names (mg_runtime g))(ms_name spec \<mapsto> i)" "room (mg_runtime g) \<le> Suc (room r)" by auto
    have "bt_get (mr_ids (mg_registry g)) (ms_name spec) = None"
      using False assms(2) by (simp add: cache_sound_def registry_contains_ids)
    with r assms(2) have "cache_sound names (g\<lparr>mg_runtime := r\<rparr>)" by (auto simp: cache_sound_def)
    moreover from False Inr c assms(1) have "query_then R i registry_insert (g\<lparr>mg_runtime := r\<rparr>) = (g', res)"
      by (simp add: mgr_create_def)
    ultimately show ?thesis using query_sound[of i registry_insert "g\<lparr>mg_runtime := r\<rparr>" g' res] r by auto
  qed
qed

lemma remove_sound:
  assumes "mgr_remove R n force g = (g', res)" "cache_sound names g" "ok (mg_runtime g)"
  shows "cache_sound names g' \<and> ok (mg_runtime g') \<and> room (mg_runtime g) \<le> room (mg_runtime g')"
proof (cases "bt_get (mr_ids (mg_registry g)) n")
  case None
  with assms show ?thesis by (simp add: mgr_remove_def resolve_name_def)
next
  case (Some i)
  obtain r qr where q: "rt_status R i (mg_runtime g) = (r, qr)" by (cases "rt_status R i (mg_runtime g)")
  note law = status[OF q assms(3)]
  show ?thesis
  proof (cases qr)
    case (Inl e)
    with assms q law Some show ?thesis by (auto simp: mgr_remove_def resolve_name_def cache_sound_runtime)
  next
    case (Inr st)
    obtain r2 rr where m: "rt_remove R i force r = (r2, rr)" by (cases "rt_remove R i force r")
    show ?thesis
    proof (cases rr)
      case (Inl e)
      with remove_err[of i force r r2 e] m law have r2: "ok r2" "names r2 = names (mg_runtime g)" "room (mg_runtime g) \<le> room r2"
        by auto
      with assms q m Inl Inr Some show ?thesis
        by (auto simp: mgr_remove_def resolve_name_def cache_sound_runtime)
    next
      case (Inr u)
      with remove_ok[of i force r r2 u] m law have r2: "ok r2"
        "names r2 = (\<lambda>n. if names (mg_runtime g) n = Some i then None else names (mg_runtime g) n)" "room (mg_runtime g) \<le> room r2"
        by auto
      from Inr \<open>qr = Inr st\<close> assms(1) q m Some
      have g': "g' = g\<lparr>mg_runtime := r2, mg_registry := registry_remove n (mg_registry g)\<rparr>"
        by (simp add: mgr_remove_def resolve_name_def)
      have "names (mg_runtime g) n = Some i" using assms(2) Some by (simp add: cache_sound_def)
      with assms(2,3) r2 names_inj have "cache_sound names g'"
        by (auto simp: g' cache_sound_def registry_ok_ops registry_ids)
      with r2 show ?thesis by (simp add: g')
    qed
  qed
qed

lemma list_sound:
  assumes "mgr_list R g = (g', res)" "cache_sound names g" "ok (mg_runtime g)"
  shows "cache_sound names g' \<and> ok (mg_runtime g') \<and> room (mg_runtime g) \<le> room (mg_runtime g') \<and>
    (\<forall>sts. res = Inr sts \<longrightarrow> bt_get (mr_ids (mg_registry g')) = names (mg_runtime g'))"
proof -
  obtain r lr where l: "rt_list R (mg_runtime g) = (r, lr)" by (cases "rt_list R (mg_runtime g)")
  note law = list[OF l assms(3)]
  show ?thesis
  proof (cases lr)
    case (Inl e)
    with assms l law show ?thesis by (auto simp: mgr_list_def cache_sound_runtime)
  next
    case (Inr sts)
    have ids: "bt_get (mr_ids (fold registry_insert ss MachineRegistry_new)) n = None \<longleftrightarrow> n \<notin> st_name ` set ss"
      "bt_get (mr_ids (fold registry_insert ss MachineRegistry_new)) n = Some i \<Longrightarrow>
         \<exists>st \<in> set ss. st_name st = n \<and> st_id st = i" for ss n i
      by (induction ss arbitrary: n i rule: rev_induct) (auto simp: registry_ids split: if_splits)
    have "bt_get (mr_ids (fold registry_insert sts MachineRegistry_new)) n = names r n" for n
    proof (cases "bt_get (mr_ids (fold registry_insert sts MachineRegistry_new)) n")
      case None
      with ids(1) have "n \<notin> st_name ` set sts" by blast
      moreover from law Inr have "(\<exists>st \<in> set sts. st_name st = n \<and> st_id st = i) \<longleftrightarrow> names r n = Some i" for i
        by simp
      ultimately have "names r n = None" by (metis image_eqI option.exhaust)
      with None show ?thesis by simp
    next
      case (Some i)
      with ids(2)[OF Some] law Inr show ?thesis by auto
    qed
    with assms l law Inr show ?thesis
      by (auto simp: mgr_list_def cache_sound_def registry_ok_fold registry_ok_ops)
  qed
qed

lemma call_sound:
  assumes "mgr_call R c g = (g', res)" "cache_sound names g" "ok (mg_runtime g)" "0 < room (mg_runtime g)"
  shows "cache_sound names g' \<and> ok (mg_runtime g') \<and> room (mg_runtime g) \<le> Suc (room (mg_runtime g'))"
proof -
  have one: "thesis" if "apsnd f p = (g', res)" "\<And>r. p = (g', r) \<Longrightarrow> thesis"
    for f :: "MachineError + MachineStatus \<Rightarrow> MachineError + MachineStatus list" and p and thesis
    using that by (cases p) simp
  from assms(1) show ?thesis
  proof (cases c)
    case (MCreate spec)
    with assms(1) have "apsnd (map_sum id (\<lambda>st. [st])) (mgr_create R spec g) = (g', res)" by simp
    then show ?thesis by (rule one) (use create_sound assms in blast)
  next
    case (MStart n)
    with assms(1) have "apsnd (map_sum id (\<lambda>st. [st])) (mgr_start R n g) = (g', res)" by simp
    then show ?thesis by (rule one) (use start_sound assms le_SucI in blast)
  next
    case (MStop n t)
    with assms(1) have "apsnd (map_sum id (\<lambda>st. [st])) (mgr_stop R n t g) = (g', res)" by simp
    then show ?thesis by (rule one) (use stop_sound assms le_SucI in blast)
  next
    case (MRestart n)
    with assms(1) have "apsnd (map_sum id (\<lambda>st. [st])) (mgr_restart R n g) = (g', res)" by simp
    then show ?thesis by (rule one) (use restart_sound assms le_SucI in blast)
  next
    case (MRemove n force)
    with assms(1) have "apsnd (map_sum id (\<lambda>st. [st])) (mgr_remove R n force g) = (g', res)" by simp
    then show ?thesis by (rule one) (use remove_sound assms le_SucI in blast)
  next
    case (MStatus n)
    with assms(1) have "apsnd (map_sum id (\<lambda>st. [st])) (mgr_status R n g) = (g', res)" by simp
    then show ?thesis by (rule one) (use status_sound assms le_SucI in blast)
  next
    case MList
    with assms(1) have "mgr_list R g = (g', res)" by simp
    from list_sound[OF this assms(2,3)] show ?thesis by auto
  qed
qed

lemma run_sound:
  assumes "cache_sound names g" "ok (mg_runtime g)" "length calls \<le> room (mg_runtime g)"
  shows "cache_sound names (mgr_run R calls g) \<and> ok (mg_runtime (mgr_run R calls g))"
  using assms
proof (induction calls arbitrary: g)
  case (Cons c calls)
  obtain g' res where c: "mgr_call R c g = (g', res)" by (cases "mgr_call R c g")
  from call_sound[OF c] Cons.prems Cons.IH[of g'] show ?case by (auto simp: mgr_run_def c)
qed (simp add: mgr_run_def)

end

lemma cache_sound_new: "cache_sound names (Manager_new r)"
  by (simp add: cache_sound_def Manager_new_def registry_ok_ops registry_ids)

text \<open>C39. Whatever is asked of a manager over the in-memory backend, in any order and with any
  failures, every cached identifier and status belongs to the machine the backend has under that
  name, and a listing makes the cache complete.\<close>

theorem manager_cache_is_sound:
  fixes now :: u64
  assumes "length calls < 2 ^ 32 - 1"
  defines "g \<equiv> mgr_run Mock calls (Manager_new (MockRuntime_new now))"
  shows "(\<forall>n st. bt_get (mr_statuses (mg_registry g)) n = Some st \<longrightarrow>
      st_name st = n \<and> bt_get (mk_names (mg_runtime g)) n = Some (st_id st)) \<and>
    bt_get (mr_ids (mg_registry (fst (mgr_list Mock g)))) = bt_get (mk_names (mg_runtime g))"
proof -
  have new: "mock_ok (MockRuntime_new now)" "mock_room (MockRuntime_new now) = 2 ^ 32 - 1"
    by (simp_all add: mock_ok_def mock_room_def MockRuntime_new_def)
  have g: "cache_sound (\<lambda>k. bt_get (mk_names k)) g \<and> mock_ok (mg_runtime g)"
    unfolding g_def using assms(1) new
    by (intro mock.run_sound cache_sound_new) (simp_all add: Manager_new_def)
  obtain g' sts where l: "mgr_list Mock g = (g', Inr sts)" "mk_names (mg_runtime g') = mk_names (mg_runtime g)"
    by (auto simp: mgr_list_def Mock_def mock_list_def Let_def)
  with mock.list_sound[of g g' "Inr sts"] g
  have "bt_get (mr_ids (mg_registry g')) = bt_get (mk_names (mg_runtime g))" by simp
  moreover have "st_name st = n \<and> bt_get (mk_names (mg_runtime g)) n = Some (st_id st)"
    if "bt_get (mr_statuses (mg_registry g)) n = Some st" for n st
  proof -
    have "registry_ok (mg_registry g)" using g by (simp add: cache_sound_def)
    with that have "st_name st = n" "bt_get (mr_ids (mg_registry g)) n = Some (st_id st)"
      unfolding registry_ok_def by (metis, metis option.simps(9))
    with g show ?thesis by (simp add: cache_sound_def)
  qed
  ultimately show ?thesis using l by simp
qed

theorem manager_cache_is_sound_witness:
  "let g = mgr_run Mock [MCreate (MachineSpec_new ''a'' ''img''), MStart ''a'', MRemove ''b'' True]
        (Manager_new (MockRuntime_new 7))
   in bt_get (mr_ids (mg_registry (fst (mgr_list Mock g)))) = bt_get (mk_names (mg_runtime g))"
  unfolding Let_def
  by (rule manager_cache_is_sound[of "[MCreate (MachineSpec_new ''a'' ''img''), MStart ''a'', MRemove ''b'' True]" 7,
        THEN conjunct2]) simp

section \<open>The lifecycle\<close>

lemma Mock_sel [simp]:
  "rt_create Mock = mock_create" "rt_start Mock = mock_start" "rt_stop Mock = mock_stop"
  "rt_remove Mock = mock_remove" "rt_status Mock = mock_query" "rt_list Mock = mock_list"
  by (simp_all add: Mock_def)

text \<open>The contract: the state of each machine by name.\<close>

type_synonym lifecycle = "MachineName \<Rightarrow> MachineState option"

fun lc_allowed :: "ManagerCall \<Rightarrow> lifecycle \<Rightarrow> bool" where
  "lc_allowed (MCreate spec) a = (a (ms_name spec) = None)"
| "lc_allowed (MStart n) a = (a n = Some Created \<or> a n = Some Stopped)"
| "lc_allowed (MStop n t) a = (a n = Some Running)"
| "lc_allowed (MRestart n) a = (a n = Some Running)"
| "lc_allowed (MRemove n force) a = (a n \<noteq> None \<and> (a n = Some Running \<longrightarrow> force))"
| "lc_allowed (MStatus n) a = (a n \<noteq> None)"
| "lc_allowed MList a = True"

fun lc_effect :: "ManagerCall \<Rightarrow> lifecycle \<Rightarrow> lifecycle" where
  "lc_effect (MCreate spec) a = a(ms_name spec \<mapsto> Created)"
| "lc_effect (MStart n) a = a(n \<mapsto> Running)"
| "lc_effect (MStop n t) a = a(n \<mapsto> Stopped)"
| "lc_effect (MRestart n) a = a(n \<mapsto> Running)"
| "lc_effect (MRemove n force) a = a(n := None)"
| "lc_effect (MStatus n) a = a"
| "lc_effect MList a = a"

definition lc_step :: "ManagerCall \<Rightarrow> lifecycle \<Rightarrow> lifecycle" where
  "lc_step c a = (if lc_allowed c a then lc_effect c a else a)"

definition lifecycle_of :: "MockRuntime \<Rightarrow> lifecycle" where
  "lifecycle_of k = (\<lambda>n. Option.bind (bt_get (mk_names k) n) (\<lambda>i. map_option mm_state (bt_get (mk_machines k) i)))"

lemma lifecycle_of_record [simp]: "lifecycle_of (record_call c k) = lifecycle_of k"
  by (simp add: lifecycle_of_def)

text \<open>Cache and backend know the same machines.\<close>

definition agree :: "MockRuntime Manager \<Rightarrow> bool" where
  "agree g \<longleftrightarrow> mock_ok (mg_runtime g) \<and> registry_ok (mg_registry g) \<and>
     bt_get (mr_ids (mg_registry g)) = bt_get (mk_names (mg_runtime g))"

lemma agree_cases:
  assumes "agree g"
  obtains (unknown) "resolve_name n g = Inl (MNotFound n)" "lifecycle_of (mg_runtime g) n = None"
      "bt_get (mk_names (mg_runtime g)) n = None"
    | (known) i m where "resolve_name n g = Inr i" "bt_get (mk_machines (mg_runtime g)) i = Some m"
      "bt_get (mk_names (mg_runtime g)) n = Some i" "ms_name (mm_spec m) = n"
      "lifecycle_of (mg_runtime g) n = Some (mm_state m)"
proof (cases "bt_get (mk_names (mg_runtime g)) n")
  case None
  with assms show ?thesis by (intro unknown) (simp_all add: resolve_name_def agree_def lifecycle_of_def)
next
  case (Some i)
  with assms obtain m where "bt_get (mk_machines (mg_runtime g)) i = Some m" "ms_name (mm_spec m) = n"
    by (auto simp: agree_def elim: mock_named)
  with Some assms show ?thesis by (intro known) (simp_all add: resolve_name_def agree_def lifecycle_of_def)
qed

text \<open>Setting a machine's state, as \<open>get_mut\<close> does.\<close>

definition set_state :: "MachineId \<Rightarrow> MockMachine \<Rightarrow> MachineState \<Rightarrow> MockRuntime \<Rightarrow> MockRuntime" where
  "set_state i m s k = k\<lparr>mk_machines := bt_insert i (m\<lparr>mm_state := s\<rparr>) (mk_machines k)\<rparr>"

lemma set_state_sel [simp]:
  "mk_names (set_state i m s k) = mk_names k"
  "mk_machines (set_state i m s k) = bt_insert i (m\<lparr>mm_state := s\<rparr>) (mk_machines k)"
  by (simp_all add: set_state_def)

lemma set_state_lifecycle:
  assumes "mock_ok k" "bt_get (mk_machines k) i = Some m" "ms_name (mm_spec m) = n"
  shows "lifecycle_of (set_state i m s k) = (lifecycle_of k)(n \<mapsto> s)"
proof
  fix n'
  have "bt_get (mk_names k) n' = Some i \<longleftrightarrow> n' = n" using mock_owner[OF assms(1,2)] assms(3) by simp
  with assms(2) show "lifecycle_of (set_state i m s k) n' = ((lifecycle_of k)(n \<mapsto> s)) n'"
    by (cases "bt_get (mk_names k) n'") (auto simp: lifecycle_of_def)
qed

lemma query_update_agree:
  assumes "agree g" "bt_get (mk_machines (mg_runtime g)) i = Some m"
  shows "\<exists>g'. query_then Mock i registry_update g = (g', Inr (mock_status m i)) \<and> agree g' \<and>
    lifecycle_of (mg_runtime g') = lifecycle_of (mg_runtime g)"
proof -
  have n: "bt_get (mk_names (mg_runtime g)) (ms_name (mm_spec m)) = Some i"
    using assms mock_owner by (simp add: agree_def)
  with assms show ?thesis
    by (auto simp: query_then_def mock_query_def Let_def agree_def registry_ok_ops registry_ids fun_eq_iff)
qed

lemma mock_transition_agree:
  assumes "agree g" "mock_transition call i sts s act (mg_runtime g) = (r, sr)"
    and "bt_get (mk_machines (mg_runtime g)) i = Some m" "ms_name (mm_spec m) = n"
  shows "if mm_state m \<in> sts
    then sr = Inr () \<and> agree (g\<lparr>mg_runtime := r\<rparr>) \<and>
      lifecycle_of r = (lifecycle_of (mg_runtime g))(n \<mapsto> s) \<and> bt_get (mk_machines r) i = Some (m\<lparr>mm_state := s\<rparr>)
    else (\<exists>e. sr = Inl e) \<and> agree (g\<lparr>mg_runtime := r\<rparr>) \<and> lifecycle_of r = lifecycle_of (mg_runtime g)"
proof (cases "mm_state m \<in> sts")
  case True
  then have r: "r = set_state i m s (record_call call (mg_runtime g))" "sr = Inr ()"
    using assms(2,3) by (auto simp: mock_transition_def Let_def set_state_def)
  have "mock_ok r" using mock_transition_laws[OF assms(2)] assms(1) by (simp add: agree_def)
  moreover have "lifecycle_of r = (lifecycle_of (mg_runtime g))(n \<mapsto> s)"
    using assms r set_state_lifecycle[of "record_call call (mg_runtime g)" i m n s] by (simp add: agree_def)
  ultimately show ?thesis using True r assms(1) by (simp add: agree_def)
next
  case False
  with assms show ?thesis by (auto simp: mock_transition_def Let_def agree_def)
qed

text \<open>What a call does to the contract's state, and that it leaves cache and backend in agreement.\<close>

definition follows :: "ManagerCall \<Rightarrow> MockRuntime Manager \<Rightarrow> MockRuntime Manager \<times> (MachineError + 'a) \<Rightarrow> bool" where
  "follows c g p \<longleftrightarrow> agree (fst p) \<and>
     lifecycle_of (mg_runtime (fst p)) = lc_step c (lifecycle_of (mg_runtime g)) \<and>
     ((\<exists>x. snd p = Inr x) \<longleftrightarrow> lc_allowed c (lifecycle_of (mg_runtime g)))"

lemma transition_follows:
  assumes "agree g"
    and call: "\<And>i. resolve_name n g = Inr i \<Longrightarrow> call_of = (let (r, res) = mock_transition (cl i) i sts s act (mg_runtime g); g = g\<lparr>mg_runtime := r\<rparr>
      in case res of Inl e \<Rightarrow> (g, Inl e) | Inr _ \<Rightarrow> query_then Mock i registry_update g)"
    and unknown: "\<And>e. resolve_name n g = Inl e \<Longrightarrow> call_of = (g, Inl e)"
    and lc: "\<And>a. lc_allowed c a \<longleftrightarrow> (\<exists>x \<in> sts. a n = Some x)" "\<And>a. lc_effect c a = a(n \<mapsto> s)"
  shows "follows c g call_of"
  using assms(1)
proof (cases rule: agree_cases[where n = n])
  case unknown
  with assms show ?thesis by (simp add: follows_def lc_step_def)
next
  case (known i m)
  obtain r sr where t: "mock_transition (cl i) i sts s act (mg_runtime g) = (r, sr)"
    by (cases "mock_transition (cl i) i sts s act (mg_runtime g)")
  note tr = mock_transition_agree[OF assms(1) t known(2,4)]
  note c = call[OF known(1), unfolded t Let_def prod.case]
  show ?thesis
  proof (cases "mm_state m \<in> sts")
    case True
    with tr have sr: "sr = Inr ()" "agree (g\<lparr>mg_runtime := r\<rparr>)"
      "lifecycle_of r = (lifecycle_of (mg_runtime g))(n \<mapsto> s)" "bt_get (mk_machines r) i = Some (m\<lparr>mm_state := s\<rparr>)"
      by simp_all
    from query_update_agree[OF sr(2), of i "m\<lparr>mm_state := s\<rparr>"] sr obtain g' where
      "query_then Mock i registry_update (g\<lparr>mg_runtime := r\<rparr>) = (g', Inr (mock_status (m\<lparr>mm_state := s\<rparr>) i))"
      "agree g'" "lifecycle_of (mg_runtime g') = lifecycle_of r"
      by auto
    with c sr True known show ?thesis by (simp add: follows_def lc_step_def lc)
  next
    case False
    with tr obtain e where "sr = Inl e" "agree (g\<lparr>mg_runtime := r\<rparr>)" "lifecycle_of r = lifecycle_of (mg_runtime g)"
      by auto
    with c False known show ?thesis by (simp add: follows_def lc_step_def lc)
  qed
qed

lemma start_follows: "agree g \<Longrightarrow> follows (MStart n) g (mgr_start Mock n g)"
  by (rule transition_follows[where cl = CallStart and sts = "{Created, Stopped}" and act = "''start''"])
    (auto simp: mgr_start_def mock_start_def)

lemma stop_follows: "agree g \<Longrightarrow> follows (MStop n t) g (mgr_stop Mock n t g)"
  by (rule transition_follows[where cl = "\<lambda>i. CallStop i t" and sts = "{Running}" and act = "''stop''"])
    (auto simp: mgr_stop_def mock_stop_def)

lemma restart_follows:
  assumes "agree g"
  shows "follows (MRestart n) g (mgr_restart Mock n g)"
proof -
  obtain g1 s1 where s: "mgr_stop Mock n RESTART_STOP_TIMEOUT_MS g = (g1, s1)"
    by (cases "mgr_stop Mock n RESTART_STOP_TIMEOUT_MS g")
  with stop_follows[OF assms, of n RESTART_STOP_TIMEOUT_MS] have st: "agree g1"
    "lifecycle_of (mg_runtime g1) = lc_step (MStop n RESTART_STOP_TIMEOUT_MS) (lifecycle_of (mg_runtime g))"
    "(\<exists>x. s1 = Inr x) \<longleftrightarrow> lifecycle_of (mg_runtime g) n = Some Running"
    by (simp_all add: follows_def)
  show ?thesis
  proof (cases s1)
    case (Inl e)
    with s st show ?thesis by (simp add: mgr_restart_def follows_def lc_step_def)
  next
    case (Inr x)
    with st start_follows[OF st(1), of n] s show ?thesis
      by (simp add: mgr_restart_def follows_def lc_step_def)
  qed
qed

lemma status_follows:
  assumes "agree g"
  shows "follows (MStatus n) g (mgr_status Mock n g)"
  using assms
proof (cases rule: agree_cases[where n = n])
  case unknown
  with assms show ?thesis by (simp add: mgr_status_def follows_def lc_step_def)
next
  case (known i m)
  with query_update_agree[OF assms, of i m] show ?thesis
    by (auto simp: mgr_status_def follows_def lc_step_def)
qed

lemma list_follows:
  assumes "agree g"
  shows "follows MList g (mgr_list Mock g)"
proof -
  obtain g' sts where l: "mgr_list Mock g = (g', Inr sts)" "mg_runtime g' = record_call CallList (mg_runtime g)"
    by (auto simp: mgr_list_def mock_list_def Let_def)
  have "cache_sound (\<lambda>k. bt_get (mk_names k)) g" using assms by (simp add: agree_def cache_sound_def)
  with mock.list_sound[OF l(1)] assms have "agree g'" by (simp add: agree_def cache_sound_def)
  with l show ?thesis by (simp add: follows_def lc_step_def)
qed

lemma create_follows:
  assumes "agree g" "0 < mock_room (mg_runtime g)"
  shows "follows (MCreate spec) g (mgr_create Mock spec g)"
proof (cases "registry_contains (mg_registry g) (ms_name spec)")
  case True
  with assms(1) have "bt_get (mk_names (mg_runtime g)) (ms_name spec) \<noteq> None"
    by (simp add: agree_def registry_contains_ids)
  with assms(1) have "lifecycle_of (mg_runtime g) (ms_name spec) \<noteq> None"
    by (cases rule: agree_cases[where n = "ms_name spec"]) auto
  with True assms show ?thesis by (auto simp: mgr_create_def follows_def lc_step_def)
next
  case False
  let ?k = "mg_runtime g"
  from False assms(1) have new: "bt_get (mk_names ?k) (ms_name spec) = None"
    by (simp add: agree_def registry_contains_ids)
  obtain k' i where c: "mock_create spec ?k = (k', Inr i)" using new
    by (auto simp: mock_create_def Let_def bt_contains_def)
  have ok: "mock_ok k'" "bt_get (mk_names k') = (bt_get (mk_names ?k))(ms_name spec \<mapsto> i)"
    using mock_create_ok[OF c] assms by (simp_all add: agree_def)
  define m where "m = \<lparr>mm_spec = spec, mm_state = Created, mm_created_at_ms = mk_clock ?k, mm_pid = 1000 + (mk_next_seq ?k + 1)\<rparr>"
  have m: "mm_spec m = spec" "mm_state m = Created" "mk_machines k' = bt_insert i m (mk_machines ?k)"
    "mk_names k' = bt_insert (ms_name spec) i (mk_names ?k)"
    using c new by (auto simp: mock_create_def Let_def bt_contains_def m_def)
  have unused: "bt_get (mk_names ?k) n \<noteq> Some i" for n
  proof
    assume n: "bt_get (mk_names ?k) n = Some i"
    with new have "n \<noteq> ms_name spec" by auto
    with n ok(2) have "bt_get (mk_names k') n = Some i" by simp
    moreover have "bt_get (mk_names k') (ms_name spec) = Some i" using ok(2) by simp
    ultimately show False using mock.names_inj[OF ok(1)] \<open>n \<noteq> ms_name spec\<close> by blast
  qed
  have life: "lifecycle_of k' = (lifecycle_of ?k)(ms_name spec \<mapsto> Created)"
  proof
    fix n
    show "lifecycle_of k' n = ((lifecycle_of ?k)(ms_name spec \<mapsto> Created)) n"
      using unused[of n] m by (cases "bt_get (mk_names ?k) n") (auto simp: lifecycle_of_def)
  qed
  have "lifecycle_of ?k (ms_name spec) = None" using new by (simp add: lifecycle_of_def)
  moreover have "mgr_create Mock spec g = query_then Mock i registry_insert (g\<lparr>mg_runtime := k'\<rparr>)"
    using False c by (simp add: mgr_create_def Mock_def)
  moreover have "query_then Mock i registry_insert (g\<lparr>mg_runtime := k'\<rparr>) =
      (g\<lparr>mg_runtime := record_call (CallStatus i) k', mg_registry := registry_insert (mock_status m i) (mg_registry g)\<rparr>,
       Inr (mock_status m i))"
    using m by (simp add: query_then_def mock_query_def Let_def)
  ultimately show ?thesis
    using ok assms(1) life m by (auto simp: follows_def agree_def registry_ok_ops registry_ids fun_eq_iff lc_step_def)
qed

lemma remove_follows:
  assumes "agree g"
  shows "follows (MRemove n force) g (mgr_remove Mock n force g)"
  using assms
proof (cases rule: agree_cases[where n = n])
  case unknown
  with assms show ?thesis by (simp add: mgr_remove_def follows_def lc_step_def)
next
  case (known i m)
  let ?k = "record_call (CallStatus i) (mg_runtime g)"
  obtain r rr where m: "mock_remove i force ?k = (r, rr)" by (cases "mock_remove i force ?k")
  have call: "mgr_remove Mock n force g = (case rr of Inl e \<Rightarrow> (g\<lparr>mg_runtime := r\<rparr>, Inl e)
      | Inr _ \<Rightarrow> (g\<lparr>mg_runtime := r, mg_registry := registry_remove n (mg_registry g)\<rparr>, Inr (mock_status m i)))"
    using known m by (simp add: mgr_remove_def mock_query_def Let_def split: sum.split)
  note laws = mock_remove_laws[OF m]
  show ?thesis
  proof (cases "mm_state m = Running \<and> \<not> force")
    case True
    with m known have "r = record_call (CallRemove i force) ?k" "\<exists>e. rr = Inl e"
      by (auto simp: mock_remove_def Let_def state_is_running_def)
    with True call known assms show ?thesis by (auto simp: follows_def lc_step_def agree_def)
  next
    case False
    with m known have r: "rr = Inr ()" "mk_machines r = bt_remove i (mk_machines (mg_runtime g))"
      "mk_names r = bt_remove n (mk_names (mg_runtime g))"
      by (auto simp: mock_remove_def Let_def state_is_running_def)
    have owner: "bt_get (mk_names (mg_runtime g)) n' = Some i \<longleftrightarrow> n' = n" for n'
      using mock_owner[OF _ known(2)] known(4) assms by (simp add: agree_def)
    have "lifecycle_of r = (lifecycle_of (mg_runtime g))(n := None)"
    proof
      fix n'
      show "lifecycle_of r n' = ((lifecycle_of (mg_runtime g))(n := None)) n'"
        using owner[of n'] by (cases "bt_get (mk_names (mg_runtime g)) n'") (auto simp: r lifecycle_of_def)
    qed
    moreover have "mock_ok r" using laws assms by (simp add: agree_def)
    moreover have "bt_get (mr_ids (registry_remove n (mg_registry g))) = bt_get (mk_names r)"
      using assms by (simp add: r agree_def registry_ids fun_eq_iff)
    ultimately have "agree (g\<lparr>mg_runtime := r, mg_registry := registry_remove n (mg_registry g)\<rparr>)"
      "lifecycle_of r = lc_step (MRemove n force) (lifecycle_of (mg_runtime g))"
      using assms False known by (auto simp: agree_def registry_ok_ops lc_step_def)
    with False call r(1) known show ?thesis by (auto simp: follows_def)
  qed
qed

lemma follows_apsnd: "follows c g (apsnd (map_sum id f) p) = follows c g p"
  by (cases p; cases "snd p") (auto simp: follows_def)

lemma call_follows:
  assumes "agree g" "0 < mock_room (mg_runtime g)"
  shows "follows c g (mgr_call Mock c g)"
  using assms create_follows start_follows stop_follows restart_follows remove_follows status_follows list_follows
  by (cases c) (simp_all add: follows_apsnd)

lemma room_call:
  assumes "agree g" "0 < mock_room (mg_runtime g)"
  shows "mock_room (mg_runtime g) \<le> Suc (mock_room (mg_runtime (fst (mgr_call Mock c g))))"
  using mock.call_sound[of c g "fst (mgr_call Mock c g)" "snd (mgr_call Mock c g)"] assms
  by (simp add: agree_def cache_sound_def)

text \<open>C38. Over the in-memory backend the manager is the lifecycle machine: after any calls the state
  of every machine is what the contract's steps give, cache and backend know the same machines, and
  the next call succeeds exactly when the contract allows it.\<close>

theorem manager_follows_lifecycle:
  fixes now :: u64
  assumes "length calls < 2 ^ 32 - 1"
  defines "g \<equiv> mgr_run Mock calls (Manager_new (MockRuntime_new now))"
  shows "lifecycle_of (mg_runtime g) = fold lc_step calls Map.empty \<and>
    bt_get (mr_ids (mg_registry g)) = bt_get (mk_names (mg_runtime g)) \<and>
    ((\<exists>sts. snd (mgr_call Mock c g) = Inr sts) \<longleftrightarrow> lc_allowed c (lifecycle_of (mg_runtime g)))"
proof -
  let ?start = "Manager_new (MockRuntime_new now)"
  have new: "agree ?start" "mock_room (mg_runtime ?start) = 2 ^ 32 - 1" "lifecycle_of (mg_runtime ?start) = Map.empty"
    by (simp_all add: agree_def mock_ok_def mock_room_def Manager_new_def MockRuntime_new_def
        registry_ok_ops registry_ids fun_eq_iff lifecycle_of_def)
  have "agree (mgr_run Mock calls ?start) \<and> 2 ^ 32 - 1 \<le> length calls + mock_room (mg_runtime (mgr_run Mock calls ?start)) \<and>
      lifecycle_of (mg_runtime (mgr_run Mock calls ?start)) = fold lc_step calls Map.empty"
    using assms(1)
  proof (induction calls rule: rev_induct)
    case Nil
    with new show ?case by (simp add: mgr_run_def)
  next
    case (snoc c calls)
    let ?g = "mgr_run Mock calls ?start"
    have step: "mgr_run Mock (calls @ [c]) ?start = fst (mgr_call Mock c ?g)" by (simp add: mgr_run_def)
    from snoc have g: "agree ?g" "2 ^ 32 - 1 \<le> length calls + mock_room (mg_runtime ?g)" "0 < mock_room (mg_runtime ?g)"
      by simp_all
    from call_follows[OF g(1,3), of c] room_call[OF g(1,3), of c] g(2) snoc show ?case
      by (simp add: step follows_def)
  qed
  then have g: "agree g" "0 < mock_room (mg_runtime g)" "lifecycle_of (mg_runtime g) = fold lc_step calls Map.empty"
    using assms(1) by (simp_all add: g_def)
  from call_follows[OF g(1,2), of c] g show ?thesis by (auto simp: follows_def agree_def)
qed

theorem manager_follows_lifecycle_witness:
  "let g = mgr_run Mock [MCreate (MachineSpec_new ''a'' ''img''), MStart ''a'', MStop ''a'' 5]
        (Manager_new (MockRuntime_new 7))
   in lifecycle_of (mg_runtime g) ''a'' = Some Stopped \<and> \<not> (\<exists>sts. snd (mgr_call Mock (MStop ''a'' 5) g) = Inr sts)"
  using manager_follows_lifecycle[of "[MCreate (MachineSpec_new ''a'' ''img''), MStart ''a'', MStop ''a'' 5]" 7 "MStop ''a'' 5"]
  by (auto simp: lc_step_def MachineSpec_new_def)

end
