(* ===== verification/Machine_Podman.thy ===== *)
theory Machine_Podman
  imports Machine_Manager "HOL-Library.Signed_Division"
begin

text \<open>
  The Podman backend (\<open>crates/adesk-machine/src/runtime/podman.rs\<close>) and the command line
  (\<open>main.rs\<close>). Running the engine is a function from the arguments and the engine's state to its
  output; the JSON reader, the rendering of paths and of \<open>f64\<close> values are parameters.
\<close>

section \<open>Reading numbers\<close>

definition is_digit :: "char \<Rightarrow> bool" where
  "is_digit c \<longleftrightarrow> c \<in> set ''0123456789''"

text \<open>\<open>str::parse\<close> for integers: an optional sign (a minus only for signed types), then at least
  one digit; the value must fit.\<close>

definition parse_unsigned :: "nat \<Rightarrow> string \<Rightarrow> nat option" where
  "parse_unsigned w s =
     (let ds = (case s of c # cs \<Rightarrow> if c = CHR ''+'' then cs else s | [] \<Rightarrow> s)
      in if ds = [] \<or> \<not> list_all is_digit ds \<or> 2 ^ w \<le> undecimal ds then None else Some (undecimal ds))"

definition parse_i64 :: "string \<Rightarrow> int option" where
  "parse_i64 s =
     (case s of
        CHR ''-'' # ds \<Rightarrow>
          if ds = [] \<or> \<not> list_all is_digit ds \<or> 2 ^ 63 < undecimal ds then None else Some (- int (undecimal ds))
      | _ \<Rightarrow> map_option int (parse_unsigned 63 s))"

text \<open>\<open>&s[a..b]\<close> of an ASCII string.\<close>

definition slice :: "nat \<Rightarrow> nat \<Rightarrow> string \<Rightarrow> string" where
  "slice a b s = take (b - a) (drop a s)"

section \<open>The create arguments\<close>

text \<open>\<open>display\<close> renders a path, \<open>show_f64\<close> a float.\<close>

definition volume_argument :: "(string \<Rightarrow> string) \<Rightarrow> string \<Rightarrow> string \<Rightarrow> bool \<Rightarrow> string" where
  "volume_argument display host container read_only =
     (if read_only then display host @ '':'' @ display container @ '':ro''
      else display host @ '':'' @ display container)"

definition build_create_argv :: "(string \<Rightarrow> string) \<Rightarrow> (f64 \<Rightarrow> string) \<Rightarrow> MachineSpec \<Rightarrow> string list" where
  "build_create_argv display show_f64 spec =
     [''create'', ''--name'', ms_name spec] @
     concat (map (\<lambda>(k, v). [''--label'', k @ ''='' @ v]) (ms_labels spec)) @
     concat (map (\<lambda>(k, v). [''--env'', k @ ''='' @ v]) (ms_env spec)) @
     concat (map (\<lambda>m. [''--volume'', volume_argument display (mt_host_path m) (mt_container_path m) (mt_read_only m)])
       (ms_mounts spec)) @
     (case ms_memory_mb spec of Some mb \<Rightarrow> [''--memory'', decimal (unat mb) @ ''m''] | None \<Rightarrow> []) @
     (case ms_cpus spec of Some cpus \<Rightarrow> [''--cpus'', show_f64 cpus] | None \<Rightarrow> []) @
     (case ms_network spec of
        NetNone \<Rightarrow> [''--network'', ''none''] | NetHost \<Rightarrow> [''--network'', ''host''] | NetPrivate \<Rightarrow> []) @
     (case ms_viewer spec of
        UnixSocket host container \<Rightarrow> [''--volume'', volume_argument display host container False]
      | TcpPort host container \<Rightarrow> [''--publish'', decimal (unat host) @ '':'' @ decimal (unat container)]
      | NoViewer \<Rightarrow> []) @
     [ms_image spec] @ ms_command spec"

section \<open>Inspecting\<close>

record InspectState =
  is_status :: string
  is_pid :: "u32 option"
  is_exit_code :: "i32 option"

record InspectContainer =
  ic_id :: string
  ic_name :: string
  ic_image :: string
  ic_created :: "string option"
  ic_state :: InspectState

definition map_state :: "InspectState \<Rightarrow> MachineState" where
  "map_state s =
     (if is_status s = ''created'' \<or> is_status s = ''configured'' then Created
      else if is_status s = ''running'' \<or> is_status s = ''paused'' then Running
      else if is_status s = ''stopped'' then Stopped
      else if is_status s = ''exited'' then Exited (case is_exit_code s of Some c \<Rightarrow> c | None \<Rightarrow> 0)
      else if is_status s = ''dead'' then Failed ''container is dead''
      else Failed (''unknown podman state `'' @ is_status s @ ''`''))"

text \<open>Days since 1970-01-01 of a civil date; \<open>/\<close> on \<open>i64\<close> truncates.\<close>

definition days_from_civil :: "int \<Rightarrow> nat \<Rightarrow> nat \<Rightarrow> int" where
  "days_from_civil y month day =
     (let year = (if month \<le> 2 then y - 1 else y);
          era = (if 0 \<le> year then year else year - 399) sdiv 400;
          year_of_era = year - era * 400;
          month_prime = int (if 2 < month then month - 3 else month + 9);
          day_of_year = (153 * month_prime + 2) sdiv 5 + int day - 1;
          day_of_era = year_of_era * 365 + year_of_era sdiv 4 - year_of_era sdiv 100 + day_of_year
      in era * 146097 + day_of_era - 719468)"

definition is_ascii :: "string \<Rightarrow> bool" where
  "is_ascii s \<longleftrightarrow> list_all (\<lambda>c. (of_char c :: nat) < 128) s"

text \<open>The fraction: its digits padded to three, then cut.\<close>

definition read_fraction :: "string \<Rightarrow> (string \<times> nat) option" where
  "read_fraction rest =
     (case strip_prefix ''.'' rest of
        None \<Rightarrow> Some (rest, 0)
      | Some fraction \<Rightarrow>
          let digits = takeWhile is_digit fraction;
              padded = digits @ replicate (3 - length digits) (CHR ''0'')
          in map_option (\<lambda>ms. (drop (length digits) fraction, ms)) (parse_unsigned 64 (take 3 padded)))"

definition read_offset :: "string \<Rightarrow> int option" where
  "read_offset rest =
     (case rest of
        [] \<Rightarrow> Some 0
      | c # _ \<Rightarrow>
          if c = CHR ''Z'' \<or> c = CHR ''z'' then Some 0
          else if c = CHR ''+'' \<or> c = CHR ''-'' then
            (if length rest \<noteq> 6 \<or> rest ! 3 \<noteq> CHR '':'' then None
             else
               (case (parse_i64 (slice 1 3 rest), parse_i64 (slice 4 6 rest)) of
                  (Some hours, Some minutes) \<Rightarrow>
                    let seconds = hours * 3600 + minutes * 60
                    in Some (if c = CHR ''-'' then - seconds else seconds)
                | _ \<Rightarrow> None))
          else None)"

text \<open>\<^const>\<open>None\<close> is the \<open>MachineError::Runtime\<close> of the code.\<close>

definition parse_rfc3339_millis :: "string \<Rightarrow> int option" where
  "parse_rfc3339_millis input =
     (let t = trim input
      in if \<not> is_ascii t \<or> length t < 19 then None
         else if t ! 4 \<noteq> CHR ''-'' \<or> t ! 7 \<noteq> CHR ''-'' \<or> (t ! 10 \<noteq> CHR ''T'' \<and> t ! 10 \<noteq> CHR ''t'') \<or>
             t ! 13 \<noteq> CHR '':'' \<or> t ! 16 \<noteq> CHR '':'' then None
         else
           (case (parse_i64 (slice 0 4 t), parse_unsigned 32 (slice 5 7 t), parse_unsigned 32 (slice 8 10 t)) of
              (Some year, Some month, Some day) \<Rightarrow>
                (case (parse_i64 (slice 11 13 t), parse_i64 (slice 14 16 t), parse_i64 (slice 17 19 t)) of
                   (Some hour, Some minute, Some second) \<Rightarrow>
                     (case read_fraction (drop 19 t) of
                        None \<Rightarrow> None
                      | Some (rest, ms) \<Rightarrow>
                          (case read_offset rest of
                             None \<Rightarrow> None
                           | Some offset \<Rightarrow>
                               let seconds = days_from_civil year month day * 86400 + hour * 3600 + minute * 60 +
                                     second - offset
                               in if seconds < 0 then None else Some (seconds * 1000 + int ms)))
                 | _ \<Rightarrow> None)
            | _ \<Rightarrow> None))"

definition into_status :: "InspectContainer \<Rightarrow> MachineError + MachineStatus" where
  "into_status c =
     (let state = map_state (ic_state c)
      in case (case ic_created c of
                 Some created \<Rightarrow>
                   (case parse_rfc3339_millis created of
                      Some ms \<Rightarrow> Inr (word_of_int ms :: u64)
                    | None \<Rightarrow> Inl (MRuntime (''invalid `Created` timestamp `'' @ created @ ''`'')))
               | None \<Rightarrow> Inr 0) of
           Inl e \<Rightarrow> Inl e
         | Inr created_at \<Rightarrow>
             Inr \<lparr>st_id = ic_id c, st_name = ic_name c, st_image = ic_image c, st_state = state,
               st_pid = (if state_is_running state
                         then Option.bind (is_pid (ic_state c)) (\<lambda>pid. if pid \<noteq> 0 then Some pid else None) else None),
               st_created_at_ms = created_at, st_viewer = NoViewer\<rparr>)"

text \<open>Collecting results into a \<open>Result<Vec<_>>\<close>: the first error wins.\<close>

fun collect_results :: "('e + 'a) list \<Rightarrow> 'e + 'a list" where
  "collect_results [] = Inr []"
| "collect_results (Inl e # xs) = Inl e"
| "collect_results (Inr x # xs) = map_sum id (\<lambda>ys. x # ys) (collect_results xs)"

definition parse_inspect :: "(string \<Rightarrow> string + InspectContainer list) \<Rightarrow> string \<Rightarrow> MachineError + MachineStatus list" where
  "parse_inspect from_json payload =
     (case from_json payload of
        Inl e \<Rightarrow> Inl (MRuntime (''invalid `podman inspect` payload: '' @ e))
      | Inr cs \<Rightarrow> collect_results (map into_status cs))"

section \<open>Driving the engine\<close>

record ProcessOutput =
  pr_code :: "i32 option" \<comment> \<open>none when a signal ended the process\<close>
  pr_stdout :: string
  pr_stderr :: string

record 'p Engine =
  en_program :: string
  en_exec :: "string list \<Rightarrow> 'p \<Rightarrow> 'p \<times> (string + ProcessOutput)"
  en_from_json :: "string \<Rightarrow> string + InspectContainer list"
  en_display :: "string \<Rightarrow> string"
  en_show_f64 :: "f64 \<Rightarrow> string"
  en_lossy :: "string \<Rightarrow> string"

definition podman_run :: "'p Engine \<Rightarrow> string list \<Rightarrow> 'p \<Rightarrow> 'p \<times> (MachineError + string)" where
  "podman_run E args p =
     (let (p, res) = en_exec E args p
      in (p, case res of
               Inl e \<Rightarrow> Inl (MSpawn e)
             | Inr out \<Rightarrow>
                 if pr_code out \<noteq> Some 0
                 then Inl (MBackend (en_display E (en_program E))
                        (case pr_code out of Some c \<Rightarrow> c | None \<Rightarrow> - 1) (trim (en_lossy E (pr_stderr out))))
                 else Inr (en_lossy E (pr_stdout out))))"

definition podman_create :: "'p Engine \<Rightarrow> MachineSpec \<Rightarrow> 'p \<Rightarrow> 'p \<times> (MachineError + MachineId)" where
  "podman_create E spec p =
     (let (p, res) = podman_run E (build_create_argv (en_display E) (en_show_f64 E) spec) p
      in (p, case res of
               Inl e \<Rightarrow> Inl e
             | Inr out \<Rightarrow>
                 if trim out = [] then Inl (MRuntime ''podman create produced an empty container id'')
                 else Inr (trim out)))"

definition podman_unit :: "'p Engine \<Rightarrow> string list \<Rightarrow> 'p \<Rightarrow> 'p \<times> (MachineError + unit)" where
  "podman_unit E args p = apsnd (map_sum id (\<lambda>_. ())) (podman_run E args p)"

definition podman_start :: "'p Engine \<Rightarrow> MachineId \<Rightarrow> 'p \<Rightarrow> 'p \<times> (MachineError + unit)" where
  "podman_start E i = podman_unit E [''start'', i]"

definition podman_stop :: "'p Engine \<Rightarrow> MachineId \<Rightarrow> u64 \<Rightarrow> 'p \<Rightarrow> 'p \<times> (MachineError + unit)" where
  "podman_stop E i timeout_ms = podman_unit E [''stop'', ''--time'', decimal ((unat timeout_ms + 999) div 1000), i]"

definition podman_remove :: "'p Engine \<Rightarrow> MachineId \<Rightarrow> bool \<Rightarrow> 'p \<Rightarrow> 'p \<times> (MachineError + unit)" where
  "podman_remove E i force = podman_unit E ([''rm''] @ (if force then [''--force''] else []) @ [i])"

definition podman_status :: "'p Engine \<Rightarrow> MachineId \<Rightarrow> 'p \<Rightarrow> 'p \<times> (MachineError + MachineStatus)" where
  "podman_status E i p =
     (let (p, res) = podman_run E [''inspect'', i] p
      in (p, case res of
               Inl e \<Rightarrow> Inl e
             | Inr out \<Rightarrow>
                 (case parse_inspect (en_from_json E) out of
                    Inl e \<Rightarrow> Inl e
                  | Inr [st] \<Rightarrow> Inr st
                  | Inr sts \<Rightarrow> Inl (MRuntime (''podman inspect returned '' @ decimal (length sts) @
                        '' containers for `'' @ i @ ''`'')))))"

fun inspect_all :: "'p Engine \<Rightarrow> MachineId list \<Rightarrow> 'p \<Rightarrow> 'p \<times> (MachineError + MachineStatus list)" where
  "inspect_all E [] p = (p, Inr [])"
| "inspect_all E (i # ids) p =
     (let (p, res) = podman_run E [''inspect'', i] p
      in case res of
           Inl e \<Rightarrow> (p, Inl e)
         | Inr payload \<Rightarrow>
             (case parse_inspect (en_from_json E) payload of
                Inl e \<Rightarrow> (p, Inl e)
              | Inr sts \<Rightarrow> apsnd (map_sum id (\<lambda>rest. sts @ rest)) (inspect_all E ids p)))"

definition podman_list :: "'p Engine \<Rightarrow> 'p \<Rightarrow> 'p \<times> (MachineError + MachineStatus list)" where
  "podman_list E p =
     (let (p, res) = podman_run E [''ps'', ''-a'', ''--quiet''] p
      in case res of
           Inl e \<Rightarrow> (p, Inl e)
         | Inr out \<Rightarrow> inspect_all E (filter (\<lambda>l. l \<noteq> []) (map trim (str_lines out))) p)"

definition Podman :: "'p Engine \<Rightarrow> 'p ContainerRuntime" where
  "Podman E = \<lparr>rt_create = podman_create E, rt_start = podman_start E, rt_stop = podman_stop E,
     rt_remove = podman_remove E, rt_status = podman_status E, rt_list = podman_list E\<rparr>"

section \<open>The command line\<close>

record CreateArgs =
  ca_name :: string
  ca_image :: string
  ca_command :: "string list"
  ca_viewer_unix :: "string option"
  ca_viewer_tcp :: "string option"
  ca_mount :: "string list"
  ca_memory_mb :: "u64 option"
  ca_cpus :: "f64 option"
  ca_network :: "string option"

text \<open>\<open>str::rsplit_once\<close> on one character.\<close>

definition rsplit_once :: "char \<Rightarrow> string \<Rightarrow> (string \<times> string) option" where
  "rsplit_once c s = map_option (\<lambda>(b, a). (rev a, rev b)) (split_once c (rev s))"

definition parse_mount :: "string \<Rightarrow> string + Mount" where
  "parse_mount v =
     (let invalid = ''invalid --mount `'' @ v @ ''`: expected HOST:CONTAINER[:ro]'';
          (paths, read_only) =
            (case rsplit_once (CHR '':'') v of
               Some (paths, mode) \<Rightarrow>
                 if mode = ''ro'' then (paths, True) else if mode = ''rw'' then (paths, False) else (v, False)
             | None \<Rightarrow> (v, False))
      in case split_once (CHR '':'') paths of
           None \<Rightarrow> Inl invalid
         | Some (host, container) \<Rightarrow>
             if host = [] \<or> container = [] then Inl invalid
             else Inr \<lparr>mt_host_path = host, mt_container_path = container, mt_read_only = read_only\<rparr>)"

definition split_host_and_container :: "string \<Rightarrow> (string \<times> string) option" where
  "split_host_and_container v =
     Option.bind (split_once (CHR '':'') v)
       (\<lambda>(host, container). if host = [] \<or> container = [] then None else Some (host, container))"

definition parse_viewer_unix :: "string \<Rightarrow> string + ViewerExposure" where
  "parse_viewer_unix v =
     (case split_host_and_container v of
        None \<Rightarrow> Inl (''invalid --viewer-unix `'' @ v @ ''`: expected HOST:CONTAINER'')
      | Some (host, container) \<Rightarrow> Inr (UnixSocket host container))"

definition parse_viewer_tcp :: "string \<Rightarrow> string + ViewerExposure" where
  "parse_viewer_tcp v =
     (let invalid = ''invalid --viewer-tcp `'' @ v @ ''`: expected HOST:PORT''
      in case split_host_and_container v of
           None \<Rightarrow> Inl invalid
         | Some (host, container) \<Rightarrow>
             (case (parse_unsigned 16 host, parse_unsigned 16 container) of
                (Some hp, Some cp) \<Rightarrow> Inr (TcpPort (word_of_nat hp) (word_of_nat cp))
              | _ \<Rightarrow> Inl invalid))"

definition parse_network :: "string \<Rightarrow> string + NetworkMode" where
  "parse_network v =
     (if v = ''none'' then Inr NetNone else if v = ''host'' then Inr NetHost
      else if v = ''private'' then Inr NetPrivate
      else Inl (''invalid --network `'' @ v @ ''`: expected none, host or private''))"

text \<open>A flag that may be absent: its value changes the specification or is an error.\<close>

definition with_flag :: "'v option \<Rightarrow> ('v \<Rightarrow> string + 'a) \<Rightarrow> ('a \<Rightarrow> MachineSpec \<Rightarrow> MachineSpec) \<Rightarrow> MachineSpec \<Rightarrow> string + MachineSpec" where
  "with_flag flag parse upd spec =
     (case flag of None \<Rightarrow> Inr spec | Some v \<Rightarrow> map_sum id (\<lambda>x. upd x spec) (parse v))"

fun add_mounts :: "string list \<Rightarrow> MachineSpec \<Rightarrow> string + MachineSpec" where
  "add_mounts [] spec = Inr spec"
| "add_mounts (v # vs) spec =
     (case parse_mount v of
        Inl e \<Rightarrow> Inl e
      | Inr m \<Rightarrow> add_mounts vs (spec\<lparr>ms_mounts := ms_mounts spec @ [m]\<rparr>))"

definition and_then :: "'e + 'a \<Rightarrow> ('a \<Rightarrow> 'e + 'b) \<Rightarrow> 'e + 'b" where
  "and_then r f = (case r of Inl e \<Rightarrow> Inl e | Inr x \<Rightarrow> f x)"

definition build_spec :: "CreateArgs \<Rightarrow> string + MachineSpec" where
  "build_spec a =
     (if ca_viewer_unix a \<noteq> None \<and> ca_viewer_tcp a \<noteq> None
      then Inl ''--viewer-unix and --viewer-tcp are mutually exclusive''
      else
        let spec0 = MachineSpec_new (ca_name a) (ca_image a);
            spec1 = (if ca_command a \<noteq> [] then spec0\<lparr>ms_command := ca_command a\<rparr> else spec0)
        in and_then (add_mounts (ca_mount a) spec1) (\<lambda>spec.
           and_then (with_flag (ca_memory_mb a) Inr (\<lambda>mb s. s\<lparr>ms_memory_mb := Some mb\<rparr>) spec) (\<lambda>spec.
           and_then (with_flag (ca_cpus a) Inr (\<lambda>c s. s\<lparr>ms_cpus := Some c\<rparr>) spec) (\<lambda>spec.
           and_then (with_flag (ca_network a) parse_network (\<lambda>n s. s\<lparr>ms_network := n\<rparr>) spec) (\<lambda>spec.
           (if ca_viewer_unix a \<noteq> None
            then with_flag (ca_viewer_unix a) parse_viewer_unix (\<lambda>v s. s\<lparr>ms_viewer := v\<rparr>) spec
            else with_flag (ca_viewer_tcp a) parse_viewer_tcp (\<lambda>v s. s\<lparr>ms_viewer := v\<rparr>) spec))))))"

datatype Command =
    CmdCreate CreateArgs
  | CmdStart string
  | CmdStop string u64
  | CmdRestart string
  | CmdRemove string bool
  | CmdList
  | CmdStatus string
  | CmdCapabilities

datatype Failure = FailMachine MachineError | FailUsage string

fun command_call :: "Command \<Rightarrow> string + ManagerCall option" where
  "command_call (CmdCreate a) = map_sum id (\<lambda>spec. Some (MCreate spec)) (build_spec a)"
| "command_call (CmdStart n) = Inr (Some (MStart n))"
| "command_call (CmdStop n t) = Inr (Some (MStop n t))"
| "command_call (CmdRestart n) = Inr (Some (MRestart n))"
| "command_call (CmdRemove n force) = Inr (Some (MRemove n force))"
| "command_call CmdList = Inr (Some MList)"
| "command_call (CmdStatus n) = Inr (Some (MStatus n))"
| "command_call CmdCapabilities = Inr None"

definition dispatch ::
  "'r ContainerRuntime \<Rightarrow> Command \<Rightarrow> 'r HostControlPlane \<Rightarrow> 'r HostControlPlane \<times> (Failure + MachineStatus list)" where
  "dispatch R cmd h =
     (case command_call cmd of
        Inl m \<Rightarrow> (h, Inl (FailUsage m))
      | Inr None \<Rightarrow> (h, Inr [])
      | Inr (Some call) \<Rightarrow> apsnd (map_sum FailMachine id) (plane_call R call h))"

text \<open>\<open>run\<close>: a new manager over the backend, one command, an exit code.\<close>

definition cli_run :: "'r ContainerRuntime \<Rightarrow> Command \<Rightarrow> 'r \<Rightarrow> 'r \<times> u8" where
  "cli_run R cmd r =
     (let (h, res) = dispatch R cmd (HostControlPlane_new (Manager_new r) HostCapabilities_default)
      in (mg_runtime (hp_manager h),
          case res of Inr _ \<Rightarrow> 0 | Inl (FailMachine _) \<Rightarrow> 1 | Inl (FailUsage _) \<Rightarrow> 2))"

section \<open>The command line never finds a machine\<close>

text \<open>Over any backend, whatever machines it has, every command that names a machine exits
  with code 1 and never reaches the backend: the new manager's registry is empty and nothing fills
  it. (The README starts the machine it has just created this way.)\<close>

theorem cli_finds_no_machine:
  "cli_run R (CmdStart n) r = (r, 1) \<and> cli_run R (CmdStop n t) r = (r, 1) \<and> cli_run R (CmdRestart n) r = (r, 1) \<and>
   cli_run R (CmdRemove n force) r = (r, 1) \<and> cli_run R (CmdStatus n) r = (r, 1)"
  by (simp add: cli_run_def dispatch_def plane_call_def HostControlPlane_new_def Manager_new_def
      mgr_start_def mgr_stop_def mgr_restart_def mgr_remove_def mgr_status_def resolve_name_def
      MachineRegistry_new_def Let_def)

section \<open>Dates\<close>

text \<open>The Gregorian calendar, by the length of its months.\<close>

definition leap_year :: "int \<Rightarrow> bool" where
  "leap_year y \<longleftrightarrow> 4 dvd y \<and> (\<not> 100 dvd y \<or> 400 dvd y)"

definition month_days :: "int \<Rightarrow> nat \<Rightarrow> nat" where
  "month_days y m =
     (if m \<in> {4, 6, 9, 11} then 30 else if m = 2 then (if leap_year y then 29 else 28) else 31)"

definition next_day :: "int \<times> nat \<times> nat \<Rightarrow> int \<times> nat \<times> nat" where
  "next_day = (\<lambda>(y, m, d).
     if d < month_days y m then (y, m, d + 1)
     else if m < 12 then (y, m + 1, 1)
     else (y + 1, 1, 1))"

definition valid_date :: "int \<times> nat \<times> nat \<Rightarrow> bool" where
  "valid_date = (\<lambda>(y, m, d). 1 \<le> m \<and> m \<le> 12 \<and> 1 \<le> d \<and> d \<le> month_days y m)"

text \<open>The number of days before March of a year, by leap years.\<close>

definition year_days :: "int \<Rightarrow> int" where
  "year_days y = 365 * y + y div 4 - y div 100 + y div 400"

lemma div_pred:
  fixes k y :: int
  assumes "0 < k"
  shows "y div k = (y - 1) div k + (if k dvd y then 1 else 0)"
proof (cases "k dvd y")
  case True
  then have "k * (y div k) = y" by simp
  then have "k * (y div k - 1) = y - k" by (simp only: right_diff_distrib mult_1_right)
  then have "y - 1 = k * (y div k - 1) + (k - 1)" by linarith
  with assms have "(y - 1) div k = y div k - 1" by (intro int_div_pos_eq[where r = "k - 1"]) simp_all
  with True show ?thesis by simp
next
  case False
  then have "0 < y mod k" using assms by (metis dvd_eq_mod_eq_0 order_le_less pos_mod_sign)
  moreover have "y - 1 = k * (y div k) + (y mod k - 1)" by simp
  ultimately have "(y - 1) div k = y div k" using assms by (intro int_div_pos_eq[where r = "y mod k - 1"]) (simp_all add: pos_mod_bound less_imp_le add_strict_increasing diff_less_eq)
  with False show ?thesis by simp
qed

lemma div_within:
  fixes y :: int
  shows "(y mod 400) div 4 = y div 4 - 100 * (y div 400)" "(y mod 400) div 100 = y div 100 - 4 * (y div 400)"
proof -
  have "y = y mod 400 + 100 * (y div 400) * 4" by simp
  then have "y div 4 = (y mod 400 + 100 * (y div 400) * 4) div 4" by simp
  also have "\<dots> = 100 * (y div 400) + y mod 400 div 4" by (rule div_mult_self1) simp
  finally show "(y mod 400) div 4 = y div 4 - 100 * (y div 400)" by simp
  have "y = y mod 400 + 4 * (y div 400) * 100" by simp
  then have "y div 100 = (y mod 400 + 4 * (y div 400) * 100) div 100" by simp
  also have "\<dots> = 4 * (y div 400) + y mod 400 div 100" by (rule div_mult_self1) simp
  finally show "(y mod 400) div 100 = y div 100 - 4 * (y div 400)" by simp
qed

lemma era_floor: "(if 0 \<le> y then y else y - 399) sdiv 400 = (y :: int) div 400"
proof (cases "0 \<le> y")
  case True
  then show ?thesis by (simp add: signed_divide_int_def sgn_if)
next
  case False
  have "400 * (y div 400) + y mod 400 = y" by simp
  then have "399 - y = 400 * (- (y div 400)) + (399 - y mod 400)" by linarith
  then have "(399 - y) div 400 = - (y div 400)"
    by (rule int_div_pos_eq) (simp_all add: le_diff_eq less_imp_le)
  with False show ?thesis by (simp add: signed_divide_int_def sgn_if)
qed

lemma era_year_days:
  "(let era = (if 0 \<le> y then y else y - 399) sdiv 400; yoe = y - era * 400
    in era * 146097 + (yoe * 365 + yoe sdiv 4 - yoe sdiv 100)) = year_days y"
proof -
  have yoe: "y - y div 400 * 400 = y mod 400" by (simp add: minus_div_mult_eq_mod)
  have s: "(y mod 400) sdiv 4 = (y mod 400) div 4" "(y mod 400) sdiv 100 = (y mod 400) div 100"
    by (auto simp: signed_divide_int_def sgn_if abs_if)
  have "y mod 400 = y - 400 * (y div 400)" by (simp add: minus_mult_div_eq_mod)
  then show ?thesis unfolding Let_def era_floor yoe s div_within year_days_def by simp
qed

lemma sdiv_nonneg: "0 \<le> a \<Longrightarrow> 0 < b \<Longrightarrow> a sdiv b = a div (b :: int)"
  by (cases "a = 0") (simp_all add: signed_divide_int_def sgn_if)

lemma days_by_year:
  "days_from_civil y m d =
     year_days (if m \<le> 2 then y - 1 else y) +
     (153 * int (if 2 < m then m - 3 else m + 9) + 2) div 5 + int d - 719469"
proof -
  have s: "(153 * int k + 2) sdiv 5 = (153 * int k + 2) div 5" for k by (rule sdiv_nonneg) simp_all
  show ?thesis
    using era_year_days[of "if m \<le> 2 then y - 1 else y"] unfolding days_from_civil_def Let_def s
    by linarith
qed

lemma sum_step:
  fixes a b c y :: int
  assumes "a = a' + p" "b = b' + q" "c = c' + r"
  shows "365 * y + a - b + c = 365 * (y - 1) + a' - b' + c' + 365 + p - q + r"
  using assms by simp

lemma year_days_step: "year_days y = year_days (y - 1) + (if leap_year y then 366 else 365)"
proof -
  have "4 dvd y" if "100 dvd y" using that by (rule dvd_trans[rotated]) simp
  moreover have "100 dvd y" if "400 dvd y" using that by (rule dvd_trans[rotated]) simp
  moreover have "year_days y = year_days (y - 1) + 365 + (if 4 dvd y then 1 else 0) - (if 100 dvd y then 1 else 0)
      + (if 400 dvd y then 1 else 0)"
    unfolding year_days_def by (rule sum_step) (rule div_pred, simp)+
  ultimately show ?thesis unfolding leap_year_def by (cases "4 dvd y"; cases "100 dvd y"; cases "400 dvd y") simp_all
qed

lemma month_step:
  assumes "1 \<le> m" "m < 12"
  shows "days_from_civil y (m + 1) 1 = days_from_civil y m (month_days y m) + 1"
proof -
  have "m = 1 \<or> m = 2 \<or> m = 3 \<or> m = 4 \<or> m = 5 \<or> m = 6 \<or> m = 7 \<or> m = 8 \<or> m = 9 \<or> m = 10 \<or> m = 11"
    using assms by presburger
  moreover have "days_from_civil y 3 1 = days_from_civil y 2 (month_days y 2) + 1"
    by (simp add: days_by_year month_days_def year_days_step[of y])
  ultimately show ?thesis by (elim disjE) (simp_all add: days_by_year month_days_def)
qed

text \<open>The date arithmetic of the \<open>Created\<close> timestamps counts days: 1970-01-01 is day zero and
  the day after any date of the Gregorian calendar, before or after it, has the next number.\<close>

theorem days_from_civil_counts_days:
  "days_from_civil 1970 1 1 = 0 \<and>
   (\<forall>y m d. valid_date (y, m, d) \<longrightarrow>
      (case next_day (y, m, d) of (y', m', d') \<Rightarrow> days_from_civil y' m' d' = days_from_civil y m d + 1))"
proof -
  have "days_from_civil 1970 1 1 = 0" by (simp add: days_by_year year_days_def)
  moreover have "(case next_day (y, m, d) of (y', m', d') \<Rightarrow> days_from_civil y' m' d' = days_from_civil y m d + 1)"
    if valid: "valid_date (y, m, d)" for y m d
  proof (cases "d < month_days y m")
    case True
    then show ?thesis by (simp add: next_day_def days_by_year)
  next
    case False
    with valid have d: "d = month_days y m" by (simp add: valid_date_def)
    have "1 \<le> m" "m \<le> 12" using valid by (simp_all add: valid_date_def)
    with d month_step[of m y] show ?thesis
      by (cases "m = 12") (simp_all add: next_day_def days_by_year[of "y + 1"] days_by_year[of y 12] month_days_def)
  qed
  ultimately show ?thesis by blast
qed

theorem days_from_civil_counts_days_witness:
  "days_from_civil 2000 3 1 = days_from_civil 2000 2 29 + 1"
  using days_from_civil_counts_days[THEN conjunct2, rule_format, of 2000 2 29]
  by (simp add: valid_date_def next_day_def month_days_def leap_year_def)

text \<open>\<open>Anything else\<close> than the documented form is not always refused: what follows a \<open>Z\<close> is ignored,
  and so are impossible months.\<close>

lemmas timestamp_eval =
  parse_rfc3339_millis_def is_ascii_def slice_def parse_i64_def parse_unsigned_def is_digit_def
  undecimal_def read_fraction_def strip_prefix_def read_offset_def days_by_year year_days_def Let_def

lemma lenient_timestamps:
  "parse_rfc3339_millis ''1970-01-01T00:00:01Zebra'' = Some 1000"
  "parse_rfc3339_millis ''1970-99-01T00:00:01Z'' \<noteq> None"
proof -
  have "trim ''1970-01-01T00:00:01Zebra'' = ''1970-01-01T00:00:01Zebra''"
    "trim ''1970-99-01T00:00:01Z'' = ''1970-99-01T00:00:01Z''"
    by (rule trim_eq_self; simp add: unicode_spaces_def suffix_to_prefix)+
  then show "parse_rfc3339_millis ''1970-01-01T00:00:01Zebra'' = Some 1000"
    "parse_rfc3339_millis ''1970-99-01T00:00:01Z'' \<noteq> None"
    by (simp_all add: timestamp_eval)
qed

end
