(* ===== verification/Compositor_Registry.thy ===== *)
theory Compositor_Registry
  imports Window_Policy Rust_Text
begin

text \<open>
  The bookkeeping below the compositor's window bridge (\<open>crates/adesk-compositor/src/wm\<close>): which
  surface belongs to which window, the popups and their ids (\<open>wm/registry.rs\<close>), and the ledger of
  pending launches (the first part of \<open>wm.rs\<close>). Surfaces are named by any linearly ordered type; the
  \<open>HashMap\<close>s of the code are kept sorted, and where the code iterates over one it sorts the result by
  popup id, which no two popups share.
\<close>

section \<open>Surfaces, windows and popups\<close>

record ToplevelSlot =
  sl_key :: SurfaceKey
  sl_window :: "WindowId option"

record 'k PopupRecord =
  pp_window_id :: WindowId
  pp_popup_id :: u64
  pp_parent :: "'k option"
  pp_offset :: "i32 \<times> i32"

record 'k RemovedPopup =
  rp_popup_id :: u64
  rp_surface :: 'k

record 'k SurfaceRegistry =
  sr_toplevels :: "('k, ToplevelSlot) btree"
  sr_owners :: "('k, WindowId) btree"
  sr_popups :: "('k, 'k PopupRecord) btree"
  sr_next_surface_key :: u64
  sr_next_popup_id :: u64

definition SurfaceRegistry_new :: "'k SurfaceRegistry" where
  "SurfaceRegistry_new = \<lparr>sr_toplevels = [], sr_owners = [], sr_popups = [],
     sr_next_surface_key = 1, sr_next_popup_id = 1\<rparr>"

definition reg_register_toplevel :: "'k::linorder \<Rightarrow> 'k SurfaceRegistry \<Rightarrow> SurfaceKey \<times> 'k SurfaceRegistry" where
  "reg_register_toplevel s g =
     (case bt_get (sr_toplevels g) s of
        Some sl \<Rightarrow> (sl_key sl, g)
      | None \<Rightarrow>
          let key = SurfaceKey (sr_next_surface_key g)
          in (key, g\<lparr>sr_next_surface_key := sr_next_surface_key g + 1,
                sr_toplevels := bt_insert s \<lparr>sl_key = key, sl_window = None\<rparr> (sr_toplevels g)\<rparr>))"

definition reg_slot :: "'k::linorder SurfaceRegistry \<Rightarrow> 'k \<Rightarrow> ToplevelSlot option" where
  "reg_slot g s = bt_get (sr_toplevels g) s"

definition reg_is_unmapped_toplevel :: "'k::linorder SurfaceRegistry \<Rightarrow> 'k \<Rightarrow> bool" where
  "reg_is_unmapped_toplevel g s =
     (case bt_get (sr_toplevels g) s of Some sl \<Rightarrow> sl_window sl = None | None \<Rightarrow> False)"

definition reg_window_for_surface :: "'k::linorder SurfaceRegistry \<Rightarrow> 'k \<Rightarrow> WindowId option" where
  "reg_window_for_surface g s = bt_get (sr_owners g) s"

definition reg_bind :: "'k::linorder \<Rightarrow> WindowId \<Rightarrow> 'k SurfaceRegistry \<Rightarrow> 'k SurfaceRegistry" where
  "reg_bind s w g =
     g\<lparr>sr_toplevels := bt_modify s (\<lambda>sl. sl\<lparr>sl_window := Some w\<rparr>) (sr_toplevels g),
       sr_owners := bt_insert s w (sr_owners g)\<rparr>"

definition reg_remove_popups_of :: "WindowId \<Rightarrow> 'k::linorder SurfaceRegistry \<Rightarrow> 'k RemovedPopup list \<times> 'k SurfaceRegistry" where
  "reg_remove_popups_of w g =
     (sort_key (\<lambda>p. unat (rp_popup_id p))
        (map (\<lambda>(k, p). \<lparr>rp_popup_id = pp_popup_id p, rp_surface = k\<rparr>)
          (filter (\<lambda>(k, p). pp_window_id p = w) (sr_popups g))),
      g\<lparr>sr_popups := bt_retain (\<lambda>_ p. pp_window_id p \<noteq> w) (sr_popups g),
        sr_owners := bt_retain (\<lambda>_ owner. owner \<noteq> w) (sr_owners g)\<rparr>)"

definition reg_unbind_toplevel ::
  "'k::linorder \<Rightarrow> 'k SurfaceRegistry \<Rightarrow> (WindowId option \<times> 'k RemovedPopup list) \<times> 'k SurfaceRegistry" where
  "reg_unbind_toplevel s g =
     (let window = Option.bind (bt_get (sr_toplevels g) s) sl_window;
          g1 = g\<lparr>sr_toplevels := bt_remove s (sr_toplevels g), sr_owners := bt_remove s (sr_owners g)\<rparr>
      in case window of
           Some w \<Rightarrow> (let (popups, g2) = reg_remove_popups_of w g1 in ((window, popups), g2))
         | None \<Rightarrow> ((None, []), g1))"

definition reg_add_popup ::
  "'k::linorder \<Rightarrow> 'k option \<Rightarrow> WindowId \<Rightarrow> i32 \<times> i32 \<Rightarrow> 'k SurfaceRegistry \<Rightarrow> u64 \<times> 'k SurfaceRegistry" where
  "reg_add_popup s parent w offset g =
     (case bt_get (sr_popups g) s of
        Some existing \<Rightarrow> (pp_popup_id existing, g)
      | None \<Rightarrow>
          let i = sr_next_popup_id g
          in (i, g\<lparr>sr_next_popup_id := i + 1,
                sr_popups := bt_insert s
                  \<lparr>pp_window_id = w, pp_popup_id = i, pp_parent = parent, pp_offset = offset\<rparr> (sr_popups g),
                sr_owners := bt_insert s w (sr_owners g)\<rparr>))"

definition reg_popup :: "'k::linorder SurfaceRegistry \<Rightarrow> 'k \<Rightarrow> 'k PopupRecord option" where
  "reg_popup g s = bt_get (sr_popups g) s"

definition reg_remove_popup :: "'k::linorder \<Rightarrow> 'k SurfaceRegistry \<Rightarrow> ('k PopupRecord \<times> 'k SurfaceRegistry) option" where
  "reg_remove_popup s g =
     (case bt_get (sr_popups g) s of
        None \<Rightarrow> None
      | Some p \<Rightarrow> Some (p, g\<lparr>sr_popups := bt_remove s (sr_popups g), sr_owners := bt_remove s (sr_owners g)\<rparr>))"

definition MAX_POPUP_CHAIN :: nat where
  "MAX_POPUP_CHAIN = 32"

text \<open>\<open>i32::saturating_add\<close>.\<close>

definition saturating_add_i32 :: "i32 \<Rightarrow> i32 \<Rightarrow> i32" where
  "saturating_add_i32 a b = clamp_i32 (sint a + sint b)"

text \<open>The walk up the popup chain; the first argument is what is left of the depth limit.\<close>

fun popup_chain :: "nat \<Rightarrow> 'k::linorder SurfaceRegistry \<Rightarrow> 'k \<Rightarrow> i32 \<times> i32 \<Rightarrow> i32 \<times> i32" where
  "popup_chain 0 g s offset = offset"
| "popup_chain (Suc n) g s offset =
     (case bt_get (sr_popups g) s of
        None \<Rightarrow> offset
      | Some p \<Rightarrow>
          let offset' = (saturating_add_i32 (fst offset) (fst (pp_offset p)),
                         saturating_add_i32 (snd offset) (snd (pp_offset p)))
          in case pp_parent p of Some parent \<Rightarrow> popup_chain n g parent offset' | None \<Rightarrow> offset')"

definition reg_popup_window_offset :: "'k::linorder SurfaceRegistry \<Rightarrow> 'k \<Rightarrow> (i32 \<times> i32) option" where
  "reg_popup_window_offset g s =
     (case bt_get (sr_popups g) s of
        None \<Rightarrow> None
      | Some _ \<Rightarrow> Some (popup_chain MAX_POPUP_CHAIN g s (0, 0)))"

section \<open>The launch ledger\<close>

record NotedLaunch =
  nl_launch_id :: LaunchId
  nl_app_id :: AppId
  nl_pid :: "i32 option"
  nl_noted_at :: instant

type_synonym LaunchLedger = "NotedLaunch list"

definition LAUNCH_CORRELATION_TIMEOUT :: nat where
  "LAUNCH_CORRELATION_TIMEOUT = 10 * 1000000000"

definition MAX_PENDING_LAUNCHES :: nat where
  "MAX_PENDING_LAUNCHES = 32"

definition MIN_TITLE_MATCH_LEN :: nat where
  "MIN_TITLE_MATCH_LEN = 3"

definition launch_is_fresh :: "instant \<Rightarrow> NotedLaunch \<Rightarrow> bool" where
  "launch_is_fresh now l \<longleftrightarrow> now - nl_noted_at l \<le> LAUNCH_CORRELATION_TIMEOUT"

definition ledger_expire :: "instant \<Rightarrow> LaunchLedger \<Rightarrow> LaunchLedger" where
  "ledger_expire now g = filter (launch_is_fresh now) g"

definition ledger_record :: "LaunchId \<Rightarrow> AppId \<Rightarrow> i32 option \<Rightarrow> instant \<Rightarrow> LaunchLedger \<Rightarrow> LaunchLedger" where
  "ledger_record i app pid now g =
     (let g1 = ledger_expire now g;
          g2 = (if MAX_PENDING_LAUNCHES \<le> length g1 then drop 1 g1 else g1)
      in g2 @ [\<lparr>nl_launch_id = i, nl_app_id = app, nl_pid = pid, nl_noted_at = now\<rparr>])"

text \<open>\<open>rsplit('.').next()\<close>: what follows the last dot, or everything.\<close>

definition app_id_tail :: "AppId \<Rightarrow> string" where
  "app_id_tail a = rev (takeWhile (\<lambda>c. c \<noteq> CHR ''.'') (rev a))"

definition app_ids_match :: "AppId \<Rightarrow> AppId \<Rightarrow> bool" where
  "app_ids_match launched app \<longleftrightarrow>
     eq_ignore_ascii_case launched app \<or>
     eq_ignore_ascii_case (app_id_tail launched) (app_id_tail app)"

definition title_matches :: "AppId \<Rightarrow> string \<Rightarrow> bool" where
  "title_matches app title =
     (let title = map ascii_lower title;
          full = map ascii_lower app;
          tail = map ascii_lower (app_id_tail app)
      in MIN_TITLE_MATCH_LEN \<le> length full \<and> str_contains title full \<or>
         MIN_TITLE_MATCH_LEN \<le> length tail \<and> str_contains title tail)"

text \<open>\<open>iter().rfind(..)\<close>.\<close>

definition rfind :: "('a \<Rightarrow> bool) \<Rightarrow> 'a list \<Rightarrow> 'a option" where
  "rfind P xs = find P (rev xs)"

definition or_else :: "'a option \<Rightarrow> 'a option \<Rightarrow> 'a option" where
  "or_else a b = (case a of Some _ \<Rightarrow> a | None \<Rightarrow> b)"

definition ledger_correlate ::
  "AppId option \<Rightarrow> i32 option \<Rightarrow> string option \<Rightarrow> instant \<Rightarrow> LaunchLedger \<Rightarrow> LaunchId option" where
  "ledger_correlate app pid title now g =
     map_option nl_launch_id
       (or_else (Option.bind pid (\<lambda>p. rfind (\<lambda>l. launch_is_fresh now l \<and> nl_pid l = Some p) g))
       (or_else (Option.bind app (\<lambda>a. rfind (\<lambda>l. launch_is_fresh now l \<and> app_ids_match (nl_app_id l) a) g))
                (Option.bind title (\<lambda>t. rfind (\<lambda>l. launch_is_fresh now l \<and> title_matches (nl_app_id l) t) g))))"

definition ledger_take :: "LaunchId \<Rightarrow> LaunchLedger \<Rightarrow> LaunchLedger" where
  "ledger_take i g = filter (\<lambda>l. nl_launch_id l \<noteq> i) g"

section \<open>The registry's invariant\<close>

definition reg_ok :: "'k::linorder SurfaceRegistry \<Rightarrow> bool" where
  "reg_ok g \<longleftrightarrow>
     bt_ok (sr_toplevels g) \<and> bt_ok (sr_owners g) \<and> bt_ok (sr_popups g) \<and>
     (\<forall>s sl. bt_get (sr_toplevels g) s = Some sl \<longrightarrow> (\<exists>k. sl_key sl = SurfaceKey k \<and> k < sr_next_surface_key g)) \<and>
     (\<forall>s s' sl sl'. bt_get (sr_toplevels g) s = Some sl \<and> bt_get (sr_toplevels g) s' = Some sl' \<and>
        sl_key sl = sl_key sl' \<longrightarrow> s = s') \<and>
     (\<forall>s p. bt_get (sr_popups g) s = Some p \<longrightarrow> pp_popup_id p < sr_next_popup_id g) \<and>
     (\<forall>s s' p p'. bt_get (sr_popups g) s = Some p \<and> bt_get (sr_popups g) s' = Some p' \<and>
        pp_popup_id p = pp_popup_id p' \<longrightarrow> s = s')"

lemma reg_ok_maps [simp]:
  "reg_ok g \<Longrightarrow> bt_ok (sr_toplevels g)" "reg_ok g \<Longrightarrow> bt_ok (sr_owners g)" "reg_ok g \<Longrightarrow> bt_ok (sr_popups g)"
  by (simp_all add: reg_ok_def)

lemma reg_okD:
  assumes "reg_ok g"
  shows "bt_get (sr_toplevels g) s = Some sl \<Longrightarrow> \<exists>k. sl_key sl = SurfaceKey k \<and> k < sr_next_surface_key g"
    "bt_get (sr_toplevels g) s = Some sl \<Longrightarrow> bt_get (sr_toplevels g) s' = Some sl' \<Longrightarrow>
       sl_key sl = sl_key sl' \<Longrightarrow> s = s'"
    "bt_get (sr_popups g) s = Some p \<Longrightarrow> pp_popup_id p < sr_next_popup_id g"
    "bt_get (sr_popups g) s = Some p \<Longrightarrow> bt_get (sr_popups g) s' = Some p' \<Longrightarrow>
       pp_popup_id p = pp_popup_id p' \<Longrightarrow> s = s'"
  using assms unfolding reg_ok_def by blast+

lemma reg_ok_new: "reg_ok SurfaceRegistry_new"
  by (simp add: reg_ok_def SurfaceRegistry_new_def)

lemma less_Suc_word: "unat (n :: u64) < 2 ^ 64 - 1 \<Longrightarrow> k \<le> n \<longleftrightarrow> k < n + 1"
  by (simp add: word_less_nat_alt word_le_nat_alt unat_Suc_word less_Suc_eq_le)

lemma reg_ok_register:
  assumes ok: "reg_ok g" and room: "unat (sr_next_surface_key g) < 2 ^ 64 - 1"
  shows "reg_ok (snd (reg_register_toplevel s g))"
proof (cases "bt_get (sr_toplevels g) s")
  case None
  let ?n = "sr_next_surface_key g"
  have fresh: "sl_key sl \<noteq> SurfaceKey ?n" if "bt_get (sr_toplevels g) s' = Some sl" for s' sl
    using reg_okD(1)[OF ok that] by auto
  have step: "k < ?n \<Longrightarrow> k < ?n + 1" "?n < ?n + 1" for k
    using less_Suc_word[OF room, of k] less_Suc_word[OF room, of ?n] by auto
  show ?thesis
    unfolding reg_ok_def
  proof (intro conjI allI impI, goal_cases)
    case (4 s' sl)
    then show ?case using None reg_okD(1)[OF ok, of s' sl] step
      by (auto simp: reg_register_toplevel_def Let_def ok split: if_splits)
  next
    case (5 s1 s2 sl sl')
    then show ?case using None reg_okD(2)[OF ok, of s1 sl s2 sl'] fresh[of s1] fresh[of s2]
      by (auto simp: reg_register_toplevel_def Let_def ok split: if_splits)
  next
    case (7 s1 s2 p p')
    then show ?case using None reg_okD(4)[OF ok, of s1 p s2 p'] by (simp add: reg_register_toplevel_def Let_def)
  qed (use None ok reg_okD(3)[OF ok] in \<open>simp_all add: reg_register_toplevel_def Let_def\<close>)
qed (simp add: reg_register_toplevel_def ok)

lemma reg_ok_bind: "reg_ok g \<Longrightarrow> reg_ok (reg_bind s w g)"
  unfolding reg_ok_def reg_bind_def
  by (auto split: if_splits)

lemma reg_ok_remove_popup: "reg_ok g \<Longrightarrow> reg_remove_popup s g = Some (p, g') \<Longrightarrow> reg_ok g'"
  unfolding reg_ok_def reg_remove_popup_def
  by (auto split: option.splits if_splits)

lemma reg_ok_add_popup:
  assumes ok: "reg_ok g" and room: "unat (sr_next_popup_id g) < 2 ^ 64 - 1"
  shows "reg_ok (snd (reg_add_popup s parent w offset g))"
proof (cases "bt_get (sr_popups g) s")
  case None
  let ?n = "sr_next_popup_id g"
  have fresh: "pp_popup_id p \<noteq> ?n" if "bt_get (sr_popups g) s' = Some p" for s' p
    using reg_okD(3)[OF ok that] by auto
  have step: "k < ?n \<Longrightarrow> k < ?n + 1" "?n < ?n + 1" for k
    using less_Suc_word[OF room, of k] less_Suc_word[OF room, of ?n] by auto
  show ?thesis
    unfolding reg_ok_def
  proof (intro conjI allI impI, goal_cases)
    case (5 s1 s2 sl sl')
    then show ?case using None reg_okD(2)[OF ok, of s1 sl s2 sl'] by (simp add: reg_add_popup_def Let_def)
  next
    case (6 s' p)
    then show ?case using None reg_okD(3)[OF ok, of s' p] step
      by (auto simp: reg_add_popup_def Let_def ok split: if_splits)
  next
    case (7 s1 s2 p p')
    then show ?case using None reg_okD(4)[OF ok, of s1 p s2 p'] fresh[of s1] fresh[of s2]
      by (auto simp: reg_add_popup_def Let_def ok split: if_splits)
  qed (use None ok reg_okD(1)[OF ok] in \<open>simp_all add: reg_add_popup_def Let_def\<close>)
qed (simp add: reg_add_popup_def ok)

lemma reg_ok_unbind: "reg_ok g \<Longrightarrow> reg_ok (snd (reg_unbind_toplevel s g))"
  unfolding reg_ok_def
  by (auto simp: reg_unbind_toplevel_def reg_remove_popups_of_def Let_def split: option.splits if_splits)

text \<open>The popups of a window, by id.\<close>

definition popups_of :: "'k::linorder SurfaceRegistry \<Rightarrow> WindowId \<Rightarrow> u64 set" where
  "popups_of g w = {i. \<exists>s p. bt_get (sr_popups g) s = Some p \<and> pp_window_id p = w \<and> pp_popup_id p = i}"

lemma bt_retain_Some:
  "bt_ok m \<Longrightarrow> bt_get (bt_retain P m) k = Some v \<longleftrightarrow> bt_get m k = Some v \<and> P k v"
  by (auto split: option.splits if_splits)

lemma popups_remaining:
  "reg_ok g \<Longrightarrow> popups_of (snd (reg_remove_popups_of w g)) j = (if j = w then {} else popups_of g j)"
  by (auto simp: popups_of_def reg_remove_popups_of_def bt_retain_Some simp del: bt_get_retain)

lemma removed_popups:
  assumes "reg_ok g"
  shows "rp_popup_id ` set (fst (reg_remove_popups_of w g)) = popups_of g w"
    "sorted_wrt (<) (map rp_popup_id (fst (reg_remove_popups_of w g)))"
proof -
  let ?ps = "filter (\<lambda>(k, p). pp_window_id p = w) (sr_popups g)"
  show "rp_popup_id ` set (fst (reg_remove_popups_of w g)) = popups_of g w"
    using assms by (force simp: reg_remove_popups_of_def popups_of_def bt_mem_iff[symmetric])
  have "distinct (map fst (sr_popups g))"
    using reg_ok_maps(3)[OF assms] by (simp add: bt_ok_def bt_keys_def strict_sorted_iff)
  then have "distinct (sr_popups g)" by (simp add: distinct_map)
  moreover have "inj_on (\<lambda>(k, p). unat (pp_popup_id p)) (set (sr_popups g))"
  proof (rule inj_onI)
    fix x y
    assume xy: "x \<in> set (sr_popups g)" "y \<in> set (sr_popups g)"
      "(\<lambda>(k, p). unat (pp_popup_id p)) x = (\<lambda>(k, p). unat (pp_popup_id p)) y"
    obtain k p k' p' where [simp]: "x = (k, p)" "y = (k', p')" by (cases x; cases y)
    from xy(3) have "pp_popup_id p = pp_popup_id p'" by (simp add: word_unat_eq_iff)
    with xy assms reg_okD(4)[OF assms, of k p k' p'] have "k = k'" by (simp add: bt_mem_iff)
    with xy assms show "x = y" by (simp add: bt_mem_iff)
  qed
  ultimately have "distinct (map (\<lambda>(k, p). unat (pp_popup_id p)) ?ps)"
    by (auto simp: distinct_map inj_on_def)
  moreover have "mset (map (\<lambda>p. unat (rp_popup_id p)) (fst (reg_remove_popups_of w g))) =
      mset (map (\<lambda>(k, p). unat (pp_popup_id p)) ?ps)"
    by (simp add: reg_remove_popups_of_def multiset.map_comp comp_def split_def)
  ultimately have d: "distinct (map (\<lambda>p. unat (rp_popup_id p)) (fst (reg_remove_popups_of w g)))"
    using mset_eq_imp_distinct_iff by blast
  have "sorted (map (\<lambda>p. unat (rp_popup_id p)) (fst (reg_remove_popups_of w g)))"
    by (simp add: reg_remove_popups_of_def)
  with d have "sorted_wrt (<) (map (\<lambda>p. unat (rp_popup_id p)) (fst (reg_remove_popups_of w g)))"
    by (simp add: strict_sorted_iff)
  then show "sorted_wrt (<) (map rp_popup_id (fst (reg_remove_popups_of w g)))"
    by (simp add: sorted_wrt_map word_less_nat_alt)
qed

section \<open>The ledger\<close>

lemma rfind_mem: "rfind P xs = Some x \<Longrightarrow> x \<in> set xs \<and> P x"
  unfolding rfind_def by (drule find_Some_mem) simp

lemma ledger_correlate_mem:
  assumes "ledger_correlate app pid title now g = Some i"
  shows "\<exists>l \<in> set g. nl_launch_id l = i \<and> launch_is_fresh now l"
proof -
  have "\<exists>l. l \<in> set g \<and> launch_is_fresh now l \<and> nl_launch_id l = i"
    using assms unfolding ledger_correlate_def or_else_def
    by (auto simp: bind_eq_Some_conv split: option.splits dest!: rfind_mem)
  then show ?thesis by blast
qed

lemma ledger_take_ids: "nl_launch_id ` set (ledger_take i g) = nl_launch_id ` set g - {i}"
  by (auto simp: ledger_take_def)

lemma ledger_record_ids:
  "nl_launch_id ` set (ledger_record i app pid now g) \<subseteq> Set.insert i (nl_launch_id ` set g)"
  by (auto simp: ledger_record_def Let_def ledger_expire_def dest: in_set_dropD)

lemma ledger_length: "length g \<le> MAX_PENDING_LAUNCHES \<Longrightarrow> length (ledger_record i app pid now g) \<le> MAX_PENDING_LAUNCHES"
proof -
  assume "length g \<le> MAX_PENDING_LAUNCHES"
  with length_filter_le[of "launch_is_fresh now" g]
  have "length (ledger_expire now g) \<le> MAX_PENDING_LAUNCHES" unfolding ledger_expire_def by (rule order.trans)
  then show ?thesis by (auto simp: ledger_record_def Let_def MAX_PENDING_LAUNCHES_def)
qed

end
