(* ===== verification/Compositor_Bridge.thy ===== *)
theory Compositor_Bridge
  imports Compositor_Registry
begin

text \<open>
  The bridge between Wayland surfaces and the window policy (\<open>WmBridge\<close> of
  \<open>crates/adesk-compositor/src/wm.rs\<close>). A Wayland object id is an opaque number, and a toplevel or
  popup handle is named by its surface. What the code asks Smithay about a surface is a record of
  functions that each call gets as it is at that moment.
\<close>

section \<open>What Smithay answers\<close>

type_synonym ObjectId = nat

datatype SurfaceDamage =
    DamageSurface i32 i32 i32 i32
  | DamageBuffer i32 i32 i32 i32

record Clients =
  cl_metadata :: "ObjectId \<Rightarrow> AppId option \<times> string option"
  cl_pid :: "ObjectId \<Rightarrow> i32 option"
  cl_parent :: "ObjectId \<Rightarrow> ObjectId option"
  cl_popup_parent :: "ObjectId \<Rightarrow> ObjectId option"
  cl_popup_offset :: "ObjectId \<Rightarrow> i32 \<times> i32"
  cl_has_buffer :: "ObjectId \<Rightarrow> bool"
  cl_view_offset :: "ObjectId \<Rightarrow> (i32 \<times> i32) option"
  cl_damage :: "ObjectId \<Rightarrow> SurfaceDamage list"
  cl_buffer_scale :: "ObjectId \<Rightarrow> i32"
  cl_surface_size :: "ObjectId \<Rightarrow> (i32 \<times> i32) option"

section \<open>The bridge\<close>

record WmDecision =
  wd_actions :: "WmAction list"
  wd_previous_focus :: "WindowId option"

record MappedWindow =
  mw_id :: WindowId
  mw_app_id :: "AppId option"
  mw_pid :: "i32 option"
  mw_title :: "string option"
  mw_launch_id :: "LaunchId option"
  mw_decision :: WmDecision

datatype MapOutcome = MapCreated MappedWindow | AlreadyMapped WindowId

record DestroyedWindow =
  dw_window_id :: "WindowId option"
  dw_popup_ids :: "u64 list"
  dw_decision :: WmDecision

record TitleChange =
  tc_window_id :: WindowId
  tc_title :: "string option"
  tc_decision :: WmDecision

record AppIdChange =
  ac_window_id :: WindowId
  ac_app_id :: "AppId option"
  ac_launch_id :: "LaunchId option"

record PopupEvent =
  pe_window_id :: WindowId
  pe_popup_id :: u64

record PopupGrab =
  gr_popup :: ObjectId
  gr_window_id :: WindowId
  gr_popup_id :: u64

record WmBridge =
  wb_manager :: WindowManager
  wb_surfaces :: "ObjectId SurfaceRegistry"
  wb_toplevels :: "(ObjectId, ObjectId) btree"
  wb_roots :: "(WindowId, ObjectId) btree"
  wb_popup_handles :: "(ObjectId, ObjectId) btree"
  wb_grab :: "PopupGrab option"
  wb_launches :: LaunchLedger
  wb_launch_ids :: "(WindowId, LaunchId) btree"
  wb_app_ids :: "(WindowId, AppId option) btree"

definition WmBridge_new :: "Size \<Rightarrow> WmBridge" where
  "WmBridge_new sz =
     \<lparr>wb_manager = WindowManager_new \<lparr>output_size = sz\<rparr>, wb_surfaces = SurfaceRegistry_new,
      wb_toplevels = [], wb_roots = [], wb_popup_handles = [], wb_grab = None, wb_launches = [],
      wb_launch_ids = [], wb_app_ids = []\<rparr>"

abbreviation wb_model :: "WmBridge \<Rightarrow> WindowModel" where
  "wb_model b \<equiv> model (wb_manager b)"

definition with_model :: "WindowModel \<Rightarrow> WmBridge \<Rightarrow> WmBridge" where
  "with_model m b = b\<lparr>wb_manager := (wb_manager b)\<lparr>model := m\<rparr>\<rparr>"

definition keyboard_focus :: "WmBridge \<Rightarrow> WindowId option" where
  "keyboard_focus b = active_window (wb_model b)"

definition MAX_SURFACE_TREE_DEPTH :: nat where
  "MAX_SURFACE_TREE_DEPTH = 32"

fun owner_above :: "nat \<Rightarrow> Clients \<Rightarrow> WmBridge \<Rightarrow> ObjectId \<Rightarrow> WindowId option" where
  "owner_above 0 C b s = None"
| "owner_above (Suc n) C b s =
     (case cl_parent C s of
        None \<Rightarrow> None
      | Some parent \<Rightarrow>
          (case reg_window_for_surface (wb_surfaces b) parent of
             Some w \<Rightarrow> Some w
           | None \<Rightarrow> owner_above n C b parent))"

definition window_for_surface :: "Clients \<Rightarrow> WmBridge \<Rightarrow> ObjectId \<Rightarrow> WindowId option" where
  "window_for_surface C b s =
     (case reg_window_for_surface (wb_surfaces b) s of
        Some w \<Rightarrow> Some w
      | None \<Rightarrow> owner_above MAX_SURFACE_TREE_DEPTH C b s)"

definition wb_windows :: "WmBridge \<Rightarrow> WindowInfo list" where
  "wb_windows b = map record_info (records (wb_model b))"

definition toplevel_of :: "WmBridge \<Rightarrow> WindowId \<Rightarrow> ObjectId option" where
  "toplevel_of b w = Option.bind (bt_get (wb_roots b) w) (bt_get (wb_toplevels b))"

definition window_geometry :: "WmBridge \<Rightarrow> WindowId \<Rightarrow> Rect option" where
  "window_geometry b w = map_option r_geometry (window (wb_model b) w)"

definition last_commit_seq :: "WmBridge \<Rightarrow> WindowId \<Rightarrow> u64" where
  "last_commit_seq b w = (case window (wb_model b) w of Some r \<Rightarrow> r_last_commit_seq r | None \<Rightarrow> 0)"

definition wb_note_launch :: "LaunchId \<Rightarrow> AppId \<Rightarrow> i32 option \<Rightarrow> instant \<Rightarrow> WmBridge \<Rightarrow> WmBridge" where
  "wb_note_launch i app pid now b = b\<lparr>wb_launches := ledger_record i app pid now (wb_launches b)\<rparr>"

definition register_toplevel :: "ObjectId \<Rightarrow> WmBridge \<Rightarrow> SurfaceKey \<times> WmBridge" where
  "register_toplevel t b =
     (let (key, g) = reg_register_toplevel t (wb_surfaces b)
      in (key, b\<lparr>wb_surfaces := g,
            wb_toplevels := (if bt_contains (wb_toplevels b) t then wb_toplevels b
                             else bt_insert t t (wb_toplevels b))\<rparr>))"

definition unmapped_toplevel :: "WmBridge \<Rightarrow> ObjectId \<Rightarrow> ObjectId option" where
  "unmapped_toplevel b s =
     (if reg_is_unmapped_toplevel (wb_surfaces b) s then bt_get (wb_toplevels b) s else None)"

text \<open>A launch that is correlated is taken from the ledger and kept under the window.\<close>

definition attribute :: "WindowId \<Rightarrow> LaunchId option \<Rightarrow> WmBridge \<Rightarrow> WmBridge" where
  "attribute w i b =
     (case i of
        None \<Rightarrow> b
      | Some l \<Rightarrow> b\<lparr>wb_launches := ledger_take l (wb_launches b),
                    wb_launch_ids := bt_insert w l (wb_launch_ids b)\<rparr>)"

definition map_toplevel ::
  "Clients \<Rightarrow> instant \<Rightarrow> ObjectId \<Rightarrow> i32 option \<Rightarrow> u64 \<Rightarrow> WmBridge \<Rightarrow> MapOutcome \<times> WmBridge" where
  "map_toplevel C now t pid created_seq b =
     (case Option.bind (reg_slot (wb_surfaces b) t) sl_window of
        Some existing \<Rightarrow> (AlreadyMapped existing, b)
      | None \<Rightarrow>
          let (key, b1) = register_toplevel t b;
              (app, title) = cl_metadata C t;
              launch = ledger_correlate app pid title now (wb_launches b1);
              request = \<lparr>m_surface_key = key, m_app_id = app, m_pid = pid, m_title = title,
                         m_created_seq = created_seq\<rparr>;
              previous = keyboard_focus b1;
              (m, i, acts) = on_map (wb_model b1) (config (wb_manager b1)) request;
              b2 = with_model m b1;
              b3 = b2\<lparr>wb_surfaces := reg_bind t i (wb_surfaces b2),
                     wb_roots := bt_insert i t (wb_roots b2),
                     wb_app_ids := bt_insert i app (wb_app_ids b2)\<rparr>
          in (MapCreated \<lparr>mw_id = i, mw_app_id = app, mw_pid = pid, mw_title = title,
                mw_launch_id = launch,
                mw_decision = \<lparr>wd_actions = acts, wd_previous_focus = previous\<rparr>\<rparr>,
              attribute i launch b3))"

definition destroy_toplevel :: "ObjectId \<Rightarrow> WmBridge \<Rightarrow> (DestroyedWindow \<times> WmBridge) option" where
  "destroy_toplevel t b =
     (case reg_slot (wb_surfaces b) t of
        None \<Rightarrow> None
      | Some _ \<Rightarrow>
          let ((w, popups), g) = reg_unbind_toplevel t (wb_surfaces b);
              b1 = b\<lparr>wb_surfaces := g, wb_toplevels := bt_remove t (wb_toplevels b),
                     wb_popup_handles := fold (\<lambda>p. bt_remove (rp_surface p)) popups (wb_popup_handles b)\<rparr>;
              (b2, acts) =
                (case w of
                   None \<Rightarrow> (b1, [])
                 | Some i \<Rightarrow>
                     let (m, acts) = on_destroy (wb_model b1) i
                     in (with_model m (b1\<lparr>wb_roots := bt_remove i (wb_roots b1),
                           wb_launch_ids := bt_remove i (wb_launch_ids b1),
                           wb_app_ids := bt_remove i (wb_app_ids b1)\<rparr>), acts))
          in Some (\<lparr>dw_window_id = w, dw_popup_ids = map rp_popup_id popups,
                    dw_decision = \<lparr>wd_actions = acts, wd_previous_focus = None\<rparr>\<rparr>, b2))"

definition wb_title_changed :: "Clients \<Rightarrow> ObjectId \<Rightarrow> WmBridge \<Rightarrow> (TitleChange \<times> WmBridge) option" where
  "wb_title_changed C t b =
     (case window_for_surface C b t of
        None \<Rightarrow> None
      | Some w \<Rightarrow>
          let title = snd (cl_metadata C t)
          in if Option.bind (window (wb_model b) w) r_title = title then None
             else
               let (m, acts) = on_title (wb_model b) w title
               in Some (\<lparr>tc_window_id = w, tc_title = title,
                         tc_decision = \<lparr>wd_actions = acts, wd_previous_focus = keyboard_focus b\<rparr>\<rparr>,
                        with_model m b))"

definition note_app_id ::
  "instant \<Rightarrow> WindowId \<Rightarrow> AppId option \<Rightarrow> string option \<Rightarrow> WmBridge \<Rightarrow> (AppIdChange \<times> WmBridge) option" where
  "note_app_id now w app title b =
     (if Option.bind (bt_get (wb_app_ids b) w) id = app then None
      else
        let b1 = with_model (fst (on_app_id (wb_model b) w app)) (b\<lparr>wb_app_ids := bt_insert w app (wb_app_ids b)\<rparr>);
            launch =
              (if bt_contains (wb_launch_ids b1) w then None
               else ledger_correlate app (Option.bind (window (wb_model b1) w) r_pid) title now (wb_launches b1))
        in Some (\<lparr>ac_window_id = w, ac_app_id = app, ac_launch_id = launch\<rparr>, attribute w launch b1))"

definition wb_app_id_changed :: "Clients \<Rightarrow> instant \<Rightarrow> ObjectId \<Rightarrow> WmBridge \<Rightarrow> (AppIdChange \<times> WmBridge) option" where
  "wb_app_id_changed C now t b =
     (case window_for_surface C b t of
        None \<Rightarrow> None
      | Some w \<Rightarrow> (let (app, title) = cl_metadata C t in note_app_id now w app title b))"

definition popup_added :: "Clients \<Rightarrow> ObjectId \<Rightarrow> i32 \<times> i32 \<Rightarrow> WmBridge \<Rightarrow> (PopupEvent \<times> WmBridge) option" where
  "popup_added C p offset b =
     (let parent = cl_popup_parent C p
      in case Option.bind parent (reg_window_for_surface (wb_surfaces b)) of
           None \<Rightarrow> None
         | Some w \<Rightarrow>
             let (i, g) = reg_add_popup p parent w offset (wb_surfaces b);
                 b1 = b\<lparr>wb_surfaces := g, wb_popup_handles := bt_insert p p (wb_popup_handles b)\<rparr>
             in Some (\<lparr>pe_window_id = w, pe_popup_id = i\<rparr>,
                      with_model (fst (on_popup_added (wb_model b1) w)) b1))"

definition popup_removed :: "ObjectId \<Rightarrow> WmBridge \<Rightarrow> (PopupEvent \<times> WmBridge) option" where
  "popup_removed p b =
     (case reg_remove_popup p (wb_surfaces b) of
        None \<Rightarrow> None
      | Some (r, g) \<Rightarrow>
          let b1 = b\<lparr>wb_surfaces := g, wb_popup_handles := bt_remove p (wb_popup_handles b),
                wb_grab := (case wb_grab b of Some gr \<Rightarrow> if gr_popup gr = p then None else Some gr | None \<Rightarrow> None)\<rparr>
          in Some (\<lparr>pe_window_id = pp_window_id r, pe_popup_id = pp_popup_id r\<rparr>,
                   with_model (fst (on_popup_removed (wb_model b1) (pp_window_id r))) b1))"

definition note_popup_grab :: "ObjectId \<Rightarrow> WmBridge \<Rightarrow> WmBridge" where
  "note_popup_grab p b =
     (case reg_popup (wb_surfaces b) p of
        None \<Rightarrow> b
      | Some r \<Rightarrow> b\<lparr>wb_grab := Some \<lparr>gr_popup = p, gr_window_id = pp_window_id r, gr_popup_id = pp_popup_id r\<rparr>\<rparr>)"

definition take_popup_grab :: "WmBridge \<Rightarrow> (PopupGrab \<times> ObjectId) option \<times> WmBridge" where
  "take_popup_grab b =
     (Option.bind (wb_grab b) (\<lambda>gr. map_option (\<lambda>h. (gr, h)) (bt_get (wb_popup_handles b) (gr_popup gr))),
      b\<lparr>wb_grab := None\<rparr>)"

definition wb_commit :: "WindowId \<Rightarrow> Region \<Rightarrow> WmBridge \<Rightarrow> u64 \<times> WmBridge" where
  "wb_commit w damage b =
     (let commit_seq = last_commit_seq b w + 1
      in (commit_seq, with_model (fst (on_commit (wb_model b) w commit_seq damage)) b))"

definition wb_activate :: "WindowId \<Rightarrow> WmBridge \<Rightarrow> (WmDecision \<times> WmBridge) option" where
  "wb_activate w b =
     (case require_window (wb_model b) w of
        Inl _ \<Rightarrow> None
      | Inr _ \<Rightarrow>
          let previous = keyboard_focus b; (m, acts) = activate (wb_model b) w
          in Some (\<lparr>wd_actions = acts, wd_previous_focus = previous\<rparr>, with_model m b))"

section \<open>What the calls of the policy do to a window\<close>

text \<open>The fields the bridge and its clients follow: the surface key, the title and the commit counter.\<close>

definition win :: "WindowModel \<Rightarrow> WindowId \<Rightarrow> (SurfaceKey \<times> string option \<times> u64) option" where
  "win m w = map_option (\<lambda>r. (r_surface_key r, r_title r, r_last_commit_seq r)) (window m w)"

lemma win_None: "win m w = None \<longleftrightarrow> w \<notin> set (ids m)"
  by (simp add: win_def window_None)

lemma window_record_mut:
  assumes "\<And>r. r_id (f r) = r_id r"
  shows "window (record_mut m i f) j = (if j = i then map_option f (window m i) else window m j)"
proof -
  have "find (\<lambda>r. r_id r = j) (update_first i f rs) =
      (if j = i then map_option f (find (\<lambda>r. r_id r = i) rs) else find (\<lambda>r. r_id r = j) rs)" for rs
    by (induction rs) (auto simp: assms)
  then show ?thesis by (simp add: window_def record_mut_def)
qed

lemma active_record_mut [simp]: "active_window (record_mut m i f) = active_window m"
  by (simp add: active_window_def record_mut_def)

lemma win_on_title: "win (fst (on_title m i t)) j =
    (if j = i then map_option (\<lambda>(k, _, c). (k, t, c)) (win m i) else win m j)"
  by (simp add: on_title_def win_def window_record_mut option.map_comp comp_def)

lemma win_on_app_id: "win (fst (on_app_id m i a)) j = win m j"
  by (simp add: on_app_id_def win_def window_record_mut option.map_comp comp_def)

lemma win_on_commit: "win (fst (on_commit m i c d)) j =
    (if j = i then map_option (\<lambda>(k, t, c'). (k, t, max c' c)) (win m i) else win m j)"
  by (simp add: on_commit_def win_def window_record_mut option.map_comp comp_def)

lemma win_on_popup: "win (fst (on_popup_added m i)) j = win m j" "win (fst (on_popup_removed m i)) j = win m j"
  by (simp_all add: on_popup_added_def on_popup_removed_def win_def window_record_mut option.map_comp comp_def)

lemmas win_metadata = win_on_title win_on_app_id win_on_commit win_on_popup

lemma active_metadata [simp]:
  "active_window (fst (on_title m i t)) = active_window m" "active_window (fst (on_app_id m i a)) = active_window m"
  "active_window (fst (on_commit m i c d)) = active_window m"
  "active_window (fst (on_popup_added m i)) = active_window m" "active_window (fst (on_popup_removed m i)) = active_window m"
  by (simp_all add: on_title_def on_app_id_def on_commit_def on_popup_added_def on_popup_removed_def)

lemma next_id_metadata [simp]:
  "next_id (fst (on_title m i t)) = next_id m" "next_id (fst (on_app_id m i a)) = next_id m"
  "next_id (fst (on_commit m i c d)) = next_id m" "next_id (fst (on_popup_added m i)) = next_id m"
  "next_id (fst (on_popup_removed m i)) = next_id m"
  by (simp_all add: on_title_def on_app_id_def on_commit_def on_popup_added_def on_popup_removed_def record_mut_def)

lemma win_mark_active: "win (mark_active m k) j = win m j"
  by (simp add: win_def window_mark_active option.map_comp comp_def)

lemma win_mru [simp]: "win (m\<lparr>mru := x\<rparr>) j = win m j"
  by (simp add: win_def)

lemma on_map_fresh:
  assumes inv: "wm_inv g" and fresh: "window_by_surface (model g) (m_surface_key rq) = None"
  obtains m i rect where "on_map (model g) (config g) rq = (m, i, [ConfigureWindow i rect, Activate i])"
    "win (model g) i = None" "active_window m = Some i" "i = WindowId (next_id (model g))"
    "\<And>j. win m j = (if j = i then Some (m_surface_key rq, m_title rq, 0) else win (model g) j)"
proof -
  let ?i = "WindowId (next_id (model g))"
  have new: "window (model g) ?i = None"
    using wm_inv_D(3)[OF inv, of ?i] by (auto simp: window_None)
  show ?thesis
  proof (rule that[of "fst (on_map (model g) (config g) rq)" ?i "config_tiled_rect (config g)"])
    show "win (fst (on_map (model g) (config g) rq)) j =
        (if j = ?i then Some (m_surface_key rq, m_title rq, 0) else win (model g) j)" for j
      using new by (simp add: on_map_def fresh Let_def win_mark_active) (simp add: win_def window_append new split: option.split)
  qed (use new in \<open>simp_all add: on_map_def fresh Let_def win_def active_window_def\<close>)
qed

lemma on_destroy_effect:
  assumes inv: "wm_inv g" and known: "win (model g) i \<noteq> None"
  obtains m acts where "on_destroy (model g) i = (m, acts)"
    "\<And>j. win m j = (if j = i then None else win (model g) j)"
    "active_window (model g) \<noteq> Some i \<and> acts = [] \<and> active_window m = active_window (model g) \<or>
     active_window (model g) = Some i \<and> active_window m = None \<and> acts = [] \<or>
     (\<exists>f. active_window (model g) = Some i \<and> active_window m = Some f \<and> acts = [ActivatePrevious f])"
proof -
  have k: "i \<in> set (ids (model g))" using known by (simp add: win_None)
  let ?m2 = "(model g)\<lparr>records := filter (\<lambda>r. r_id r \<noteq> i) (records (model g)),
                       mru := filter (\<lambda>j. j \<noteq> i) (mru (model g))\<rparr>"
  have w: "win ?m2 j = (if j = i then None else win (model g) j)" for j
    by (simp add: win_def window_def find_filter_same)
  have keep: "active_window ?m2 = active_window (model g)" if "active_window (model g) \<noteq> Some i"
    using that by (cases "mru (model g)") (auto simp: active_window_def)
  note destroy = on_destroy_known[OF inv k]
  consider "active_window (model g) \<noteq> Some i" | "active_window (model g) = Some i" "active_window ?m2 = None"
    | f where "active_window (model g) = Some i" "active_window ?m2 = Some f" by (cases "active_window ?m2") auto
  then show ?thesis
  proof cases
    case 1
    with destroy w keep show ?thesis by (intro that[of ?m2 "[]"]) (simp_all add: Let_def)
  next
    case 2
    with destroy w show ?thesis by (intro that[of ?m2 "[]"]) (simp_all add: Let_def)
  next
    case (3 f)
    have "active_window (mark_active ?m2 f) = active_window ?m2" by (simp add: active_window_def)
    with 3 destroy w show ?thesis
      by (intro that[of "mark_active ?m2 f" "[ActivatePrevious f]"]) (simp_all add: Let_def win_mark_active)
  qed
qed

lemma activate_effect:
  assumes "win m i \<noteq> None"
  obtains m' acts where "activate m i = (m', acts)" "win m' = win m"
    "active_window m' = Some i" "acts = [WmNone] \<and> active_window m = Some i \<or> acts = [Activate i] \<and> active_window m \<noteq> Some i"
proof (cases "active_window m = Some i")
  case True
  with assms that[of m "[WmNone]"] index_of_None[of m i] win_None[of m i] show ?thesis by (simp add: activate_def)
next
  case False
  let ?m = "fst (activate m i)"
  have "index_of m i \<noteq> None" using assms by (simp add: win_None index_of_None)
  with False show ?thesis
    by (intro that[of ?m "[Activate i]"])
      (auto simp: activate_def Let_def win_mark_active active_window_def fun_eq_iff)
qed

section \<open>The bridge's invariant\<close>

text \<open>Windows of the policy and bound toplevels are the same, by their surface key; every owner of a
  surface and of a popup is a window.\<close>

definition bridge_ok :: "WmBridge \<Rightarrow> bool" where
  "bridge_ok b \<longleftrightarrow>
     wm_inv (wb_manager b) \<and> reg_ok (wb_surfaces b) \<and>
     bt_ok (wb_toplevels b) \<and> bt_ok (wb_roots b) \<and> bt_ok (wb_popup_handles b) \<and>
     bt_ok (wb_launch_ids b) \<and> bt_ok (wb_app_ids b) \<and>
     (\<forall>s sl w. bt_get (sr_toplevels (wb_surfaces b)) s = Some sl \<and> sl_window sl = Some w \<longrightarrow>
        bt_get (wb_roots b) w = Some s \<and> (\<exists>r. win (wb_model b) w = Some (sl_key sl, r))) \<and>
     (\<forall>w r. win (wb_model b) w = Some r \<longrightarrow>
        (\<exists>s sl. bt_get (wb_roots b) w = Some s \<and> bt_get (sr_toplevels (wb_surfaces b)) s = Some sl \<and>
           sl_window sl = Some w \<and> sl_key sl = fst r)) \<and>
     (\<forall>s sl. bt_get (sr_toplevels (wb_surfaces b)) s = Some sl \<longrightarrow> bt_get (wb_toplevels b) s = Some s) \<and>
     (\<forall>s h. bt_get (wb_toplevels b) s = Some h \<longrightarrow> h = s) \<and>
     (\<forall>s w. bt_get (sr_owners (wb_surfaces b)) s = Some w \<longrightarrow> win (wb_model b) w \<noteq> None) \<and>
     (\<forall>s p. bt_get (sr_popups (wb_surfaces b)) s = Some p \<longrightarrow> win (wb_model b) (pp_window_id p) \<noteq> None)"

lemma bridge_okI:
  assumes "wm_inv (wb_manager b)" "reg_ok (wb_surfaces b)" "bt_ok (wb_toplevels b)" "bt_ok (wb_roots b)"
    "bt_ok (wb_popup_handles b)" "bt_ok (wb_launch_ids b)" "bt_ok (wb_app_ids b)"
    and "\<And>s sl w. bt_get (sr_toplevels (wb_surfaces b)) s = Some sl \<Longrightarrow> sl_window sl = Some w \<Longrightarrow>
        bt_get (wb_roots b) w = Some s \<and> (\<exists>r. win (wb_model b) w = Some (sl_key sl, r))"
    and "\<And>w r. win (wb_model b) w = Some r \<Longrightarrow>
        \<exists>s sl. bt_get (wb_roots b) w = Some s \<and> bt_get (sr_toplevels (wb_surfaces b)) s = Some sl \<and>
           sl_window sl = Some w \<and> sl_key sl = fst r"
    and "\<And>s sl. bt_get (sr_toplevels (wb_surfaces b)) s = Some sl \<Longrightarrow> bt_get (wb_toplevels b) s = Some s"
    and "\<And>s h. bt_get (wb_toplevels b) s = Some h \<Longrightarrow> h = s"
    and "\<And>s w. bt_get (sr_owners (wb_surfaces b)) s = Some w \<Longrightarrow> win (wb_model b) w \<noteq> None"
    and "\<And>s p. bt_get (sr_popups (wb_surfaces b)) s = Some p \<Longrightarrow> win (wb_model b) (pp_window_id p) \<noteq> None"
  shows "bridge_ok b"
  unfolding bridge_ok_def using assms by blast

lemma bridge_ok_simps [simp]:
  assumes "bridge_ok b"
  shows "wm_inv (wb_manager b)" "reg_ok (wb_surfaces b)" "bt_ok (wb_toplevels b)" "bt_ok (wb_roots b)"
    "bt_ok (wb_popup_handles b)" "bt_ok (wb_launch_ids b)" "bt_ok (wb_app_ids b)"
  using assms by (simp_all add: bridge_ok_def)

lemma bridge_okD:
  assumes "bridge_ok b"
  shows "bt_get (sr_toplevels (wb_surfaces b)) s = Some sl \<Longrightarrow> sl_window sl = Some w \<Longrightarrow>
      bt_get (wb_roots b) w = Some s \<and> (\<exists>r. win (wb_model b) w = Some (sl_key sl, r))"
    "win (wb_model b) w = Some r \<Longrightarrow>
      \<exists>s sl. bt_get (wb_roots b) w = Some s \<and> bt_get (sr_toplevels (wb_surfaces b)) s = Some sl \<and>
        sl_window sl = Some w \<and> sl_key sl = fst r"
    "bt_get (sr_toplevels (wb_surfaces b)) s = Some sl \<Longrightarrow> bt_get (wb_toplevels b) s = Some s"
    "bt_get (wb_toplevels b) s = Some h \<Longrightarrow> h = s"
    "bt_get (sr_owners (wb_surfaces b)) s = Some w \<Longrightarrow> win (wb_model b) w \<noteq> None"
    "bt_get (sr_popups (wb_surfaces b)) s = Some p \<Longrightarrow> win (wb_model b) (pp_window_id p) \<noteq> None"
  using assms unfolding bridge_ok_def by blast+

lemma with_model_sel [simp]:
  "wb_manager (with_model m b) = (wb_manager b)\<lparr>model := m\<rparr>" "wb_surfaces (with_model m b) = wb_surfaces b"
  "wb_toplevels (with_model m b) = wb_toplevels b" "wb_roots (with_model m b) = wb_roots b"
  "wb_popup_handles (with_model m b) = wb_popup_handles b" "wb_grab (with_model m b) = wb_grab b"
  "wb_launches (with_model m b) = wb_launches b" "wb_launch_ids (with_model m b) = wb_launch_ids b"
  "wb_app_ids (with_model m b) = wb_app_ids b"
  by (simp_all add: with_model_def)

lemma attribute_sel [simp]:
  "wb_manager (attribute w i b) = wb_manager b" "wb_surfaces (attribute w i b) = wb_surfaces b"
  "wb_toplevels (attribute w i b) = wb_toplevels b" "wb_roots (attribute w i b) = wb_roots b"
  "wb_popup_handles (attribute w i b) = wb_popup_handles b" "wb_grab (attribute w i b) = wb_grab b"
  "wb_app_ids (attribute w i b) = wb_app_ids b"
  by (simp_all add: attribute_def split: option.split)

lemma bridge_ok_attribute: "bridge_ok b \<Longrightarrow> bridge_ok (attribute w i b)"
  by (cases i; rule bridge_okI) (auto simp: attribute_def dest: bridge_okD)

text \<open>A call that keeps the windows' keys and the registry keeps the invariant.\<close>

lemma bridge_ok_metadata:
  assumes ok: "bridge_ok b" and inv: "wm_inv ((wb_manager b)\<lparr>model := m\<rparr>)"
    and keys: "\<And>w. map_option fst (win m w) = map_option fst (win (wb_model b) w)"
  shows "bridge_ok (with_model m b)"
proof -
  have known: "win m w = None \<longleftrightarrow> win (wb_model b) w = None" for w
    using keys[of w] by (metis option.map_disc_iff)
  show ?thesis
  proof (rule bridge_okI, goal_cases)
    case (8 s sl w)
    with bridge_okD(1)[OF ok, of s sl w] keys[of w] show ?case by (cases "win m w") auto
  next
    case (9 w r)
    then obtain r' where r': "win (wb_model b) w = Some r'" "fst r' = fst r"
      using keys[of w] by (cases "win (wb_model b) w") auto
    show ?case using bridge_okD(2)[OF ok r'(1)] r'(2) by auto
  qed (use ok inv known bridge_okD(3,4,5,6)[OF ok] in \<open>simp_all\<close>)
qed

lemma reg_register_sel:
  "sr_owners (snd (reg_register_toplevel t g)) = sr_owners g" "sr_popups (snd (reg_register_toplevel t g)) = sr_popups g"
  "bt_ok (sr_toplevels g) \<Longrightarrow> bt_get (sr_toplevels (snd (reg_register_toplevel t g))) s =
     (if s = t \<and> bt_get (sr_toplevels g) t = None
      then Some \<lparr>sl_key = fst (reg_register_toplevel t g), sl_window = None\<rparr> else bt_get (sr_toplevels g) s)"
  "bt_get (sr_toplevels g) t = Some sl \<Longrightarrow> fst (reg_register_toplevel t g) = sl_key sl"
  by (auto simp: reg_register_toplevel_def Let_def split: option.split)

lemma register_sel [simp]:
  "wb_manager (snd (register_toplevel t b)) = wb_manager b"
  "wb_surfaces (snd (register_toplevel t b)) = snd (reg_register_toplevel t (wb_surfaces b))"
  "fst (register_toplevel t b) = fst (reg_register_toplevel t (wb_surfaces b))"
  "wb_roots (snd (register_toplevel t b)) = wb_roots b" "wb_popup_handles (snd (register_toplevel t b)) = wb_popup_handles b"
  "wb_grab (snd (register_toplevel t b)) = wb_grab b" "wb_launches (snd (register_toplevel t b)) = wb_launches b"
  "wb_launch_ids (snd (register_toplevel t b)) = wb_launch_ids b" "wb_app_ids (snd (register_toplevel t b)) = wb_app_ids b"
  by (simp_all add: register_toplevel_def case_prod_beta)

definition key_room :: "WmBridge \<Rightarrow> bool" where
  "key_room b \<longleftrightarrow> unat (sr_next_surface_key (wb_surfaces b)) < 2 ^ 64 - 1"

lemma register_ok:
  assumes ok: "bridge_ok b" and room: "key_room b"
  shows "bridge_ok (snd (register_toplevel t b))"
proof (rule bridge_okI, goal_cases)
  case 2
  from reg_ok_register[OF bridge_ok_simps(2)[OF ok]] room show ?case by (simp add: key_room_def)
next
  case 3
  from ok show ?case by (simp add: register_toplevel_def case_prod_beta)
next
  case (9 w r)
  with bridge_okD(2)[OF ok, of w r] obtain s sl where
    "bt_get (wb_roots b) w = Some s" "bt_get (sr_toplevels (wb_surfaces b)) s = Some sl" "sl_window sl = Some w" "sl_key sl = fst r"
    by auto
  with ok show ?case by (auto simp: reg_register_sel)
next
  case (11 s h)
  with ok bridge_okD(4)[OF ok, of s h] show ?case
    by (simp add: register_toplevel_def case_prod_beta split: if_splits)
next
  case (10 s sl)
  with ok bridge_okD(3,4)[OF ok, of s] show ?case
    by (auto simp: reg_register_sel register_toplevel_def case_prod_beta bt_contains_def split: if_splits)
qed (use ok bridge_okD[OF ok] in \<open>auto simp: reg_register_sel split: if_splits\<close>)

lemma window_by_surface_win:
  "window_by_surface m key = None \<longleftrightarrow> (\<forall>w r. win m w = Some r \<longrightarrow> distinct (ids m) \<longrightarrow> fst r \<noteq> key)" if "distinct (ids m)"
proof -
  have "(\<exists>r \<in> set (records m). r_surface_key r = key) \<longleftrightarrow> (\<exists>w r. win m w = Some r \<and> fst r = key)"
  proof
    assume "\<exists>r \<in> set (records m). r_surface_key r = key"
    then obtain r where r: "r \<in> set (records m)" "r_surface_key r = key" by blast
    have "window m (r_id r) = Some r"
      unfolding window_def using that r(1) by (intro find_unique) (auto simp: ids_def distinct_map inj_on_def)
    with r(2) show "\<exists>w r. win m w = Some r \<and> fst r = key" by (force simp: win_def)
  next
    assume "\<exists>w r. win m w = Some r \<and> fst r = key"
    then show "\<exists>r \<in> set (records m). r_surface_key r = key"
      unfolding win_def by (auto dest!: window_Some)
  qed
  then show ?thesis using that by (auto simp: window_by_surface_None)
qed

definition id_room :: "WmBridge \<Rightarrow> bool" where
  "id_room b \<longleftrightarrow> unat (next_id (wb_model b)) < 2 ^ 64 - 1"

lemma map_effect:
  assumes ok: "bridge_ok b" and room: "key_room b" "id_room b"
    and unmapped: "Option.bind (reg_slot (wb_surfaces b) t) sl_window = None"
  obtains mw b' rect key where "map_toplevel C now t pid created_seq b = (MapCreated mw, b')" "bridge_ok b'"
    "mw_app_id mw = fst (cl_metadata C t)" "mw_title mw = snd (cl_metadata C t)" "mw_pid mw = pid"
    "mw_launch_id mw = ledger_correlate (mw_app_id mw) pid (mw_title mw) now (wb_launches b)"
    "mw_decision mw = \<lparr>wd_actions = [ConfigureWindow (mw_id mw) rect, Activate (mw_id mw)],
       wd_previous_focus = keyboard_focus b\<rparr>"
    "win (wb_model b) (mw_id mw) = None" "active_window (wb_model b') = Some (mw_id mw)"
    "mw_id mw = WindowId (next_id (wb_model b))"
    "\<And>j. win (wb_model b') j = (if j = mw_id mw then Some (key, mw_title mw, 0) else win (wb_model b) j)"
    "sr_popups (wb_surfaces b') = sr_popups (wb_surfaces b)"
    "bt_get (sr_owners (wb_surfaces b')) t = Some (mw_id mw)"
    "b' = attribute (mw_id mw) (mw_launch_id mw)
       (b'\<lparr>wb_launches := wb_launches b, wb_launch_ids := wb_launch_ids b\<rparr>)"
proof -
  define b1 where "b1 = snd (register_toplevel t b)"
  define key where "key = fst (register_toplevel t b)"
  have reg: "register_toplevel t b = (key, b1)" by (simp add: key_def b1_def prod_eq_iff)
  have ok1: "bridge_ok b1" unfolding b1_def using ok room(1) by (rule register_ok)
  define sl where "sl = (case bt_get (sr_toplevels (wb_surfaces b)) t of Some sl \<Rightarrow> sl
    | None \<Rightarrow> \<lparr>sl_key = key, sl_window = None\<rparr>)"
  have sl: "bt_get (sr_toplevels (wb_surfaces b1)) t = Some sl" "sl_key sl = key" "sl_window sl = None"
    using ok unmapped reg_register_sel(3)[of "wb_surfaces b" t t] reg_register_sel(4)[of "wb_surfaces b" t]
    by (auto simp: b1_def key_def reg_slot_def sl_def split: option.split)
  let ?rq = "\<lparr>m_surface_key = key, m_app_id = fst (cl_metadata C t), m_pid = pid, m_title = snd (cl_metadata C t),
               m_created_seq = created_seq\<rparr>"
  have "fst r \<noteq> key" if w: "win (wb_model b1) w = Some r" for w r
  proof
    assume "fst r = key"
    with bridge_okD(2)[OF ok1 w] obtain s sl' where
      s: "bt_get (sr_toplevels (wb_surfaces b1)) s = Some sl'" "sl_window sl' = Some w" "sl_key sl' = key" by auto
    with reg_okD(2)[of "wb_surfaces b1" s sl' t sl] sl ok1 have "s = t" by simp
    with s sl show False by simp
  qed
  moreover have "distinct (ids (wb_model b1))" using ok1 by (intro wm_inv_D(2)) simp
  ultimately have "window_by_surface (wb_model b1) (m_surface_key ?rq) = None" by (simp add: window_by_surface_win)
  from on_map_fresh[OF bridge_ok_simps(1)[OF ok1] this] obtain m i rect where m: "on_map (wb_model b1) (config (wb_manager b1)) ?rq = (m, i, [ConfigureWindow i rect, Activate i])"
    "win (wb_model b1) i = None" "active_window m = Some i" "i = WindowId (next_id (wb_model b1))"
    "\<And>j. win m j = (if j = i then Some (m_surface_key ?rq, m_title ?rq, 0) else win (wb_model b1) j)"
    by metis
  note m = m(1-4) m(5)[simplified]
  have [simp]: "wb_manager b1 = wb_manager b" "wb_launches b1 = wb_launches b" "wb_launch_ids b1 = wb_launch_ids b"
    "sr_popups (wb_surfaces b1) = sr_popups (wb_surfaces b)"
    by (simp_all add: b1_def reg_register_sel)
  let ?launch = "ledger_correlate (fst (cl_metadata C t)) pid (snd (cl_metadata C t)) now (wb_launches b)"
  define b3 where "b3 = (with_model m b1)\<lparr>wb_surfaces := reg_bind t i (wb_surfaces b1),
    wb_roots := bt_insert i t (wb_roots b1), wb_app_ids := bt_insert i (fst (cl_metadata C t)) (wb_app_ids b1)\<rparr>"
  have sel: "wb_manager b3 = (wb_manager b)\<lparr>model := m\<rparr>" "wb_surfaces b3 = reg_bind t i (wb_surfaces b1)"
    "wb_roots b3 = bt_insert i t (wb_roots b1)" "wb_toplevels b3 = wb_toplevels b1"
    "wb_app_ids b3 = bt_insert i (fst (cl_metadata C t)) (wb_app_ids b1)" "wb_launches b3 = wb_launches b"
    "wb_launch_ids b3 = wb_launch_ids b" "wb_popup_handles b3 = wb_popup_handles b1"
    by (simp_all add: b3_def)
  have map: "map_toplevel C now t pid created_seq b = (MapCreated \<lparr>mw_id = i, mw_app_id = fst (cl_metadata C t),
      mw_pid = pid, mw_title = snd (cl_metadata C t), mw_launch_id = ?launch,
      mw_decision = \<lparr>wd_actions = [ConfigureWindow i rect, Activate i], wd_previous_focus = keyboard_focus b\<rparr>\<rparr>,
      attribute i ?launch b3)"
    using unmapped m(1) by (simp add: map_toplevel_def reg case_prod_beta Let_def keyboard_focus_def b3_def)
  have inv: "wm_inv ((wb_manager b)\<lparr>model := m\<rparr>)"
    using wm_inv_on_map[of "wb_manager b" ?rq] ok room(2) m(1) by (simp add: id_room_def)
  have ok3: "bridge_ok b3"
  proof (rule bridge_okI, goal_cases)
    case (8 s sl' w)
    then show ?case
      using m(2,5) sl ok1 bridge_okD(1)[OF ok1, of s sl' w]
      by (auto simp: sel reg_bind_def split: if_splits)
  next
    case (9 w r)
    then show ?case
    proof (cases "w = i")
      case False
      with 9 m(5) have w: "win (wb_model b1) w = Some r" by (simp add: sel)
      from bridge_okD(2)[OF ok1 w] obtain s sl' where s: "bt_get (wb_roots b1) w = Some s"
        "bt_get (sr_toplevels (wb_surfaces b1)) s = Some sl'" "sl_window sl' = Some w" "sl_key sl' = fst r" by auto
      with sl have "s \<noteq> t" by auto
      with s False ok1 show ?thesis by (simp add: sel reg_bind_def)
    qed (use m(5)[of i] sl ok1 in \<open>auto simp: sel reg_bind_def\<close>)
  next
    case (10 s sl')
    then show ?case using sl bridge_okD(3)[OF ok1] by (auto simp: sel reg_bind_def split: if_splits)
  next
    case (12 s w)
    then show ?case using m(5) bridge_okD(5)[OF ok1, of s w] ok1 by (auto simp: sel reg_bind_def split: if_splits)
  next
    case (13 s p)
    then show ?case using m(5) bridge_okD(6)[OF ok1, of s p] by (auto simp: sel reg_bind_def)
  qed (use ok ok1 inv bridge_okD(4)[OF ok1] in \<open>simp_all add: sel reg_ok_bind\<close>)
  show ?thesis
    by (rule that[OF map bridge_ok_attribute[OF ok3]])
      (use m ok1 in \<open>auto simp: sel reg_bind_def attribute_def split: option.split\<close>)
qed

lemma unbind_sel:
  assumes "reg_ok g"
  shows "bt_get (sr_toplevels (snd (reg_unbind_toplevel t g))) s = (if s = t then None else bt_get (sr_toplevels g) s)"
    "fst (fst (reg_unbind_toplevel t g)) = Option.bind (bt_get (sr_toplevels g) t) sl_window"
    "Option.bind (bt_get (sr_toplevels g) t) sl_window = None \<Longrightarrow>
       snd (fst (reg_unbind_toplevel t g)) = [] \<and> sr_popups (snd (reg_unbind_toplevel t g)) = sr_popups g"
    "bt_get (sr_owners (snd (reg_unbind_toplevel t g))) s = Some w \<Longrightarrow>
       bt_get (sr_owners g) s = Some w \<and> Option.bind (bt_get (sr_toplevels g) t) sl_window \<noteq> Some w"
    "bt_get (sr_popups (snd (reg_unbind_toplevel t g))) s = Some p \<Longrightarrow>
       bt_get (sr_popups g) s = Some p \<and> Option.bind (bt_get (sr_toplevels g) t) sl_window \<noteq> Some (pp_window_id p)"
    "Option.bind (bt_get (sr_toplevels g) t) sl_window = Some i \<Longrightarrow>
       set (map rp_popup_id (snd (fst (reg_unbind_toplevel t g)))) = popups_of g i \<and>
       sorted_wrt (<) (map rp_popup_id (snd (fst (reg_unbind_toplevel t g)))) \<and>
       popups_of (snd (reg_unbind_toplevel t g)) j = (if j = i then {} else popups_of g j)"
proof -
  let ?g1 = "g\<lparr>sr_toplevels := bt_remove t (sr_toplevels g), sr_owners := bt_remove t (sr_owners g)\<rparr>"
  have ok1: "reg_ok ?g1"
    using assms unfolding reg_ok_def by (auto split: if_splits)
  have same: "popups_of ?g1 j = popups_of g j" for j by (simp add: popups_of_def)
  assume i: "Option.bind (bt_get (sr_toplevels g) t) sl_window = Some i"
  then have "reg_unbind_toplevel t g = ((Some i, fst (reg_remove_popups_of i ?g1)), snd (reg_remove_popups_of i ?g1))"
    by (simp add: reg_unbind_toplevel_def Let_def case_prod_beta)
  then show "set (map rp_popup_id (snd (fst (reg_unbind_toplevel t g)))) = popups_of g i \<and>
       sorted_wrt (<) (map rp_popup_id (snd (fst (reg_unbind_toplevel t g)))) \<and>
       popups_of (snd (reg_unbind_toplevel t g)) j = (if j = i then {} else popups_of g j)"
    using removed_popups[OF ok1, of i] popups_remaining[OF ok1, of i j] by (simp add: same)
qed (use assms in \<open>auto simp: reg_unbind_toplevel_def reg_remove_popups_of_def Let_def case_prod_beta
    split: option.splits if_splits\<close>)

lemma destroy_effect:
  assumes ok: "bridge_ok b" and known: "reg_slot (wb_surfaces b) t = Some sl"
  obtains dw b' where "destroy_toplevel t b = Some (dw, b')" "bridge_ok b'"
    "dw_window_id dw = sl_window sl" "wb_launches b' = wb_launches b" "wb_grab b' = wb_grab b"
    "\<And>w l. bt_get (wb_launch_ids b') w = Some l \<Longrightarrow> bt_get (wb_launch_ids b) w = Some l"
    "wd_previous_focus (dw_decision dw) = None"
    "sl_window sl = None \<Longrightarrow> wb_manager b' = wb_manager b \<and> sr_popups (wb_surfaces b') = sr_popups (wb_surfaces b) \<and>
       dw_popup_ids dw = [] \<and> wd_actions (dw_decision dw) = []"
    "\<And>i. sl_window sl = Some i \<Longrightarrow>
       (\<forall>j. win (wb_model b') j = (if j = i then None else win (wb_model b) j)) \<and>
       (\<forall>j. popups_of (wb_surfaces b') j = (if j = i then {} else popups_of (wb_surfaces b) j)) \<and>
       set (dw_popup_ids dw) = popups_of (wb_surfaces b) i \<and> sorted_wrt (<) (dw_popup_ids dw) \<and>
       win (wb_model b) i \<noteq> None \<and>
       (active_window (wb_model b) \<noteq> Some i \<and> wd_actions (dw_decision dw) = [] \<and>
          active_window (wb_model b') = active_window (wb_model b) \<or>
        active_window (wb_model b) = Some i \<and> active_window (wb_model b') = None \<and> wd_actions (dw_decision dw) = [] \<or>
        (\<exists>f. active_window (wb_model b) = Some i \<and> active_window (wb_model b') = Some f \<and>
           wd_actions (dw_decision dw) = [ActivatePrevious f]))"
proof -
  define g where "g = snd (reg_unbind_toplevel t (wb_surfaces b))"
  define ps where "ps = snd (fst (reg_unbind_toplevel t (wb_surfaces b)))"
  have slot: "bt_get (sr_toplevels (wb_surfaces b)) t = Some sl" using known by (simp add: reg_slot_def)
  note u = unbind_sel[OF bridge_ok_simps(2)[OF ok], of t, unfolded slot, simplified, folded g_def ps_def]
  have unbind: "reg_unbind_toplevel t (wb_surfaces b) = ((sl_window sl, ps), g)"
    using unbind_sel(2)[OF bridge_ok_simps(2)[OF ok], of t] slot by (simp add: g_def ps_def prod_eq_iff)
  have ok_g: "reg_ok g" unfolding g_def using ok by (intro reg_ok_unbind) simp
  define b1 where "b1 = b\<lparr>wb_surfaces := g, wb_toplevels := bt_remove t (wb_toplevels b),
    wb_popup_handles := fold (\<lambda>p. bt_remove (rp_surface p)) ps (wb_popup_handles b)\<rparr>"
  have ok_handles: "bt_ok (fold (\<lambda>p. bt_remove (rp_surface p)) ps m)" if "bt_ok m" for m :: "(ObjectId, ObjectId) btree"
    using that by (induction ps arbitrary: m) simp_all
  show ?thesis
  proof (cases "sl_window sl")
    case None
    have "bridge_ok b1"
    proof (rule bridge_okI, goal_cases)
      case (9 w r)
      with bridge_okD(2)[OF ok, of w r] obtain s sl' where "bt_get (wb_roots b) w = Some s"
        "bt_get (sr_toplevels (wb_surfaces b)) s = Some sl'" "sl_window sl' = Some w" "sl_key sl' = fst r"
        by (auto simp: b1_def)
      with None slot show ?case by (auto simp: b1_def u(1))
    next
      case (8 s sl' w)
      with bridge_okD(1)[OF ok, of s sl' w] show ?case by (simp add: b1_def u(1) split: if_splits)
    next
      case (10 s sl')
      with bridge_okD(3)[OF ok, of s sl'] ok show ?case by (simp add: b1_def u(1) split: if_splits)
    next
      case (11 s h)
      with bridge_okD(4)[OF ok, of s h] ok show ?case by (simp add: b1_def split: if_splits)
    next
      case (12 s w)
      then have "bt_get (sr_owners (wb_surfaces b)) s = Some w" using u(4)[of s w] by (simp add: b1_def)
      with bridge_okD(5)[OF ok, of s w] show ?case by (simp add: b1_def)
    next
      case (13 s p)
      then have "bt_get (sr_popups (wb_surfaces b)) s = Some p" using u(5)[of s p] by (simp add: b1_def)
      with bridge_okD(6)[OF ok, of s p] show ?case by (simp add: b1_def)
    qed (use ok ok_g ok_handles in \<open>simp_all add: b1_def\<close>)
    moreover have "destroy_toplevel t b = Some (\<lparr>dw_window_id = None, dw_popup_ids = map rp_popup_id ps,
        dw_decision = \<lparr>wd_actions = [], wd_previous_focus = None\<rparr>\<rparr>, b1)"
      using None by (simp add: destroy_toplevel_def known unbind Let_def b1_def)
    moreover have "ps = []" "sr_popups g = sr_popups (wb_surfaces b)" using u(3) None by simp_all
    ultimately show ?thesis using None
      by (intro that[of "\<lparr>dw_window_id = None, dw_popup_ids = map rp_popup_id ps,
            dw_decision = \<lparr>wd_actions = [], wd_previous_focus = None\<rparr>\<rparr>" b1]) (simp_all add: b1_def)
  next
    case (Some i)
    have root: "bt_get (wb_roots b) i = Some t" and known_i: "win (wb_model b) i \<noteq> None"
      using bridge_okD(1)[OF ok slot Some] by auto
    obtain m acts where d: "on_destroy (wb_model b) i = (m, acts)"
      "\<And>j. win m j = (if j = i then None else win (wb_model b) j)"
      "active_window (wb_model b) \<noteq> Some i \<and> acts = [] \<and> active_window m = active_window (wb_model b) \<or>
       active_window (wb_model b) = Some i \<and> active_window m = None \<and> acts = [] \<or>
       (\<exists>f. active_window (wb_model b) = Some i \<and> active_window m = Some f \<and> acts = [ActivatePrevious f])"
      using on_destroy_effect[OF bridge_ok_simps(1)[OF ok] known_i] by metis
    define b2 where "b2 = with_model m (b1\<lparr>wb_roots := bt_remove i (wb_roots b1),
      wb_launch_ids := bt_remove i (wb_launch_ids b1), wb_app_ids := bt_remove i (wb_app_ids b1)\<rparr>)"
    have sel: "wb_manager b2 = (wb_manager b)\<lparr>model := m\<rparr>" "wb_surfaces b2 = g"
      "wb_toplevels b2 = bt_remove t (wb_toplevels b)" "wb_roots b2 = bt_remove i (wb_roots b)"
      "wb_popup_handles b2 = fold (\<lambda>p. bt_remove (rp_surface p)) ps (wb_popup_handles b)"
      "wb_launch_ids b2 = bt_remove i (wb_launch_ids b)" "wb_app_ids b2 = bt_remove i (wb_app_ids b)"
      "wb_launches b2 = wb_launches b" "wb_grab b2 = wb_grab b"
      by (simp_all add: b2_def b1_def)
    have inv: "wm_inv ((wb_manager b)\<lparr>model := m\<rparr>)"
      using wm_inv_on_destroy[of "wb_manager b" i] ok d(1) by simp
    have "bridge_ok b2"
    proof (rule bridge_okI, goal_cases)
      case (8 s sl' w)
      then have s: "s \<noteq> t" "bt_get (sr_toplevels (wb_surfaces b)) s = Some sl'" "sl_window sl' = Some w"
        by (simp_all add: sel u(1) split: if_splits)
      with bridge_okD(1)[OF ok s(2,3)] root have "w \<noteq> i" by auto
      with bridge_okD(1)[OF ok s(2,3)] d(2) ok show ?case by (simp add: sel)
    next
      case (9 w r)
      then have w: "w \<noteq> i" "win (wb_model b) w = Some r" using d(2) by (simp_all add: sel split: if_splits)
      from bridge_okD(2)[OF ok w(2)] obtain s sl' where s: "bt_get (wb_roots b) w = Some s"
        "bt_get (sr_toplevels (wb_surfaces b)) s = Some sl'" "sl_window sl' = Some w" "sl_key sl' = fst r" by auto
      with slot Some w(1) have "s \<noteq> t" by auto
      with s w(1) ok show ?case by (simp add: sel u(1))
    next
      case (10 s sl')
      with bridge_okD(3)[OF ok, of s sl'] ok show ?case by (simp add: sel u(1) split: if_splits)
    next
      case (11 s h)
      with bridge_okD(4)[OF ok, of s h] ok show ?case by (simp add: sel split: if_splits)
    next
      case (12 s w)
      then have "bt_get (sr_owners (wb_surfaces b)) s = Some w" "w \<noteq> i"
        using u(4)[of s w] Some by (auto simp: sel)
      with bridge_okD(5)[OF ok, of s w] d(2)[of w] show ?case by (simp add: sel)
    next
      case (13 s p)
      then have "bt_get (sr_popups (wb_surfaces b)) s = Some p" "pp_window_id p \<noteq> i"
        using u(5)[of s p] Some by (auto simp: sel)
      with bridge_okD(6)[OF ok, of s p] d(2)[of "pp_window_id p"] show ?case by (simp add: sel)
    qed (use ok inv ok_g ok_handles in \<open>simp_all add: sel\<close>)
    moreover have "destroy_toplevel t b = Some (\<lparr>dw_window_id = Some i, dw_popup_ids = map rp_popup_id ps,
        dw_decision = \<lparr>wd_actions = acts, wd_previous_focus = None\<rparr>\<rparr>, b2)"
      using Some d(1) by (simp add: destroy_toplevel_def known unbind Let_def b1_def b2_def)
    moreover have "\<And>w l. bt_get (wb_launch_ids b2) w = Some l \<Longrightarrow> bt_get (wb_launch_ids b) w = Some l"
      using ok by (simp add: sel split: if_splits)
    moreover have "set (map rp_popup_id ps) = popups_of (wb_surfaces b) i" "sorted_wrt (<) (map rp_popup_id ps)"
      "popups_of g j = (if j = i then {} else popups_of (wb_surfaces b) j)" for j
      using u(6)[of i j] u(6)[of i i] Some by simp_all
    moreover have "win (wb_model b2) j = (if j = i then None else win (wb_model b) j)" for j
      using d(2) by (simp add: sel)
    ultimately show ?thesis using Some d(3) known_i
      by (intro that[of "\<lparr>dw_window_id = Some i, dw_popup_ids = map rp_popup_id ps,
            dw_decision = \<lparr>wd_actions = acts, wd_previous_focus = None\<rparr>\<rparr>" b2]) (simp_all add: sel)
  qed
qed

section \<open>The other calls\<close>

lemma owner_known:
  assumes "bridge_ok b" "window_for_surface C b s = Some w"
  shows "win (wb_model b) w \<noteq> None"
proof -
  have "win (wb_model b) w \<noteq> None" if "owner_above n C b s = Some w" for n s
    using that by (induction n arbitrary: s)
      (auto simp: reg_window_for_surface_def split: option.splits dest: bridge_okD(5)[OF assms(1)])
  then show ?thesis
    using assms(2) bridge_okD(5)[OF assms(1), of s w]
    by (auto simp: window_for_surface_def reg_window_for_surface_def split: option.splits)
qed

lemma wm_inv_metadata:
  assumes "wm_inv g"
  shows "wm_inv (g\<lparr>model := fst (on_title (model g) w t)\<rparr>)" "wm_inv (g\<lparr>model := fst (on_app_id (model g) w a)\<rparr>)"
    "wm_inv (g\<lparr>model := fst (on_commit (model g) w c d)\<rparr>)" "wm_inv (g\<lparr>model := fst (on_popup_added (model g) w)\<rparr>)"
    "wm_inv (g\<lparr>model := fst (on_popup_removed (model g) w)\<rparr>)" "wm_inv (g\<lparr>model := fst (activate (model g) w)\<rparr>)"
  using wm_inv_record_mut[OF assms] wm_inv_activate[OF assms]
  by (simp_all add: on_title_def on_app_id_def on_commit_def on_popup_added_def on_popup_removed_def core_def)

lemma bridge_ok_model:
  assumes ok: "bridge_ok b"
  shows "bridge_ok (with_model (fst (on_title (wb_model b) w t)) b)" "bridge_ok (with_model (fst (on_app_id (wb_model b) w a)) b)"
    "bridge_ok (with_model (fst (on_commit (wb_model b) w c d)) b)" "bridge_ok (with_model (fst (on_popup_added (wb_model b) w)) b)"
    "bridge_ok (with_model (fst (on_popup_removed (wb_model b) w)) b)"
  using ok by (auto intro!: bridge_ok_metadata wm_inv_metadata simp: win_metadata option.map_comp comp_def split_def)

lemma title_effect:
  assumes ok: "bridge_ok b" and change: "wb_title_changed C t b = Some (tc, b')"
  shows "bridge_ok b'" "win (wb_model b) (tc_window_id tc) \<noteq> None" "wd_actions (tc_decision tc) = []"
    "win (wb_model b') j = (if j = tc_window_id tc then map_option (\<lambda>(k, _, c). (k, tc_title tc, c)) (win (wb_model b) j)
       else win (wb_model b) j)"
    "wb_surfaces b' = wb_surfaces b" "active_window (wb_model b') = active_window (wb_model b)"
    "wb_launches b' = wb_launches b" "wb_launch_ids b' = wb_launch_ids b" "next_id (wb_model b') = next_id (wb_model b)"
proof -
  obtain w where w: "window_for_surface C b t = Some w" "tc_window_id tc = w" "wd_actions (tc_decision tc) = []"
    "b' = with_model (fst (on_title (wb_model b) w (tc_title tc))) b"
    using change by (auto simp: wb_title_changed_def Let_def case_prod_beta on_title_def split: option.splits if_splits)
  then show "bridge_ok b'" using bridge_ok_model(1)[OF ok] by simp
  from w owner_known[OF ok w(1)] show "win (wb_model b) (tc_window_id tc) \<noteq> None" "wd_actions (tc_decision tc) = []"
    "win (wb_model b') j = (if j = tc_window_id tc then map_option (\<lambda>(k, _, c). (k, tc_title tc, c)) (win (wb_model b) j)
       else win (wb_model b) j)"
    "wb_surfaces b' = wb_surfaces b" "active_window (wb_model b') = active_window (wb_model b)"
    "wb_launches b' = wb_launches b" "wb_launch_ids b' = wb_launch_ids b" "next_id (wb_model b') = next_id (wb_model b)"
    by (simp_all add: win_on_title)
qed

lemma app_id_effect:
  assumes ok: "bridge_ok b" and change: "wb_app_id_changed C now t b = Some (ac, b')"
  shows "bridge_ok b'" "win (wb_model b') = win (wb_model b)" "wb_surfaces b' = wb_surfaces b"
    "active_window (wb_model b') = active_window (wb_model b)" "next_id (wb_model b') = next_id (wb_model b)"
    "win (wb_model b) (ac_window_id ac) \<noteq> None"
    "\<exists>b1. b' = attribute (ac_window_id ac) (ac_launch_id ac) b1 \<and> wb_launches b1 = wb_launches b \<and>
      wb_launch_ids b1 = wb_launch_ids b \<and>
      (\<forall>l. ac_launch_id ac = Some l \<longrightarrow> bt_get (wb_launch_ids b) (ac_window_id ac) = None \<and> l \<in> nl_launch_id ` set (wb_launches b))"
proof -
  obtain w where w: "window_for_surface C b t = Some w"
    and noted: "note_app_id now w (fst (cl_metadata C t)) (snd (cl_metadata C t)) b = Some (ac, b')"
    using change by (auto simp: wb_app_id_changed_def case_prod_beta split: option.splits)
  define b1 where "b1 = with_model (fst (on_app_id (wb_model b) w (fst (cl_metadata C t))))
    (b\<lparr>wb_app_ids := bt_insert w (fst (cl_metadata C t)) (wb_app_ids b)\<rparr>)"
  have ac: "ac_window_id ac = w" "b' = attribute w (ac_launch_id ac) b1"
    and launch: "ac_launch_id ac = Some l \<Longrightarrow> bt_get (wb_launch_ids b) w = None \<and> l \<in> nl_launch_id ` set (wb_launches b)" for l
    using noted ledger_correlate_mem
    by (fastforce simp: note_app_id_def Let_def b1_def bt_contains_def split: if_splits)+
  have "bridge_ok (b\<lparr>wb_app_ids := bt_insert w (fst (cl_metadata C t)) (wb_app_ids b)\<rparr>)"
    by (rule bridge_okI) (use ok in \<open>auto dest: bridge_okD\<close>)
  from bridge_ok_model(2)[OF this] have ok1: "bridge_ok b1" by (simp add: b1_def)
  then show "bridge_ok b'" by (simp add: ac bridge_ok_attribute)
  show "win (wb_model b') = win (wb_model b)" "wb_surfaces b' = wb_surfaces b"
    "active_window (wb_model b') = active_window (wb_model b)" "next_id (wb_model b') = next_id (wb_model b)"
    by (simp_all add: ac b1_def fun_eq_iff win_on_app_id)
  show "win (wb_model b) (ac_window_id ac) \<noteq> None" using owner_known[OF ok w] ac by simp
  show "\<exists>b1. b' = attribute (ac_window_id ac) (ac_launch_id ac) b1 \<and> wb_launches b1 = wb_launches b \<and>
      wb_launch_ids b1 = wb_launch_ids b \<and>
      (\<forall>l. ac_launch_id ac = Some l \<longrightarrow> bt_get (wb_launch_ids b) (ac_window_id ac) = None \<and> l \<in> nl_launch_id ` set (wb_launches b))"
    using ac launch by (intro exI[of _ b1]) (auto simp: b1_def)
qed

lemma last_commit_win: "last_commit_seq b w = (case win (wb_model b) w of Some (_, _, c) \<Rightarrow> c | None \<Rightarrow> 0)"
  by (simp add: last_commit_seq_def win_def split: option.split)

lemma commit_effect:
  assumes ok: "bridge_ok b"
  shows "bridge_ok (snd (wb_commit w d b))" "fst (wb_commit w d b) = last_commit_seq b w + 1"
    "win (wb_model (snd (wb_commit w d b))) j =
      (if j = w then map_option (\<lambda>(k, t, c). (k, t, max c (c + 1))) (win (wb_model b) j) else win (wb_model b) j)"
    "wb_surfaces (snd (wb_commit w d b)) = wb_surfaces b"
    "active_window (wb_model (snd (wb_commit w d b))) = active_window (wb_model b)"
    "wb_launches (snd (wb_commit w d b)) = wb_launches b" "wb_launch_ids (snd (wb_commit w d b)) = wb_launch_ids b"
    "next_id (wb_model (snd (wb_commit w d b))) = next_id (wb_model b)"
  using bridge_ok_model(3)[OF ok]
  by (simp_all add: wb_commit_def Let_def win_on_commit)
    (auto simp: last_commit_win split: option.split)

lemma activate_bridge_effect:
  assumes ok: "bridge_ok b" and act: "wb_activate w b = Some (d, b')"
  shows "bridge_ok b'" "win (wb_model b') = win (wb_model b)" "wb_surfaces b' = wb_surfaces b"
    "active_window (wb_model b') = Some w" "win (wb_model b) w \<noteq> None"
    "wd_actions d = [WmNone] \<and> active_window (wb_model b) = Some w \<or>
     wd_actions d = [Activate w] \<and> active_window (wb_model b) \<noteq> Some w"
    "wd_previous_focus d = active_window (wb_model b)"
    "wb_launches b' = wb_launches b" "wb_launch_ids b' = wb_launch_ids b" "next_id (wb_model b') = next_id (wb_model b)"
proof -
  have known: "win (wb_model b) w \<noteq> None"
    using act by (auto simp: wb_activate_def require_window_def win_def split: option.splits)
  obtain m acts where a: "activate (wb_model b) w = (m, acts)" "win m = win (wb_model b)" "active_window m = Some w"
    "acts = [WmNone] \<and> active_window (wb_model b) = Some w \<or> acts = [Activate w] \<and> active_window (wb_model b) \<noteq> Some w"
    using activate_effect[OF known] by metis
  have b': "b' = with_model m b" "d = \<lparr>wd_actions = acts, wd_previous_focus = active_window (wb_model b)\<rparr>"
    using act a(1) by (auto simp: wb_activate_def Let_def keyboard_focus_def split: sum.splits)
  have "wm_inv ((wb_manager b)\<lparr>model := m\<rparr>)" using wm_inv_metadata(6)[of "wb_manager b" w] ok a(1) by simp
  with ok a(2) show "bridge_ok b'" by (simp add: b' bridge_ok_metadata)
  have "next_id m = next_id (wb_model b)"
    using a(1) by (auto simp: activate_def Let_def split: if_splits)
  with a known show "win (wb_model b') = win (wb_model b)" "wb_surfaces b' = wb_surfaces b"
    "active_window (wb_model b') = Some w" "win (wb_model b) w \<noteq> None"
    "wd_actions d = [WmNone] \<and> active_window (wb_model b) = Some w \<or>
     wd_actions d = [Activate w] \<and> active_window (wb_model b) \<noteq> Some w"
    "wd_previous_focus d = active_window (wb_model b)"
    "wb_launches b' = wb_launches b" "wb_launch_ids b' = wb_launch_ids b" "next_id (wb_model b') = next_id (wb_model b)"
    by (simp_all add: b')
qed

definition popup_room :: "WmBridge \<Rightarrow> bool" where
  "popup_room b \<longleftrightarrow> unat (sr_next_popup_id (wb_surfaces b)) < 2 ^ 64 - 1"

lemma popup_added_effect:
  assumes ok: "bridge_ok b" and room: "popup_room b" and fresh: "reg_popup (wb_surfaces b) p = None"
    and added: "popup_added C p offset b = Some (pe, b')"
  shows "bridge_ok b'" "win (wb_model b') = win (wb_model b)" "active_window (wb_model b') = active_window (wb_model b)"
    "popups_of (wb_surfaces b') w =
      (if w = pe_window_id pe then insert (pe_popup_id pe) (popups_of (wb_surfaces b) w) else popups_of (wb_surfaces b) w)"
    "win (wb_model b) (pe_window_id pe) \<noteq> None" "wb_launches b' = wb_launches b" "wb_launch_ids b' = wb_launch_ids b"
    "next_id (wb_model b') = next_id (wb_model b)" "pe_popup_id pe = sr_next_popup_id (wb_surfaces b)"
    "sr_next_surface_key (wb_surfaces b') = sr_next_surface_key (wb_surfaces b)"
    "sr_next_popup_id (wb_surfaces b') = sr_next_popup_id (wb_surfaces b) + 1"
proof -
  obtain parent v where parent: "cl_popup_parent C p = Some parent" and owner: "bt_get (sr_owners (wb_surfaces b)) parent = Some v"
    using added by (auto simp: popup_added_def Let_def reg_window_for_surface_def bind_eq_Some_conv split: option.splits)
  define g where "g = snd (reg_add_popup p (Some parent) v offset (wb_surfaces b))"
  define b1 where "b1 = b\<lparr>wb_surfaces := g, wb_popup_handles := bt_insert p p (wb_popup_handles b)\<rparr>"
  have none: "bt_get (sr_popups (wb_surfaces b)) p = None" using fresh by (simp add: reg_popup_def)
  have g: "sr_toplevels g = sr_toplevels (wb_surfaces b)" "sr_owners g = bt_insert p v (sr_owners (wb_surfaces b))"
    "sr_popups g = bt_insert p \<lparr>pp_window_id = v, pp_popup_id = sr_next_popup_id (wb_surfaces b), pp_parent = Some parent,
       pp_offset = offset\<rparr> (sr_popups (wb_surfaces b))"
    "sr_next_surface_key g = sr_next_surface_key (wb_surfaces b)" "sr_next_popup_id g = sr_next_popup_id (wb_surfaces b) + 1"
    using none by (simp_all add: g_def reg_add_popup_def Let_def)
  have pe: "pe = \<lparr>pe_window_id = v, pe_popup_id = sr_next_popup_id (wb_surfaces b)\<rparr>"
    and b': "b' = with_model (fst (on_popup_added (wb_model b) v)) b1"
    using added parent owner none
    by (auto simp: popup_added_def Let_def reg_window_for_surface_def case_prod_beta g_def b1_def reg_add_popup_def)
  have known: "win (wb_model b) v \<noteq> None" using bridge_okD(5)[OF ok owner] .
  have "reg_ok g" unfolding g_def using ok room by (intro reg_ok_add_popup) (simp_all add: popup_room_def)
  then have "bridge_ok b1"
    by (intro bridge_okI) (use ok known g in \<open>auto simp: b1_def dest: bridge_okD split: if_splits\<close>)
  from bridge_ok_model(4)[OF this, of v] show "bridge_ok b'" by (simp add: b' b1_def)
  have ne: "s \<noteq> p" if "bt_get (sr_popups (wb_surfaces b)) s = Some q" for s q using that none by auto
  show "popups_of (wb_surfaces b') w =
      (if w = pe_window_id pe then insert (pe_popup_id pe) (popups_of (wb_surfaces b) w) else popups_of (wb_surfaces b) w)"
    using ok none ne by (auto simp: b' b1_def pe popups_of_def g split: if_splits)
  show "win (wb_model b') = win (wb_model b)" "active_window (wb_model b') = active_window (wb_model b)"
    "win (wb_model b) (pe_window_id pe) \<noteq> None" "wb_launches b' = wb_launches b" "wb_launch_ids b' = wb_launch_ids b"
    "next_id (wb_model b') = next_id (wb_model b)" "pe_popup_id pe = sr_next_popup_id (wb_surfaces b)"
    "sr_next_surface_key (wb_surfaces b') = sr_next_surface_key (wb_surfaces b)"
    "sr_next_popup_id (wb_surfaces b') = sr_next_popup_id (wb_surfaces b) + 1"
    using known by (simp_all add: b' b1_def pe g fun_eq_iff win_on_popup)
qed

lemma popup_removed_effect:
  assumes ok: "bridge_ok b" and removed: "popup_removed p b = Some (pe, b')"
  shows "bridge_ok b'" "win (wb_model b') = win (wb_model b)" "active_window (wb_model b') = active_window (wb_model b)"
    "popups_of (wb_surfaces b') w =
      (if w = pe_window_id pe then popups_of (wb_surfaces b) w - {pe_popup_id pe} else popups_of (wb_surfaces b) w)"
    "pe_popup_id pe \<in> popups_of (wb_surfaces b) (pe_window_id pe)"
    "win (wb_model b) (pe_window_id pe) \<noteq> None" "wb_launches b' = wb_launches b" "wb_launch_ids b' = wb_launch_ids b"
    "next_id (wb_model b') = next_id (wb_model b)"
    "sr_next_surface_key (wb_surfaces b') = sr_next_surface_key (wb_surfaces b)"
    "sr_next_popup_id (wb_surfaces b') = sr_next_popup_id (wb_surfaces b)"
proof -
  obtain r where r: "bt_get (sr_popups (wb_surfaces b)) p = Some r"
    using removed by (auto simp: popup_removed_def reg_remove_popup_def split: option.splits)
  define g where "g = (wb_surfaces b)\<lparr>sr_popups := bt_remove p (sr_popups (wb_surfaces b)),
    sr_owners := bt_remove p (sr_owners (wb_surfaces b))\<rparr>"
  define b1 where "b1 = b\<lparr>wb_surfaces := g, wb_popup_handles := bt_remove p (wb_popup_handles b),
    wb_grab := (case wb_grab b of Some gr \<Rightarrow> if gr_popup gr = p then None else Some gr | None \<Rightarrow> None)\<rparr>"
  have pe: "pe = \<lparr>pe_window_id = pp_window_id r, pe_popup_id = pp_popup_id r\<rparr>"
    and b': "b' = with_model (fst (on_popup_removed (wb_model b) (pp_window_id r))) b1"
    using removed r by (auto simp: popup_removed_def reg_remove_popup_def Let_def b1_def g_def)
  have "reg_ok g"
    using reg_ok_remove_popup[of "wb_surfaces b" p r g] ok r by (simp add: reg_remove_popup_def g_def)
  then have "bridge_ok b1"
  proof (intro bridge_okI, goal_cases)
    case (12 s w)
    with ok bridge_okD(5)[OF ok, of s w] show ?case by (simp add: b1_def g_def split: if_splits)
  next
    case (13 s q)
    with ok bridge_okD(6)[OF ok, of s q] show ?case by (simp add: b1_def g_def split: if_splits)
  qed (use ok bridge_okD(1-4)[OF ok] in \<open>simp_all add: b1_def g_def\<close>)
  from bridge_ok_model(5)[OF this, of "pp_window_id r"] show "bridge_ok b'" by (simp add: b' b1_def)
  have same: "s = p" if "bt_get (sr_popups (wb_surfaces b)) s = Some q" "pp_popup_id q = pp_popup_id r" for s q
    using reg_okD(4)[of "wb_surfaces b" s q p r] ok r that by simp
  have "(\<exists>s q. bt_get (sr_popups (wb_surfaces b')) s = Some q \<and> pp_window_id q = w \<and> pp_popup_id q = i) \<longleftrightarrow>
      (\<exists>s q. bt_get (sr_popups (wb_surfaces b)) s = Some q \<and> pp_window_id q = w \<and> pp_popup_id q = i) \<and>
      \<not> (w = pp_window_id r \<and> i = pp_popup_id r)" for i
  proof -
    have "bt_get (sr_popups (wb_surfaces b')) s = (if s = p then None else bt_get (sr_popups (wb_surfaces b)) s)" for s
      using ok by (simp add: b' b1_def g_def)
    then show ?thesis using same r by (metis option.distinct(1) option.inject)
  qed
  then show "popups_of (wb_surfaces b') w =
      (if w = pe_window_id pe then popups_of (wb_surfaces b) w - {pe_popup_id pe} else popups_of (wb_surfaces b) w)"
    unfolding popups_of_def by (auto simp: pe)
  show "pe_popup_id pe \<in> popups_of (wb_surfaces b) (pe_window_id pe)" using r by (auto simp: pe popups_of_def)
  show "win (wb_model b) (pe_window_id pe) \<noteq> None" using bridge_okD(6)[OF ok r] by (simp add: pe)
  show "win (wb_model b') = win (wb_model b)" "active_window (wb_model b') = active_window (wb_model b)"
    "wb_launches b' = wb_launches b" "wb_launch_ids b' = wb_launch_ids b" "next_id (wb_model b') = next_id (wb_model b)"
    "sr_next_surface_key (wb_surfaces b') = sr_next_surface_key (wb_surfaces b)"
    "sr_next_popup_id (wb_surfaces b') = sr_next_popup_id (wb_surfaces b)"
    by (simp_all add: b' b1_def g_def fun_eq_iff win_on_popup)
qed

lemma bridge_ok_grab: "bridge_ok b \<Longrightarrow> bridge_ok (b\<lparr>wb_grab := gr\<rparr>)" "bridge_ok b \<Longrightarrow> bridge_ok (b\<lparr>wb_launches := l\<rparr>)"
  by (rule bridge_okI; auto dest: bridge_okD)+

lemma bridge_ok_new: "bridge_ok (WmBridge_new sz)"
  by (simp add: bridge_ok_def WmBridge_new_def wm_inv_new reg_ok_new)
    (simp add: SurfaceRegistry_new_def WindowManager_new_def WindowModel_new_def win_def window_def)

end
