(* ===== verification/Compositor_Input.thy ===== *)
theory Compositor_Input
  imports Core_Types Rust_Text Ordered_Map
begin

text \<open>
  Key names and key plans of the compositor (\<open>crates/adesk-compositor/src/input\<close>): parsing key names
  and chords (\<open>keycode.rs\<close>), indexing the keymap (\<open>keymap.rs\<close>), button codes (\<open>injector.rs\<close>) and the
  part of \<open>State::inject_key\<close> (\<open>state.rs\<close>) that turns a key into key strokes. libxkbcommon is a record
  of functions; keysym 0 is its \<open>NoSymbol\<close>.
\<close>

section \<open>Names\<close>

datatype Button = BtnLeft | BtnRight | BtnMiddle | BtnSide | BtnExtra
datatype ButtonState = BtnPressed | BtnReleased
datatype KeyState = KeyPressed | KeyReleased

record Xkb =
  xk_keysym_from_name :: "string \<Rightarrow> u32" \<comment> \<open>ignoring case\<close>
  xk_utf32_to_keysym :: "u32 \<Rightarrow> u32"
  xk_keysym_get_name :: "u32 \<Rightarrow> string"
  xk_debug :: "string \<Rightarrow> string" \<comment> \<open>how \<open>{:?}\<close> shows a string in messages\<close>
  xk_uppercase :: "string \<Rightarrow> string"

definition ALIASES :: "(string \<times> string) list" where
  "ALIASES =
     [(''CTRL'', ''Control_L''), (''CONTROL'', ''Control_L''), (''ALT'', ''Alt_L''), (''SHIFT'', ''Shift_L''),
      (''SUPER'', ''Super_L''), (''META'', ''Super_L''), (''LOGO'', ''Super_L''), (''RETURN'', ''Return''),
      (''ENTER'', ''Return''), (''ESC'', ''Escape''), (''ESCAPE'', ''Escape''), (''PAGEUP'', ''Prior''),
      (''PAGEDOWN'', ''Next''), (''BACKSPACE'', ''BackSpace'')]"

record Keysym =
  ks_name :: string
  ks_value :: u32

definition key_alias :: "string \<Rightarrow> string option" where
  "key_alias name = map_option snd (find (\<lambda>(a, _). eq_ignore_ascii_case a name) ALIASES)"

text \<open>The code point of one UTF-8 encoded character.\<close>

definition byte_of :: "char \<Rightarrow> nat" where
  "byte_of c = of_char c"

fun code_point :: "string \<Rightarrow> nat" where
  "code_point [a] = byte_of a"
| "code_point [a, b] = (byte_of a mod 32) * 64 + byte_of b mod 64"
| "code_point [a, b, c] = (byte_of a mod 16) * 4096 + (byte_of b mod 64) * 64 + byte_of c mod 64"
| "code_point [a, b, c, d] =
     (byte_of a mod 8) * 262144 + (byte_of b mod 64) * 4096 + (byte_of c mod 64) * 64 + byte_of d mod 64"
| "code_point _ = 0"

definition single_char :: "string \<Rightarrow> nat option" where
  "single_char s = (case s of [] \<Rightarrow> None | c # cs \<Rightarrow> if list_all is_cont cs then Some (code_point s) else None)"

fun hex :: "nat \<Rightarrow> string" where
  "hex n = (let d = ''0123456789abcdef'' ! (n mod 16) in if n < 16 then [d] else hex (n div 16) @ [d])"

definition canonical_name :: "Xkb \<Rightarrow> u32 \<Rightarrow> string" where
  "canonical_name X v = (if xk_keysym_get_name X v = [] then ''0x'' @ hex (unat v) else xk_keysym_get_name X v)"

definition Keysym_parse :: "Xkb \<Rightarrow> string \<Rightarrow> Error + Keysym" where
  "Keysym_parse X name =
     (let trimmed = trim name
      in if trimmed = [] then Inl (error_invalid_request ''key name is empty'')
         else
           let lookup = (case key_alias trimmed of Some a \<Rightarrow> a | None \<Rightarrow> trimmed);
               v0 = xk_keysym_from_name X lookup;
               v = (if v0 = 0
                    then (case single_char trimmed of Some c \<Rightarrow> xk_utf32_to_keysym X (word_of_nat c) | None \<Rightarrow> 0)
                    else v0)
           in if v = 0 then Inl (error_invalid_request (''unknown key name '' @ xk_debug X name))
              else Inr \<lparr>ks_name = canonical_name X v, ks_value = v\<rparr>)"

datatype KeyCode = KeySingle Keysym | KeyChord "Keysym list"

definition KeyCode_parse :: "Xkb \<Rightarrow> string \<Rightarrow> Error + KeyCode" where
  "KeyCode_parse X name = map_sum id KeySingle (Keysym_parse X name)"

fun parse_keys :: "Xkb \<Rightarrow> string list \<Rightarrow> Error + Keysym list" where
  "parse_keys X [] = Inr []"
| "parse_keys X (k # ks) =
     (case Keysym_parse X k of
        Inl e \<Rightarrow> Inl e
      | Inr v \<Rightarrow> map_sum id (\<lambda>vs. v # vs) (parse_keys X ks))"

definition parse_chord :: "Xkb \<Rightarrow> string list \<Rightarrow> Error + KeyCode" where
  "parse_chord X keys =
     (case parse_keys X keys of
        Inl e \<Rightarrow> Inl e
      | Inr [] \<Rightarrow> Inl (error_invalid_request ''a chord needs at least one key'')
      | Inr ks \<Rightarrow> Inr (KeyChord ks))"

fun keysyms :: "KeyCode \<Rightarrow> Keysym list" where
  "keysyms (KeySingle k) = [k]"
| "keysyms (KeyChord ks) = ks"

definition is_chord :: "KeyCode \<Rightarrow> bool" where
  "is_chord k = (case k of KeyChord _ \<Rightarrow> True | _ \<Rightarrow> False)"

definition display_label :: "Xkb \<Rightarrow> Keysym \<Rightarrow> string" where
  "display_label X k =
     (case map_of [(''Control_L'', ''CTRL''), (''Alt_L'', ''ALT''), (''Shift_L'', ''SHIFT''), (''Super_L'', ''SUPER''),
        (''Return'', ''RETURN''), (''Escape'', ''ESC''), (''Prior'', ''PAGEUP''), (''Next'', ''PAGEDOWN''),
        (''BackSpace'', ''BACKSPACE'')] (ks_name k) of
        Some label \<Rightarrow> label
      | None \<Rightarrow> xk_uppercase X (ks_name k))"

definition display_name :: "Xkb \<Rightarrow> KeyCode \<Rightarrow> string" where
  "display_name X k = join_with ''+'' (map (display_label X) (keysyms k))"

fun chord_sequence :: "KeyCode \<Rightarrow> KeyState \<Rightarrow> Error + (Keysym \<times> KeyState) list" where
  "chord_sequence (KeySingle k) state = Inr [(k, state)]"
| "chord_sequence (KeyChord ks) state =
     (if ks = [] then Inl (error_invalid_request ''a chord needs at least one key'')
      else if state = KeyReleased
      then Inl (error_invalid_request ''a chord is a tap and cannot be released; send `pressed`'')
      else Inr (map (\<lambda>k. (k, KeyPressed)) ks @ map (\<lambda>k. (k, KeyReleased)) (rev ks)))"

section \<open>The keymap\<close>

record ResolvedKey =
  rk_keycode :: u32
  rk_level :: nat

text \<open>A compiled keymap: its keycodes, layouts, levels and the keysyms on each level.\<close>

record Keymap =
  km_min_keycode :: nat
  km_max_keycode :: nat
  km_num_layouts :: nat
  km_num_levels :: "nat \<Rightarrow> nat \<Rightarrow> nat"
  km_syms :: "nat \<Rightarrow> nat \<Rightarrow> nat \<Rightarrow> u32 list"

text \<open>The keysyms in the order of the four nested loops, \<open>NoSymbol\<close> skipped.\<close>

definition keymap_candidates :: "Keymap \<Rightarrow> (u32 \<times> ResolvedKey) list" where
  "keymap_candidates K =
     concat (map (\<lambda>keycode.
       concat (map (\<lambda>layout.
         concat (map (\<lambda>level.
           map (\<lambda>v. (v, \<lparr>rk_keycode = word_of_nat keycode, rk_level = level\<rparr>))
             (filter (\<lambda>v. v \<noteq> 0) (km_syms K keycode layout level)))
         [0 ..< km_num_levels K keycode layout]))
       [0 ..< km_num_layouts K]))
     [km_min_keycode K ..< Suc (km_max_keycode K)])"

definition index_candidate :: "u32 \<times> ResolvedKey \<Rightarrow> (u32, ResolvedKey) btree \<Rightarrow> (u32, ResolvedKey) btree" where
  "index_candidate = (\<lambda>(v, candidate) table.
     case bt_get table v of
       None \<Rightarrow> bt_insert v candidate table
     | Some kept \<Rightarrow> if rk_level candidate < rk_level kept then bt_insert v candidate table else table)"

definition index_keymap :: "Keymap \<Rightarrow> (u32, ResolvedKey) btree" where
  "index_keymap K = fold index_candidate (keymap_candidates K) []"

definition keymap_resolve :: "(u32, ResolvedKey) btree \<Rightarrow> u32 \<Rightarrow> ResolvedKey option" where
  "keymap_resolve table v = bt_get table v"

section \<open>Key strokes\<close>

definition SHIFT_KEYSYM :: string where
  "SHIFT_KEYSYM = ''Shift_L''"

definition LEVEL3_KEYSYM :: string where
  "LEVEL3_KEYSYM = ''ISO_Level3_Shift''"

definition level_modifier_names :: "nat \<Rightarrow> string list" where
  "level_modifier_names level =
     (if level = 0 then [] else if level = 1 then [SHIFT_KEYSYM] else if level = 2 then [LEVEL3_KEYSYM]
      else [SHIFT_KEYSYM, LEVEL3_KEYSYM])"

text \<open>The injector: the keymap table and the keycodes of the two level modifiers.\<close>

record Injector =
  in_keymap :: "(u32, ResolvedKey) btree"
  in_shift :: "u32 option"
  in_level3 :: "u32 option"

definition resolve_modifier :: "Xkb \<Rightarrow> (u32, ResolvedKey) btree \<Rightarrow> string \<Rightarrow> u32 option" where
  "resolve_modifier X table name =
     (case Keysym_parse X name of
        Inl _ \<Rightarrow> None
      | Inr k \<Rightarrow> map_option rk_keycode (keymap_resolve table (ks_value k)))"

definition InputInjector_new :: "Xkb \<Rightarrow> Keymap \<Rightarrow> Injector" where
  "InputInjector_new X K =
     (let table = index_keymap K
      in \<lparr>in_keymap = table, in_shift = resolve_modifier X table SHIFT_KEYSYM,
          in_level3 = resolve_modifier X table LEVEL3_KEYSYM\<rparr>)"

definition button_code :: "Button \<Rightarrow> u32" where
  "button_code b =
     (case b of BtnLeft \<Rightarrow> 0x110 | BtnRight \<Rightarrow> 0x111 | BtnMiddle \<Rightarrow> 0x112 | BtnSide \<Rightarrow> 0x113 | BtnExtra \<Rightarrow> 0x114)"

fun modifier_keycodes :: "Injector \<Rightarrow> string list \<Rightarrow> string + u32 list" where
  "modifier_keycodes I [] = Inr []"
| "modifier_keycodes I (name # names) =
     (case (if name = SHIFT_KEYSYM then in_shift I else in_level3 I) of
        None \<Rightarrow> Inl (''level modifier '' @ name @ '' cannot be produced by the compositor keymap'')
      | Some k \<Rightarrow> map_sum id (\<lambda>ks. k # ks) (modifier_keycodes I names))"

text \<open>One key of a sequence, between its modifiers.\<close>

definition key_strokes :: "Xkb \<Rightarrow> Injector \<Rightarrow> Keysym \<Rightarrow> KeyState \<Rightarrow> string + (u32 \<times> KeyState) list" where
  "key_strokes X I k state =
     (case keymap_resolve (in_keymap I) (ks_value k) of
        None \<Rightarrow> Inl (''key '' @ xk_debug X (ks_name k) @ '' cannot be produced by the compositor keymap'')
      | Some r \<Rightarrow>
          map_sum id
            (\<lambda>ms. case state of
               KeyPressed \<Rightarrow> map (\<lambda>m. (m, KeyPressed)) ms @ [(rk_keycode r, KeyPressed)]
             | KeyReleased \<Rightarrow> (rk_keycode r, KeyReleased) # map (\<lambda>m. (m, KeyReleased)) (rev ms))
            (modifier_keycodes I (level_modifier_names (rk_level r))))"

fun plan_strokes :: "Xkb \<Rightarrow> Injector \<Rightarrow> (Keysym \<times> KeyState) list \<Rightarrow> string + (u32 \<times> KeyState) list" where
  "plan_strokes X I [] = Inr []"
| "plan_strokes X I ((k, state) # rest) =
     (case key_strokes X I k state of
        Inl e \<Rightarrow> Inl e
      | Inr strokes \<Rightarrow> map_sum id (\<lambda>more. strokes @ more) (plan_strokes X I rest))"

definition key_plan :: "Xkb \<Rightarrow> Injector \<Rightarrow> KeyCode \<Rightarrow> KeyState \<Rightarrow> string + (u32 \<times> KeyState) list" where
  "key_plan X I key state =
     (case chord_sequence key state of
        Inl e \<Rightarrow> Inl (err_message e)
      | Inr sequence \<Rightarrow> plan_strokes X I sequence)"

section \<open>Chords are taps\<close>

fun flip_state :: "KeyState \<Rightarrow> KeyState" where
  "flip_state KeyPressed = KeyReleased"
| "flip_state KeyReleased = KeyPressed"

text \<open>The strokes that undo some strokes: each released, in reverse.\<close>

definition mirror :: "(u32 \<times> KeyState) list \<Rightarrow> (u32 \<times> KeyState) list" where
  "mirror strokes = rev (map (apsnd flip_state) strokes)"

lemma map_sum_eq_Inr: "map_sum id f r = Inr y \<longleftrightarrow> (\<exists>x. r = Inr x \<and> y = f x)"
  by (cases r) auto

lemma mirror_append: "mirror (a @ b) = mirror b @ mirror a"
  by (simp add: mirror_def)

lemma key_strokes_mirror:
  assumes "key_strokes X I k KeyPressed = Inr strokes"
  shows "key_strokes X I k KeyReleased = Inr (mirror strokes) \<and> (\<forall>s \<in> set strokes. snd s = KeyPressed)"
  using assms unfolding key_strokes_def mirror_def
  by (cases "modifier_keycodes I (level_modifier_names (rk_level (the (keymap_resolve (in_keymap I) (ks_value k)))))")
    (auto simp: rev_map split: option.splits)

lemma plan_strokes_append:
  "plan_strokes X I (a @ b) =
     (case plan_strokes X I a of Inl e \<Rightarrow> Inl e | Inr s \<Rightarrow> map_sum id (\<lambda>t. s @ t) (plan_strokes X I b))"
proof (induction a)
  case Nil
  then show ?case by (cases "plan_strokes X I b") simp_all
next
  case (Cons k a)
  then show ?case
    by (cases k; cases "plan_strokes X I b") (auto split: sum.splits)
qed

lemma plan_mirror:
  assumes "plan_strokes X I (map (\<lambda>k. (k, KeyPressed)) ks) = Inr presses"
  shows "plan_strokes X I (map (\<lambda>k. (k, KeyReleased)) (rev ks)) = Inr (mirror presses) \<and>
    (\<forall>s \<in> set presses. snd s = KeyPressed)"
  using assms
proof (induction ks arbitrary: presses)
  case Nil
  then show ?case by (simp add: mirror_def)
next
  case (Cons k ks)
  from Cons.prems obtain s rest where s: "key_strokes X I k KeyPressed = Inr s"
    and rest: "plan_strokes X I (map (\<lambda>k. (k, KeyPressed)) ks) = Inr rest" and presses: "presses = s @ rest"
    by (auto simp: map_sum_eq_Inr split: sum.splits)
  from Cons.IH[OF rest] key_strokes_mirror[OF s] show ?case
    by (auto simp: plan_strokes_append presses mirror_append)
qed

text \<open>A chord is a tap: its strokes are presses followed by their mirror image, so that every key
  and every modifier that goes down comes up again, in the reverse order; only the press can fail.\<close>

theorem chord_is_a_tap:
  assumes "key_plan X I (KeyChord ks) KeyPressed = Inr plan"
  shows "\<exists>presses. plan = presses @ mirror presses \<and> presses \<noteq> [] \<and> (\<forall>s \<in> set presses. snd s = KeyPressed)"
proof -
  have "ks \<noteq> []" and plan: "plan_strokes X I (map (\<lambda>k. (k, KeyPressed)) ks @ map (\<lambda>k. (k, KeyReleased)) (rev ks)) = Inr plan"
    using assms by (simp_all add: key_plan_def split: if_splits)
  then obtain presses where p: "plan_strokes X I (map (\<lambda>k. (k, KeyPressed)) ks) = Inr presses"
    by (auto simp: plan_strokes_append split: sum.splits)
  with plan_mirror[OF p] plan have "plan = presses @ mirror presses" "\<forall>s \<in> set presses. snd s = KeyPressed"
    by (simp_all add: plan_strokes_append)
  moreover have "presses \<noteq> []"
    using p \<open>ks \<noteq> []\<close> by (cases ks) (auto simp: key_strokes_def map_sum_eq_Inr split: sum.splits option.splits)
  ultimately show ?thesis by blast
qed

theorem chord_is_a_tap_witness:
  "let X = \<lparr>xk_keysym_from_name = \<lambda>_. 0, xk_utf32_to_keysym = id, xk_keysym_get_name = \<lambda>_. [],
             xk_debug = id, xk_uppercase = id\<rparr>;
       I = \<lparr>in_keymap = bt_insert 97 \<lparr>rk_keycode = 38, rk_level = 1\<rparr> [], in_shift = Some 50, in_level3 = None\<rparr>
   in \<exists>presses. [(50, KeyPressed), (38, KeyPressed), (38, KeyReleased), (50, KeyReleased)] = presses @ mirror presses \<and>
      presses \<noteq> [] \<and> (\<forall>s \<in> set presses. snd s = KeyPressed)"
  unfolding Let_def
  by (rule chord_is_a_tap[where ks = "[\<lparr>ks_name = ''a'', ks_value = 97\<rparr>]"
        and X = "\<lparr>xk_keysym_from_name = \<lambda>_. 0, xk_utf32_to_keysym = id, xk_keysym_get_name = \<lambda>_. [],
          xk_debug = id, xk_uppercase = id\<rparr>"
        and I = "\<lparr>in_keymap = bt_insert 97 \<lparr>rk_keycode = 38, rk_level = 1\<rparr> [], in_shift = Some 50, in_level3 = None\<rparr>"])
    (simp add: key_plan_def key_strokes_def keymap_resolve_def bt_get_def level_modifier_names_def SHIFT_KEYSYM_def)

section \<open>The keymap index\<close>

definition best_key :: "ResolvedKey option \<Rightarrow> ResolvedKey \<Rightarrow> ResolvedKey option" where
  "best_key kept c = (case kept of None \<Rightarrow> Some c | Some r \<Rightarrow> if rk_level c < rk_level r then Some c else Some r)"

lemma index_get:
  "bt_get (fold index_candidate cs table) v = fold (\<lambda>c kept. best_key kept c) (map snd (filter (\<lambda>c. fst c = v) cs)) (bt_get table v)"
proof (induction cs arbitrary: table)
  case (Cons c cs)
  have "bt_get (index_candidate c table) v = (if fst c = v then best_key (bt_get table v) (snd c) else bt_get table v)"
    by (auto simp: index_candidate_def best_key_def case_prod_beta split: option.split)
  with Cons show ?case by simp
qed simp

lemma best_key_first:
  "fold (\<lambda>c kept. best_key kept c) cs (Some r) = Some k \<Longrightarrow>
   (k = r \<and> (\<forall>c \<in> set cs. rk_level r \<le> rk_level c)) \<or>
   (\<exists>before after. cs = before @ k # after \<and> rk_level k < rk_level r \<and>
      (\<forall>c \<in> set before. rk_level k < rk_level c) \<and> (\<forall>c \<in> set after. rk_level k \<le> rk_level c))"
proof (induction cs arbitrary: r)
  case (Cons c cs)
  show ?case
  proof (cases "rk_level c < rk_level r")
    case True
    with Cons.prems have "fold (\<lambda>c kept. best_key kept c) cs (Some c) = Some k" by (simp add: best_key_def)
    from Cons.IH[OF this] show ?thesis
    proof
      assume "k = c \<and> (\<forall>c' \<in> set cs. rk_level c \<le> rk_level c')"
      with True show ?thesis by (intro disjI2 exI[of _ "[]"] exI[of _ cs]) simp
    next
      assume "\<exists>before after. cs = before @ k # after \<and> rk_level k < rk_level c \<and>
        (\<forall>c \<in> set before. rk_level k < rk_level c) \<and> (\<forall>c \<in> set after. rk_level k \<le> rk_level c)"
      then obtain before after where "cs = before @ k # after" "rk_level k < rk_level c"
        "\<forall>c \<in> set before. rk_level k < rk_level c" "\<forall>c \<in> set after. rk_level k \<le> rk_level c" by blast
      with True show ?thesis by (intro disjI2 exI[of _ "c # before"] exI[of _ after]) simp
    qed
  next
    case False
    with Cons.prems have "fold (\<lambda>c kept. best_key kept c) cs (Some r) = Some k" by (simp add: best_key_def)
    from Cons.IH[OF this] show ?thesis
    proof
      assume "\<exists>before after. cs = before @ k # after \<and> rk_level k < rk_level r \<and>
        (\<forall>c \<in> set before. rk_level k < rk_level c) \<and> (\<forall>c \<in> set after. rk_level k \<le> rk_level c)"
      then obtain before after where "cs = before @ k # after" "rk_level k < rk_level r"
        "\<forall>c \<in> set before. rk_level k < rk_level c" "\<forall>c \<in> set after. rk_level k \<le> rk_level c" by blast
      with False show ?thesis by (intro disjI2 exI[of _ "c # before"] exI[of _ after]) simp
    qed (use False in simp)
  qed
qed simp

text \<open>The keymap index gives a keysym the key on the lowest level that produces it, and among those
  the first one, which has the lowest keycode; a keysym of no key has none.\<close>

theorem keymap_prefers_low_levels:
  "case keymap_resolve (index_keymap K) v of
     None \<Rightarrow> \<forall>c \<in> set (keymap_candidates K). fst c \<noteq> v
   | Some k \<Rightarrow> (\<exists>before after. map snd (filter (\<lambda>c. fst c = v) (keymap_candidates K)) = before @ k # after \<and>
       (\<forall>c \<in> set before. rk_level k < rk_level c) \<and> (\<forall>c \<in> set after. rk_level k \<le> rk_level c))"
proof -
  let ?cs = "map snd (filter (\<lambda>c. fst c = v) (keymap_candidates K))"
  have get: "keymap_resolve (index_keymap K) v = fold (\<lambda>c kept. best_key kept c) ?cs None"
    by (simp add: keymap_resolve_def index_keymap_def index_get)
  show ?thesis
  proof (cases ?cs)
    case Nil
    then show ?thesis unfolding get by (auto simp: filter_empty_conv)
  next
    case (Cons c cs)
    then have start: "fold (\<lambda>c kept. best_key kept c) ?cs None = fold (\<lambda>c kept. best_key kept c) cs (Some c)"
      by (simp add: best_key_def)
    have "fold (\<lambda>c kept. best_key kept c) cs (Some r) \<noteq> None" for r
      by (induction cs arbitrary: r) (auto simp: best_key_def)
    then obtain k where k: "fold (\<lambda>c kept. best_key kept c) cs (Some c) = Some k" by (auto simp: not_None_eq)
    from best_key_first[OF k] have "\<exists>before after. c # cs = before @ k # after \<and>
       (\<forall>c \<in> set before. rk_level k < rk_level c) \<and> (\<forall>c \<in> set after. rk_level k \<le> rk_level c)"
    proof
      assume "k = c \<and> (\<forall>c' \<in> set cs. rk_level c \<le> rk_level c')"
      then show ?thesis by (intro exI[of _ "[]"] exI[of _ cs]) simp
    next
      assume "\<exists>before after. cs = before @ k # after \<and> rk_level k < rk_level c \<and>
        (\<forall>c \<in> set before. rk_level k < rk_level c) \<and> (\<forall>c \<in> set after. rk_level k \<le> rk_level c)"
      then obtain before after where "cs = before @ k # after" "rk_level k < rk_level c"
        "\<forall>c \<in> set before. rk_level k < rk_level c" "\<forall>c \<in> set after. rk_level k \<le> rk_level c" by blast
      then show ?thesis by (intro exI[of _ "c # before"] exI[of _ after]) simp
    qed
    moreover have "fold (\<lambda>c kept. best_key kept c) ?cs None = Some k" using start k by simp
    ultimately show ?thesis unfolding get by (simp only: option.case Cons)
  qed
qed

text \<open>The keysym 65 is on the second level of key 8 and on the first of key 9.\<close>

theorem keymap_prefers_low_levels_witness:
  "let K = \<lparr>km_min_keycode = 8, km_max_keycode = 9, km_num_layouts = Suc 0, km_num_levels = \<lambda>_ _. 2,
             km_syms = \<lambda>key _ level. if key = 8 then (if level = 0 then [97] else [65]) else if level = 0 then [65] else []\<rparr>
   in keymap_resolve (index_keymap K) 65 = Some \<lparr>rk_keycode = 9, rk_level = 0\<rparr> \<and>
      (\<exists>before after. map snd (filter (\<lambda>c. fst c = 65) (keymap_candidates K)) = before @ \<lparr>rk_keycode = 9, rk_level = 0\<rparr> # after \<and>
        before = [\<lparr>rk_keycode = 8, rk_level = 1\<rparr>] \<and> after = [])"
proof -
  let ?K = "\<lparr>km_min_keycode = 8, km_max_keycode = 9, km_num_layouts = Suc 0, km_num_levels = \<lambda>_ _. 2,
             km_syms = \<lambda>key _ level. if key = 8 then (if level = 0 then [97] else [65]) else if level = 0 then [65] else []\<rparr>"
  have cands: "keymap_candidates ?K = [(97, \<lparr>rk_keycode = 8, rk_level = 0\<rparr>), (65, \<lparr>rk_keycode = 8, rk_level = 1\<rparr>),
      (65, \<lparr>rk_keycode = 9, rk_level = 0\<rparr>)]"
    by (simp add: keymap_candidates_def upt_rec)
  then have "keymap_resolve (index_keymap ?K) 65 = Some \<lparr>rk_keycode = 9, rk_level = 0\<rparr>"
    by (simp add: index_keymap_def keymap_resolve_def index_candidate_def bt_get_def)
  with keymap_prefers_low_levels[of ?K 65] cands show ?thesis by (simp add: Let_def)
qed

end
