(* ===== verification/Compositor_State.thy ===== *)
theory Compositor_State
  imports Compositor_Bridge Compositor_Input
begin

text \<open>
  The compositor's hub: event emission (\<open>crates/adesk-compositor/src/events.rs\<close>), what protocol
  handlers and commands do to windows, seat and clients (\<open>state.rs\<close>), and the command dispatcher
  (\<open>dispatch.rs\<close>). The broadcast is the list of events sent so far, the connection to the clients the
  list of messages sent to them; rendering is a parameter. Each event reads the clock once, so the
  reading is a function of its sequence number.
\<close>

section \<open>Errors and messages\<close>

datatype CompositorError =
    CeThreadSpawn string
  | CeDisplay string
  | CeSocket string
  | CeEventLoop string
  | CeRenderer string
  | CeKeyboard string
  | CeNotReady
  | CeStartupAborted
  | CeStopped
  | CeUnknownWindow WindowId
  | CeInvalidRequest string
  | CeWindowManagement string
  | CeRender string
  | CeInternal string

fun compositor_error_code :: "CompositorError \<Rightarrow> ErrorCode" where
  "compositor_error_code (CeUnknownWindow _) = UnknownWindow"
| "compositor_error_code (CeInvalidRequest _) = InvalidRequest"
| "compositor_error_code (CeRender _) = RenderFailed"
| "compositor_error_code CeNotReady = ShuttingDown"
| "compositor_error_code CeStartupAborted = ShuttingDown"
| "compositor_error_code CeStopped = ShuttingDown"
| "compositor_error_code _ = Internal"

fun compositor_error_message :: "CompositorError \<Rightarrow> string" where
  "compositor_error_message (CeThreadSpawn e) = ''failed to spawn compositor thread: '' @ e"
| "compositor_error_message (CeDisplay e) = ''failed to create wayland display: '' @ e"
| "compositor_error_message (CeSocket e) = ''failed to bind wayland socket: '' @ e"
| "compositor_error_message (CeEventLoop e) = ''failed to create compositor event loop: '' @ e"
| "compositor_error_message (CeRenderer e) = ''renderer initialization failed: '' @ e"
| "compositor_error_message (CeKeyboard e) = ''keyboard initialization failed: '' @ e"
| "compositor_error_message CeNotReady = ''compositor is not ready yet''"
| "compositor_error_message CeStartupAborted = ''compositor thread terminated before reporting readiness''"
| "compositor_error_message CeStopped = ''compositor thread has terminated''"
| "compositor_error_message (CeUnknownWindow w) = ''window '' @ decimal (unat (window_raw w)) @ '' is not known''"
| "compositor_error_message (CeInvalidRequest e) = ''invalid request: '' @ e"
| "compositor_error_message (CeWindowManagement e) = ''window management error: '' @ e"
| "compositor_error_message (CeRender e) = ''rendering failed: '' @ e"
| "compositor_error_message (CeInternal e) = ''internal error: '' @ e"

definition compositor_error_into :: "CompositorError \<Rightarrow> Error" where
  "compositor_error_into e = Error_new (compositor_error_code e) (compositor_error_message e)"

datatype ClientMessage =
    MsgConfigure ObjectId Rect bool
  | MsgClose ObjectId
  | MsgPopupDone ObjectId
  | MsgKey u32 KeyState u32
  | MsgMotion ObjectId Point u32
  | MsgButton u32 ButtonState u32
  | MsgAxis f64 f64 u32

section \<open>State\<close>

record CompositorState =
  cs_output_size :: Size
  cs_last_seq :: u64
  cs_sent :: "RuntimeEvent list"
  cs_wm :: WmBridge
  cs_injector :: Injector
  cs_focus :: "ObjectId option"
  cs_out :: "ClientMessage list"

record 'i RenderedFrame =
  rf_image :: 'i
  rf_commit_seq :: u64
  rf_damage :: "Rect list"

text \<open>What a call finds around it: the clock, the clients, libxkbcommon and the renderer.\<close>

record 'i Env =
  ev_ts :: "u64 \<Rightarrow> u64"
  ev_now :: instant
  ev_uptime_ms :: u64
  ev_clients :: Clients
  ev_xkb :: Xkb
  ev_render_window :: "ObjectId \<Rightarrow> Rect \<Rightarrow> Rect option \<Rightarrow> u32 option \<Rightarrow> CompositorError + 'i RenderedFrame"
  ev_render_output ::
    "Size \<Rightarrow> (Rect \<times> ObjectId) list \<Rightarrow> Rect option \<Rightarrow> u32 option \<Rightarrow> CompositorError + 'i RenderedFrame"

definition State_new :: "Size \<Rightarrow> Injector \<Rightarrow> CompositorState" where
  "State_new sz injector =
     \<lparr>cs_output_size = sz, cs_last_seq = 0, cs_sent = [], cs_wm = WmBridge_new sz, cs_injector = injector,
      cs_focus = None, cs_out = []\<rparr>"

definition next_seq :: "CompositorState \<Rightarrow> u64 \<times> CompositorState" where
  "next_seq st = (cs_last_seq st + 1, st\<lparr>cs_last_seq := cs_last_seq st + 1\<rparr>)"

definition emit :: "'i Env \<Rightarrow> (u64 \<Rightarrow> u64 \<Rightarrow> RuntimeEvent) \<Rightarrow> CompositorState \<Rightarrow> CompositorState" where
  "emit E event st =
     (let (s, st) = next_seq st in st\<lparr>cs_sent := cs_sent st @ [event s (ev_ts E s)]\<rparr>)"

definition send_message :: "ClientMessage \<Rightarrow> CompositorState \<Rightarrow> CompositorState" where
  "send_message m st = st\<lparr>cs_out := cs_out st @ [m]\<rparr>"

section \<open>Applying a decision\<close>

definition dismiss_stale_grab :: "WindowId \<Rightarrow> CompositorState \<Rightarrow> CompositorState" where
  "dismiss_stale_grab keep st =
     (case wb_grab (cs_wm st) of
        None \<Rightarrow> st
      | Some grab \<Rightarrow>
          if gr_window_id grab = keep then st
          else
            let (taken, b) = take_popup_grab (cs_wm st); st1 = st\<lparr>cs_wm := b\<rparr>
            in case taken of Some (_, popup) \<Rightarrow> send_message (MsgPopupDone popup) st1 | None \<Rightarrow> st1)"

definition apply_activate :: "'i Env \<Rightarrow> WindowId \<Rightarrow> WindowId option \<Rightarrow> CompositorState \<Rightarrow> CompositorState" where
  "apply_activate E i previous st =
     (let st1 = dismiss_stale_grab i st;
          st2 = st1\<lparr>cs_focus := toplevel_of (cs_wm st1) i\<rparr>;
          st3 = emit E (\<lambda>s t. WindowActivated s t i previous) st2
      in emit E (\<lambda>s t. FocusChanged s t (Some i)) st3)"

fun apply_action :: "'i Env \<Rightarrow> WindowId option \<Rightarrow> WmAction \<Rightarrow> CompositorState \<Rightarrow> CompositorState" where
  "apply_action E previous (ConfigureWindow i rect) st =
     (case toplevel_of (cs_wm st) i of
        Some t \<Rightarrow> send_message (MsgConfigure t rect (active_window (wb_model (cs_wm st)) = Some i)) st
      | None \<Rightarrow> st)"
| "apply_action E previous (Activate i) st = apply_activate E i previous st"
| "apply_action E previous (ActivatePrevious i) st = apply_activate E i None st"
| "apply_action E previous WmNone st = st"

definition apply_decision :: "'i Env \<Rightarrow> WmDecision \<Rightarrow> CompositorState \<Rightarrow> CompositorState" where
  "apply_decision E d st = fold (apply_action E (wd_previous_focus d)) (wd_actions d) st"

section \<open>Protocol handlers\<close>

definition on_toplevel_mapped :: "'i Env \<Rightarrow> ObjectId \<Rightarrow> CompositorState \<Rightarrow> CompositorState" where
  "on_toplevel_mapped E t st =
     (let pid = cl_pid (ev_clients E) t;
          created_seq = cs_last_seq st;
          (outcome, b) = map_toplevel (ev_clients E) (ev_now E) t pid created_seq (cs_wm st);
          st1 = st\<lparr>cs_wm := b\<rparr>
      in case outcome of
           AlreadyMapped _ \<Rightarrow> st1
         | MapCreated m \<Rightarrow>
             apply_decision E (mw_decision m)
               (emit E (\<lambda>s ts. WindowCreated s ts (mw_id m) (mw_app_id m) (mw_pid m) (mw_launch_id m) (mw_title m)) st1))"

definition on_toplevel_registered :: "ObjectId \<Rightarrow> CompositorState \<Rightarrow> CompositorState" where
  "on_toplevel_registered t st =
     (let b = snd (register_toplevel t (cs_wm st))
      in send_message (MsgConfigure t (config_tiled_rect (config (wb_manager b))) True) (st\<lparr>cs_wm := b\<rparr>))"

definition on_toplevel_destroyed :: "'i Env \<Rightarrow> ObjectId \<Rightarrow> CompositorState \<Rightarrow> CompositorState" where
  "on_toplevel_destroyed E t st =
     (case destroy_toplevel t (cs_wm st) of
        None \<Rightarrow> st
      | Some (d, b) \<Rightarrow>
          let st1 = st\<lparr>cs_wm := b\<rparr>;
              st2 = (case dw_window_id d of
                       None \<Rightarrow> st1
                     | Some w \<Rightarrow>
                         emit E (\<lambda>s ts. WindowDestroyed s ts w)
                           (fold (\<lambda>p. emit E (\<lambda>s ts. PopupDisappeared s ts w p)) (dw_popup_ids d) st1))
          in apply_decision E (dw_decision d) st2)"

definition on_title_changed :: "'i Env \<Rightarrow> ObjectId \<Rightarrow> CompositorState \<Rightarrow> CompositorState" where
  "on_title_changed E t st =
     (case wb_title_changed (ev_clients E) t (cs_wm st) of
        None \<Rightarrow> st
      | Some (c, b) \<Rightarrow>
          apply_decision E (tc_decision c)
            (emit E (\<lambda>s ts. TitleChanged s ts (tc_window_id c) (tc_title c)) (st\<lparr>cs_wm := b\<rparr>)))"

definition on_app_id_changed :: "'i Env \<Rightarrow> ObjectId \<Rightarrow> CompositorState \<Rightarrow> CompositorState" where
  "on_app_id_changed E t st =
     (case wb_app_id_changed (ev_clients E) (ev_now E) t (cs_wm st) of
        None \<Rightarrow> st
      | Some (_, b) \<Rightarrow> st\<lparr>cs_wm := b\<rparr>)"

definition note_launch :: "'i Env \<Rightarrow> LaunchId \<Rightarrow> AppId \<Rightarrow> i32 option \<Rightarrow> CompositorState \<Rightarrow> CompositorState" where
  "note_launch E i app pid st = st\<lparr>cs_wm := wb_note_launch i app pid (ev_now E) (cs_wm st)\<rparr>"

definition on_popup_created :: "'i Env \<Rightarrow> ObjectId \<Rightarrow> CompositorState \<Rightarrow> CompositorState" where
  "on_popup_created E p st =
     (case popup_added (ev_clients E) p (cl_popup_offset (ev_clients E) p) (cs_wm st) of
        None \<Rightarrow> st
      | Some (a, b) \<Rightarrow>
          emit E (\<lambda>s ts. PopupAppeared s ts (pe_window_id a) (pe_popup_id a)) (st\<lparr>cs_wm := b\<rparr>))"

definition on_popup_destroyed :: "'i Env \<Rightarrow> ObjectId \<Rightarrow> CompositorState \<Rightarrow> CompositorState" where
  "on_popup_destroyed E p st =
     (case popup_removed p (cs_wm st) of
        None \<Rightarrow> st
      | Some (r, b) \<Rightarrow>
          emit E (\<lambda>s ts. PopupDisappeared s ts (pe_window_id r) (pe_popup_id r)) (st\<lparr>cs_wm := b\<rparr>))"

text \<open>The way from a surface up to the window's root; the first argument is what is left of the depth.\<close>

fun offset_to_root :: "nat \<Rightarrow> Clients \<Rightarrow> ObjectId option \<Rightarrow> ObjectId \<Rightarrow> i32 \<times> i32 \<Rightarrow> i32 \<times> i32" where
  "offset_to_root 0 C root s offset = offset"
| "offset_to_root (Suc n) C root s offset =
     (if root = Some s then offset
      else
        case cl_view_offset C s of
          None \<Rightarrow> offset
        | Some view \<Rightarrow>
            let offset' = (saturating_add_i32 (fst offset) (fst view), saturating_add_i32 (snd offset) (snd view))
            in case cl_parent C s of None \<Rightarrow> offset' | Some parent \<Rightarrow> offset_to_root n C root parent offset')"

definition window_offset :: "Clients \<Rightarrow> WmBridge \<Rightarrow> WindowId \<Rightarrow> ObjectId \<Rightarrow> i32 \<times> i32" where
  "window_offset C b w s =
     (case reg_popup_window_offset (wb_surfaces b) s of
        Some offset \<Rightarrow> offset
      | None \<Rightarrow>
          let root = bt_get (wb_roots b) w
          in if root = Some s then (0, 0) else offset_to_root MAX_SURFACE_TREE_DEPTH C root s (0, 0))"

definition positive_part :: "i32 \<Rightarrow> u32" where
  "positive_part v = (if sint v < 0 then 0 else v)"

definition div_euclid_i32 :: "i32 \<Rightarrow> i32 \<Rightarrow> i32" where
  "div_euclid_i32 a b = word_of_int (sint a div sint b)"

definition div_ceil_u32 :: "u32 \<Rightarrow> u32 \<Rightarrow> u32" where
  "div_ceil_u32 a b = word_of_nat ((unat a + unat b - 1) div unat b)"

fun damage_rect :: "i32 \<Rightarrow> i32 \<times> i32 \<Rightarrow> SurfaceDamage \<Rightarrow> Rect" where
  "damage_rect scale offset (DamageSurface x y w h) =
     Rect_new (saturating_add_i32 x (fst offset)) (saturating_add_i32 y (snd offset)) (positive_part w) (positive_part h)"
| "damage_rect scale offset (DamageBuffer x y w h) =
     Rect_new (saturating_add_i32 (div_euclid_i32 x scale) (fst offset)) (saturating_add_i32 (div_euclid_i32 y scale) (snd offset))
       (div_ceil_u32 (positive_part w) scale) (div_ceil_u32 (positive_part h) scale)"

definition push_non_empty :: "Rect \<Rightarrow> Region \<Rightarrow> Region" where
  "push_non_empty r g = (if \<not> rect_is_empty r then region_push g r else g)"

definition surface_damage :: "Clients \<Rightarrow> ObjectId \<Rightarrow> i32 \<times> i32 \<Rightarrow> Region" where
  "surface_damage C s offset =
     (let scale = (if sint (cl_buffer_scale C s) < 1 then 1 else cl_buffer_scale C s);
          region = fold (\<lambda>d. push_non_empty (damage_rect scale offset d)) (cl_damage C s) region_empty
      in if region_is_empty region then
           (case cl_surface_size C s of
              None \<Rightarrow> region
            | Some (w, h) \<Rightarrow>
                push_non_empty (Rect_new (fst offset) (snd offset) (positive_part w) (positive_part h)) region)
         else region)"

definition on_surface_commit :: "'i Env \<Rightarrow> ObjectId \<Rightarrow> CompositorState \<Rightarrow> CompositorState" where
  "on_surface_commit E s st =
     (let C = ev_clients E;
          st1 = (case unmapped_toplevel (cs_wm st) s of
                   Some t \<Rightarrow> if cl_has_buffer C s then on_toplevel_mapped E t st else st
                 | None \<Rightarrow> st)
      in case window_for_surface C (cs_wm st1) s of
           None \<Rightarrow> st1
         | Some w \<Rightarrow>
             let damage = surface_damage C s (window_offset C (cs_wm st1) w s);
                 (commit_seq, b) = wb_commit w damage (cs_wm st1)
             in emit E (\<lambda>q ts. SurfaceCommit q ts w commit_seq damage) (st1\<lparr>cs_wm := b\<rparr>))"

definition reposition_request :: "'i Env \<Rightarrow> bool \<Rightarrow> ObjectId \<Rightarrow> CompositorState \<Rightarrow> CompositorState" where
  "reposition_request E can_reconfigure p st =
     (if \<not> can_reconfigure then on_popup_destroyed E p (send_message (MsgPopupDone p) st) else st)"

section \<open>Commands\<close>

record CompositorSnapshot =
  sn_windows :: "WindowInfo list"
  sn_active_window_id :: "WindowId option"
  sn_keyboard_focus :: "WindowId option"
  sn_seq :: u64
  sn_ts_ms :: u64

definition state_snapshot :: "'i Env \<Rightarrow> CompositorState \<Rightarrow> CompositorSnapshot" where
  "state_snapshot E st =
     \<lparr>sn_windows = wb_windows (cs_wm st), sn_active_window_id = active_window (wb_model (cs_wm st)),
      sn_keyboard_focus = keyboard_focus (cs_wm st), sn_seq = cs_last_seq st, sn_ts_ms = ev_uptime_ms E\<rparr>"

definition activate_window :: "'i Env \<Rightarrow> WindowId \<Rightarrow> CompositorState \<Rightarrow> CompositorState \<times> (CompositorError + unit)" where
  "activate_window E w st =
     (case wb_activate w (cs_wm st) of
        None \<Rightarrow> (st, Inl (CeUnknownWindow w))
      | Some (d, b) \<Rightarrow> (apply_decision E d (st\<lparr>cs_wm := b\<rparr>), Inr ()))"

definition close_window :: "WindowId \<Rightarrow> CompositorState \<Rightarrow> CompositorState \<times> (CompositorError + unit)" where
  "close_window w st =
     (case toplevel_of (cs_wm st) w of
        None \<Rightarrow> (st, Inl (CeUnknownWindow w))
      | Some t \<Rightarrow> (send_message (MsgClose t) st, Inr ()))"

definition focused_window :: "CompositorState \<Rightarrow> CompositorError + WindowId" where
  "focused_window st =
     (case or_else (keyboard_focus (cs_wm st)) (active_window (wb_model (cs_wm st))) of
        None \<Rightarrow> Inl (CeInvalidRequest ''no window has keyboard focus'')
      | Some w \<Rightarrow> Inr w)"

definition event_time :: "'i Env \<Rightarrow> u32" where
  "event_time E = ucast (ev_uptime_ms E)"

definition inject_key :: "'i Env \<Rightarrow> KeyCode \<Rightarrow> KeyState \<Rightarrow> CompositorState \<Rightarrow> CompositorState \<times> (CompositorError + unit)" where
  "inject_key E key state st =
     (case key_plan (ev_xkb E) (cs_injector st) key state of
        Inl e \<Rightarrow> (st, Inl (CeInvalidRequest e))
      | Inr plan \<Rightarrow>
          (case focused_window st of
             Inl e \<Rightarrow> (st, Inl e)
           | Inr w \<Rightarrow>
               if toplevel_of (cs_wm st) w = None then (st, Inl (CeUnknownWindow w))
               else (fold (\<lambda>(k, ks). send_message (MsgKey k ks (event_time E))) plan st, Inr ())))"

definition inject_pointer_move :: "'i Env \<Rightarrow> Position \<Rightarrow> CompositorState \<Rightarrow> CompositorState \<times> (CompositorError + unit)" where
  "inject_pointer_move E pos st =
     (case focused_window st of
        Inl e \<Rightarrow> (st, Inl e)
      | Inr w \<Rightarrow>
          (case toplevel_of (cs_wm st) w of
             None \<Rightarrow> (st, Inl (CeUnknownWindow w))
           | Some t \<Rightarrow>
               (case resolve_position (wb_model (cs_wm st)) w pos of
                  None \<Rightarrow> (st, Inl (CeWindowManagement (''unknown window '' @ decimal (unat (window_raw w)))))
                | Some p \<Rightarrow> (send_message (MsgMotion t p (event_time E)) st, Inr ()))))"

definition inject_pointer_button ::
  "'i Env \<Rightarrow> Button \<Rightarrow> ButtonState \<Rightarrow> CompositorState \<Rightarrow> CompositorState \<times> (CompositorError + unit)" where
  "inject_pointer_button E button state st =
     (case focused_window st of
        Inl e \<Rightarrow> (st, Inl e)
      | Inr _ \<Rightarrow> (send_message (MsgButton (button_code button) state (event_time E)) st, Inr ()))"

definition inject_pointer_axis :: "'i Env \<Rightarrow> f64 \<Rightarrow> f64 \<Rightarrow> CompositorState \<Rightarrow> CompositorState \<times> (CompositorError + unit)" where
  "inject_pointer_axis E dx dy st =
     (case focused_window st of
        Inl e \<Rightarrow> (st, Inl e)
      | Inr _ \<Rightarrow> (send_message (MsgAxis dx dy (event_time E)) st, Inr ()))"

definition render_window ::
  "'i Env \<Rightarrow> WindowId \<Rightarrow> Rect option \<Rightarrow> u32 option \<Rightarrow> CompositorState \<Rightarrow> CompositorError + 'i RenderedFrame" where
  "render_window E w region max_dimension st =
     (case window_geometry (cs_wm st) w of
        None \<Rightarrow> Inl (CeUnknownWindow w)
      | Some geometry \<Rightarrow>
          (case toplevel_of (cs_wm st) w of
             None \<Rightarrow> Inl (CeUnknownWindow w)
           | Some t \<Rightarrow>
               map_sum id (\<lambda>f. f\<lparr>rf_commit_seq := last_commit_seq (cs_wm st) w\<rparr>)
                 (ev_render_window E t geometry region max_dimension)))"

definition render_output ::
  "'i Env \<Rightarrow> Rect option \<Rightarrow> u32 option \<Rightarrow> CompositorState \<Rightarrow> CompositorError + 'i RenderedFrame" where
  "render_output E region max_dimension st =
     (let windows =
        (case active_window (wb_model (cs_wm st)) of
           None \<Rightarrow> []
         | Some active \<Rightarrow>
             (case (toplevel_of (cs_wm st) active, window_geometry (cs_wm st) active) of
                (Some t, Some geometry) \<Rightarrow> [(geometry, t)]
              | _ \<Rightarrow> []))
      in ev_render_output E (cs_output_size st) windows region max_dimension)"

datatype RuntimeCommand =
    RenderWindow WindowId "Rect option" "u32 option"
  | RenderOutput "Rect option" "u32 option"
  | QueryState
  | NoteLaunch LaunchId AppId "i32 option"
  | ReserveSeq
  | ActivateWindow WindowId
  | CloseWindow WindowId
  | PointerMove Position
  | PointerButton Button ButtonState
  | PointerAxis f64 f64
  | KeyEvent KeyCode KeyState
  | Shutdown

datatype 'i Reply =
    ReplyFrame "Error + 'i RenderedFrame"
  | ReplyState CompositorSnapshot
  | ReplySeq u64
  | ReplyUnit
  | ReplyResult "Error + unit"

datatype CommandOutcome = Continue | ShutdownNow

fun handle_command :: "'i Env \<Rightarrow> RuntimeCommand \<Rightarrow> CompositorState \<Rightarrow> CompositorState \<times> 'i Reply \<times> CommandOutcome" where
  "handle_command E (RenderWindow w region m) st =
     (st, ReplyFrame (map_sum compositor_error_into id (render_window E w region m st)), Continue)"
| "handle_command E (RenderOutput region m) st =
     (st, ReplyFrame (map_sum compositor_error_into id (render_output E region m st)), Continue)"
| "handle_command E QueryState st = (st, ReplyState (state_snapshot E st), Continue)"
| "handle_command E (NoteLaunch i app pid) st = (note_launch E i app pid st, ReplyUnit, Continue)"
| "handle_command E ReserveSeq st = (let (s, st) = next_seq st in (st, ReplySeq s, Continue))"
| "handle_command E (ActivateWindow w) st =
     (let (st, r) = activate_window E w st in (st, ReplyResult (map_sum compositor_error_into id r), Continue))"
| "handle_command E (CloseWindow w) st =
     (let (st, r) = close_window w st in (st, ReplyResult (map_sum compositor_error_into id r), Continue))"
| "handle_command E (PointerMove pos) st =
     (let (st, r) = inject_pointer_move E pos st in (st, ReplyResult (map_sum compositor_error_into id r), Continue))"
| "handle_command E (PointerButton b s) st =
     (let (st, r) = inject_pointer_button E b s st in (st, ReplyResult (map_sum compositor_error_into id r), Continue))"
| "handle_command E (PointerAxis dx dy) st =
     (let (st, r) = inject_pointer_axis E dx dy st in (st, ReplyResult (map_sum compositor_error_into id r), Continue))"
| "handle_command E (KeyEvent key s) st =
     (let (st, r) = inject_key E key s st in (st, ReplyResult (map_sum compositor_error_into id r), Continue))"
| "handle_command E Shutdown st = (st, ReplyUnit, ShutdownNow)"

end
