(* ===== verification/Proto_Frame.thy ===== *)
theory Proto_Frame
  imports Core_Types Rust_Text
begin

text \<open>
  The wire protocol (\<open>crates/adesk-proto/src\<close>): event kinds and payloads (\<open>event.rs\<close>), methods
  (\<open>methods.rs\<close>), frames and their discrimination (\<open>frame.rs\<close>), the line codec (\<open>codec.rs\<close>), errors
  (\<open>error.rs\<close>) and image payloads (\<open>image.rs\<close>). A JSON value is a datatype; what \<open>serde\<close> derives for the
  parameter, payload and error structs, the JSON text and base64 are parameters.
\<close>

section \<open>JSON values and errors\<close>

datatype Value =
    JNull
  | JBool bool
  | JNat u64
  | JNeg "64 word"
  | JFloat f64
  | JString string
  | JArray "Value list"
  | JObject "(string \<times> Value) list"

definition object_get :: "string \<Rightarrow> (string \<times> Value) list \<Rightarrow> Value option" where
  "object_get k o' = map_of o' k"

definition get_u64 :: "string \<Rightarrow> (string \<times> Value) list \<Rightarrow> u64 option" where
  "get_u64 k o' = (case object_get k o' of Some (JNat n) \<Rightarrow> Some n | _ \<Rightarrow> None)"

text \<open>Absent or \<open>null\<close> stands for the empty object.\<close>

definition or_empty :: "Value option \<Rightarrow> Value" where
  "or_empty v = (case v of None \<Rightarrow> JObject [] | Some JNull \<Rightarrow> JObject [] | Some v \<Rightarrow> v)"

datatype ProtoError =
    PeMalformed string
  | PeUnknownMethod string
  | PeInvalidParams string string
  | PeInvalidEventData string string
  | PeUnknownEventKind string
  | PeInvalidResult string
  | PeVersionMismatch u32 u32
  | PeJson string
  | PeBase64 string

fun proto_error_code :: "ProtoError \<Rightarrow> ErrorCode" where
  "proto_error_code (PeUnknownMethod _) = UnknownMethod"
| "proto_error_code (PeVersionMismatch _ _) = ProtocolVersionMismatch"
| "proto_error_code _ = InvalidRequest"

fun proto_error_message :: "ProtoError \<Rightarrow> string" where
  "proto_error_message (PeMalformed m) = ''malformed frame: '' @ m"
| "proto_error_message (PeUnknownMethod m) = ''unknown method: '' @ m"
| "proto_error_message (PeInvalidParams me m) = ''invalid params for `'' @ me @ ''`: '' @ m"
| "proto_error_message (PeInvalidEventData k m) = ''invalid event data for `'' @ k @ ''`: '' @ m"
| "proto_error_message (PeUnknownEventKind k) = ''unknown event kind: '' @ k"
| "proto_error_message (PeInvalidResult m) = ''invalid result payload: '' @ m"
| "proto_error_message (PeVersionMismatch e g) =
     ''protocol version mismatch: this build speaks v'' @ decimal (unat e) @ '', peer sent v'' @ decimal (unat g)"
| "proto_error_message (PeJson m) = ''json error: '' @ m"
| "proto_error_message (PeBase64 m) = ''base64 error: '' @ m"

definition proto_error_into :: "ProtoError \<Rightarrow> Error" where
  "proto_error_into e = Error_new (proto_error_code e) (proto_error_message e)"

section \<open>Event kinds and payloads\<close>

datatype ProtoKind =
    PWindowCreated
  | PWindowDestroyed
  | PWindowActivated
  | PTitleChanged
  | PSurfaceCommit
  | PSurfaceDamage
  | PFocusChanged
  | PPopupAppeared
  | PPopupDisappeared
  | PQuiet
  | PAppLaunched
  | PNotification
  | PNotificationClosed
  | PNotificationAction
  | PInspectFrame

fun kind_name :: "ProtoKind \<Rightarrow> string" where
  "kind_name PWindowCreated = ''window_created''"
| "kind_name PWindowDestroyed = ''window_destroyed''"
| "kind_name PWindowActivated = ''window_activated''"
| "kind_name PTitleChanged = ''title_changed''"
| "kind_name PSurfaceCommit = ''surface_commit''"
| "kind_name PSurfaceDamage = ''surface_damage''"
| "kind_name PFocusChanged = ''focus_changed''"
| "kind_name PPopupAppeared = ''popup_appeared''"
| "kind_name PPopupDisappeared = ''popup_disappeared''"
| "kind_name PQuiet = ''quiet''"
| "kind_name PAppLaunched = ''app_launched''"
| "kind_name PNotification = ''notification''"
| "kind_name PNotificationClosed = ''notification_closed''"
| "kind_name PNotificationAction = ''notification_action''"
| "kind_name PInspectFrame = ''inspect_frame''"

definition proto_kinds :: "ProtoKind list" where
  "proto_kinds =
     [PWindowCreated, PWindowDestroyed, PWindowActivated, PTitleChanged, PSurfaceCommit, PSurfaceDamage,
      PFocusChanged, PPopupAppeared, PPopupDisappeared, PQuiet, PAppLaunched, PNotification,
      PNotificationClosed, PNotificationAction, PInspectFrame]"

definition SUBSCRIBABLE :: "ProtoKind list" where
  "SUBSCRIBABLE =
     [PWindowCreated, PWindowDestroyed, PWindowActivated, PTitleChanged, PSurfaceCommit, PSurfaceDamage,
      PFocusChanged, PPopupAppeared, PPopupDisappeared, PQuiet, PAppLaunched, PNotification,
      PNotificationClosed, PNotificationAction]"

definition is_subscribable :: "ProtoKind \<Rightarrow> bool" where
  "is_subscribable k \<longleftrightarrow> k \<noteq> PInspectFrame"

definition kind_of_name :: "string \<Rightarrow> ProtoKind option" where
  "kind_of_name name = find (\<lambda>k. kind_name k = name) proto_kinds"

fun kind_matches :: "ProtoKind \<Rightarrow> RuntimeEvent \<Rightarrow> bool" where
  "kind_matches k (SurfaceCommit _ _ _ _ damage) =
     (case k of PSurfaceCommit \<Rightarrow> True | PSurfaceDamage \<Rightarrow> \<not> region_is_empty damage | _ \<Rightarrow> False)"
| "kind_matches k (WindowCreated _ _ _ _ _ _ _) = (k = PWindowCreated)"
| "kind_matches k (WindowDestroyed _ _ _) = (k = PWindowDestroyed)"
| "kind_matches k (WindowActivated _ _ _ _) = (k = PWindowActivated)"
| "kind_matches k (TitleChanged _ _ _ _) = (k = PTitleChanged)"
| "kind_matches k (FocusChanged _ _ _) = (k = PFocusChanged)"
| "kind_matches k (PopupAppeared _ _ _ _) = (k = PPopupAppeared)"
| "kind_matches k (PopupDisappeared _ _ _ _) = (k = PPopupDisappeared)"
| "kind_matches k (AppLaunched _ _ _ _ _) = (k = PAppLaunched)"
| "kind_matches k (NotificationPosted _ _ _) = (k = PNotification)"
| "kind_matches k (NotificationClosed _ _ _ _) = (k = PNotificationClosed)"
| "kind_matches k (NotificationInvoked _ _ _ _) = (k = PNotificationAction)"

datatype ImageFormat = Png | Rgba8Format

record ImagePayload =
  im_width :: u32
  im_height :: u32
  im_format :: ImageFormat
  im_stride :: "u32 option"
  im_data :: string
  im_scale :: f64

datatype EventPayload =
    PlWindowCreated WindowId "AppId option" "i32 option" "LaunchId option" "string option"
  | PlWindowDestroyed WindowId
  | PlWindowActivated WindowId "WindowId option"
  | PlTitleChanged WindowId "string option"
  | PlSurfaceCommit WindowId u64 Region
  | PlFocusChanged "WindowId option"
  | PlPopupAppeared WindowId u64
  | PlPopupDisappeared WindowId u64
  | PlAppLaunched LaunchId AppId "i32 option"
  | PlNotification Notification
  | PlNotificationClosed NotificationId NotificationCloseReason
  | PlNotificationAction NotificationId string
  | PlQuiet "WindowId option" u64
  | PlInspectFrame u64 ImagePayload

fun payload_kind :: "EventPayload \<Rightarrow> ProtoKind" where
  "payload_kind (PlWindowCreated _ _ _ _ _) = PWindowCreated"
| "payload_kind (PlWindowDestroyed _) = PWindowDestroyed"
| "payload_kind (PlWindowActivated _ _) = PWindowActivated"
| "payload_kind (PlTitleChanged _ _) = PTitleChanged"
| "payload_kind (PlSurfaceCommit _ _ _) = PSurfaceCommit"
| "payload_kind (PlFocusChanged _) = PFocusChanged"
| "payload_kind (PlPopupAppeared _ _) = PPopupAppeared"
| "payload_kind (PlPopupDisappeared _ _) = PPopupDisappeared"
| "payload_kind (PlAppLaunched _ _ _) = PAppLaunched"
| "payload_kind (PlNotification _) = PNotification"
| "payload_kind (PlNotificationClosed _ _) = PNotificationClosed"
| "payload_kind (PlNotificationAction _ _) = PNotificationAction"
| "payload_kind (PlQuiet _ _) = PQuiet"
| "payload_kind (PlInspectFrame _ _) = PInspectFrame"

fun payload_from_runtime :: "RuntimeEvent \<Rightarrow> EventPayload" where
  "payload_from_runtime (WindowCreated _ _ w app pid launch title) = PlWindowCreated w app pid launch title"
| "payload_from_runtime (WindowDestroyed _ _ w) = PlWindowDestroyed w"
| "payload_from_runtime (WindowActivated _ _ w previous) = PlWindowActivated w previous"
| "payload_from_runtime (TitleChanged _ _ w title) = PlTitleChanged w title"
| "payload_from_runtime (SurfaceCommit _ _ w c damage) = PlSurfaceCommit w c damage"
| "payload_from_runtime (FocusChanged _ _ w) = PlFocusChanged w"
| "payload_from_runtime (PopupAppeared _ _ w p) = PlPopupAppeared w p"
| "payload_from_runtime (PopupDisappeared _ _ w p) = PlPopupDisappeared w p"
| "payload_from_runtime (AppLaunched _ _ l app pid) = PlAppLaunched l app pid"
| "payload_from_runtime (NotificationPosted _ _ n) = PlNotification n"
| "payload_from_runtime (NotificationClosed _ _ i reason) = PlNotificationClosed i reason"
| "payload_from_runtime (NotificationInvoked _ _ i key) = PlNotificationAction i key"

fun payload_to_runtime :: "EventPayload \<Rightarrow> u64 \<Rightarrow> u64 \<Rightarrow> RuntimeEvent option" where
  "payload_to_runtime (PlWindowCreated w app pid launch title) s t = Some (WindowCreated s t w app pid launch title)"
| "payload_to_runtime (PlWindowDestroyed w) s t = Some (WindowDestroyed s t w)"
| "payload_to_runtime (PlWindowActivated w previous) s t = Some (WindowActivated s t w previous)"
| "payload_to_runtime (PlTitleChanged w title) s t = Some (TitleChanged s t w title)"
| "payload_to_runtime (PlSurfaceCommit w c damage) s t = Some (SurfaceCommit s t w c damage)"
| "payload_to_runtime (PlFocusChanged w) s t = Some (FocusChanged s t w)"
| "payload_to_runtime (PlPopupAppeared w p) s t = Some (PopupAppeared s t w p)"
| "payload_to_runtime (PlPopupDisappeared w p) s t = Some (PopupDisappeared s t w p)"
| "payload_to_runtime (PlAppLaunched l app pid) s t = Some (AppLaunched s t l app pid)"
| "payload_to_runtime (PlNotification n) s t = Some (NotificationPosted s t n)"
| "payload_to_runtime (PlNotificationClosed i reason) s t = Some (NotificationClosed s t i reason)"
| "payload_to_runtime (PlNotificationAction i key) s t = Some (NotificationInvoked s t i key)"
| "payload_to_runtime (PlQuiet _ _) s t = None"
| "payload_to_runtime (PlInspectFrame _ _) s t = None"

section \<open>Methods\<close>

text \<open>A request is a method's name with the parameters of that method, which are a type parameter.\<close>

datatype MethodName =
    MPing
  | MListApps
  | MGetApp
  | MLaunchApp
  | MListWindows
  | MGetWindow
  | MActivateWindow
  | MCloseWindow
  | MGetFocus
  | MCaptureWindow
  | MCaptureRegion
  | MObserve
  | MWaitForChange
  | MWaitForQuiet
  | MPointerMove
  | MClick
  | MDoubleClick
  | MMouseDown
  | MMouseUp
  | MScroll
  | MDrag
  | MKeypress
  | MKeyDown
  | MKeyUp
  | MTypeText
  | MSubscribeEvents
  | MUnsubscribeEvents
  | MInspectCapture
  | MInspectSubscribe
  | MPostNotification
  | MListNotifications
  | MCloseNotification
  | MInvokeNotificationAction
  | MWaitForEvents
  | MAccessibilityTree
  | MFindAccessible
  | MInvokeAccessibleAction

fun method_name :: "MethodName \<Rightarrow> string" where
  "method_name MPing = ''ping''"
| "method_name MListApps = ''list_apps''"
| "method_name MGetApp = ''get_app''"
| "method_name MLaunchApp = ''launch_app''"
| "method_name MListWindows = ''list_windows''"
| "method_name MGetWindow = ''get_window''"
| "method_name MActivateWindow = ''activate_window''"
| "method_name MCloseWindow = ''close_window''"
| "method_name MGetFocus = ''get_focus''"
| "method_name MCaptureWindow = ''capture_window''"
| "method_name MCaptureRegion = ''capture_region''"
| "method_name MObserve = ''observe''"
| "method_name MWaitForChange = ''wait_for_change''"
| "method_name MWaitForQuiet = ''wait_for_quiet''"
| "method_name MPointerMove = ''pointer_move''"
| "method_name MClick = ''click''"
| "method_name MDoubleClick = ''double_click''"
| "method_name MMouseDown = ''mouse_down''"
| "method_name MMouseUp = ''mouse_up''"
| "method_name MScroll = ''scroll''"
| "method_name MDrag = ''drag''"
| "method_name MKeypress = ''keypress''"
| "method_name MKeyDown = ''key_down''"
| "method_name MKeyUp = ''key_up''"
| "method_name MTypeText = ''type_text''"
| "method_name MSubscribeEvents = ''subscribe_events''"
| "method_name MUnsubscribeEvents = ''unsubscribe_events''"
| "method_name MInspectCapture = ''inspect_capture''"
| "method_name MInspectSubscribe = ''inspect_subscribe''"
| "method_name MPostNotification = ''post_notification''"
| "method_name MListNotifications = ''list_notifications''"
| "method_name MCloseNotification = ''close_notification''"
| "method_name MInvokeNotificationAction = ''invoke_notification_action''"
| "method_name MWaitForEvents = ''wait_for_events''"
| "method_name MAccessibilityTree = ''accessibility_tree''"
| "method_name MFindAccessible = ''find_accessible''"
| "method_name MInvokeAccessibleAction = ''invoke_accessible_action''"

definition all_methods :: "MethodName list" where
  "all_methods =
     [MPing, MListApps, MGetApp, MLaunchApp, MListWindows, MGetWindow, MActivateWindow,
      MCloseWindow, MGetFocus, MCaptureWindow, MCaptureRegion, MObserve, MWaitForChange,
      MWaitForQuiet, MPointerMove, MClick, MDoubleClick, MMouseDown, MMouseUp, MScroll, MDrag,
      MKeypress, MKeyDown, MKeyUp, MTypeText, MSubscribeEvents, MUnsubscribeEvents,
      MInspectCapture, MInspectSubscribe, MPostNotification, MListNotifications,
      MCloseNotification, MInvokeNotificationAction, MWaitForEvents, MAccessibilityTree,
      MFindAccessible, MInvokeAccessibleAction]"

datatype 'p Method = Method (mt_name: MethodName) (mt_params: 'p)

definition method_of_name :: "string \<Rightarrow> MethodName option" where
  "method_of_name name = find (\<lambda>m. method_name m = name) all_methods"

section \<open>Frames\<close>

record ErrorPayload =
  ep_code :: ErrorCode
  ep_message :: string
  ep_data :: "Value option"

datatype ResponseOutcome = RoResult Value | RoError ErrorPayload

record EventFrame =
  ef_event :: ProtoKind
  ef_seq :: u64
  ef_ts_ms :: u64
  ef_data :: EventPayload

datatype 'p Frame =
    Request u64 "'p Method"
  | Response u64 ResponseOutcome
  | Event EventFrame

text \<open>What \<open>serde\<close>, \<open>serde_json\<close> and \<open>core::str\<close> do with text, and with the structs whose codecs are derived.\<close>

record 'p Serde =
  sd_to_params :: "'p Method \<Rightarrow> string + Value"
  sd_from_params :: "MethodName \<Rightarrow> Value \<Rightarrow> string + 'p"
  sd_to_payload :: "EventPayload \<Rightarrow> string + Value"
  sd_from_payload :: "ProtoKind \<Rightarrow> Value \<Rightarrow> string + EventPayload"
  sd_to_error :: "ErrorPayload \<Rightarrow> Value"
  sd_from_error :: "Value \<Rightarrow> string + ErrorPayload"
  sd_text :: "Value \<Rightarrow> string"
  sd_from_text :: "string \<Rightarrow> string + Value"
  sd_from_utf8 :: "string \<Rightarrow> string + string"

definition method_from_parts :: "'p Serde \<Rightarrow> string \<Rightarrow> Value \<Rightarrow> ProtoError + 'p Method" where
  "method_from_parts S name params =
     (let params = (case params of JNull \<Rightarrow> JObject [] | other \<Rightarrow> other) in
      case method_of_name name of
        None \<Rightarrow> Inl (PeUnknownMethod name)
      | Some m \<Rightarrow> map_sum (PeInvalidParams name) (Method m) (sd_from_params S m params))"

definition payload_from_data :: "'p Serde \<Rightarrow> ProtoKind \<Rightarrow> Value \<Rightarrow> ProtoError + EventPayload" where
  "payload_from_data S k data =
     (if k = PSurfaceDamage
      then Inl (PeMalformed ''`surface_damage` is a subscription filter alias, never an emitted event kind'')
      else map_sum (PeInvalidEventData (kind_name k)) id (sd_from_payload S k data))"

definition EventFrame_new :: "ProtoKind \<Rightarrow> u64 \<Rightarrow> u64 \<Rightarrow> EventPayload \<Rightarrow> EventFrame" where
  "EventFrame_new k s t data = \<lparr>ef_event = k, ef_seq = s, ef_ts_ms = t, ef_data = data\<rparr>"

definition frame_from_runtime :: "RuntimeEvent \<Rightarrow> EventFrame" where
  "frame_from_runtime e =
     (let data = payload_from_runtime e
      in \<lparr>ef_event = payload_kind data, ef_seq = event_seq e, ef_ts_ms = event_ts_ms e, ef_data = data\<rparr>)"

definition frame_to_runtime :: "EventFrame \<Rightarrow> RuntimeEvent option" where
  "frame_to_runtime f = payload_to_runtime (ef_data f) (ef_seq f) (ef_ts_ms f)"

definition response_from_value :: "'p Serde \<Rightarrow> Value \<Rightarrow> ProtoError + 'p Frame" where
  "response_from_value S v =
     (case v of
        JObject o' \<Rightarrow>
          (case get_u64 ''id'' o' of
             None \<Rightarrow> Inl (PeMalformed ''response frame requires an `id` u64'')
           | Some i \<Rightarrow>
               (case (object_get ''result'' o', object_get ''error'' o') of
                  (Some _, Some _) \<Rightarrow> Inl (PeMalformed ''response frame carries both `result` and `error`'')
                | (None, None) \<Rightarrow> Inl (PeMalformed ''response frame carries neither `result` nor `error`'')
                | (Some r, None) \<Rightarrow> Inr (Response i (RoResult r))
                | (None, Some e) \<Rightarrow>
                    map_sum (\<lambda>m. PeMalformed (''invalid `error` payload: '' @ m)) (\<lambda>p. Response i (RoError p))
                      (sd_from_error S e)))
      | _ \<Rightarrow> Inl (PeMalformed ''response frame must be a JSON object''))"

definition event_from_value :: "'p Serde \<Rightarrow> Value \<Rightarrow> ProtoError + EventFrame" where
  "event_from_value S v =
     (case v of
        JObject o' \<Rightarrow>
          (case object_get ''event'' o' of
             None \<Rightarrow> Inl (PeMalformed ''event frame requires an `event` field'')
           | Some (JString name) \<Rightarrow>
               (case kind_of_name name of
                  None \<Rightarrow> Inl (PeUnknownEventKind name)
                | Some k \<Rightarrow>
                    (case get_u64 ''seq'' o' of
                       None \<Rightarrow> Inl (PeMalformed ''event frame requires a `seq` u64'')
                     | Some s \<Rightarrow>
                         (case get_u64 ''ts_ms'' o' of
                            None \<Rightarrow> Inl (PeMalformed ''event frame requires a `ts_ms` u64'')
                          | Some t \<Rightarrow>
                              map_sum id (EventFrame_new k s t) (payload_from_data S k (or_empty (object_get ''data'' o'))))))
           | Some other \<Rightarrow>
               Inl (PeMalformed (''event frame's `event` must be a string, got '' @ sd_text S other)))
      | _ \<Rightarrow> Inl (PeMalformed ''event frame must be a JSON object''))"

definition request_from_value :: "'p Serde \<Rightarrow> Value \<Rightarrow> ProtoError + 'p Frame" where
  "request_from_value S v =
     (case v of
        JObject o' \<Rightarrow>
          (case get_u64 ''id'' o' of
             None \<Rightarrow> Inl (PeMalformed ''request frame requires an `id` u64'')
           | Some i \<Rightarrow>
               (case object_get ''method'' o' of
                  None \<Rightarrow> Inl (PeMalformed ''request frame requires a `method` field'')
                | Some (JString name) \<Rightarrow>
                    map_sum id (Request i) (method_from_parts S name (or_empty (object_get ''params'' o')))
                | Some other \<Rightarrow>
                    Inl (PeMalformed (''request frame's `method` must be a string, got '' @ sd_text S other))))
      | _ \<Rightarrow> Inl (PeMalformed ''request frame must be a JSON object''))"

definition frame_from_value :: "'p Serde \<Rightarrow> Value \<Rightarrow> ProtoError + 'p Frame" where
  "frame_from_value S v =
     (case v of
        JObject o' \<Rightarrow>
          if object_get ''event'' o' \<noteq> None then map_sum id Event (event_from_value S v)
          else if object_get ''method'' o' \<noteq> None then request_from_value S v
          else if object_get ''id'' o' \<noteq> None then response_from_value S v
          else Inl (PeMalformed ''frame has none of `event`, `method` or `id`'')
      | _ \<Rightarrow> Inl (PeMalformed ''frame must be a JSON object''))"

definition response_to_value :: "'p Serde \<Rightarrow> u64 \<Rightarrow> ResponseOutcome \<Rightarrow> Value" where
  "response_to_value S i outcome =
     JObject [(''id'', JNat i),
       (case outcome of RoResult r \<Rightarrow> (''result'', r) | RoError e \<Rightarrow> (''error'', sd_to_error S e))]"

definition event_to_value :: "'p Serde \<Rightarrow> EventFrame \<Rightarrow> string + Value" where
  "event_to_value S f =
     map_sum id (\<lambda>data. JObject [(''event'', JString (kind_name (ef_event f))), (''seq'', JNat (ef_seq f)),
         (''ts_ms'', JNat (ef_ts_ms f)), (''data'', data)])
       (sd_to_payload S (ef_data f))"

fun frame_to_value :: "'p Serde \<Rightarrow> 'p Frame \<Rightarrow> string + Value" where
  "frame_to_value S (Request i m) =
     map_sum id (\<lambda>params. JObject [(''id'', JNat i), (''method'', JString (method_name (mt_name m))), (''params'', params)])
       (sd_to_params S m)"
| "frame_to_value S (Response i outcome) = Inr (response_to_value S i outcome)"
| "frame_to_value S (Event f) = event_to_value S f"

section \<open>The line codec\<close>

definition encode_str :: "'p Serde \<Rightarrow> 'p Frame \<Rightarrow> ProtoError + string" where
  "encode_str S f = map_sum PeJson (sd_text S) (frame_to_value S f)"

definition decode_str :: "'p Serde \<Rightarrow> string \<Rightarrow> ProtoError + 'p Frame" where
  "decode_str S line =
     (case sd_from_text S line of Inl e \<Rightarrow> Inl (PeJson e) | Inr v \<Rightarrow> frame_from_value S v)"

definition codec_decode :: "'p Serde \<Rightarrow> string \<Rightarrow> ProtoError + 'p Frame" where
  "codec_decode S payload =
     (case sd_from_utf8 S payload of
        Inl e \<Rightarrow> Inl (PeMalformed (''payload is not valid UTF-8: '' @ e))
      | Inr line \<Rightarrow> decode_str S line)"

section \<open>Properties\<close>

lemma kind_of_name_inverse: "kind_of_name (kind_name k) = Some k"
  by (cases k) (simp_all add: kind_of_name_def proto_kinds_def)

lemma method_of_name_inverse: "method_of_name (method_name m) = Some m"
  by (cases m) (simp_all add: method_of_name_def all_methods_def)

lemma payload_round_trip: "payload_to_runtime (payload_from_runtime e) (event_seq e) (event_ts_ms e) = Some e"
  by (cases e) simp_all

lemma frame_runtime_round_trip: "frame_to_runtime (frame_from_runtime e) = Some e"
  by (simp add: frame_to_runtime_def frame_from_runtime_def payload_round_trip Let_def)

lemma runtime_kind_subscribable: "payload_kind (payload_from_runtime e) \<in> set SUBSCRIBABLE - {PSurfaceDamage, PQuiet}"
  by (cases e) (simp_all add: SUBSCRIBABLE_def)

text \<open>A subscription kind matches the events of its own kind, \<open>surface_damage\<close> the commits that carry damage.\<close>

lemma kind_matches_iff:
  "kind_matches k e \<longleftrightarrow> k = payload_kind (payload_from_runtime e) \<or>
     k = PSurfaceDamage \<and> (\<exists>s t w c damage. e = SurfaceCommit s t w c damage \<and> rects damage \<noteq> [])"
  by (cases e; cases k) (simp_all add: region_is_empty_def)

text \<open>What the frame's own content asks of the derived codecs and of the JSON text.\<close>

fun content_ok :: "'p Serde \<Rightarrow> 'p Frame \<Rightarrow> bool" where
  "content_ok S (Request i m) \<longleftrightarrow>
     (case sd_to_params S m of Inl _ \<Rightarrow> False | Inr v \<Rightarrow> sd_from_params S (mt_name m) (or_empty (Some v)) = Inr (mt_params m))"
| "content_ok S (Response i (RoResult r)) \<longleftrightarrow> True"
| "content_ok S (Response i (RoError e)) \<longleftrightarrow> sd_from_error S (sd_to_error S e) = Inr e"
| "content_ok S (Event f) \<longleftrightarrow>
     ef_event f = payload_kind (ef_data f) \<and>
     (case sd_to_payload S (ef_data f) of
        Inl _ \<Rightarrow> False | Inr v \<Rightarrow> sd_from_payload S (ef_event f) (or_empty (Some v)) = Inr (ef_data f))"

definition text_ok :: "'p Serde \<Rightarrow> 'p Frame \<Rightarrow> bool" where
  "text_ok S f \<longleftrightarrow>
     (case frame_to_value S f of
        Inl _ \<Rightarrow> True
      | Inr v \<Rightarrow> sd_from_text S (sd_text S v) = Inr v \<and> sd_from_utf8 S (sd_text S v) = Inr (sd_text S v) \<and>
          CHR 0x0A \<notin> set (sd_text S v))"

lemma or_empty_not_null: "or_empty v \<noteq> JNull"
  by (simp add: or_empty_def split: option.split Value.split)

lemma value_round_trip:
  assumes "content_ok S f"
  obtains v where "frame_to_value S f = Inr v" "frame_from_value S v = Inr f"
proof (cases f)
  case (Request i m)
  obtain v where v: "sd_to_params S m = Inr v" "sd_from_params S (mt_name m) (or_empty (Some v)) = Inr (mt_params m)"
    using assms Request by (auto split: sum.splits)
  have "(case or_empty (Some v) of JNull \<Rightarrow> JObject [] | other \<Rightarrow> other) = or_empty (Some v)"
    using or_empty_not_null by (simp split: Value.split)
  with v Request show ?thesis
    by (intro that) (auto simp: frame_from_value_def request_from_value_def object_get_def get_u64_def
        method_from_parts_def method_of_name_inverse Let_def)
next
  case (Response i out)
  with assms show ?thesis
    by (intro that) (auto simp: frame_from_value_def response_from_value_def response_to_value_def
        object_get_def get_u64_def split: ResponseOutcome.splits)
next
  case (Event e)
  obtain v where v: "sd_to_payload S (ef_data e) = Inr v" "sd_from_payload S (ef_event e) (or_empty (Some v)) = Inr (ef_data e)"
    "ef_event e = payload_kind (ef_data e)"
    using assms Event by (auto split: sum.splits)
  have "ef_event e \<noteq> PSurfaceDamage" unfolding v(3) by (cases "ef_data e") simp_all
  with v(1,2) Event show ?thesis
    by (intro that) (auto simp: frame_from_value_def event_from_value_def event_to_value_def object_get_def get_u64_def kind_of_name_inverse
        payload_from_data_def EventFrame_new_def)
qed


definition demo_serde :: "unit Serde" where
  "demo_serde =
     \<lparr>sd_to_params = \<lambda>_. Inr JNull, sd_from_params = \<lambda>_ _. Inr (), sd_to_payload = \<lambda>_. Inl [], sd_from_payload = \<lambda>_ _. Inl [],
      sd_to_error = \<lambda>_. JNull, sd_from_error = \<lambda>_. Inl [], sd_text = \<lambda>_. ''{..}'',
      sd_from_text = \<lambda>_. Inr (JObject [(''id'', JNat 7), (''method'', JString ''ping''), (''params'', JNull)]), sd_from_utf8 = Inr\<rparr>"


end
