(* ===== verification/Core_Image.thy ===== *)
theory Core_Image
  imports Core_Types Core_Geometry
begin

text \<open>
  Pixel buffers (\<open>crates/adesk-core/src/image.rs\<close>) and what the renderer does with them
  (\<open>crates/adesk-render/src/image.rs\<close>): crop, box-filter downscale, row repacking and the conversion of
  read-back bytes. A slice or an index outside its buffer panics in the code and is \<open>None\<close> here. Offsets
  are \<open>usize\<close> (64 bit) in the code; the products of two \<open>u32\<close> values it forms fit.
\<close>

section \<open>Loops over buffers\<close>

text \<open>A \<open>for\<close> loop whose body may panic.\<close>

fun try_for :: "('s \<Rightarrow> 'a \<Rightarrow> 's option) \<Rightarrow> 'a list \<Rightarrow> 's \<Rightarrow> 's option" where
  "try_for f [] s = Some s"
| "try_for f (x # xs) s = (case f s x of None \<Rightarrow> None | Some s' \<Rightarrow> try_for f xs s')"

definition slice :: "'a list \<Rightarrow> nat \<Rightarrow> nat \<Rightarrow> 'a list option" where
  "slice xs start n = (if start + n \<le> length xs then Some (take n (drop start xs)) else None)"

definition overwrite :: "nat \<Rightarrow> 'a list \<Rightarrow> 'a list \<Rightarrow> 'a list option" where
  "overwrite start ys xs =
     (if start + length ys \<le> length xs then Some (take start xs @ ys @ drop (start + length ys) xs) else None)"

definition nth_checked :: "'a list \<Rightarrow> nat \<Rightarrow> 'a option" where
  "nth_checked xs i = (if i < length xs then Some (xs ! i) else None)"

lemma try_for_snoc: "try_for f (xs @ [x]) s = (case try_for f xs s of None \<Rightarrow> None | Some s' \<Rightarrow> f s' x)"
  by (induction xs arbitrary: s) (auto split: option.split)

lemma length_concat_chunks: "\<forall>x \<in> set xs. length (f x) = k \<Longrightarrow> length (concat (map f xs)) = length xs * k"
  by (induction xs) auto

lemma concat_chunk:
  assumes "\<forall>x \<in> set xs. length (f x) = k" "i < length xs"
  shows "take k (drop (i * k) (concat (map f xs))) = f (xs ! i)"
  using assms
proof (induction xs arbitrary: i)
  case (Cons x xs)
  then show ?case by (cases i) auto
qed simp

text \<open>Writing chunks of one size one after the other fills a buffer with their concatenation.\<close>

lemma try_for_chunks:
  assumes "length out = length xs * k"
    and "\<And>i. i < length xs \<Longrightarrow> off (xs ! i) = i * k" "\<And>x. x \<in> set xs \<Longrightarrow> c x = Some (f x) \<and> length (f x) = k"
  shows "try_for (\<lambda>s x. case c x of None \<Rightarrow> None | Some b \<Rightarrow> overwrite (off x) b s) xs out = Some (concat (map f xs))"
proof -
  have "try_for (\<lambda>s x. case c x of None \<Rightarrow> None | Some b \<Rightarrow> overwrite (off x) b s) (take n xs) out =
      Some (concat (map f (take n xs)) @ drop (n * k) out)" if "n \<le> length xs" for n
    using that
  proof (induction n)
    case (Suc n)
    then have n: "n < length xs" by simp
    let ?x = "xs ! n"
    have x: "c ?x = Some (f ?x)" "length (f ?x) = k" "off ?x = n * k" using assms n by simp_all
    have written: "length (concat (map f (take n xs))) = n * k"
      using n assms(3) by (subst length_concat_chunks[of _ _ k]) (auto dest: in_set_takeD)
    have room: "n * k + k \<le> length xs * k" using n mult_le_mono1[of "Suc n" "length xs" k] by simp
    from Suc n x written room assms(1) show ?case
      by (simp add: take_Suc_conv_app_nth try_for_snoc overwrite_def add.commute)
  qed simp
  from this[of "length xs"] assms(1) show ?thesis by simp
qed

section \<open>Image buffers\<close>

datatype PixelFormat = Rgba8

fun bytes_per_pixel :: "PixelFormat \<Rightarrow> nat" where
  "bytes_per_pixel Rgba8 = 4"

record ImageBuffer =
  ib_width :: u32
  ib_height :: u32
  ib_stride :: u32
  ib_format :: PixelFormat
  ib_data :: "u8 list"

text \<open>An opaque black buffer.\<close>

definition new_rgba :: "u32 \<Rightarrow> u32 \<Rightarrow> ImageBuffer" where
  "new_rgba w h =
     (let stride = saturating_mul w 4; pixels = unat stride * unat h
      in \<lparr>ib_width = w, ib_height = h, ib_stride = stride, ib_format = Rgba8,
          ib_data = concat (replicate (pixels div 4) [0, 0, 0, 255]) @ replicate (pixels mod 4) 0\<rparr>)"

definition from_rgba :: "u32 \<Rightarrow> u32 \<Rightarrow> u8 list \<Rightarrow> Error + ImageBuffer" where
  "from_rgba w h data =
     (let stride = unat w * 4; expected = stride * unat h
      in if stride > 4294967295
         then Inl (Error_new InvalidRequest (''image width '' @ decimal (unat w) @ '' exceeds the maximum RGBA stride''))
         else if expected \<noteq> length data
         then Inl (Error_new InvalidRequest (''RGBA data length '' @ decimal (length data) @ '' does not match '' @
           decimal (unat w) @ ''x'' @ decimal (unat h) @ '' (expected '' @ decimal expected @ '' bytes)''))
         else Inr \<lparr>ib_width = w, ib_height = h, ib_stride = word_of_nat stride, ib_format = Rgba8, ib_data = data\<rparr>)"

definition image_pixel :: "ImageBuffer \<Rightarrow> u32 \<Rightarrow> u32 \<Rightarrow> u8 list option" where
  "image_pixel m x y =
     (if x \<ge> ib_width m \<or> y \<ge> ib_height m then None
      else slice (ib_data m) (unat y * unat (ib_stride m) + unat x * 4) 4)"

definition image_size :: "ImageBuffer \<Rightarrow> Size" where
  "image_size m = \<lparr>sw = ib_width m, sh = ib_height m\<rparr>"

definition image_rect :: "ImageBuffer \<Rightarrow> Rect" where
  "image_rect m = from_size (image_size m)"

text \<open>The documented shape: rows are as long as the stride says, which has room for the pixels of a row.\<close>

definition image_wf :: "ImageBuffer \<Rightarrow> bool" where
  "image_wf m \<longleftrightarrow>
     unat (ib_width m) * 4 \<le> unat (ib_stride m) \<and> unat (ib_stride m) * unat (ib_height m) \<le> length (ib_data m)"

definition image_tight :: "ImageBuffer \<Rightarrow> bool" where
  "image_tight m \<longleftrightarrow>
     unat (ib_stride m) = unat (ib_width m) * 4 \<and> length (ib_data m) = unat (ib_stride m) * unat (ib_height m)"

section \<open>Crop\<close>

definition usize_of_i32 :: "i32 \<Rightarrow> nat" where
  "usize_of_i32 v = nat (sint v mod 2 ^ 64)"

definition image_row :: "ImageBuffer \<Rightarrow> nat \<Rightarrow> nat \<Rightarrow> nat \<Rightarrow> u8 list option" where
  "image_row m y x row_bytes = slice (ib_data m) (y * unat (ib_stride m) + x * 4) row_bytes"

definition crop :: "ImageBuffer \<Rightarrow> Rect \<Rightarrow> ImageBuffer option" where
  "crop m rect =
     (case intersect rect (image_rect m) of
        None \<Rightarrow> Some (new_rgba 0 0)
      | Some c \<Rightarrow>
          if c = image_rect m \<and> unat (ib_stride m) = unat (ib_width m) * 4 then Some m
          else
            let out = new_rgba (rw c) (rh c); row_bytes = unat (rw c) * 4
            in map_option (\<lambda>d. out\<lparr>ib_data := d\<rparr>)
                 (try_for
                    (\<lambda>d row. case image_row m (usize_of_i32 (ry c) + row) (usize_of_i32 (rx c)) row_bytes of
                       None \<Rightarrow> None | Some bytes \<Rightarrow> overwrite (row * row_bytes) bytes d)
                    [0..<unat (rh c)] (ib_data out)))"

section \<open>Downscale\<close>

definition scale_edge :: "nat \<Rightarrow> nat \<Rightarrow> u32 \<Rightarrow> u32" where
  "scale_edge longest bound value =
     word_of_nat (min (max ((unat value * bound + longest div 2) div longest) 1) (unat value))"

definition fit_dimensions :: "Size \<Rightarrow> u32 \<Rightarrow> Size" where
  "fit_dimensions s max_dimension =
     (let longest = max (sw s) (sh s)
      in if max_dimension = 0 \<or> sw s = 0 \<or> sh s = 0 \<or> longest \<le> max_dimension then s
         else \<lparr>sw = scale_edge (unat longest) (unat max_dimension) (sw s),
               sh = scale_edge (unat longest) (unat max_dimension) (sh s)\<rparr>)"

text \<open>The source columns (rows) of one output column (row).\<close>

definition box_range :: "nat \<Rightarrow> nat \<Rightarrow> nat \<Rightarrow> nat list" where
  "box_range n dn d =
     (let a = d * n div dn; b = min (max ((d + 1) * n div dn) (a + 1)) n in [a..<b])"

definition box_offsets :: "nat \<Rightarrow> nat list \<Rightarrow> nat list \<Rightarrow> nat list" where
  "box_offsets stride ys xs = concat (map (\<lambda>y. map (\<lambda>x. y * stride + x * 4) xs) ys)"

text \<open>One channel of an output pixel: the sum over the box, divided by the number of pixels, half up.\<close>

definition box_channel :: "u8 list \<Rightarrow> nat list \<Rightarrow> nat \<Rightarrow> u8 option" where
  "box_channel data offsets ch =
     map_option (\<lambda>vs. word_of_nat ((sum_list (map unat vs) + length offsets div 2) div length offsets))
       (those (map (\<lambda>off. nth_checked data (off + ch)) offsets))"

definition box_pixel :: "ImageBuffer \<Rightarrow> nat \<Rightarrow> nat \<Rightarrow> nat \<times> nat \<Rightarrow> u8 list option" where
  "box_pixel m dw dh p =
     (let offsets = box_offsets (unat (ib_stride m)) (box_range (unat (ib_height m)) dh (fst p))
                      (box_range (unat (ib_width m)) dw (snd p))
      in those (map (box_channel (ib_data m) offsets) [0, 1, 2, 3]))"

definition downscale :: "ImageBuffer \<Rightarrow> u32 \<Rightarrow> ImageBuffer option" where
  "downscale m max_dimension =
     (let longest = max (ib_width m) (ib_height m)
      in if max_dimension = 0 \<or> ib_width m = 0 \<or> ib_height m = 0 \<or> longest \<le> max_dimension then Some m
         else
           let target = fit_dimensions (image_size m) max_dimension;
               out = new_rgba (sw target) (sh target);
               dw = unat (sw target); dh = unat (sh target)
           in map_option (\<lambda>d. out\<lparr>ib_data := d\<rparr>)
                (try_for
                   (\<lambda>d p. case box_pixel m dw dh p of
                      None \<Rightarrow> None | Some bytes \<Rightarrow> overwrite ((fst p * dw + snd p) * 4) bytes d)
                   (List.product [0..<dh] [0..<dw]) (ib_data out)))"

section \<open>Errors\<close>

datatype RenderError =
    ReTargetCreation Size string
  | ReTargetBind Size string
  | ReRenderFailed string
  | ReReadback Rect string
  | ReUnsupportedFormat string
  | ReImportFailed string
  | ReUnsupportedBuffer string
  | ReInvalidConfig string
  | ReInvalidImage string
  | ReEncode string

fun render_error_code :: "RenderError \<Rightarrow> ErrorCode" where
  "render_error_code (ReInvalidConfig _) = InvalidRequest"
| "render_error_code (ReInvalidImage _) = InvalidRequest"
| "render_error_code (ReEncode _) = CaptureFailed"
| "render_error_code (ReTargetCreation _ _) = RenderFailed"
| "render_error_code (ReTargetBind _ _) = RenderFailed"
| "render_error_code (ReRenderFailed _) = RenderFailed"
| "render_error_code (ReReadback _ _) = RenderFailed"
| "render_error_code (ReUnsupportedFormat _) = RenderFailed"
| "render_error_code (ReImportFailed _) = RenderFailed"
| "render_error_code (ReUnsupportedBuffer _) = RenderFailed"

section \<open>Rows\<close>

text \<open>
  The outer option is a panic, the sum the \<open>Result\<close> of the code. The order of the rows is an argument: a
  read-back may be upside down.
\<close>

definition tight_rows :: "u8 list \<Rightarrow> nat \<Rightarrow> nat \<Rightarrow> (nat \<Rightarrow> nat) \<Rightarrow> nat \<Rightarrow> u8 list option" where
  "tight_rows data row_bytes stride order height =
     map_option concat (those (map (\<lambda>row. slice data (order row * stride) row_bytes) [0..<height]))"

definition dimensions_text :: "nat \<Rightarrow> nat \<Rightarrow> string" where
  "dimensions_text w h = decimal w @ ''x'' @ decimal h"

definition tight_rgba :: "ImageBuffer \<Rightarrow> (RenderError + u8 list) option" where
  "tight_rgba m =
     (let row_bytes = unat (ib_width m) * 4; stride = unat (ib_stride m); needed = stride * unat (ib_height m)
      in if length (ib_data m) < needed
         then Some (Inl (ReInvalidImage (''image buffer holds '' @ decimal (length (ib_data m)) @ '' bytes, '' @
           decimal needed @ '' required for '' @ dimensions_text (unat (ib_width m)) (unat (ib_height m)) @
           '' at stride '' @ decimal stride)))
         else if stride = row_bytes then map_option Inr (slice (ib_data m) 0 needed)
         else map_option Inr (tight_rows (ib_data m) row_bytes stride id (unat (ib_height m))))"

text \<open>The PNG encoder is a parameter.\<close>

definition encode_png :: "(u8 list \<Rightarrow> u32 \<Rightarrow> u32 \<Rightarrow> string + u8 list) \<Rightarrow> ImageBuffer \<Rightarrow> (RenderError + u8 list) option" where
  "encode_png png m =
     (if ib_width m = 0 \<or> ib_height m = 0 then Some (Inl (ReInvalidImage ''cannot encode an empty image''))
      else
        map_option
          (\<lambda>tight. case tight of
             Inl e \<Rightarrow> Inl e
           | Inr bytes \<Rightarrow> map_sum ReEncode id (png bytes (ib_width m) (ib_height m)))
          (tight_rgba m))"

definition image_from_readback ::
  "u8 list \<Rightarrow> u32 \<Rightarrow> u32 \<Rightarrow> u32 \<Rightarrow> bool \<Rightarrow> (RenderError + ImageBuffer) option" where
  "image_from_readback data width height stride flipped =
     (if width = 0 \<or> height = 0
      then Some (Inl (ReInvalidImage (''readback dimensions '' @ dimensions_text (unat width) (unat height) @ '' are empty'')))
      else
        let row_bytes = unat width * 4; s = unat stride; needed = s * unat height
        in if s < row_bytes
           then Some (Inl (ReInvalidImage (''readback stride '' @ decimal s @ '' is smaller than one '' @
             decimal (unat width) @ ''-pixel row ('' @ decimal row_bytes @ '' bytes)'')))
           else if length data < needed
           then Some (Inl (ReInvalidImage (''readback buffer holds '' @ decimal (length data) @ '' bytes, '' @
             decimal needed @ '' required for '' @ dimensions_text (unat width) (unat height) @ '' at stride '' @ decimal s)))
           else
             map_option (\<lambda>out. map_sum (ReInvalidImage \<circ> err_message) id (from_rgba width height out))
               (if s = row_bytes \<and> \<not> flipped then slice data 0 needed
                else tight_rows data row_bytes s (\<lambda>row. if flipped then unat height - 1 - row else row) (unat height)))"

section \<open>Shapes\<close>

lemma length_new_rgba: "length (ib_data (new_rgba w h)) = unat (ib_stride (new_rgba w h)) * unat h"
proof -
  have "length (concat (replicate n [0, 0, 0, 255 :: u8])) = n * 4" for n by (induction n) simp_all
  then show ?thesis by (simp add: new_rgba_def Let_def)
qed

lemma unat_saturating_4: "unat w * 4 < 4294967296 \<Longrightarrow> unat (saturating_mul (w :: u32) 4) = unat w * 4"
  by (simp add: unat_saturating_mul)

lemma new_rgba_tight: "unat w * 4 < 4294967296 \<Longrightarrow> image_tight (new_rgba w h)"
  using length_new_rgba[of w h] by (simp add: image_tight_def new_rgba_def Let_def unat_saturating_4)

lemma new_rgba_sel [simp]: "ib_width (new_rgba w h) = w" "ib_height (new_rgba w h) = h"
  by (simp_all add: new_rgba_def Let_def)

lemma image_tight_wf: "image_tight m \<Longrightarrow> image_wf m"
  by (simp add: image_tight_def image_wf_def)

lemma image_wf_width: "image_wf m \<Longrightarrow> unat (ib_width m) * 4 < 4294967296"
  using unat_lt2p_len[of "ib_stride m"] by (simp add: image_wf_def)

text \<open>A pixel lies inside its row.\<close>

lemma pixel_in_data:
  assumes "image_wf m" "y < unat (ib_height m)" "x + n \<le> unat (ib_width m)"
  shows "y * unat (ib_stride m) + (x + n) * 4 \<le> length (ib_data m)"
proof -
  have "(x + n) * 4 \<le> unat (ib_stride m)" using assms(1,3) by (simp add: image_wf_def)
  then have "y * unat (ib_stride m) + (x + n) * 4 \<le> Suc y * unat (ib_stride m)" by simp
  also have "\<dots> \<le> unat (ib_height m) * unat (ib_stride m)" using assms(2) by (intro mult_le_mono1) simp
  also have "\<dots> \<le> length (ib_data m)" using assms(1) by (simp add: image_wf_def mult.commute)
  finally show ?thesis .
qed

lemma image_pixel_wf:
  assumes "image_wf m" "x < ib_width m" "y < ib_height m"
  shows "image_pixel m x y = Some (take 4 (drop (unat y * unat (ib_stride m) + unat x * 4) (ib_data m)))"
  using pixel_in_data[OF assms(1), of "unat y" "unat x" 1] assms
  by (simp add: image_pixel_def slice_def word_less_nat_alt word_le_nat_alt)

lemma image_pixel_length: "image_pixel m x y = Some p \<Longrightarrow> length p = 4"
  by (auto simp: image_pixel_def slice_def split: if_splits)

section \<open>What a crop is\<close>

lemma clipped_to_image:
  assumes "intersect r (image_rect m) = Some c"
  shows "usize_of_i32 (rx c) = unat (rx c)" "usize_of_i32 (ry c) = unat (ry c)"
    "unat (rx c) + unat (rw c) \<le> unat (ib_width m)" "unat (ry c) + unat (rh c) \<le> unat (ib_height m)"
proof -
  note reading = intersect_Some_reading[OF assms]
  have x: "0 \<le> sint (rx c)" "sint (rx c) + uint (rw c) \<le> uint (ib_width m)"
    and y: "0 \<le> sint (ry c)" "sint (ry c) + uint (rh c) \<le> uint (ib_height m)"
    using reading by (simp_all add: image_rect_def image_size_def from_size_def)
  have pos: "uint v = sint v" if "0 \<le> sint v" for v :: i32
    using that order_less_trans[OF sint_bounds_i32(2)[of v], of 4294967296] by (simp add: uint_sint take_bit_int_eq_self_iff)
  have "usize_of_i32 v = unat v" if v: "0 \<le> sint v" for v :: i32
  proof -
    have "sint v < 2 ^ 64" using order_less_trans[OF sint_bounds_i32(2)[of v], of "2 ^ 64"] by simp
    with v have "sint v mod 2 ^ 64 = sint v" by (rule mod_pos_pos_trivial)
    then show ?thesis unfolding usize_of_i32_def unat_eq_nat_uint pos[OF v] by (rule arg_cong)
  qed
  with x y show "usize_of_i32 (rx c) = unat (rx c)" "usize_of_i32 (ry c) = unat (ry c)" by simp_all
  show "unat (rx c) + unat (rw c) \<le> unat (ib_width m)" "unat (ry c) + unat (rh c) \<le> unat (ib_height m)"
    using pos[OF x(1)] pos[OF y(1)] x(2) y(2) unfolding uint_nat by linarith+
qed

lemma unat_add_bounded: "unat (a :: u32) + unat b \<le> unat (c :: u32) \<Longrightarrow> unat (a + b) = unat a + unat b"
  using unat_lt2p_len[of c] by (simp add: unat_word_ariths)

text \<open>Rows of one length, one after the other, under any larger image.\<close>

lemma rows_pixel:
  assumes "\<And>y. y < h \<Longrightarrow> length (f y) = w * 4" "y < h" "x < w"
  shows "take 4 (drop (y * (w * 4) + x * 4) (concat (map f [0..<h]))) = take 4 (drop (x * 4) (f y))"
proof -
  have row: "take (w * 4) (drop (y * (w * 4)) (concat (map f [0..<h]))) = f y"
    using concat_chunk[of "[0..<h]" f "w * 4" y] assms(1,2) by simp
  have "x * 4 + 4 \<le> w * 4" using assms(3) by simp
  then have "take 4 (drop (x * 4) (take (w * 4) zs)) = take 4 (drop (x * 4) zs)" for zs :: "'a list"
    by (simp add: drop_take min_def)
  from this[of "drop (y * (w * 4)) (concat (map f [0..<h]))"] show ?thesis by (simp add: row add.commute)
qed

lemma crop_rows:
  assumes wf: "image_wf m" and c: "intersect r (image_rect m) = Some c"
    and part: "\<not> (c = image_rect m \<and> unat (ib_stride m) = unat (ib_width m) * 4)"
  defines "row \<equiv> \<lambda>y. take (unat (rw c) * 4) (drop ((unat (ry c) + y) * unat (ib_stride m) + unat (rx c) * 4) (ib_data m))"
  shows "crop m r = Some ((new_rgba (rw c) (rh c))\<lparr>ib_data := concat (map row [0..<unat (rh c)])\<rparr>)"
    and "\<And>y. y < unat (rh c) \<Longrightarrow> length (row y) = unat (rw c) * 4"
proof -
  note at = clipped_to_image[OF c]
  have w: "unat (rw c) * 4 < 4294967296" using at(3) image_wf_width[OF wf] by simp
  have some: "image_row m (usize_of_i32 (ry c) + y) (usize_of_i32 (rx c)) (unat (rw c) * 4) = Some (row y) \<and>
      length (row y) = unat (rw c) * 4" if "y < unat (rh c)" for y
    using pixel_in_data[OF wf, of "unat (ry c) + y" "unat (rx c)" "unat (rw c)"] at that
    by (simp add: image_row_def slice_def row_def add_mult_distrib)
  then show "length (row y) = unat (rw c) * 4" if "y < unat (rh c)" for y using that by blast
  have "length (ib_data (new_rgba (rw c) (rh c))) = length [0..<unat (rh c)] * (unat (rw c) * 4)"
    using new_rgba_tight[OF w, of "rh c"] by (simp add: image_tight_def)
  from try_for_chunks[OF this, of "\<lambda>y. y * (unat (rw c) * 4)"
      "\<lambda>y. image_row m (usize_of_i32 (ry c) + y) (usize_of_i32 (rx c)) (unat (rw c) * 4)" row] some
  show "crop m r = Some ((new_rgba (rw c) (rh c))\<lparr>ib_data := concat (map row [0..<unat (rh c)])\<rparr>)"
    unfolding crop_def c Let_def option.case if_not_P[OF part] by simp
qed

text \<open>C14. Cropping an image never leaves its buffer. The result has exactly the clipped size, rows without
  padding, and the pixels the image has at the clipped position; a rectangle beside the image gives an
  empty one.\<close>

theorem crop_is_exact:
  assumes "image_wf m"
  shows "\<exists>out. crop m r = Some out \<and> image_wf out \<and> unat (ib_stride out) = unat (ib_width out) * 4 \<and>
    (case intersect r (image_rect m) of
       None \<Rightarrow> ib_width out = 0 \<and> ib_height out = 0
     | Some c \<Rightarrow> ib_width out = rw c \<and> ib_height out = rh c \<and>
         (\<forall>x y. x < rw c \<longrightarrow> y < rh c \<longrightarrow> image_pixel out x y = image_pixel m (rx c + x) (ry c + y)))"
proof (cases "intersect r (image_rect m)")
  case None
  then show ?thesis using new_rgba_tight[of 0 0] image_tight_wf by (simp add: crop_def) (simp add: image_tight_def)
next
  case (Some c)
  show ?thesis
  proof (cases "c = image_rect m \<and> unat (ib_stride m) = unat (ib_width m) * 4")
    case True
    then show ?thesis using Some assms by (simp add: crop_def image_rect_def from_size_def image_size_def)
  next
    case False
    define row where "row y = take (unat (rw c) * 4) (drop ((unat (ry c) + y) * unat (ib_stride m) + unat (rx c) * 4) (ib_data m))" for y
    note rows = crop_rows[OF assms Some False, folded row_def]
    note at = clipped_to_image[OF Some]
    have w: "unat (rw c) * 4 < 4294967296" using at(3) image_wf_width[OF assms] by simp
    let ?out = "(new_rgba (rw c) (rh c))\<lparr>ib_data := concat (map row [0..<unat (rh c)])\<rparr>"
    have stride: "unat (ib_stride ?out) = unat (rw c) * 4" using new_rgba_tight[OF w, of "rh c"] by (simp add: image_tight_def)
    have len: "length (concat (map row [0..<unat (rh c)])) = unat (rh c) * (unat (rw c) * 4)"
      using rows(2) by (subst length_concat_chunks) auto
    with stride have wf: "image_wf ?out" by (simp add: image_wf_def mult.commute)
    have "image_pixel ?out x y = image_pixel m (rx c + x) (ry c + y)" if xy: "x < rw c" "y < rh c" for x y
    proof -
      have lt: "unat x < unat (rw c)" "unat y < unat (rh c)" using xy by (simp_all add: word_less_nat_alt)
      have sum: "unat (rx c + x) = unat (rx c) + unat x" "unat (ry c + y) = unat (ry c) + unat y"
        using at(3,4) lt unat_add_bounded[of "rx c" x "ib_width m"] unat_add_bounded[of "ry c" y "ib_height m"] by simp_all
      then have inside: "rx c + x < ib_width m" "ry c + y < ib_height m"
        using at(3,4) lt by (simp_all add: word_less_nat_alt)
      have "unat x * 4 + 4 \<le> unat (rw c) * 4" using lt by simp
      then have "take 4 (drop (unat x * 4) (row (unat y))) =
          take 4 (drop ((unat (ry c) + unat y) * unat (ib_stride m) + (unat (rx c) + unat x) * 4) (ib_data m))"
        by (simp add: row_def drop_take min_def add_mult_distrib ac_simps)
      then show ?thesis
        using image_pixel_wf[OF wf, of x y] image_pixel_wf[OF assms inside] xy sum stride
          rows_pixel[of "unat (rh c)" row "unat (rw c)" "unat y" "unat x"] rows(2) lt by simp
    qed
    with rows(1) wf stride Some show ?thesis by simp
  qed
qed

section \<open>Fitting a size\<close>

lemma scale_edge_unat:
  "unat (scale_edge longest bound v) = min (max ((unat v * bound + longest div 2) div longest) 1) (unat v)"
proof -
  have "min (max ((unat v * bound + longest div 2) div longest) 1) (unat v) < 2 ^ LENGTH(32)"
    using unat_lt2p_len[of v] by simp
  then show ?thesis unfolding scale_edge_def unat_of_nat by (rule mod_less)
qed

lemma scale_edge_bounds:
  assumes "unat v \<le> longest" "bound < longest" "0 < bound" "v \<noteq> 0"
  shows "1 \<le> unat (scale_edge longest bound v)" "unat (scale_edge longest bound v) \<le> bound"
    "unat (scale_edge longest bound v) \<le> unat v" "unat v = longest \<Longrightarrow> unat (scale_edge longest bound v) = bound"
proof -
  have v: "1 \<le> unat v" using assms(4) by (simp add: unat_gt_0 Suc_le_eq)
  have "(unat v * bound + longest div 2) div longest \<le> (longest * bound + longest div 2) div longest"
    using assms(1) by (intro div_le_mono) simp
  also have full: "(longest * bound + longest div 2) div longest = bound" using assms(2) by simp
  finally have "(unat v * bound + longest div 2) div longest \<le> bound" .
  with assms v show "1 \<le> unat (scale_edge longest bound v)" "unat (scale_edge longest bound v) \<le> bound"
    "unat (scale_edge longest bound v) \<le> unat v" by (simp_all add: scale_edge_unat)
  show "unat (scale_edge longest bound v) = bound" if "unat v = longest"
    using full assms(2,3) that by (simp add: scale_edge_unat)
qed

lemma fit_dimensions_edges:
  assumes "sw s \<noteq> 0" "sh s \<noteq> 0" "m \<noteq> 0"
  defines "t \<equiv> fit_dimensions s m"
  shows "1 \<le> unat (sw t) \<and> 1 \<le> unat (sh t) \<and> sw t \<le> sw s \<and> sh t \<le> sh s \<and> max (sw t) (sh t) = min m (max (sw s) (sh s))"
proof (cases "max (sw s) (sh s) \<le> m")
  case True
  then have "t = s" by (simp add: t_def fit_dimensions_def Let_def)
  with True assms(1,2) show ?thesis by (simp add: min_absorb2 unat_gt_0 Suc_le_eq)
next
  case False
  let ?l = "unat (max (sw s) (sh s))"
  have l: "unat (sw s) \<le> ?l" "unat (sh s) \<le> ?l" "unat m < ?l" "0 < unat m"
    "unat (sw s) = ?l \<or> unat (sh s) = ?l"
    using False assms(3) by (auto simp: max_def word_le_nat_alt unat_gt_0 split: if_splits)
  have t: "sw t = scale_edge ?l (unat m) (sw s)" "sh t = scale_edge ?l (unat m) (sh s)"
    using False assms(1-3) by (auto simp: t_def fit_dimensions_def Let_def)
  note w = scale_edge_bounds[OF l(1,3,4) assms(1)] and h = scale_edge_bounds[OF l(2,3,4) assms(2)]
  have "sw t \<le> m" "sh t \<le> m" "sw t = m \<or> sh t = m"
    using w(2) h(2) l(5) w(4) h(4) unfolding t word_le_nat_alt word_unat_eq_iff by blast+
  then have "max (sw t) (sh t) = m" by (auto simp: max_def)
  moreover have "min m (max (sw s) (sh s)) = m" using less_imp_le[of m "max (sw s) (sh s)"] False unfolding not_le by (simp only: min_def if_True)
  moreover have "sw t \<le> sw s" "sh t \<le> sh s" using w(3) h(3) unfolding t word_le_nat_alt by simp_all
  ultimately show ?thesis using w(1) h(1) unfolding t by simp
qed

text \<open>Fitting a size keeps every edge between one pixel and the bound, never enlarges an edge, and brings the
  longest edge exactly to the bound when it was longer; a size that fits is left alone.\<close>

theorem fit_dimensions_bounds:
  assumes "sw s \<noteq> 0" "sh s \<noteq> 0" "m \<noteq> 0" "t = fit_dimensions s m"
  shows "1 \<le> unat (sw t) \<and> 1 \<le> unat (sh t) \<and> sw t \<le> sw s \<and> sh t \<le> sh s \<and> max (sw t) (sh t) = min m (max (sw s) (sh s))"
  using fit_dimensions_edges[OF assms(1-3)] assms(4) by simp

theorem fit_dimensions_bounds_witness:
  "fit_dimensions \<lparr>sw = 1280, sh = 800\<rparr> 640 = \<lparr>sw = 640, sh = 400\<rparr> \<and> max (640 :: u32) 400 = min 640 (max 1280 800)"
proof -
  have "fit_dimensions \<lparr>sw = 1280, sh = 800\<rparr> 640 = \<lparr>sw = 640, sh = 400\<rparr>"
    by (simp add: fit_dimensions_def scale_edge_def)
  with fit_dimensions_bounds[of "\<lparr>sw = 1280, sh = 800\<rparr>" 640] show ?thesis by simp
qed

section \<open>Boxes\<close>

lemma box_range_eq:
  assumes "0 < dn" "dn \<le> n" "d < dn"
  shows "box_range n dn d = [d * n div dn..<(d + 1) * n div dn]" "d * n div dn < (d + 1) * n div dn" "(d + 1) * n div dn \<le> n"
proof -
  have "d * n div dn + 1 = (d * n + dn) div dn" using assms(1) div_add_self2[of dn "d * n"] by simp
  also have "\<dots> \<le> (d + 1) * n div dn" using assms(2) by (intro div_le_mono) simp
  finally have lower: "d * n div dn + 1 \<le> (d + 1) * n div dn" .
  have "(d + 1) * n div dn \<le> dn * n div dn" using assms(3) by (intro div_le_mono mult_le_mono1) simp
  then have upper: "(d + 1) * n div dn \<le> n" using assms(1) by simp
  from lower upper show "box_range n dn d = [d * n div dn..<(d + 1) * n div dn]" "d * n div dn < (d + 1) * n div dn"
    "(d + 1) * n div dn \<le> n"
    by (simp_all add: box_range_def Let_def max_def min_def)
qed

lemma boxes_cover: "(s :: nat) < k * n div dn \<Longrightarrow> \<exists>d < k. d * n div dn \<le> s \<and> s < (d + 1) * n div dn"
proof (induction k)
  case (Suc k)
  show ?case
  proof (cases "s < k * n div dn")
    case True
    with Suc.IH show ?thesis using less_SucI by blast
  next
    case False
    with Suc.prems show ?thesis by (intro exI[of _ k]) simp
  qed
qed simp

lemma boxes_partition:
  assumes "0 < dn" "dn \<le> n" "s < n"
  shows "\<exists>!d. d < dn \<and> s \<in> set (box_range n dn d)"
proof -
  define L where "L d = d * n div dn" for d
  have range: "s \<in> set (box_range n dn d) \<longleftrightarrow> L d \<le> s \<and> s < L (d + 1)" if "d < dn" for d
    unfolding box_range_eq(1)[OF assms(1,2) that] L_def by simp
  have "L dn = n" using assms(1) by (simp add: L_def)
  then have "s < L dn" using assms(3) by simp
  from boxes_cover[OF this[unfolded L_def]] obtain d where d: "d < dn" "L d \<le> s" "s < L (d + 1)" unfolding L_def by blast
  have mono: "L (a + 1) \<le> L b" if "a < b" for a b
    unfolding L_def using that by (intro div_le_mono mult_le_mono1) simp
  have "d' = d" if d': "d' < dn" "L d' \<le> s" "s < L (d' + 1)" for d'
  proof (rule linorder_cases[of d' d])
    assume "d' < d"
    from mono[OF this] d'(3) d(2) show ?thesis by linarith
  next
    assume "d < d'"
    from mono[OF this] d(3) d'(2) show ?thesis by linarith
  qed
  then show ?thesis using d range by (intro ex1I[of _ d]) blast+
qed

lemma those_map_Some: "\<forall>x \<in> set xs. f x = Some (g x) \<Longrightarrow> those (map f xs) = Some (map g xs)"
  by (induction xs) simp_all

lemma sum_list_concat_map: "sum_list (concat (map f xs)) = (\<Sum>x \<leftarrow> xs. sum_list (f x))"
  for f :: "'b \<Rightarrow> nat list"
  by (induction xs) simp_all

lemma sum_list_bounded: "\<forall>x \<in> set xs. f x \<le> (b :: nat) \<Longrightarrow> (\<Sum>x \<leftarrow> xs. f x) \<le> b * length xs"
  by (induction xs) auto

text \<open>A channel of a pixel of an image, as a number.\<close>

definition channel_at :: "ImageBuffer \<Rightarrow> nat \<Rightarrow> nat \<Rightarrow> nat \<Rightarrow> nat" where
  "channel_at m x y ch = unat (ib_data m ! (y * unat (ib_stride m) + x * 4 + ch))"

lemma channel_at_pixel:
  assumes "image_wf m" "x < ib_width m" "y < ib_height m" "ch < 4"
  shows "channel_at m (unat x) (unat y) ch = unat (the (image_pixel m x y) ! ch)"
  using assms pixel_in_data[OF assms(1), of "unat y" "unat x" 1]
  by (simp add: image_pixel_wf[OF assms(1-3)] channel_at_def word_less_nat_alt)

definition box_average :: "ImageBuffer \<Rightarrow> nat list \<Rightarrow> nat list \<Rightarrow> nat \<Rightarrow> nat" where
  "box_average m ys xs ch =
     (let n = length ys * length xs in ((\<Sum>y \<leftarrow> ys. \<Sum>x \<leftarrow> xs. channel_at m x y ch) + n div 2) div n)"

lemma box_average_le: "ys \<noteq> [] \<Longrightarrow> xs \<noteq> [] \<Longrightarrow> box_average m ys xs ch \<le> 255"
proof -
  assume ne: "ys \<noteq> []" "xs \<noteq> []"
  let ?n = "length ys * length xs"
  have "channel_at m x y ch \<le> 255" for x y
    using unat_lt2p_len[of "ib_data m ! (y * unat (ib_stride m) + x * 4 + ch)"] by (simp add: channel_at_def)
  then have "(\<Sum>x \<leftarrow> xs. channel_at m x y ch) \<le> 255 * length xs" for y by (intro sum_list_bounded) simp
  then have "(\<Sum>y \<leftarrow> ys. \<Sum>x \<leftarrow> xs. channel_at m x y ch) \<le> 255 * length xs * length ys" by (intro sum_list_bounded) simp
  then have sum: "(\<Sum>y \<leftarrow> ys. \<Sum>x \<leftarrow> xs. channel_at m x y ch) \<le> 255 * ?n" by (simp add: ac_simps)
  have "0 < ?n" using ne by simp
  with sum have "(\<Sum>y \<leftarrow> ys. \<Sum>x \<leftarrow> xs. channel_at m x y ch) + ?n div 2 < 256 * ?n" by linarith
  then have "((\<Sum>y \<leftarrow> ys. \<Sum>x \<leftarrow> xs. channel_at m x y ch) + ?n div 2) div ?n < 256"
    using \<open>0 < ?n\<close> by (simp add: less_mult_imp_div_less)
  then show ?thesis by (simp add: box_average_def Let_def)
qed

lemma box_channel_average:
  assumes wf: "image_wf m" and ys: "\<forall>y \<in> set ys. y < unat (ib_height m)" and xs: "\<forall>x \<in> set xs. x < unat (ib_width m)"
    and ch: "ch < 4"
  shows "box_channel (ib_data m) (box_offsets (unat (ib_stride m)) ys xs) ch = Some (word_of_nat (box_average m ys xs ch))"
proof -
  let ?offs = "box_offsets (unat (ib_stride m)) ys xs"
  have "nth_checked (ib_data m) (off + ch) = Some (ib_data m ! (off + ch))" if "off \<in> set ?offs" for off
  proof -
    from that obtain x y where xy: "y \<in> set ys" "x \<in> set xs" "off = y * unat (ib_stride m) + x * 4" by (auto simp: box_offsets_def)
    with ys xs have "y < unat (ib_height m)" "x + 1 \<le> unat (ib_width m)" by (auto simp: Suc_le_eq)
    from pixel_in_data[OF wf this] xy(3) ch show ?thesis by (simp add: nth_checked_def)
  qed
  then have "those (map (\<lambda>off. nth_checked (ib_data m) (off + ch)) ?offs) = Some (map (\<lambda>off. ib_data m ! (off + ch)) ?offs)"
    by (intro those_map_Some) blast
  moreover have "length ?offs = length ys * length xs" unfolding box_offsets_def by (induction ys) simp_all
  moreover have "sum_list (map (\<lambda>off. unat (ib_data m ! (off + ch))) ?offs) = (\<Sum>y \<leftarrow> ys. \<Sum>x \<leftarrow> xs. channel_at m x y ch)"
    by (simp add: box_offsets_def map_concat sum_list_concat_map comp_def channel_at_def)
  ultimately show ?thesis by (simp add: box_channel_def box_average_def Let_def comp_def)
qed

lemma unat_u8: "n \<le> 255 \<Longrightarrow> unat (word_of_nat n :: u8) = n"
  by (simp add: unat_of_nat)

lemma downscale_result:
  assumes "image_wf m" "k \<noteq> 0" "ib_width m \<noteq> 0" "ib_height m \<noteq> 0" "k < max (ib_width m) (ib_height m)"
    and "t = fit_dimensions (image_size m) k"
  shows "\<exists>out. downscale m k = Some out \<and> image_tight out \<and> image_size out = t \<and>
    (\<forall>x y ch. x < sw t \<longrightarrow> y < sh t \<longrightarrow> ch < 4 \<longrightarrow>
       unat (the (image_pixel out x y) ! ch) =
         box_average m (box_range (unat (ib_height m)) (unat (sh t)) (unat y)) (box_range (unat (ib_width m)) (unat (sw t)) (unat x)) ch) \<and>
    (\<forall>s < unat (ib_width m). \<exists>!x. x < unat (sw t) \<and> s \<in> set (box_range (unat (ib_width m)) (unat (sw t)) x)) \<and>
    (\<forall>s < unat (ib_height m). \<exists>!y. y < unat (sh t) \<and> s \<in> set (box_range (unat (ib_height m)) (unat (sh t)) y))"
proof -
  let ?w = "unat (ib_width m)" and ?h = "unat (ib_height m)" and ?dw = "unat (sw t)" and ?dh = "unat (sh t)"
  define px where "px = (\<lambda>p :: nat \<times> nat. map (\<lambda>ch. word_of_nat (box_average m (box_range ?h ?dh (fst p)) (box_range ?w ?dw (snd p)) ch) :: u8) [0, 1, 2, 3])"
  have fit: "1 \<le> ?dw" "1 \<le> ?dh" "?dw \<le> ?w" "?dh \<le> ?h"
    using fit_dimensions_edges[of "image_size m" k] assms(2-4,6) by (simp_all add: image_size_def word_le_nat_alt)
  have dw: "?dw * 4 < 4294967296" using fit(3) image_wf_width[OF assms(1)] by simp
  have boxes: "set (box_range ?w ?dw x) \<subseteq> {..<?w} \<and> box_range ?w ?dw x \<noteq> []" if "x < ?dw" for x
    using box_range_eq[OF _ fit(3) that] fit(1) by auto
  have rows: "set (box_range ?h ?dh y) \<subseteq> {..<?h} \<and> box_range ?h ?dh y \<noteq> []" if "y < ?dh" for y
    using box_range_eq[OF _ fit(4) that] fit(2) by auto
  have px: "box_pixel m ?dw ?dh p = Some (px p) \<and> length (px p) = 4" if "p \<in> set (List.product [0..<?dh] [0..<?dw])" for p
  proof -
    have p: "fst p < ?dh" "snd p < ?dw" using that by auto
    have "box_channel (ib_data m) (box_offsets (unat (ib_stride m)) (box_range ?h ?dh (fst p)) (box_range ?w ?dw (snd p))) ch =
        Some (word_of_nat (box_average m (box_range ?h ?dh (fst p)) (box_range ?w ?dw (snd p)) ch))" if "ch < 4" for ch
      using box_channel_average[OF assms(1) _ _ that] boxes[OF p(2)] rows[OF p(1)] by blast
    then show ?thesis by (simp add: box_pixel_def px_def Let_def)
  qed
  have off: "(fst p * ?dw + snd p) * 4 = i * 4" if "i < length (List.product [0..<?dh] [0..<?dw])"
    "p = List.product [0..<?dh] [0..<?dw] ! i" for p i
  proof -
    have "p = (i div ?dw, i mod ?dw)"
      using that fit(1) by (simp add: product_nth less_mult_imp_div_less)
    then show ?thesis by simp
  qed
  let ?data = "concat (map px (List.product [0..<?dh] [0..<?dw]))"
  let ?out = "(new_rgba (sw t) (sh t))\<lparr>ib_data := ?data\<rparr>"
  have big: "\<not> max (ib_width m) (ib_height m) \<le> k" using assms(5) by (simp only: not_le)
  have "length (ib_data (new_rgba (sw t) (sh t))) = length (List.product [0..<?dh] [0..<?dw]) * 4"
    using new_rgba_tight[OF dw, of "sh t"] by (simp add: image_tight_def)
  from try_for_chunks[OF this, of "\<lambda>p. (fst p * ?dw + snd p) * 4" "box_pixel m ?dw ?dh" px] px off
  have result: "downscale m k = Some ?out"
    using assms(2-4) big unfolding downscale_def assms(6) Let_def by auto
  have len: "length ?data = ?dh * ?dw * 4" using px by (subst length_concat_chunks[of _ _ 4]) auto
  have tight: "image_tight ?out"
    using new_rgba_tight[OF dw, of "sh t"] len by (simp add: image_tight_def)
  have "unat (the (image_pixel ?out x y) ! ch) = box_average m (box_range ?h ?dh (unat y)) (box_range ?w ?dw (unat x)) ch"
    if xy: "x < sw t" "y < sh t" "ch < 4" for x y ch
  proof -
    have lt: "unat x < ?dw" "unat y < ?dh" using xy by (simp_all add: word_less_nat_alt)
    let ?i = "unat y * ?dw + unat x"
    have "?i < Suc (unat y) * ?dw" using lt(1) by simp
    also have "\<dots> \<le> ?dh * ?dw" using lt(2) by (intro mult_le_mono1) simp
    finally have i: "?i < ?dh * ?dw" .
    have "take 4 (drop (?i * 4) ?data) = px (List.product [0..<?dh] [0..<?dw] ! ?i)"
      using px i by (intro concat_chunk) auto
    also have "List.product [0..<?dh] [0..<?dw] ! ?i = (unat y, unat x)"
      using i lt by (simp add: product_nth)
    finally have "image_pixel ?out x y = Some (px (unat y, unat x))"
      using image_pixel_wf[OF image_tight_wf[OF tight], of x y] xy tight
      by (simp add: image_tight_def add_mult_distrib ac_simps)
    moreover have "px (unat y, unat x) ! ch = word_of_nat (box_average m (box_range ?h ?dh (unat y)) (box_range ?w ?dw (unat x)) ch)"
      using xy(3) by (simp add: px_def less_Suc_eq numeral_eq_Suc) auto
    ultimately show ?thesis
      using unat_u8[OF box_average_le] rows[OF lt(2)] boxes[OF lt(1)] by simp
  qed
  with result tight boxes_partition[OF _ fit(3)] boxes_partition[OF _ fit(4)] fit(1,2) show ?thesis
    by (intro exI[of _ ?out]) (simp add: image_size_def)
qed

lemma downscale_shape:
  assumes "image_tight m"
  shows "\<exists>out. downscale m k = Some out \<and> image_tight out \<and> image_size out = fit_dimensions (image_size m) k"
proof (cases "k = 0 \<or> ib_width m = 0 \<or> ib_height m = 0 \<or> max (ib_width m) (ib_height m) \<le> k")
  case True
  then have "downscale m k = Some m" "fit_dimensions (image_size m) k = image_size m"
    unfolding downscale_def fit_dimensions_def Let_def image_size_def by simp_all
  with assms show ?thesis by simp
next
  case False
  then have "k < max (ib_width m) (ib_height m)" by (simp only: not_le de_Morgan_disj)
  from downscale_result[OF image_tight_wf[OF assms] _ _ _ this refl] False show ?thesis by blast
qed

text \<open>C15. Downscaling never leaves the buffers and gives an image of the fitted size without padding, in which every
  channel of a pixel is the average, rounded half up, of that channel over a box of source pixels; the
  boxes split the source: every column lies in the box of exactly one output column, every row of one row.\<close>

theorem downscale_is_exact_average:
  assumes "image_wf m" "k \<noteq> 0" "ib_width m \<noteq> 0" "ib_height m \<noteq> 0" "k < max (ib_width m) (ib_height m)"
    and "t = fit_dimensions (image_size m) k"
  shows "\<exists>out. downscale m k = Some out \<and> image_tight out \<and> image_size out = t \<and>
    (\<forall>x y ch. x < sw t \<longrightarrow> y < sh t \<longrightarrow> ch < 4 \<longrightarrow>
       unat (the (image_pixel out x y) ! ch) =
         box_average m (box_range (unat (ib_height m)) (unat (sh t)) (unat y)) (box_range (unat (ib_width m)) (unat (sw t)) (unat x)) ch) \<and>
    (\<forall>s < unat (ib_width m). \<exists>!x. x < unat (sw t) \<and> s \<in> set (box_range (unat (ib_width m)) (unat (sw t)) x)) \<and>
    (\<forall>s < unat (ib_height m). \<exists>!y. y < unat (sh t) \<and> s \<in> set (box_range (unat (ib_height m)) (unat (sh t)) y))"
  using assms by (rule downscale_result)

section \<open>What a read-back is\<close>

lemma tight_rows_Some:
  assumes "\<And>row. row < height \<Longrightarrow> order row * stride + row_bytes \<le> length data"
  shows "tight_rows data row_bytes stride order height =
    Some (concat (map (\<lambda>row. take row_bytes (drop (order row * stride) data)) [0..<height]))"
proof -
  have "those (map (\<lambda>row. slice data (order row * stride) row_bytes) [0..<height]) =
      Some (map (\<lambda>row. take row_bytes (drop (order row * stride) data)) [0..<height])"
    using assms by (intro those_map_Some) (simp add: slice_def)
  then show ?thesis by (simp add: tight_rows_def)
qed

lemma row_in_data:
  assumes "row_bytes \<le> stride" "stride * height \<le> n" "row < height"
  shows "row * stride + row_bytes \<le> (n :: nat)"
proof -
  have "row * stride + row_bytes \<le> Suc row * stride" using assms(1) by simp
  also have "\<dots> \<le> height * stride" using assms(3) by (intro mult_le_mono1) simp
  finally show ?thesis using assms(2) by (simp add: mult.commute)
qed

lemma take_rows:
  assumes "row_bytes * height \<le> length data"
  shows "take (row_bytes * height) data = concat (map (\<lambda>row. take row_bytes (drop (row * row_bytes) data)) [0..<height])"
  using assms
proof (induction height)
  case (Suc h)
  then have "take (row_bytes * h + row_bytes) data = take (row_bytes * h) data @ take row_bytes (drop (row_bytes * h) data)"
    by (simp add: take_add)
  with Suc show ?case by (simp add: mult.commute add.commute)
qed simp

lemma from_rgba_tight:
  assumes "length data = unat w * 4 * unat h" "unat w * 4 \<le> 4294967295"
  shows "\<exists>m. from_rgba w h data = Inr m \<and> image_tight m \<and> ib_width m = w \<and> ib_height m = h \<and> ib_data m = data"
proof -
  have "unat (w * 4) = unat w * 4" using assms(2) by (simp add: unat_word_ariths)
  with assms show ?thesis by (simp add: from_rgba_def Let_def image_tight_def)
qed

text \<open>Reading back a frame fails exactly on an empty size, a stride below one row or too few bytes, never panics,
  and otherwise gives a tight image whose pixels are those of the rows, in the order the caller states.\<close>

lemma readback_is_exact:
  shows "(case image_from_readback data w h stride flipped of
       None \<Rightarrow> False
     | Some (Inl e) \<Rightarrow> w = 0 \<or> h = 0 \<or> unat stride < unat w * 4 \<or> length data < unat stride * unat h
     | Some (Inr m) \<Rightarrow> w \<noteq> 0 \<and> h \<noteq> 0 \<and> unat w * 4 \<le> unat stride \<and> unat stride * unat h \<le> length data \<and>
         image_tight m \<and> ib_width m = w \<and> ib_height m = h \<and>
         (\<forall>x y. \<not> w \<le> x \<and> \<not> h \<le> y \<longrightarrow>
            image_pixel m x y =
              slice data ((if flipped then unat h - 1 - unat y else unat y) * unat stride + unat x * 4) 4))"
proof (cases "w = 0 \<or> h = 0 \<or> unat stride < unat w * 4 \<or> length data < unat stride * unat h")
  case True
  then show ?thesis by (auto simp: image_from_readback_def Let_def)
next
  case False
  then have ok: "w \<noteq> 0" "h \<noteq> 0" "unat w * 4 \<le> unat stride" "unat stride * unat h \<le> length data" by simp_all
  define ord where "ord y = (if flipped then unat h - 1 - y else y)" for y
  define row where "row y = take (unat w * 4) (drop (ord y * unat stride) data)" for y
  have ord: "ord y < unat h" if "y < unat h" for y using that by (auto simp: ord_def)
  have inside: "ord y * unat stride + unat w * 4 \<le> length data" if "y < unat h" for y
    using row_in_data[OF ok(3,4) ord[OF that]] .
  then have len: "length (row y) = unat w * 4" if "y < unat h" for y using inside[OF that] by (simp add: row_def)
  let ?rows = "concat (map row [0..<unat h])"
  have rows: "tight_rows data (unat w * 4) (unat stride) (\<lambda>y. if flipped then unat h - 1 - y else y) (unat h) = Some ?rows"
    unfolding ord_def[symmetric] row_def by (rule tight_rows_Some) (rule inside)
  have "slice data 0 (unat stride * unat h) = Some ?rows" if "unat stride = unat w * 4" "\<not> flipped"
    using ok(4) that take_rows[of "unat w * 4" "unat h" data] by (simp add: slice_def row_def[abs_def] ord_def)
  with rows False have result: "image_from_readback data w h stride flipped =
      Some (map_sum (ReInvalidImage \<circ> err_message) id (from_rgba w h ?rows))"
    by (auto simp: image_from_readback_def Let_def)
  have "length ?rows = unat w * 4 * unat h" using len by (subst length_concat_chunks) auto
  moreover have "unat w * 4 \<le> 4294967295" using ok(3) unat_lt2p_len[of stride] by simp
  ultimately obtain m where m: "from_rgba w h ?rows = Inr m" "image_tight m" "ib_width m = w" "ib_height m = h" "ib_data m = ?rows"
    using from_rgba_tight by blast
  have "image_pixel m x y = slice data (ord (unat y) * unat stride + unat x * 4) 4" if "\<not> w \<le> x" "\<not> h \<le> y" for x y
  proof -
    have xy: "x < w" "y < h" using that by simp_all
    then have lt: "unat x < unat w" "unat y < unat h" by (simp_all add: word_less_nat_alt)
    have four: "unat x * 4 + 4 \<le> unat w * 4" using lt(1) by simp
    have "image_pixel m x y = Some (take 4 (drop (unat x * 4) (row (unat y))))"
      using image_pixel_wf[OF image_tight_wf[OF m(2)], of x y] m xy rows_pixel[of "unat h" row "unat w", OF len lt(2,1)]
      by (simp add: image_tight_def)
    also have "take 4 (drop (unat x * 4) (row (unat y))) = take 4 (drop (ord (unat y) * unat stride + unat x * 4) data)"
      using four by (simp add: row_def drop_take min_def add.commute)
    finally show ?thesis using inside[OF lt(2)] four by (simp add: slice_def)
  qed
  with m ok result show ?thesis by (simp add: ord_def)
qed

section \<open>A picture\<close>

text \<open>Two rows of two pixels, each row padded by four bytes.\<close>

definition demo_image :: ImageBuffer where
  "demo_image = \<lparr>ib_width = 2, ib_height = 2, ib_stride = 12, ib_format = Rgba8,
     ib_data = [10, 0, 0, 255, 20, 0, 0, 255, 7, 7, 7, 7, 30, 0, 0, 255, 41, 0, 0, 255, 7, 7, 7, 7]\<rparr>"

lemma two_pixels: "\<not> (2 :: u32) \<le> 1" "\<not> (2 :: u32) \<le> 0"
  by (simp_all add: word_le_nat_alt)

lemma demo_image_wf: "image_wf demo_image"
  by (simp add: image_wf_def demo_image_def)

theorem crop_is_exact_witness:
  "\<exists>out. crop demo_image (Rect_new 1 0 5 2) = Some out \<and> image_pixel out 0 1 = Some [41, 0, 0, 255]"
proof -
  have c: "intersect (Rect_new 1 0 5 2) (image_rect demo_image) = Some (Rect_new 1 0 1 2)"
    by (simp add: intersect_def Rect_new_def image_rect_def demo_image_def image_size_def from_size_def rect_is_empty_def clamp_i32_def)
  have "image_pixel demo_image 1 1 = Some [41, 0, 0, 255]" by (simp add: image_pixel_def demo_image_def slice_def two_pixels)
  with crop_is_exact[OF demo_image_wf, of "Rect_new 1 0 5 2"] c show ?thesis by (auto simp: Rect_new_def word_less_nat_alt)
qed

theorem downscale_is_exact_average_witness:
  "\<exists>out. downscale demo_image 1 = Some out \<and> unat (the (image_pixel out 0 0) ! 0) = 25"
proof -
  have t: "fit_dimensions (image_size demo_image) 1 = \<lparr>sw = 1, sh = 1\<rparr>"
    by (simp add: fit_dimensions_def image_size_def demo_image_def scale_edge_def two_pixels)
  have "box_average demo_image (box_range 2 1 0) (box_range 2 1 0) 0 = 25"
    by (simp add: box_average_def box_range_def channel_at_def demo_image_def upt_rec)
  moreover have "ib_width demo_image = 2" "ib_height demo_image = 2" by (simp_all add: demo_image_def)
  ultimately show ?thesis
    using downscale_is_exact_average[OF demo_image_wf, of 1, OF _ _ _ _ t[symmetric]] by (auto simp: word_less_nat_alt)
qed

end
