(* ===== verification/Server_Error.thy ===== *)
theory Server_Error
  imports Compositor_State App_Launch Observer_Wait Notify_Store Proto_Frame Core_Image
begin

text \<open>
  The error type of the server (\<open>crates/adesk-server/src/error.rs\<close>) with the error of \<open>adesk-inspector\<close>
  it wraps, and the error object a response carries.
\<close>

datatype InspectorError =
    InvalidFrame string
  | InspectInvalidRequest string
  | InspectRender RenderError

datatype ServerError =
    SeCompositor CompositorError
  | SeIo string
  | SeRegistry RegistryError
  | SeProto ProtoError
  | SeObserver ObserverError
  | SeNotify NotifyError
  | SeA11y Error
  | SeInspector InspectorError
  | SeRender RenderError
  | SeShuttingDown
  | SeJoin string
  | SeInternal string

fun server_error_code :: "ServerError \<Rightarrow> ErrorCode" where
  "server_error_code (SeObserver e) =
     (case e of ObsUnknownWindow _ \<Rightarrow> UnknownWindow | ObsUnknownAction _ \<Rightarrow> InvalidRequest | ObsInternal _ \<Rightarrow> Internal)"
| "server_error_code (SeNotify e) =
     (case e of NotifyUnknown _ \<Rightarrow> UnknownNotification | NotifyInvalid _ \<Rightarrow> InvalidRequest | NotifyInternal _ \<Rightarrow> Internal)"
| "server_error_code (SeA11y e) = err_code e"
| "server_error_code (SeRegistry e) = registry_error_code e"
| "server_error_code (SeInspector e) =
     (case e of InvalidFrame _ \<Rightarrow> InvalidRequest | InspectInvalidRequest _ \<Rightarrow> InvalidRequest | InspectRender _ \<Rightarrow> RenderFailed)"
| "server_error_code (SeRender e) = render_error_code e"
| "server_error_code (SeCompositor e) = compositor_error_code e"
| "server_error_code (SeProto e) = proto_error_code e"
| "server_error_code SeShuttingDown = ShuttingDown"
| "server_error_code (SeIo _) = Internal"
| "server_error_code (SeJoin _) = Internal"
| "server_error_code (SeInternal _) = Internal"

text \<open>The message is what \<open>thiserror\<close> derives; \<open>data\<close> names the entity an unknown-entity error is about.\<close>

fun error_data :: "ServerError \<Rightarrow> Value option" where
  "error_data (SeObserver (ObsUnknownWindow w)) = Some (JObject [(''window_id'', JNat (window_raw w))])"
| "error_data (SeObserver (ObsUnknownAction a)) = Some (JObject [(''action_id'', JNat (action_raw a))])"
| "error_data (SeNotify (NotifyUnknown n)) = Some (JObject [(''notification_id'', JNat (notification_raw n))])"
| "error_data (SeRegistry (UnknownApp app)) = Some (JObject [(''app_id'', JString app)])"
| "error_data _ = None"

definition server_error_payload :: "(ServerError \<Rightarrow> string) \<Rightarrow> ServerError \<Rightarrow> ErrorPayload" where
  "server_error_payload display e =
     \<lparr>ep_code = server_error_code e, ep_message = display e, ep_data = error_data e\<rparr>"

definition error_response :: "(ServerError \<Rightarrow> string) \<Rightarrow> u64 \<Rightarrow> ServerError \<Rightarrow> 'p Frame" where
  "error_response display i e = Response i (RoError (server_error_payload display e))"

text \<open>What the compositor answers about a window, as the request that named it reports it.\<close>

definition command_error :: "WindowId option \<Rightarrow> Error \<Rightarrow> ServerError" where
  "command_error w e =
     SeCompositor
       (if err_code e = UnknownWindow
        then (case w of Some w \<Rightarrow> CeUnknownWindow w | None \<Rightarrow> CeInternal (err_message e))
        else if err_code e = InvalidRequest then CeInvalidRequest (err_message e)
        else if err_code e = RenderFailed \<or> err_code e = CaptureFailed then CeRender (err_message e)
        else if err_code e = ShuttingDown then CeStopped
        else CeInternal (err_message e))"

text \<open>
  The round trip of a compositor error through the command channel keeps its code, except that an
  unknown window the request did not name becomes an internal error.
\<close>

lemma command_error_code:
  "server_error_code (command_error w (compositor_error_into e)) =
     (if compositor_error_code e = UnknownWindow \<and> w = None then Internal else compositor_error_code e)"
  by (cases e; cases w) (simp_all add: command_error_def compositor_error_into_def Error_new_def)

end
