(* ===== verification/Compositor_Run.thy ===== *)
theory Compositor_Run
  imports Compositor_State
begin

text \<open>
  Runs of the compositor: the protocol handlers and commands as operations, the states a trace of them
  reaches, and what an observer of the event stream can conclude. The abstract specification is a
  \<open>View\<close> rebuilt from the events alone; each event is accepted only in a view where it makes sense.
\<close>

section \<open>Operations\<close>

datatype Operation =
    OpToplevelRegistered ObjectId
  | OpToplevelDestroyed ObjectId
  | OpTitleChanged ObjectId
  | OpAppIdChanged ObjectId
  | OpPopupCreated ObjectId
  | OpPopupDestroyed ObjectId
  | OpPopupGrab ObjectId
  | OpRepositionRequest bool ObjectId
  | OpSurfaceCommit ObjectId
  | OpCommand RuntimeCommand

fun run_op :: "'i Env \<Rightarrow> Operation \<Rightarrow> CompositorState \<Rightarrow> CompositorState" where
  "run_op E (OpToplevelRegistered t) st = on_toplevel_registered t st"
| "run_op E (OpToplevelDestroyed t) st = on_toplevel_destroyed E t st"
| "run_op E (OpTitleChanged t) st = on_title_changed E t st"
| "run_op E (OpAppIdChanged t) st = on_app_id_changed E t st"
| "run_op E (OpPopupCreated p) st = on_popup_created E p st"
| "run_op E (OpPopupDestroyed p) st = on_popup_destroyed E p st"
| "run_op E (OpPopupGrab p) st = st\<lparr>cs_wm := note_popup_grab p (cs_wm st)\<rparr>"
| "run_op E (OpRepositionRequest c p) st = reposition_request E c p st"
| "run_op E (OpSurfaceCommit s) st = on_surface_commit E s st"
| "run_op E (OpCommand c) st = fst (handle_command E c st)"

text \<open>The sequence numbers an operation gives away without publishing an event.\<close>

fun handed_out :: "Operation \<Rightarrow> CompositorState \<Rightarrow> u64 list" where
  "handed_out (OpCommand ReserveSeq) st = [fst (next_seq st)]"
| "handed_out _ st = []"

text \<open>Wayland creates a popup's surface once.\<close>

fun op_allowed :: "Operation \<Rightarrow> CompositorState \<Rightarrow> bool" where
  "op_allowed (OpPopupCreated p) st \<longleftrightarrow> reg_popup (wb_surfaces (cs_wm st)) p = None"
| "op_allowed _ st \<longleftrightarrow> True"

text \<open>The trace of calls, the numbers reserved by the server, and the state reached.\<close>

inductive compositor_reach :: "('i Env \<times> Operation) list \<Rightarrow> u64 list \<Rightarrow> CompositorState \<Rightarrow> bool" where
  reach_new: "compositor_reach [] [] (State_new sz injector)"
| reach_op: "compositor_reach tr rs st \<Longrightarrow> op_allowed op st \<Longrightarrow>
    compositor_reach (tr @ [(E, op)]) (rs @ handed_out op st) (run_op E op st)"

section \<open>The view of an observer\<close>

record View =
  vw_windows :: "WindowId \<Rightarrow> (string option \<times> u64) option"
  vw_popups :: "(WindowId \<times> u64) set"
  vw_active :: "WindowId option"

definition view_empty :: View where
  "view_empty = \<lparr>vw_windows = (\<lambda>_. None), vw_popups = {}, vw_active = None\<rparr>"

text \<open>What an event tells; \<open>None\<close> where it contradicts what was seen before.\<close>

fun view_event :: "RuntimeEvent \<Rightarrow> View \<Rightarrow> View option" where
  "view_event (WindowCreated _ _ w _ _ _ title) v =
     (if vw_windows v w = None \<and> w \<notin> fst ` vw_popups v
      then Some (v\<lparr>vw_windows := (vw_windows v)(w := Some (title, 0))\<rparr>) else None)"
| "view_event (WindowDestroyed _ _ w) v =
     (if vw_windows v w \<noteq> None \<and> w \<notin> fst ` vw_popups v
      then Some (v\<lparr>vw_windows := (vw_windows v)(w := None),
                   vw_active := (if vw_active v = Some w then None else vw_active v)\<rparr>) else None)"
| "view_event (WindowActivated _ _ w previous) v =
     (if vw_windows v w \<noteq> None \<and> previous = vw_active v \<and> vw_active v \<noteq> Some w
      then Some (v\<lparr>vw_active := Some w\<rparr>) else None)"
| "view_event (FocusChanged _ _ w) v = (if w = vw_active v then Some v else None)"
| "view_event (TitleChanged _ _ w title) v =
     (case vw_windows v w of
        None \<Rightarrow> None
      | Some (t, c) \<Rightarrow>
          if t = title then None else Some (v\<lparr>vw_windows := (vw_windows v)(w := Some (title, c))\<rparr>))"
| "view_event (SurfaceCommit _ _ w c _) v =
     (case vw_windows v w of
        None \<Rightarrow> None
      | Some (t, c') \<Rightarrow>
          if c' < c \<and> c = c' + 1 then Some (v\<lparr>vw_windows := (vw_windows v)(w := Some (t, c))\<rparr>) else None)"
| "view_event (PopupAppeared _ _ w p) v =
     (if vw_windows v w \<noteq> None \<and> p \<notin> snd ` vw_popups v
      then Some (v\<lparr>vw_popups := insert (w, p) (vw_popups v)\<rparr>) else None)"
| "view_event (PopupDisappeared _ _ w p) v =
     (if (w, p) \<in> vw_popups v then Some (v\<lparr>vw_popups := vw_popups v - {(w, p)}\<rparr>) else None)"
| "view_event _ v = Some v"

fun replay :: "RuntimeEvent list \<Rightarrow> View \<Rightarrow> View option" where
  "replay [] v = Some v"
| "replay (e # es) v = Option.bind (view_event e v) (replay es)"

text \<open>What the compositor itself holds.\<close>

definition bridge_view :: "WmBridge \<Rightarrow> View" where
  "bridge_view b =
     \<lparr>vw_windows = (\<lambda>w. map_option snd (win (wb_model b) w)),
      vw_popups = {(w, p). p \<in> popups_of (wb_surfaces b) w},
      vw_active = active_window (wb_model b)\<rparr>"

abbreviation state_view :: "CompositorState \<Rightarrow> View" where
  "state_view st \<equiv> bridge_view (cs_wm st)"

lemma replay_append: "replay (es @ fs) v = Option.bind (replay es v) (replay fs)"
  by (induction es arbitrary: v) (auto split: Option.bind_split)

section \<open>Emission\<close>

text \<open>Between two states the events \<open>es\<close> were published, numbered without a gap.\<close>

definition emitted :: "CompositorState \<Rightarrow> RuntimeEvent list \<Rightarrow> CompositorState \<Rightarrow> bool" where
  "emitted st es st' \<longleftrightarrow>
     cs_sent st' = cs_sent st @ es \<and> cs_last_seq st' = cs_last_seq st + of_nat (length es) \<and>
     map event_seq es = map (\<lambda>k. cs_last_seq st + of_nat (Suc k)) [0..<length es]"

lemma emitted_none [intro]:
  "cs_sent st' = cs_sent st \<Longrightarrow> cs_last_seq st' = cs_last_seq st \<Longrightarrow> emitted st [] st'"
  by (simp add: emitted_def)

lemma emitted_trans:
  assumes "emitted st es st'" "emitted st' fs st''"
  shows "emitted st (es @ fs) st''"
proof -
  have last: "cs_last_seq st' = cs_last_seq st + of_nat (length es)" using assms(1) by (simp add: emitted_def)
  have "map event_seq fs = map (\<lambda>k. cs_last_seq st + of_nat (Suc k)) (map (\<lambda>k. k + length es) [0..<length fs])"
    using assms(2) by (simp add: emitted_def last comp_def ac_simps)
  also have "map (\<lambda>k. k + length es) [0..<length fs] = [length es..<length es + length fs]"
    by (simp add: map_add_upt add.commute)
  finally show ?thesis
    using assms unfolding emitted_def
    by (simp only: map_append length_append upt_add_eq_append[OF le0] append_assoc of_nat_add add.assoc)
qed

lemma emit_sel [simp]:
  "cs_wm (emit E f st) = cs_wm st" "cs_focus (emit E f st) = cs_focus st" "cs_out (emit E f st) = cs_out st"
  "cs_output_size (emit E f st) = cs_output_size st" "cs_injector (emit E f st) = cs_injector st"
  by (simp_all add: emit_def next_seq_def)

lemma emit_emitted:
  assumes "\<And>s ts. event_seq (f s ts) = s"
  shows "emitted st [f (cs_last_seq st + 1) (ev_ts E (cs_last_seq st + 1))] (emit E f st)"
  using assms by (simp add: emitted_def emit_def next_seq_def)

lemma send_sel [simp]:
  "cs_wm (send_message m st) = cs_wm st" "cs_sent (send_message m st) = cs_sent st"
  "cs_last_seq (send_message m st) = cs_last_seq st" "cs_focus (send_message m st) = cs_focus st"
  by (simp_all add: send_message_def)

lemma send_all_sel [simp]:
  "cs_wm (fold (\<lambda>(k, ks). send_message (MsgKey k ks t)) plan st) = cs_wm st"
  "cs_sent (fold (\<lambda>(k, ks). send_message (MsgKey k ks t)) plan st) = cs_sent st"
  "cs_last_seq (fold (\<lambda>(k, ks). send_message (MsgKey k ks t)) plan st) = cs_last_seq st"
  by (induction plan arbitrary: st) (auto simp: split_def)

lemma dismiss_sel [simp]:
  "cs_sent (dismiss_stale_grab i st) = cs_sent st" "cs_last_seq (dismiss_stale_grab i st) = cs_last_seq st"
  "wb_manager (cs_wm (dismiss_stale_grab i st)) = wb_manager (cs_wm st)"
  "wb_surfaces (cs_wm (dismiss_stale_grab i st)) = wb_surfaces (cs_wm st)"
  "wb_launches (cs_wm (dismiss_stale_grab i st)) = wb_launches (cs_wm st)"
  "wb_launch_ids (cs_wm (dismiss_stale_grab i st)) = wb_launch_ids (cs_wm st)"
  by (simp_all add: dismiss_stale_grab_def take_popup_grab_def Let_def split: option.split)

lemma dismiss_wm: "\<exists>gr. cs_wm (dismiss_stale_grab i st) = (cs_wm st)\<lparr>wb_grab := gr\<rparr>"
  by (auto simp: dismiss_stale_grab_def take_popup_grab_def Let_def split: option.split
      intro: exI[of _ "wb_grab (cs_wm st)"])

lemma dismiss_ok [simp]: "bridge_ok (cs_wm (dismiss_stale_grab i st)) \<longleftrightarrow> bridge_ok (cs_wm st)"
proof -
  obtain gr where gr: "cs_wm (dismiss_stale_grab i st) = (cs_wm st)\<lparr>wb_grab := gr\<rparr>" using dismiss_wm by blast
  have "cs_wm st = ((cs_wm st)\<lparr>wb_grab := gr\<rparr>)\<lparr>wb_grab := wb_grab (cs_wm st)\<rparr>" by simp
  with gr show ?thesis using bridge_ok_grab(1) by metis
qed

lemma bridge_view_cong:
  "win (wb_model b) = win (wb_model b') \<Longrightarrow> popups_of (wb_surfaces b) = popups_of (wb_surfaces b') \<Longrightarrow>
   active_window (wb_model b) = active_window (wb_model b') \<Longrightarrow> bridge_view b = bridge_view b'"
  by (simp add: bridge_view_def)

lemma dismiss_view [simp]: "state_view (dismiss_stale_grab i st) = state_view st"
  by (rule bridge_view_cong) simp_all


section \<open>Counters\<close>

text \<open>Ids stay at most \<open>n + 1\<close>, commit counters at most \<open>m\<close>.\<close>

definition within :: "nat \<Rightarrow> nat \<Rightarrow> WmBridge \<Rightarrow> bool" where
  "within n m b \<longleftrightarrow>
     unat (next_id (wb_model b)) \<le> n + 1 \<and> unat (sr_next_surface_key (wb_surfaces b)) \<le> n + 1 \<and>
     unat (sr_next_popup_id (wb_surfaces b)) \<le> n + 1 \<and>
     (\<forall>w k t c. win (wb_model b) w = Some (k, t, c) \<longrightarrow> unat c \<le> m)"

lemma within_mono: "within n m b \<Longrightarrow> n \<le> n' \<Longrightarrow> m \<le> m' \<Longrightarrow> within n' m' b"
  unfolding within_def by (meson add_le_mono1 le_trans)

lemma within_Suc: "within n m b \<Longrightarrow> within (Suc n) (Suc m) b" "within (Suc n) m b \<Longrightarrow> within (Suc n) (Suc m) b"
  by (auto elim: within_mono)

lemma within_room:
  assumes "within n m b" "n + 1 < 2 ^ 64 - 1"
  shows "key_room b" "id_room b" "popup_room b"
  using assms by (auto simp: within_def key_room_def id_room_def popup_room_def)

lemma within_cong:
  assumes "within n m b" "next_id (wb_model b') = next_id (wb_model b)" "wb_surfaces b' = wb_surfaces b"
    "\<And>w. map_option (snd \<circ> snd) (win (wb_model b') w) = map_option (snd \<circ> snd) (win (wb_model b) w)"
  shows "within n m b'"
proof -
  have "unat c \<le> m" if "win (wb_model b') w = Some (k, t, c)" for w k t c
    using that assms(4)[of w] assms(1) by (cases "win (wb_model b) w") (auto simp: within_def)
  with assms show ?thesis by (simp add: within_def)
qed

lemma bump_word: "unat (x :: u64) \<le> n \<Longrightarrow> n < 2 ^ 64 - 1 \<Longrightarrow> unat (x + 1) \<le> Suc n"
  by (simp add: unat_Suc_word)

lemma register_counters:
  "next_id (wb_model (snd (register_toplevel t b))) = next_id (wb_model b)"
  "sr_next_popup_id (wb_surfaces (snd (register_toplevel t b))) = sr_next_popup_id (wb_surfaces b)"
  "sr_next_surface_key (wb_surfaces (snd (register_toplevel t b))) \<in>
     {sr_next_surface_key (wb_surfaces b), sr_next_surface_key (wb_surfaces b) + 1}"
  by (auto simp: reg_register_toplevel_def Let_def split: option.split)

lemma register_within:
  assumes "within n m b" "n + 1 < 2 ^ 64 - 1"
  shows "within (Suc n) m (snd (register_toplevel t b))"
  using assms register_counters[of t b] bump_word[of "sr_next_surface_key (wb_surfaces b)" "n + 1"]
  by (auto simp: within_def)

lemma on_map_next_id: "next_id (fst (on_map m c rq)) \<in> {next_id m, next_id m + 1}"
  by (auto simp: on_map_def Let_def split: option.split)

lemma map_counters:
  "next_id (wb_model (snd (map_toplevel C now t pid q b))) \<in> {next_id (wb_model b), next_id (wb_model b) + 1}"
  "sr_next_popup_id (wb_surfaces (snd (map_toplevel C now t pid q b))) = sr_next_popup_id (wb_surfaces b)"
  "sr_next_surface_key (wb_surfaces (snd (map_toplevel C now t pid q b))) \<in>
     {sr_next_surface_key (wb_surfaces b), sr_next_surface_key (wb_surfaces b) + 1}"
  using on_map_next_id[of "wb_model b" "config (wb_manager b)"
      "\<lparr>m_surface_key = fst (reg_register_toplevel t (wb_surfaces b)), m_app_id = fst (cl_metadata C t), m_pid = pid,
        m_title = snd (cl_metadata C t), m_created_seq = q\<rparr>"]
    register_counters[of t b]
  by (auto simp: map_toplevel_def Let_def case_prod_beta reg_bind_def split: option.split)

lemma map_within:
  assumes "within n m b" "n + 1 < 2 ^ 64 - 1" "map_toplevel C now t pid q b = (out, b')"
    and "\<And>w r. win (wb_model b') w = Some r \<Longrightarrow> win (wb_model b) w = Some r \<or> snd (snd r) = 0"
  shows "within (Suc n) m b'"
proof -
  have "unat c \<le> m" if "win (wb_model b') w = Some (k, t, c)" for w k t c
    using assms(4)[OF that] assms(1) by (auto simp: within_def)
  with assms(1-3) map_counters[of C now t pid q b] bump_word[of "sr_next_surface_key (wb_surfaces b)" "n + 1"]
    bump_word[of "next_id (wb_model b)" "n + 1"]
  show ?thesis by (auto simp: within_def)
qed

lemma on_destroy_next_id: "next_id (fst (on_destroy m i)) = next_id m"
  by (auto simp: on_destroy_def Let_def split: option.split)

lemma destroy_counters:
  assumes "destroy_toplevel t b = Some (dw, b')"
  shows "next_id (wb_model b') = next_id (wb_model b)"
    "sr_next_popup_id (wb_surfaces b') = sr_next_popup_id (wb_surfaces b)"
    "sr_next_surface_key (wb_surfaces b') = sr_next_surface_key (wb_surfaces b)"
  using assms on_destroy_next_id
  by (auto simp: destroy_toplevel_def Let_def case_prod_beta reg_unbind_toplevel_def reg_remove_popups_of_def
      split: option.splits if_splits)


section \<open>The handlers and the view\<close>

lemma active_known: "bridge_ok b \<Longrightarrow> active_window (wb_model b) = Some w \<Longrightarrow> win (wb_model b) w \<noteq> None"
  using wm_inv_D(6)[of "wb_manager b"] by (cases "mru (wb_model b)") (auto simp: active_window_def win_None)

lemma bridge_view_sel [simp]:
  "vw_windows (bridge_view b) w = map_option snd (win (wb_model b) w)"
  "(w, i) \<in> vw_popups (bridge_view b) \<longleftrightarrow> i \<in> popups_of (wb_surfaces b) w"
  "vw_active (bridge_view b) = active_window (wb_model b)"
  by (simp_all add: bridge_view_def)

lemma popup_owner_known: "bridge_ok b \<Longrightarrow> i \<in> popups_of (wb_surfaces b) w \<Longrightarrow> win (wb_model b) w \<noteq> None"
  unfolding popups_of_def using bridge_okD(6) by blast

lemma view_no_popups: "bridge_ok b \<Longrightarrow> win (wb_model b) w = None \<Longrightarrow> w \<notin> fst ` vw_popups (bridge_view b)"
  using popup_owner_known[of b _ w] by (auto simp: bridge_view_def)

lemma view_fresh_popup:
  assumes "bridge_ok b" shows "sr_next_popup_id (wb_surfaces b) \<notin> snd ` vw_popups (bridge_view b)"
proof -
  have "p < sr_next_popup_id (wb_surfaces b)" if "p \<in> popups_of (wb_surfaces b) w" for p w
    using that reg_okD(3)[OF bridge_ok_simps(2)[OF assms]] by (auto simp: popups_of_def)
  then show ?thesis by (force simp: bridge_view_def)
qed

lemma bridge_view_eqI:
  assumes "\<And>w. map_option snd (win (wb_model b) w) = vw_windows v w"
    "\<And>w. popups_of (wb_surfaces b) w = {i. (w, i) \<in> vw_popups v}" "active_window (wb_model b) = vw_active v"
  shows "bridge_view b = v"
proof -
  have "vw_windows (bridge_view b) = vw_windows v" using assms(1) by (simp add: bridge_view_def)
  moreover have "vw_popups (bridge_view b) = vw_popups v" using assms(2) by (auto simp: bridge_view_def)
  ultimately show ?thesis using assms(3) by (intro View.equality) simp_all
qed

text \<open>The events published from \<open>st\<close> to \<open>st'\<close> take an observer from \<open>v\<close> to \<open>v'\<close>.\<close>

definition follows :: "View \<Rightarrow> CompositorState \<Rightarrow> View \<Rightarrow> CompositorState \<Rightarrow> bool" where
  "follows v st v' st' \<longleftrightarrow> (\<exists>es. emitted st es st' \<and> replay es v = Some v')"

lemma follows_emit:
  assumes "follows v st v' X" "\<And>s ts. event_seq (f s ts) = s" "\<And>s ts. view_event (f s ts) v' = Some v''"
  shows "follows v st v'' (emit E f X)"
proof -
  obtain es where es: "emitted st es X" "replay es v = Some v'" using assms(1) by (auto simp: follows_def)
  show ?thesis
    unfolding follows_def using emitted_trans[OF es(1) emit_emitted[OF assms(2)]] es(2) assms(3)
    by (intro exI conjI) (assumption, simp add: replay_append)
qed

lemma follows_silent:
  assumes "follows v st v' X" "cs_sent X' = cs_sent X" "cs_last_seq X' = cs_last_seq X"
  shows "follows v st v' X'"
  using assms by (auto simp: follows_def emitted_def)

lemma follows_refl: "follows v st v st"
  unfolding follows_def by (rule exI[of _ "[]"]) (auto intro: emitted_none)

lemma follows_trans: "follows v st v' st' \<Longrightarrow> follows v' st' v'' st'' \<Longrightarrow> follows v st v'' st''"
  unfolding follows_def using emitted_trans replay_append by (metis Option.bind.bind_lunit)

lemma follows_quiet [intro]:
  "follows v st v' X \<Longrightarrow> follows v st v' (X\<lparr>cs_wm := b\<rparr>)"
  "follows v st v' X \<Longrightarrow> follows v st v' (X\<lparr>cs_focus := f\<rparr>)"
  "follows v st v' X \<Longrightarrow> follows v st v' (send_message m X)"
  "follows v st v' X \<Longrightarrow> follows v st v' (dismiss_stale_grab i X)"
  by (auto elim: follows_silent)

text \<open>One step of the compositor: the invariant is kept, and its events take an observer from what the
  compositor held to what it holds.\<close>

definition advance :: "CompositorState \<Rightarrow> CompositorState \<Rightarrow> bool" where
  "advance st st' \<longleftrightarrow> bridge_ok (cs_wm st') \<and> follows (state_view st) st (state_view st') st'"

lemma advanceI:
  "bridge_ok (cs_wm st') \<Longrightarrow> follows (state_view st) st v st' \<Longrightarrow> v = state_view st' \<Longrightarrow> advance st st'"
  unfolding advance_def by simp

lemma advance_refl: "bridge_ok (cs_wm st) \<Longrightarrow> advance st st"
  by (simp add: advance_def follows_refl)

lemma advance_silent:
  "bridge_ok (cs_wm st') \<Longrightarrow> cs_sent st' = cs_sent st \<Longrightarrow> cs_last_seq st' = cs_last_seq st \<Longrightarrow>
   state_view st' = state_view st \<Longrightarrow> advance st st'"
  by (rule advanceI[OF _ follows_silent[OF follows_refl]]) simp_all

lemma advance_trans: "advance st st' \<Longrightarrow> advance st' st'' \<Longrightarrow> advance st st''"
  unfolding advance_def using follows_trans by blast

lemma advance_emit:
  assumes "bridge_ok b" "\<And>s ts. event_seq (f s ts) = s" "\<And>s ts. view_event (f s ts) (state_view st) = Some (bridge_view b)"
  shows "advance st (emit E f (st\<lparr>cs_wm := b\<rparr>))"
  by (rule advanceI[OF _ follows_emit[OF follows_quiet(1)[OF follows_refl]]]) (use assms in simp_all)

text \<open>Activation, from the view in which the previous window is still the active one.\<close>

lemma follows_activate:
  assumes "follows v0 st v X" "vw_windows v i \<noteq> None" "vw_active v = previous" "previous \<noteq> Some i"
  shows "follows v0 st (v\<lparr>vw_active := Some i\<rparr>) (apply_activate E i previous X)"
  unfolding apply_activate_def Let_def
proof -
  have "follows v0 st (v\<lparr>vw_active := Some i\<rparr>) (emit E (\<lambda>s t. WindowActivated s t i previous) Y)"
    if "follows v0 st v Y" for Y
    by (rule follows_emit[OF that]) (use assms in simp_all)
  then show "follows v0 st (v\<lparr>vw_active := Some i\<rparr>)
      (emit E (\<lambda>s t. FocusChanged s t (Some i)) (emit E (\<lambda>s t. WindowActivated s t i previous)
        (dismiss_stale_grab i X\<lparr>cs_focus := toplevel_of (cs_wm (dismiss_stale_grab i X)) i\<rparr>)))"
    by (rule follows_emit) (use assms(1) in auto)
qed

lemma apply_activate_sel [simp]:
  "wb_manager (cs_wm (apply_activate E i p st)) = wb_manager (cs_wm st)"
  "wb_surfaces (cs_wm (apply_activate E i p st)) = wb_surfaces (cs_wm st)"
  "wb_launches (cs_wm (apply_activate E i p st)) = wb_launches (cs_wm st)"
  "wb_launch_ids (cs_wm (apply_activate E i p st)) = wb_launch_ids (cs_wm st)"
  "bridge_ok (cs_wm (apply_activate E i p st)) \<longleftrightarrow> bridge_ok (cs_wm st)"
  "state_view (apply_activate E i p st) = state_view st"
  by (simp_all add: apply_activate_def Let_def)

lemma apply_configure_sel [simp]:
  "cs_wm (apply_action E p (ConfigureWindow i r) st) = cs_wm st"
  "cs_sent (apply_action E p (ConfigureWindow i r) st) = cs_sent st"
  "cs_last_seq (apply_action E p (ConfigureWindow i r) st) = cs_last_seq st"
  by (simp_all split: option.split)

lemma advance_map:
  assumes ok: "bridge_ok (cs_wm st)" and room: "key_room (cs_wm st)" "id_room (cs_wm st)"
  shows "advance st (on_toplevel_mapped E t st)"
proof (cases "Option.bind (reg_slot (wb_surfaces (cs_wm st)) t) sl_window")
  case None
  obtain mw b' rect key where m:
    "map_toplevel (ev_clients E) (ev_now E) t (cl_pid (ev_clients E) t) (cs_last_seq st) (cs_wm st) = (MapCreated mw, b')"
    "bridge_ok b'" "mw_decision mw = \<lparr>wd_actions = [ConfigureWindow (mw_id mw) rect, Activate (mw_id mw)],
       wd_previous_focus = keyboard_focus (cs_wm st)\<rparr>"
    "win (wb_model (cs_wm st)) (mw_id mw) = None" "active_window (wb_model b') = Some (mw_id mw)"
    "\<And>j. win (wb_model b') j = (if j = mw_id mw then Some (key, mw_title mw, 0) else win (wb_model (cs_wm st)) j)"
    "sr_popups (wb_surfaces b') = sr_popups (wb_surfaces (cs_wm st))"
    using map_effect[OF ok room None] by metis
  let ?v = "(state_view st)\<lparr>vw_windows := (vw_windows (state_view st))(mw_id mw := Some (mw_title mw, 0))\<rparr>"
  have active: "active_window (wb_model (cs_wm st)) \<noteq> Some (mw_id mw)" using active_known[OF ok] m(4) by blast
  have created: "follows (state_view st) st ?v (emit E (\<lambda>s ts. WindowCreated s ts (mw_id mw) (mw_app_id mw) (mw_pid mw)
      (mw_launch_id mw) (mw_title mw)) (st\<lparr>cs_wm := b'\<rparr>))" (is "follows _ _ _ ?st1")
    by (rule follows_emit[OF follows_quiet(1)[OF follows_refl]]) (use m(4) view_no_popups[OF ok m(4)] in simp_all)
  have "follows (state_view st) st (?v\<lparr>vw_active := Some (mw_id mw)\<rparr>)
      (apply_activate E (mw_id mw) (keyboard_focus (cs_wm st)) (apply_action E (keyboard_focus (cs_wm st)) (ConfigureWindow (mw_id mw) rect) ?st1))"
    by (rule follows_activate[OF follows_silent[OF created]]) (use active in \<open>simp_all add: keyboard_focus_def del: apply_action.simps\<close>)
  moreover have "on_toplevel_mapped E t st =
      apply_activate E (mw_id mw) (keyboard_focus (cs_wm st)) (apply_action E (keyboard_focus (cs_wm st)) (ConfigureWindow (mw_id mw) rect) ?st1)"
    using m(1,3) by (simp add: on_toplevel_mapped_def Let_def apply_decision_def)
  moreover have "bridge_view b' = ?v\<lparr>vw_active := Some (mw_id mw)\<rparr>"
    by (rule bridge_view_eqI) (use m(5-7) in \<open>simp_all add: popups_of_def\<close>)
  ultimately show ?thesis using m(2) by (intro advanceI[OF _ _ sym]) (simp_all del: apply_action.simps(1))
qed (use ok in \<open>simp add: on_toplevel_mapped_def map_toplevel_def Let_def advance_refl\<close>)


lemma map_keeps_within:
  assumes ok: "bridge_ok (cs_wm st)" and n: "within n m (cs_wm st)" "n + 1 < 2 ^ 64 - 1"
  shows "within (Suc n) m (cs_wm (on_toplevel_mapped E t st))"
proof (cases "Option.bind (reg_slot (wb_surfaces (cs_wm st)) t) sl_window")
  case None
  obtain mw b' rect key where b':
    "map_toplevel (ev_clients E) (ev_now E) t (cl_pid (ev_clients E) t) (cs_last_seq st) (cs_wm st) = (MapCreated mw, b')"
    "mw_decision mw = \<lparr>wd_actions = [ConfigureWindow (mw_id mw) rect, Activate (mw_id mw)],
       wd_previous_focus = keyboard_focus (cs_wm st)\<rparr>"
    "\<And>j. win (wb_model b') j = (if j = mw_id mw then Some (key, mw_title mw, 0) else win (wb_model (cs_wm st)) j)"
    using map_effect[OF ok within_room(1,2)[OF n] None] by metis
  have "within (Suc n) m b'" by (rule map_within[OF n b'(1)]) (auto simp: b'(3) split: if_splits)
  then show ?thesis
    using b'(1,2) by (simp add: on_toplevel_mapped_def Let_def apply_decision_def within_def del: apply_action.simps(1))
qed (use n in \<open>simp add: on_toplevel_mapped_def map_toplevel_def Let_def within_mono[of n m]\<close>)

lemma replay_popups_gone:
  assumes "distinct ps" "\<And>p. p \<in> set ps \<Longrightarrow> (w, p) \<in> vw_popups v" "follows v0 st v X"
  shows "follows v0 st (v\<lparr>vw_popups := vw_popups v - {w} \<times> set ps\<rparr>)
    (fold (\<lambda>p. emit E (\<lambda>s ts. PopupDisappeared s ts w p)) ps X)"
  using assms
proof (induction ps arbitrary: v X)
  case (Cons p ps)
  have "follows v0 st (v\<lparr>vw_popups := vw_popups v - {(w, p)}\<rparr>) (emit E (\<lambda>s ts. PopupDisappeared s ts w p) X)"
    by (rule follows_emit[OF Cons.prems(3)]) (use Cons.prems(2) in simp_all)
  from Cons.IH[OF _ _ this] Cons.prems(1,2) have "follows v0 st
      (v\<lparr>vw_popups := vw_popups v - {(w, p)}\<rparr>\<lparr>vw_popups := vw_popups v - {(w, p)} - {w} \<times> set ps\<rparr>)
      (fold (\<lambda>p. emit E (\<lambda>s ts. PopupDisappeared s ts w p)) ps (emit E (\<lambda>s ts. PopupDisappeared s ts w p) X))"
    by auto
  moreover have "vw_popups v - {(w, p)} - {w} \<times> set ps = vw_popups v - {w} \<times> set (p # ps)" by auto
  ultimately show ?case by simp
qed simp

lemma fold_emit_wm [simp]: "cs_wm (fold (\<lambda>p. emit E (f p)) ps X) = cs_wm X"
  by (induction ps arbitrary: X) simp_all

lemma advance_destroyed:
  assumes ok: "bridge_ok (cs_wm st)" and n: "within n m (cs_wm st)"
    and d: "destroy_toplevel t (cs_wm st) = Some (dw, b')" "bridge_ok b'"
    "dw_window_id dw = sl_window sl" "wd_previous_focus (dw_decision dw) = None"
    and unbound: "sl_window sl = None \<Longrightarrow> wb_manager b' = wb_manager (cs_wm st) \<and>
      sr_popups (wb_surfaces b') = sr_popups (wb_surfaces (cs_wm st)) \<and> dw_popup_ids dw = [] \<and> wd_actions (dw_decision dw) = []"
    and bound: "\<And>i. sl_window sl = Some i \<Longrightarrow>
       (\<forall>j. win (wb_model b') j = (if j = i then None else win (wb_model (cs_wm st)) j)) \<and>
       (\<forall>j. popups_of (wb_surfaces b') j = (if j = i then {} else popups_of (wb_surfaces (cs_wm st)) j)) \<and>
       set (dw_popup_ids dw) = popups_of (wb_surfaces (cs_wm st)) i \<and> sorted_wrt (<) (dw_popup_ids dw) \<and>
       win (wb_model (cs_wm st)) i \<noteq> None \<and>
       (active_window (wb_model (cs_wm st)) \<noteq> Some i \<and> wd_actions (dw_decision dw) = [] \<and>
          active_window (wb_model b') = active_window (wb_model (cs_wm st)) \<or>
        active_window (wb_model (cs_wm st)) = Some i \<and> active_window (wb_model b') = None \<and> wd_actions (dw_decision dw) = [] \<or>
        (\<exists>f. active_window (wb_model (cs_wm st)) = Some i \<and> active_window (wb_model b') = Some f \<and>
           wd_actions (dw_decision dw) = [ActivatePrevious f]))"
  shows "advance st (on_toplevel_destroyed E t st) \<and> within n m (cs_wm (on_toplevel_destroyed E t st))"
proof -
  have within': "within n m b'"
  proof -
    have "unat c \<le> m" if "win (wb_model b') w = Some (k, s, c)" for w k s c
      using that n bound unbound by (cases "sl_window sl") (auto simp: within_def split: if_splits)
    then show ?thesis using n destroy_counters[OF d(1)] by (simp add: within_def)
  qed
  show ?thesis
  proof (cases "sl_window sl")
    case None
    have "state_view (st\<lparr>cs_wm := b'\<rparr>) = state_view st"
      using unbound[OF None] by (intro bridge_view_cong) (simp_all add: popups_of_def fun_eq_iff)
    then show ?thesis
      using None d unbound[OF None] within'
      by (auto simp: on_toplevel_destroyed_def Let_def apply_decision_def intro!: advance_silent)
  next
    case (Some i)
    let ?ps = "dw_popup_ids dw"
    let ?X = "emit E (\<lambda>s ts. WindowDestroyed s ts i) (fold (\<lambda>p. emit E (\<lambda>s ts. PopupDisappeared s ts i p)) ?ps (st\<lparr>cs_wm := b'\<rparr>))"
    let ?v1 = "(state_view st)\<lparr>vw_popups := vw_popups (state_view st) - {i} \<times> set ?ps\<rparr>"
    let ?v2 = "?v1\<lparr>vw_windows := (vw_windows ?v1)(i := None), vw_active := (if vw_active ?v1 = Some i then None else vw_active ?v1)\<rparr>"
    note bound = bound[OF Some]
    have ps: "distinct ?ps" "set ?ps = popups_of (wb_surfaces (cs_wm st)) i" using bound by (simp_all add: strict_sorted_iff)
    have "follows (state_view st) st ?v1 (fold (\<lambda>p. emit E (\<lambda>s ts. PopupDisappeared s ts i p)) ?ps (st\<lparr>cs_wm := b'\<rparr>))"
      by (rule replay_popups_gone[OF ps(1)]) (use ps follows_refl in auto)
    then have X: "follows (state_view st) st ?v2 ?X"
      by (rule follows_emit) (use bound ps(2) in \<open>auto simp: bridge_view_def\<close>)
    have run: "on_toplevel_destroyed E t st = apply_decision E (dw_decision dw) ?X"
      using d Some by (simp add: on_toplevel_destroyed_def Let_def)
    have view': "bridge_view b' = ?v2\<lparr>vw_active := active_window (wb_model b')\<rparr>"
      by (rule bridge_view_eqI) (use bound ps(2) in \<open>auto split: if_splits\<close>)
    consider "wd_actions (dw_decision dw) = []" "active_window (wb_model b') = vw_active ?v2"
      | f where "wd_actions (dw_decision dw) = [ActivatePrevious f]" "vw_active ?v2 = None" "active_window (wb_model b') = Some f"
      using bound by fastforce
    then show ?thesis
    proof cases
      case 1
      have "advance st ?X" by (rule advanceI[OF _ X]) (use d(2) view' 1(2) in simp_all)
      with 1(1) within' show ?thesis by (simp add: run apply_decision_def)
    next
      case (2 f)
      have "win (wb_model b') f \<noteq> None" using active_known[OF d(2)] 2(3) by blast
      then have "vw_windows ?v2 f \<noteq> None" using bound by (auto split: if_splits)
      from follows_activate[OF X this 2(2)] have "advance st (apply_activate E f None ?X)"
        by (intro advanceI) (use d(2) view' 2(3) in simp_all)
      with 2(1) within' show ?thesis by (simp add: run apply_decision_def d(4) within_def)
    qed
  qed
qed

lemma advance_destroy:
  assumes ok: "bridge_ok (cs_wm st)" and n: "within n m (cs_wm st)"
  shows "advance st (on_toplevel_destroyed E t st) \<and> within n m (cs_wm (on_toplevel_destroyed E t st))"
proof (cases "reg_slot (wb_surfaces (cs_wm st)) t")
  case None
  then show ?thesis using ok n by (simp add: on_toplevel_destroyed_def destroy_toplevel_def advance_refl)
next
  case (Some sl)
  show ?thesis
  proof (rule destroy_effect[OF ok Some], goal_cases)
    case (1 dw b')
    note d = 1(1-3,7) and unbound = 1(8) and bound = 1(9)
    show ?case by (rule advance_destroyed[OF ok n d unbound bound])
  qed
qed


lemma advance_title:
  assumes ok: "bridge_ok (cs_wm st)" and n: "within n m (cs_wm st)"
  shows "advance st (on_title_changed E t st) \<and> within n m (cs_wm (on_title_changed E t st))"
proof (cases "wb_title_changed (ev_clients E) t (cs_wm st)")
  case None
  then show ?thesis using ok n by (simp add: on_title_changed_def advance_refl)
next
  case (Some c)
  obtain tc b' where c: "wb_title_changed (ev_clients E) t (cs_wm st) = Some (tc, b')" using Some by (cases c) simp
  note eff = title_effect[OF ok c]
  obtain k s q where w: "win (wb_model (cs_wm st)) (tc_window_id tc) = Some (k, s, q)" using eff(2) by auto
  have differs: "s \<noteq> tc_title tc"
    using c w by (auto simp: wb_title_changed_def Let_def case_prod_beta win_def split: option.splits if_splits)
  have run: "on_title_changed E t st =
      emit E (\<lambda>s ts. TitleChanged s ts (tc_window_id tc) (tc_title tc)) (st\<lparr>cs_wm := b'\<rparr>)"
    using c eff(3) by (simp add: on_title_changed_def apply_decision_def)
  have "bridge_view b' = (state_view st)\<lparr>vw_windows := (vw_windows (state_view st))(tc_window_id tc := Some (tc_title tc, q))\<rparr>"
    by (rule bridge_view_eqI) (use w eff(4,5,6) in auto)
  then have "advance st (on_title_changed E t st)"
    unfolding run by (intro advance_emit[OF eff(1)]) (use w differs in simp_all)
  moreover have "within n m b'" by (rule within_cong[OF n eff(9,5)]) (use w eff(4) in simp)
  ultimately show ?thesis by (simp add: run)
qed

lemma advance_app_id:
  assumes ok: "bridge_ok (cs_wm st)" and n: "within n m (cs_wm st)"
  shows "advance st (on_app_id_changed E t st) \<and> within n m (cs_wm (on_app_id_changed E t st))"
proof (cases "wb_app_id_changed (ev_clients E) (ev_now E) t (cs_wm st)")
  case None
  then show ?thesis using ok n by (simp add: on_app_id_changed_def advance_refl)
next
  case (Some c)
  obtain ac b' where c: "wb_app_id_changed (ev_clients E) (ev_now E) t (cs_wm st) = Some (ac, b')" using Some by (cases c) simp
  note eff = app_id_effect[OF ok c]
  have "state_view (st\<lparr>cs_wm := b'\<rparr>) = state_view st" by (rule bridge_view_cong) (use eff(2-4) in simp_all)
  then have "advance st (st\<lparr>cs_wm := b'\<rparr>)" by (intro advance_silent) (use eff(1) in simp_all)
  moreover have "within n m b'" by (rule within_cong[OF n eff(5,3)]) (use eff(2) in simp)
  ultimately show ?thesis using c by (simp add: on_app_id_changed_def)
qed

lemma advance_popup_created:
  assumes ok: "bridge_ok (cs_wm st)" and n: "within n m (cs_wm st)" "n + 1 < 2 ^ 64 - 1"
    and fresh: "reg_popup (wb_surfaces (cs_wm st)) p = None"
  shows "advance st (on_popup_created E p st) \<and> within (Suc n) m (cs_wm (on_popup_created E p st))"
proof (cases "popup_added (ev_clients E) p (cl_popup_offset (ev_clients E) p) (cs_wm st)")
  case None
  then show ?thesis using ok n within_mono[OF n(1)] by (simp add: on_popup_created_def advance_refl)
next
  case (Some c)
  obtain pe b' where c: "popup_added (ev_clients E) p (cl_popup_offset (ev_clients E) p) (cs_wm st) = Some (pe, b')"
    using Some by (cases c) simp
  note eff = popup_added_effect[OF ok within_room(3)[OF n] fresh c]
  have run: "on_popup_created E p st =
      emit E (\<lambda>s ts. PopupAppeared s ts (pe_window_id pe) (pe_popup_id pe)) (st\<lparr>cs_wm := b'\<rparr>)"
    using c by (simp add: on_popup_created_def)
  have "bridge_view b' = (state_view st)\<lparr>vw_popups := insert (pe_window_id pe, pe_popup_id pe) (vw_popups (state_view st))\<rparr>"
    by (rule bridge_view_eqI) (use eff(2-4) in auto)
  then have "advance st (on_popup_created E p st)"
    unfolding run by (intro advance_emit[OF eff(1)]) (use eff(5,9) view_fresh_popup[OF ok] in auto)
  moreover have "within (Suc n) m b'"
    using n bump_word[of "sr_next_popup_id (wb_surfaces (cs_wm st))" "n + 1"] eff(2,8,10,11)
    unfolding within_def by auto
  ultimately show ?thesis by (simp add: run)
qed

lemma advance_popup_destroyed:
  assumes ok: "bridge_ok (cs_wm st)" and n: "within n m (cs_wm st)"
  shows "advance st (on_popup_destroyed E p st) \<and> within n m (cs_wm (on_popup_destroyed E p st))"
proof (cases "popup_removed p (cs_wm st)")
  case None
  then show ?thesis using ok n by (simp add: on_popup_destroyed_def advance_refl)
next
  case (Some c)
  obtain pe b' where c: "popup_removed p (cs_wm st) = Some (pe, b')" using Some by (cases c) simp
  note eff = popup_removed_effect[OF ok c]
  have run: "on_popup_destroyed E p st =
      emit E (\<lambda>s ts. PopupDisappeared s ts (pe_window_id pe) (pe_popup_id pe)) (st\<lparr>cs_wm := b'\<rparr>)"
    using c by (simp add: on_popup_destroyed_def)
  have "bridge_view b' = (state_view st)\<lparr>vw_popups := vw_popups (state_view st) - {(pe_window_id pe, pe_popup_id pe)}\<rparr>"
    by (rule bridge_view_eqI) (use eff(2-4) in auto)
  then have "advance st (on_popup_destroyed E p st)"
    unfolding run by (intro advance_emit[OF eff(1)]) (use eff(5) in simp_all)
  moreover have "within n m b'" using n eff(2,9-11) unfolding within_def by simp
  ultimately show ?thesis by (simp add: run)
qed

lemma advance_commit:
  assumes ok: "bridge_ok (cs_wm st)" and n: "within n m (cs_wm st)" "n + 1 < 2 ^ 64 - 1" "m < 2 ^ 64 - 1"
  shows "advance st (on_surface_commit E s st) \<and> within (Suc n) (Suc m) (cs_wm (on_surface_commit E s st))"
proof -
  define st1 where "st1 = (case unmapped_toplevel (cs_wm st) s of
      Some t \<Rightarrow> if cl_has_buffer (ev_clients E) s then on_toplevel_mapped E t st else st | None \<Rightarrow> st)"
  have adv1: "advance st st1" "within (Suc n) m (cs_wm st1)"
    using advance_map[OF ok within_room(1,2)[OF n(1,2)]] map_keeps_within[OF ok n(1,2)] advance_refl[OF ok] within_mono[OF n(1)]
    by (auto simp: st1_def split: option.split)
  have ok1: "bridge_ok (cs_wm st1)" using adv1(1) by (simp add: advance_def)
  show ?thesis
  proof (cases "window_for_surface (ev_clients E) (cs_wm st1) s")
    case None
    then show ?thesis using adv1 within_mono[OF adv1(2)]
      by (simp add: on_surface_commit_def Let_def st1_def[symmetric])
  next
    case (Some w)
    let ?d = "surface_damage (ev_clients E) s (window_offset (ev_clients E) (cs_wm st1) w s)"
    let ?b = "snd (wb_commit w ?d (cs_wm st1))"
    let ?c = "last_commit_seq (cs_wm st1) w + 1"
    note eff = commit_effect[OF ok1, of w ?d]
    obtain k t c where win: "win (wb_model (cs_wm st1)) w = Some (k, t, c)" using owner_known[OF ok1 Some] by auto
    have c: "last_commit_seq (cs_wm st1) w = c" using win by (simp add: last_commit_win)
    have "unat c \<le> m" using adv1(2) win by (auto simp: within_def)
    then have less: "c < c + 1" "unat (c + 1) \<le> Suc m"
      using n(3) by (simp_all add: word_less_nat_alt unat_Suc_word)
    have run: "on_surface_commit E s st = emit E (\<lambda>q ts. SurfaceCommit q ts w ?c ?d) (st1\<lparr>cs_wm := ?b\<rparr>)"
      using Some eff(2) by (simp add: on_surface_commit_def Let_def st1_def[symmetric] case_prod_beta)
    have "bridge_view ?b = (state_view st1)\<lparr>vw_windows := (vw_windows (state_view st1))(w := Some (t, c + 1))\<rparr>"
      by (rule bridge_view_eqI) (use eff(3,4,5) win less in \<open>auto simp: max_def\<close>)
    then have "advance st1 (on_surface_commit E s st)"
      unfolding run by (intro advance_emit[OF eff(1)]) (use win c less in simp_all)
    moreover have "within (Suc n) (Suc m) ?b"
      using adv1(2) eff(3,4,8) less(2) win
      by (auto simp: within_def max_def split: if_splits) (metis le_SucI)+
    ultimately show ?thesis using advance_trans[OF adv1(1)] by (simp add: run)
  qed
qed


lemma advance_activate:
  assumes ok: "bridge_ok (cs_wm st)" and n: "within n m (cs_wm st)"
  shows "advance st (fst (activate_window E w st)) \<and> within n m (cs_wm (fst (activate_window E w st)))"
proof (cases "wb_activate w (cs_wm st)")
  case None
  then show ?thesis using ok n by (simp add: activate_window_def advance_refl)
next
  case (Some c)
  obtain d b' where c: "wb_activate w (cs_wm st) = Some (d, b')" using Some by (cases c) simp
  note eff = activate_bridge_effect[OF ok c]
  have within': "within n m b'" by (rule within_cong[OF n eff(10,3)]) (use eff(2) in simp)
  have view': "bridge_view b' = (state_view st)\<lparr>vw_active := Some w\<rparr>"
    by (rule bridge_view_eqI) (use eff(2,3,4) in auto)
  have run: "fst (activate_window E w st) = apply_decision E d (st\<lparr>cs_wm := b'\<rparr>)"
    using c by (simp add: activate_window_def)
  from eff(6) show ?thesis
  proof (elim disjE conjE)
    assume "wd_actions d = [WmNone]" "active_window (wb_model (cs_wm st)) = Some w"
    then have "state_view (st\<lparr>cs_wm := b'\<rparr>) = state_view st" using view' by (intro View.equality) simp_all
    with \<open>wd_actions d = [WmNone]\<close> eff(1) within' show ?thesis by (simp add: run apply_decision_def advance_silent)
  next
    assume acts: "wd_actions d = [Activate w]" and other: "active_window (wb_model (cs_wm st)) \<noteq> Some w"
    have "follows (state_view st) st ((state_view st)\<lparr>vw_active := Some w\<rparr>)
        (apply_activate E w (wd_previous_focus d) (st\<lparr>cs_wm := b'\<rparr>))"
      by (rule follows_activate[OF follows_quiet(1)[OF follows_refl]]) (use eff(5,7) other in simp_all)
    then have "advance st (apply_activate E w (wd_previous_focus d) (st\<lparr>cs_wm := b'\<rparr>))"
      by (intro advanceI) (use eff(1) view' in simp_all)
    with acts within' show ?thesis by (simp add: run apply_decision_def within_def)
  qed
qed

lemma input_silent:
  "cs_wm (fst (close_window w st)) = cs_wm st" "cs_sent (fst (close_window w st)) = cs_sent st"
  "cs_last_seq (fst (close_window w st)) = cs_last_seq st"
  "cs_wm (fst (inject_key E k ks st)) = cs_wm st" "cs_sent (fst (inject_key E k ks st)) = cs_sent st"
  "cs_last_seq (fst (inject_key E k ks st)) = cs_last_seq st"
  "cs_wm (fst (inject_pointer_move E p st)) = cs_wm st" "cs_sent (fst (inject_pointer_move E p st)) = cs_sent st"
  "cs_last_seq (fst (inject_pointer_move E p st)) = cs_last_seq st"
  "cs_wm (fst (inject_pointer_button E b bs st)) = cs_wm st" "cs_sent (fst (inject_pointer_button E b bs st)) = cs_sent st"
  "cs_last_seq (fst (inject_pointer_button E b bs st)) = cs_last_seq st"
  "cs_wm (fst (inject_pointer_axis E x y st)) = cs_wm st" "cs_sent (fst (inject_pointer_axis E x y st)) = cs_sent st"
  "cs_last_seq (fst (inject_pointer_axis E x y st)) = cs_last_seq st"
  by (simp_all add: close_window_def inject_key_def inject_pointer_move_def inject_pointer_button_def inject_pointer_axis_def
      split: option.split sum.split)

lemma advance_command:
  assumes ok: "bridge_ok (cs_wm st)" and n: "within n m (cs_wm st)" and c: "c \<noteq> ReserveSeq"
  shows "advance st (fst (handle_command E c st)) \<and> within n m (cs_wm (fst (handle_command E c st)))"
proof (cases c)
  case (NoteLaunch i app pid)
  have "state_view (note_launch E i app pid st) = state_view st"
    by (simp add: note_launch_def wb_note_launch_def bridge_view_def)
  moreover have "bridge_ok (cs_wm (note_launch E i app pid st))"
    using bridge_ok_grab(2)[OF ok] by (simp add: note_launch_def wb_note_launch_def)
  ultimately show ?thesis
    using NoteLaunch n by (auto simp: note_launch_def wb_note_launch_def within_def intro: advance_silent)
next
  case (ActivateWindow w)
  with advance_activate[OF ok n] show ?thesis by (simp add: case_prod_beta)
qed (use ok n c in \<open>simp_all add: case_prod_beta advance_refl advance_silent input_silent\<close>)

text \<open>Every operation but \<open>ReserveSeq\<close>, which only moves the counter.\<close>

lemma advance_op:
  assumes ok: "bridge_ok (cs_wm st)" and n: "within n m (cs_wm st)" "n + 1 < 2 ^ 64 - 1" "m < 2 ^ 64 - 1"
    and allowed: "op_allowed op st" and op: "op \<noteq> OpCommand ReserveSeq"
  shows "advance st (run_op E op st) \<and> within (Suc n) (Suc m) (cs_wm (run_op E op st))"
proof (cases op)
  case (OpToplevelRegistered t)
  let ?b = "snd (register_toplevel t (cs_wm st))"
  have "state_view (on_toplevel_registered t st) = state_view st"
    by (simp add: on_toplevel_registered_def Let_def bridge_view_def popups_of_def reg_register_sel)
  moreover have "bridge_ok ?b" using register_ok[OF ok within_room(1)[OF n(1,2)]] .
  ultimately have "advance st (on_toplevel_registered t st)"
    by (intro advance_silent) (simp_all add: on_toplevel_registered_def Let_def)
  with within_mono[OF register_within[OF n(1,2)], of "Suc n" "Suc m"] OpToplevelRegistered show ?thesis
    by (simp add: on_toplevel_registered_def Let_def)
next
  case (OpToplevelDestroyed t)
  with advance_destroy[OF ok n(1)] show ?thesis by (auto intro: within_Suc)
next
  case (OpTitleChanged t)
  with advance_title[OF ok n(1)] show ?thesis by (auto intro: within_Suc)
next
  case (OpAppIdChanged t)
  with advance_app_id[OF ok n(1)] show ?thesis by (auto intro: within_Suc)
next
  case (OpPopupCreated p)
  with advance_popup_created[OF ok n(1,2)] allowed show ?thesis by (auto intro: within_Suc)
next
  case (OpPopupDestroyed p)
  with advance_popup_destroyed[OF ok n(1)] show ?thesis by (auto intro: within_Suc)
next
  case (OpPopupGrab p)
  have "\<exists>gr. note_popup_grab p (cs_wm st) = (cs_wm st)\<lparr>wb_grab := gr\<rparr>"
    by (auto simp: note_popup_grab_def split: option.split intro: exI[of _ "wb_grab (cs_wm st)"])
  then obtain gr where gr: "note_popup_grab p (cs_wm st) = (cs_wm st)\<lparr>wb_grab := gr\<rparr>" by blast
  have "advance st (st\<lparr>cs_wm := (cs_wm st)\<lparr>wb_grab := gr\<rparr>\<rparr>)"
    by (rule advance_silent) (use bridge_ok_grab(1)[OF ok] in \<open>simp_all add: bridge_view_def\<close>)
  with OpPopupGrab gr within_mono[OF n(1), of "Suc n" "Suc m"] show ?thesis by (simp add: within_def)
next
  case (OpRepositionRequest c p)
  let ?st = "send_message (MsgPopupDone p) st"
  have "advance st (on_popup_destroyed E p ?st)" "within n m (cs_wm (on_popup_destroyed E p ?st))"
    using advance_trans[OF advance_silent[of ?st st]] advance_popup_destroyed[of ?st n m E p] ok n(1) by simp_all
  with OpRepositionRequest advance_refl[OF ok] within_mono[OF n(1)] within_mono[of n m _ "Suc n" "Suc m"] show ?thesis
    by (simp add: reposition_request_def)
next
  case (OpSurfaceCommit s)
  with advance_commit[OF ok n] show ?thesis by simp
next
  case (OpCommand c)
  with advance_command[OF ok n(1)] op show ?thesis by (auto intro: within_Suc)
qed

lemma reach_ok:
  assumes "compositor_reach tr rs st" "length tr + 2 < 2 ^ 64 - 1"
  shows "bridge_ok (cs_wm st)" "within (length tr) (length tr) (cs_wm st)"
    "replay (cs_sent st) view_empty = Some (state_view st)"
proof -
  have "bridge_ok (cs_wm st) \<and> within (length tr) (length tr) (cs_wm st) \<and> replay (cs_sent st) view_empty = Some (state_view st)"
    using assms
  proof (induction rule: compositor_reach.induct)
    case (reach_new sz injector)
    have "win (wb_model (WmBridge_new sz)) w = None" for w
      by (simp add: WmBridge_new_def WindowManager_new_def WindowModel_new_def win_def window_def)
    then show ?case
      by (simp add: State_new_def bridge_ok_new within_def)
        (simp add: view_empty_def bridge_view_def popups_of_def WmBridge_new_def WindowManager_new_def WindowModel_new_def
          SurfaceRegistry_new_def active_window_def)
  next
    case (reach_op tr rs st op E)
    from reach_op have IH: "bridge_ok (cs_wm st)" "within (length tr) (length tr) (cs_wm st)"
      "replay (cs_sent st) view_empty = Some (state_view st)" by simp_all
    show ?case
    proof (cases "op = OpCommand ReserveSeq")
      case True
      with IH within_mono[OF IH(2), of "Suc (length tr)" "Suc (length tr)"] show ?thesis by (simp add: next_seq_def)
    next
      case False
      from advance_op[OF IH(1,2) _ _ reach_op.hyps(2) False, of E] reach_op.prems
      have step: "advance st (run_op E op st)" "within (Suc (length tr)) (Suc (length tr)) (cs_wm (run_op E op st))" by simp_all
      then obtain es where "cs_sent (run_op E op st) = cs_sent st @ es" "replay es (state_view st) = Some (state_view (run_op E op st))"
        by (auto simp: advance_def follows_def emitted_def)
      with IH(3) step show ?thesis by (simp add: replay_append advance_def)
    qed
  qed
  then show "bridge_ok (cs_wm st)" "within (length tr) (length tr) (cs_wm st)"
    "replay (cs_sent st) view_empty = Some (state_view st)" by simp_all
qed


section \<open>Properties of runs\<close>

text \<open>C3. The event stream is a complete account of the windows: whatever calls clients and server
  make, replaying the published events alone rebuilds the compositor's windows, titles, commit counters,
  popups and active window, and no event contradicts an earlier one (no activation of an unknown
  window, no popup outliving its window, no skipped commit number).\<close>

theorem event_stream_mirrors_windows:
  assumes "compositor_reach tr rs st" "length tr + 2 < 2 ^ 64 - 1"
  shows "replay (cs_sent st) view_empty = Some (state_view st)"
  using reach_ok(3)[OF assms] .

text \<open>The sequence numbers: what was published and what was reserved.\<close>

lemma advance_numbers:
  "advance st st' \<Longrightarrow> \<exists>k. cs_sent st' = cs_sent st @ drop (length (cs_sent st)) (cs_sent st') \<and>
     length (cs_sent st') = length (cs_sent st) + k \<and> cs_last_seq st' = cs_last_seq st + of_nat k \<and>
     map event_seq (cs_sent st') = map event_seq (cs_sent st) @ map (\<lambda>i. cs_last_seq st + of_nat (Suc i)) [0..<k]"
  unfolding advance_def follows_def emitted_def by auto

lemma reach_numbers:
  assumes "compositor_reach tr rs st" "length tr + 2 < 2 ^ 64 - 1"
  shows "\<exists>ns ms. map event_seq (cs_sent st) = map of_nat ns \<and> rs = map of_nat ms \<and> sorted_wrt (<) ns \<and> sorted_wrt (<) ms \<and>
    set ns \<inter> set ms = {} \<and> set ns \<union> set ms = {1..length ns + length ms} \<and> cs_last_seq st = of_nat (length ns + length ms)"
  using assms
proof (induction rule: compositor_reach.induct)
  case (reach_new sz injector)
  show ?case by (intro exI[of _ "[]"]) (simp add: State_new_def)
next
  case (reach_op tr rs st op E)
  then obtain ns ms where IH: "map event_seq (cs_sent st) = map of_nat ns" "rs = map of_nat ms"
    "sorted_wrt (<) ns" "sorted_wrt (<) ms" "set ns \<inter> set ms = {}" "set ns \<union> set ms = {1..length ns + length ms}"
    "cs_last_seq st = of_nat (length ns + length ms)"
    by (auto simp del: of_nat_add)
  let ?K = "length ns + length ms"
  have top: "\<forall>n \<in> set ns. n \<le> ?K" "\<forall>n \<in> set ms. n \<le> ?K" using IH(6) by auto
  show ?case
  proof (cases "op = OpCommand ReserveSeq")
    case True
    have "{1..Suc ?K} = insert (Suc ?K) {1..?K}" by auto
    with IH top True show ?thesis
      by (intro exI[of _ ns] exI[of _ "ms @ [Suc ?K]"]) (auto simp: next_seq_def sorted_wrt_append less_Suc_eq_le add.commute)
  next
    case False
    have ok: "bridge_ok (cs_wm st)" "within (length tr) (length tr) (cs_wm st)" using reach_ok[OF reach_op.hyps(1)] reach_op.prems by simp_all
    have "advance st (run_op E op st)"
      using advance_op[OF ok _ _ reach_op.hyps(2) False, of E] reach_op.prems by simp
    from advance_numbers[OF this] obtain k where k: "cs_last_seq (run_op E op st) = cs_last_seq st + of_nat k"
      "map event_seq (cs_sent (run_op E op st)) = map event_seq (cs_sent st) @ map (\<lambda>i. cs_last_seq st + of_nat (Suc i)) [0..<k]"
      by blast
    have up: "map (\<lambda>i. ?K + Suc i) [0..<k] = [Suc ?K..<Suc (?K + k)]"
      using map_add_upt[of "Suc ?K" k] by (simp add: add.commute)
    have none: "handed_out op st = []" using False by (cases "(op, st)" rule: handed_out.cases) auto
    have union: "{1..?K} \<union> {Suc ?K..<Suc (?K + k)} = {1..?K + k}" by auto
    have "map event_seq (cs_sent (run_op E op st)) = map of_nat (ns @ [Suc ?K..<Suc (?K + k)])"
      by (simp only: k(2) IH(1,7) up[symmetric] map_append map_map comp_def of_nat_add)
    moreover have "sorted_wrt (<) (ns @ [Suc ?K..<Suc (?K + k)])"
      using IH(3) top by (auto simp: sorted_wrt_append simp del: upt_Suc)
    moreover have "set (ns @ [Suc ?K..<Suc (?K + k)]) \<inter> set ms = {}" using IH(5) top by (fastforce simp del: upt_Suc)
    moreover have "set (ns @ [Suc ?K..<Suc (?K + k)]) \<union> set ms = {1..?K + k}"
      using IH(6) union by (auto simp del: upt_Suc)
    ultimately show ?thesis
      using IH(2,4) none k(1) IH(7)
      by (intro exI[of _ "ns @ [Suc ?K..<Suc (?K + k)]"] exI[of _ ms]) (simp add: ac_simps del: upt_Suc)
  qed
qed


lemma unat_of_nat_eq: "n < 2 ^ 64 \<Longrightarrow> unat (of_nat n :: u64) = n"
  by (simp add: unsigned_of_nat take_bit_nat_eq_self)

text \<open>C5. Numbers are handed out once and without a gap: the published events and the numbers reserved by
  the server are together exactly \<open>1, \<dots>, last_seq\<close>, none of them twice, and both are handed out in
  ascending order.\<close>

theorem sequence_numbers_partition:
  assumes "compositor_reach tr rs st" "length tr + 2 < 2 ^ 64 - 1" "length (cs_sent st) + length rs < 2 ^ 64"
  shows "distinct (map event_seq (cs_sent st) @ rs) \<and> set (map event_seq (cs_sent st) @ rs) = {1..cs_last_seq st} \<and>
    sorted_wrt (<) (map event_seq (cs_sent st)) \<and> sorted_wrt (<) rs"
proof -
  obtain ns ms where n: "map event_seq (cs_sent st) = map of_nat ns" "rs = map of_nat ms" "sorted_wrt (<) ns" "sorted_wrt (<) ms"
    "set ns \<inter> set ms = {}" "set ns \<union> set ms = {1..length ns + length ms}" "cs_last_seq st = of_nat (length ns + length ms)"
    using reach_numbers[OF assms(1,2)] by blast
  let ?K = "length ns + length ms"
  have len: "length (cs_sent st) = length ns" "length rs = length ms" using n(1,2) map_eq_imp_length_eq by auto
  then have K: "?K < 2 ^ 64" using assms(3) by simp
  have small: "\<forall>x \<in> {1..?K}. unat (of_nat x :: u64) = x" using K by (auto intro!: unat_of_nat_eq)
  have inj: "inj_on (of_nat :: nat \<Rightarrow> u64) {1..?K}" using small by (metis inj_onI)
  have sub: "set ns \<subseteq> {1..?K}" "set ms \<subseteq> {1..?K}" using n(6) by auto
  have "distinct (ns @ ms)" using n(3-5) by (auto simp: strict_sorted_iff)
  moreover have all: "set (ns @ ms) = {1..?K}" using n(6) by simp
  ultimately have "distinct (map (of_nat :: nat \<Rightarrow> u64) (ns @ ms))" using inj unfolding distinct_map by (simp only:)
  then have dist: "distinct (map event_seq (cs_sent st) @ rs)" by (simp only: n(1,2) map_append)
  have "(of_nat :: nat \<Rightarrow> u64) ` {1..?K} = {1..of_nat ?K}"
  proof (intro equalityI subsetI)
    fix x :: u64 assume "x \<in> {1..of_nat ?K}"
    then have "unat x \<in> {1..?K}" using unat_of_nat_eq[of ?K] K by (auto simp: word_le_nat_alt unat_of_nat_eq)
    then show "x \<in> of_nat ` {1..?K}" by (intro image_eqI[of _ _ "unat x"]) simp_all
  qed (use small K in \<open>auto simp: word_le_nat_alt unat_of_nat_eq simp del: of_nat_add\<close>)
  then have "set (map event_seq (cs_sent st) @ rs) = {1..cs_last_seq st}"
    using all by (simp only: n(1,2,7) map_append[symmetric] set_map)
  moreover have "sorted_wrt (<) (map (of_nat :: nat \<Rightarrow> u64) xs)" if "sorted_wrt (<) xs" "set xs \<subseteq> {1..?K}" for xs
    unfolding sorted_wrt_map using that(1)
    by (rule sorted_wrt_mono_rel[rotated]) (use that(2) small in \<open>auto simp: word_less_nat_alt subset_iff\<close>)
  ultimately show ?thesis using n sub dist by simp
qed

section \<open>Attribution of launches\<close>

fun noted_launch :: "Operation \<Rightarrow> LaunchId option" where
  "noted_launch (OpCommand (NoteLaunch l app pid)) = Some l"
| "noted_launch _ = None"

fun created_launch :: "RuntimeEvent \<Rightarrow> LaunchId option" where
  "created_launch (WindowCreated _ _ _ _ _ l _) = l"
| "created_launch _ = None"

abbreviation created_launches :: "RuntimeEvent list \<Rightarrow> LaunchId list" where
  "created_launches es \<equiv> List.map_filter created_launch es"

abbreviation pending_launches :: "WmBridge \<Rightarrow> LaunchId set" where
  "pending_launches b \<equiv> nl_launch_id ` set (wb_launches b)"

text \<open>Every launch noted so far is pending, or spent on one window.\<close>

definition launches_ok :: "LaunchId set \<Rightarrow> CompositorState \<Rightarrow> bool" where
  "launches_ok N st \<longleftrightarrow>
     pending_launches (cs_wm st) \<subseteq> N \<and>
     (\<forall>w l. bt_get (wb_launch_ids (cs_wm st)) w = Some l \<longrightarrow> l \<in> N - pending_launches (cs_wm st)) \<and>
     (\<forall>w w' l. bt_get (wb_launch_ids (cs_wm st)) w = Some l \<and> bt_get (wb_launch_ids (cs_wm st)) w' = Some l \<longrightarrow> w = w') \<and>
     distinct (created_launches (cs_sent st)) \<and>
     set (created_launches (cs_sent st)) \<subseteq> N - pending_launches (cs_wm st)"

lemma launches_okD:
  assumes "launches_ok N st"
  shows "pending_launches (cs_wm st) \<subseteq> N"
    "bt_get (wb_launch_ids (cs_wm st)) w = Some l \<Longrightarrow> l \<in> N - pending_launches (cs_wm st)"
    "bt_get (wb_launch_ids (cs_wm st)) w = Some l \<Longrightarrow> bt_get (wb_launch_ids (cs_wm st)) w' = Some l \<Longrightarrow> w = w'"
    "distinct (created_launches (cs_sent st))"
    "set (created_launches (cs_sent st)) \<subseteq> N - pending_launches (cs_wm st)"
  using assms unfolding launches_ok_def by blast+

lemma launches_okI:
  assumes "pending_launches (cs_wm st) \<subseteq> N"
    "\<And>w l. bt_get (wb_launch_ids (cs_wm st)) w = Some l \<Longrightarrow> l \<in> N - pending_launches (cs_wm st)"
    "\<And>w w' l. bt_get (wb_launch_ids (cs_wm st)) w = Some l \<Longrightarrow> bt_get (wb_launch_ids (cs_wm st)) w' = Some l \<Longrightarrow> w = w'"
    "distinct (created_launches (cs_sent st))"
    "set (created_launches (cs_sent st)) \<subseteq> N - pending_launches (cs_wm st)"
  shows "launches_ok N st"
  unfolding launches_ok_def using assms by blast

lemma launches_neutral:
  assumes "launches_ok N st" "wb_launches (cs_wm st') = wb_launches (cs_wm st)"
    "\<And>w l. bt_get (wb_launch_ids (cs_wm st')) w = Some l \<Longrightarrow> bt_get (wb_launch_ids (cs_wm st)) w = Some l"
    "created_launches (cs_sent st') = created_launches (cs_sent st)"
  shows "launches_ok N st'"
  using assms unfolding launches_ok_def by simp blast

lemma launches_cong:
  "cs_wm st' = cs_wm st \<Longrightarrow> cs_sent st' = cs_sent st \<Longrightarrow> launches_ok N st' = launches_ok N st"
  by (simp add: launches_ok_def)

lemma launches_take:
  assumes ok: "launches_ok N st" and l: "l \<in> pending_launches (cs_wm st)"
    and upd: "wb_launches (cs_wm st') = ledger_take l (wb_launches (cs_wm st))"
      "\<And>v. bt_get (wb_launch_ids (cs_wm st')) v = (if v = w then Some l else bt_get (wb_launch_ids (cs_wm st)) v)"
    and es: "created_launches (cs_sent st') = created_launches (cs_sent st) @ xs" "xs = [] \<or> xs = [l]"
  shows "launches_ok N st'"
  using ok l es(2) unfolding launches_ok_def upd es(1) ledger_take_ids by auto


lemma created_emit [simp]:
  "(\<And>s t. created_launch (f s t) = None) \<Longrightarrow> created_launches (cs_sent (emit E f st)) = created_launches (cs_sent st)"
  by (simp add: emit_def next_seq_def List.map_filter_def)

lemma created_quiet [simp]:
  "created_launches (cs_sent (apply_activate E i p st)) = created_launches (cs_sent st)"
  "created_launches (cs_sent (fold (\<lambda>p. emit E (\<lambda>s ts. PopupDisappeared s ts w p)) ps st)) = created_launches (cs_sent st)"
proof -
  show "created_launches (cs_sent (apply_activate E i p st)) = created_launches (cs_sent st)"
    by (simp add: apply_activate_def Let_def)
  show "created_launches (cs_sent (fold (\<lambda>p. emit E (\<lambda>s ts. PopupDisappeared s ts w p)) ps st)) = created_launches (cs_sent st)"
    by (induction ps arbitrary: st) simp_all
qed

lemma apply_action_launches:
  "wb_launches (cs_wm (apply_action E p a st)) = wb_launches (cs_wm st)"
  "wb_launch_ids (cs_wm (apply_action E p a st)) = wb_launch_ids (cs_wm st)"
  "created_launches (cs_sent (apply_action E p a st)) = created_launches (cs_sent st)"
  by (cases a; simp split: option.split)+

lemma apply_decision_launches [simp]:
  "wb_launches (cs_wm (apply_decision E d st)) = wb_launches (cs_wm st)"
  "wb_launch_ids (cs_wm (apply_decision E d st)) = wb_launch_ids (cs_wm st)"
  "created_launches (cs_sent (apply_decision E d st)) = created_launches (cs_sent st)"
proof -
  have "wb_launches (cs_wm (fold (apply_action E p) acts st)) = wb_launches (cs_wm st) \<and>
      wb_launch_ids (cs_wm (fold (apply_action E p) acts st)) = wb_launch_ids (cs_wm st) \<and>
      created_launches (cs_sent (fold (apply_action E p) acts st)) = created_launches (cs_sent st)" for acts p
    by (induction acts arbitrary: st) (simp_all add: apply_action_launches)
  then show "wb_launches (cs_wm (apply_decision E d st)) = wb_launches (cs_wm st)"
    "wb_launch_ids (cs_wm (apply_decision E d st)) = wb_launch_ids (cs_wm st)"
    "created_launches (cs_sent (apply_decision E d st)) = created_launches (cs_sent st)"
    by (simp_all add: apply_decision_def)
qed

lemma launches_attribute:
  assumes ok: "launches_ok N st" and l: "\<And>k. l = Some k \<Longrightarrow> k \<in> pending_launches (cs_wm st)"
    and upd: "wb_launches (cs_wm st') = (case l of Some k \<Rightarrow> ledger_take k (wb_launches (cs_wm st)) | None \<Rightarrow> wb_launches (cs_wm st))"
      "\<And>v. bt_get (wb_launch_ids (cs_wm st')) v =
        (case l of Some k \<Rightarrow> if v = w then Some k else bt_get (wb_launch_ids (cs_wm st)) v
         | None \<Rightarrow> bt_get (wb_launch_ids (cs_wm st)) v)"
    and es: "created_launches (cs_sent st') = created_launches (cs_sent st) @ xs" "xs = [] \<or> xs = (case l of Some k \<Rightarrow> [k] | None \<Rightarrow> [])"
  shows "launches_ok N st'"
proof (cases l)
  case None
  with assms show ?thesis by (intro launches_neutral[OF ok]) auto
next
  case (Some k)
  with assms show ?thesis by (intro launches_take[OF ok, of k st' w xs]) auto
qed

lemma attribute_launches:
  assumes "bt_ok (wb_launch_ids b)"
  shows "wb_launches (attribute w l b) = (case l of Some k \<Rightarrow> ledger_take k (wb_launches b) | None \<Rightarrow> wb_launches b)"
    "bt_get (wb_launch_ids (attribute w l b)) v =
      (case l of Some k \<Rightarrow> if v = w then Some k else bt_get (wb_launch_ids b) v | None \<Rightarrow> bt_get (wb_launch_ids b) v)"
  using assms by (simp_all add: attribute_def split: option.split)

lemma map_launches:
  assumes "Option.bind (reg_slot (wb_surfaces b) t) sl_window = None" "map_toplevel C now t pid q b = (MapCreated mw, b')"
  shows "mw_launch_id mw = ledger_correlate (mw_app_id mw) pid (mw_title mw) now (wb_launches b)"
    "wb_launches b' = wb_launches (attribute (mw_id mw) (mw_launch_id mw) b)"
    "wb_launch_ids b' = wb_launch_ids (attribute (mw_id mw) (mw_launch_id mw) b)"
  using assms by (auto simp: map_toplevel_def Let_def case_prod_beta attribute_def split: option.split)

lemma launches_mapped:
  assumes ok: "bridge_ok (cs_wm st)" and room: "key_room (cs_wm st)" "id_room (cs_wm st)" and l: "launches_ok N st"
  shows "launches_ok N (on_toplevel_mapped E t st)"
proof (cases "Option.bind (reg_slot (wb_surfaces (cs_wm st)) t) sl_window")
  case None
  let ?r = "map_toplevel (ev_clients E) (ev_now E) t (cl_pid (ev_clients E) t) (cs_last_seq st) (cs_wm st)"
  obtain mw b' where m: "?r = (MapCreated mw, b')"
    using None by (cases ?r) (auto simp: map_toplevel_def Let_def case_prod_beta)
  note attr = map_launches[OF None m]
  have bt: "bt_ok (wb_launch_ids (cs_wm st))" using ok by simp
  have run: "on_toplevel_mapped E t st = apply_decision E (mw_decision mw)
      (emit E (\<lambda>s ts. WindowCreated s ts (mw_id mw) (mw_app_id mw) (mw_pid mw) (mw_launch_id mw) (mw_title mw)) (st\<lparr>cs_wm := b'\<rparr>))"
    using m by (simp add: on_toplevel_mapped_def Let_def)
  show ?thesis
  proof (rule launches_attribute[OF l, of "mw_launch_id mw" _ "mw_id mw"])
    show "\<And>k. mw_launch_id mw = Some k \<Longrightarrow> k \<in> pending_launches (cs_wm st)"
      using attr(1) ledger_correlate_mem by fastforce
    show "created_launches (cs_sent (on_toplevel_mapped E t st)) =
        created_launches (cs_sent st) @ (case mw_launch_id mw of Some k \<Rightarrow> [k] | None \<Rightarrow> [])"
      unfolding run apply_decision_launches by (simp add: emit_def next_seq_def List.map_filter_def split: option.split)
  qed (simp_all add: run attr attribute_launches[OF bt])
qed (use l in \<open>simp add: on_toplevel_mapped_def map_toplevel_def Let_def\<close>)


lemma destroy_launch_ids:
  assumes "bt_ok (wb_launch_ids b)" "destroy_toplevel t b = Some (dw, b')"
  shows "wb_launches b' = wb_launches b" "bt_get (wb_launch_ids b') w = Some l \<Longrightarrow> bt_get (wb_launch_ids b) w = Some l"
  using assms by (auto simp: destroy_toplevel_def Let_def case_prod_beta split: option.splits if_splits)

lemma launches_destroyed:
  assumes ok: "bridge_ok (cs_wm st)" and l: "launches_ok N st"
  shows "launches_ok N (on_toplevel_destroyed E t st)"
proof (cases "destroy_toplevel t (cs_wm st)")
  case (Some c)
  obtain dw b' where d: "destroy_toplevel t (cs_wm st) = Some (dw, b')" using Some by (cases c) simp
  have bt: "bt_ok (wb_launch_ids (cs_wm st))" using ok by simp
  show ?thesis
    by (rule launches_neutral[OF l])
      (use destroy_launch_ids[OF bt d] in \<open>auto simp: on_toplevel_destroyed_def d Let_def split: option.splits\<close>)
qed (use l in \<open>simp add: on_toplevel_destroyed_def\<close>)

lemma launches_app_id:
  assumes ok: "bridge_ok (cs_wm st)" and l: "launches_ok N st"
  shows "launches_ok N (on_app_id_changed E t st)"
proof (cases "wb_app_id_changed (ev_clients E) (ev_now E) t (cs_wm st)")
  case (Some c)
  obtain ac b' where c: "wb_app_id_changed (ev_clients E) (ev_now E) t (cs_wm st) = Some (ac, b')" using Some by (cases c) simp
  obtain b1 where b1: "b' = attribute (ac_window_id ac) (ac_launch_id ac) b1" "wb_launches b1 = wb_launches (cs_wm st)"
    "wb_launch_ids b1 = wb_launch_ids (cs_wm st)"
    "\<forall>l. ac_launch_id ac = Some l \<longrightarrow> bt_get (wb_launch_ids (cs_wm st)) (ac_window_id ac) = None \<and> l \<in> pending_launches (cs_wm st)"
    using app_id_effect(7)[OF ok c] by blast
  have bt: "bt_ok (wb_launch_ids b1)" using ok b1(3) by simp
  show ?thesis
    by (rule launches_attribute[OF l, of "ac_launch_id ac" _ "ac_window_id ac" "[]"])
      (use b1 c in \<open>simp_all add: on_app_id_changed_def attribute_launches[OF bt] split: option.split\<close>)
qed (use l in \<open>simp add: on_app_id_changed_def\<close>)

lemma launches_popup_destroyed:
  assumes ok: "bridge_ok (cs_wm st)" and l: "launches_ok N st"
  shows "launches_ok N (on_popup_destroyed E p st)"
proof (cases "popup_removed p (cs_wm st)")
  case (Some c)
  then obtain pe b' where c: "popup_removed p (cs_wm st) = Some (pe, b')" by (cases c) simp
  show ?thesis by (rule launches_neutral[OF l]) (use popup_removed_effect(7,8)[OF ok c] c in \<open>simp_all add: on_popup_destroyed_def\<close>)
qed (use l in \<open>simp add: on_popup_destroyed_def\<close>)

lemma launches_note:
  assumes l: "launches_ok N st" and i: "i \<notin> N"
    and upd: "pending_launches (cs_wm st') \<subseteq> Set.insert i (pending_launches (cs_wm st))"
      "wb_launch_ids (cs_wm st') = wb_launch_ids (cs_wm st)" "cs_sent st' = cs_sent st"
  shows "launches_ok (Set.insert i N) st'"
proof -
  have sub: "pending_launches (cs_wm st') \<subseteq> Set.insert i N" "N - pending_launches (cs_wm st) \<subseteq> Set.insert i N - pending_launches (cs_wm st')"
    using upd(1) i launches_okD(1)[OF l] by blast+
  show ?thesis
  proof (rule launches_okI, goal_cases)
    case (2 w k)
    then show ?case using launches_okD(2)[OF l, of w k] sub(2) upd(2) by auto
  next
    case (3 w w' k)
    then show ?case using launches_okD(3)[OF l, of w k w'] upd(2) by simp
  next
    case 5
    show ?case unfolding upd(3) using launches_okD(5)[OF l] sub(2) by (rule order.trans)
  qed (use sub(1) launches_okD(4)[OF l] upd(3) in simp_all)
qed

lemma launches_command:
  assumes l: "launches_ok N st" and ok: "bridge_ok (cs_wm st)" and fresh: "\<And>k. noted_launch (OpCommand c) = Some k \<Longrightarrow> k \<notin> N"
  shows "launches_ok (N \<union> set_option (noted_launch (OpCommand c))) (fst (handle_command E c st))"
proof -
  have quiet: "launches_ok N st'" if "cs_wm st' = cs_wm st" "cs_sent st' = cs_sent st" for st'
    using launches_cong[OF that] l by simp
  show ?thesis
proof (cases c)
  case (NoteLaunch i app pid)
  let ?g = "ledger_record i app pid (ev_now E) (wb_launches (cs_wm st))"
  have g: "nl_launch_id ` set ?g \<subseteq> Set.insert i (pending_launches (cs_wm st))" by (rule ledger_record_ids)
  have i: "i \<notin> N" using fresh NoteLaunch by simp
  have sel: "pending_launches (cs_wm (note_launch E i app pid st)) = nl_launch_id ` set ?g"
    "wb_launch_ids (cs_wm (note_launch E i app pid st)) = wb_launch_ids (cs_wm st)"
    "cs_sent (note_launch E i app pid st) = cs_sent st"
    by (simp_all add: note_launch_def wb_note_launch_def)
  have "launches_ok (Set.insert i N) (note_launch E i app pid st)"
    by (rule launches_note[OF l i]) (use g sel in simp_all)
  with NoteLaunch show ?thesis by simp
next
  case (ActivateWindow w)
  have "launches_ok N (fst (activate_window E w st))"
  proof (cases "wb_activate w (cs_wm st)")
    case (Some c)
    then obtain d b' where c: "wb_activate w (cs_wm st) = Some (d, b')" by (cases c) simp
    show ?thesis by (rule launches_neutral[OF l]) (use activate_bridge_effect(8,9)[OF ok c] c in \<open>simp_all add: activate_window_def\<close>)
  qed (use l in \<open>simp add: activate_window_def\<close>)
  with ActivateWindow show ?thesis by (simp add: case_prod_beta)
qed (simp_all add: case_prod_beta, (rule quiet; simp add: input_silent next_seq_def)+)
qed

lemma launches_op:
  assumes ok: "bridge_ok (cs_wm st)" and n: "within n m (cs_wm st)" "n + 1 < 2 ^ 64 - 1"
    and l: "launches_ok N st" and allowed: "op_allowed op st" and fresh: "\<And>k. noted_launch op = Some k \<Longrightarrow> k \<notin> N"
  shows "launches_ok (N \<union> set_option (noted_launch op)) (run_op E op st)"
proof (cases op)
  case (OpTitleChanged t)
  have "launches_ok N (on_title_changed E t st)"
  proof (cases "wb_title_changed (ev_clients E) t (cs_wm st)")
    case (Some c)
    then obtain tc b' where c: "wb_title_changed (ev_clients E) t (cs_wm st) = Some (tc, b')" by (cases c) simp
    show ?thesis by (rule launches_neutral[OF l]) (use title_effect(7,8)[OF ok c] c in \<open>simp_all add: on_title_changed_def\<close>)
  qed (use l in \<open>simp add: on_title_changed_def\<close>)
  with OpTitleChanged show ?thesis by simp
next
  case (OpPopupCreated p)
  have "launches_ok N (on_popup_created E p st)"
  proof (cases "popup_added (ev_clients E) p (cl_popup_offset (ev_clients E) p) (cs_wm st)")
    case (Some c)
    then obtain pe b' where c: "popup_added (ev_clients E) p (cl_popup_offset (ev_clients E) p) (cs_wm st) = Some (pe, b')"
      by (cases c) simp
    have "reg_popup (wb_surfaces (cs_wm st)) p = None" using allowed OpPopupCreated by simp
    from popup_added_effect(6,7)[OF ok within_room(3)[OF n] this c] c show ?thesis
      by (intro launches_neutral[OF l]) (simp_all add: on_popup_created_def)
  qed (use l in \<open>simp add: on_popup_created_def\<close>)
  with OpPopupCreated show ?thesis by simp
next
  case (OpRepositionRequest c p)
  have "launches_ok N (send_message (MsgPopupDone p) st)" by (rule launches_neutral[OF l]) simp_all
  with launches_popup_destroyed[of "send_message (MsgPopupDone p) st" N E p] ok l OpRepositionRequest show ?thesis
    by (simp add: reposition_request_def)
next
  case (OpSurfaceCommit s)
  define st1 where "st1 = (case unmapped_toplevel (cs_wm st) s of
      Some t \<Rightarrow> if cl_has_buffer (ev_clients E) s then on_toplevel_mapped E t st else st | None \<Rightarrow> st)"
  have st1: "launches_ok N st1" "bridge_ok (cs_wm st1)"
    using launches_mapped[OF ok within_room(1,2)[OF n] l] advance_map[OF ok within_room(1,2)[OF n]] ok l
    by (auto simp: st1_def advance_def split: option.split)
  have "launches_ok N (on_surface_commit E s st)"
    by (rule launches_neutral[OF st1(1)])
      (use commit_effect(6,7)[OF st1(2)] in \<open>auto simp: on_surface_commit_def Let_def st1_def[symmetric] case_prod_beta split: option.splits\<close>)
  with OpSurfaceCommit show ?thesis by simp
next
  case (OpCommand c)
  with launches_command[OF l ok, of c E] fresh show ?thesis by simp
next
  case (OpToplevelRegistered t)
  then show ?thesis by (simp add: on_toplevel_registered_def Let_def) (rule launches_neutral[OF l]; simp)
next
  case (OpPopupGrab p)
  have "wb_launches (note_popup_grab p (cs_wm st)) = wb_launches (cs_wm st)"
    "wb_launch_ids (note_popup_grab p (cs_wm st)) = wb_launch_ids (cs_wm st)"
    by (simp_all add: note_popup_grab_def split: option.split)
  with OpPopupGrab show ?thesis by simp (rule launches_neutral[OF l]; simp)
qed (use launches_destroyed[OF ok l] launches_app_id[OF ok l] launches_popup_destroyed[OF ok l] in simp_all)


abbreviation noted_launches :: "('i Env \<times> Operation) list \<Rightarrow> LaunchId list" where
  "noted_launches tr \<equiv> List.map_filter (\<lambda>(E, op). noted_launch op) tr"

lemma noted_snoc: "noted_launches (tr @ [(E, op)]) = noted_launches tr @ (case noted_launch op of Some l \<Rightarrow> [l] | None \<Rightarrow> [])"
  by (simp add: List.map_filter_def split: option.split)

lemma reach_launches:
  assumes "compositor_reach tr rs st" "length tr + 2 < 2 ^ 64 - 1" "distinct (noted_launches tr)"
  shows "launches_ok (set (noted_launches tr)) st"
  using assms
proof (induction rule: compositor_reach.induct)
  case (reach_new sz injector)
  show ?case by (rule launches_okI) (simp_all add: State_new_def WmBridge_new_def List.map_filter_def)
next
  case (reach_op tr rs st op E)
  from reach_op.prems have room: "length tr + 2 < 2 ^ 64 - 1" "length tr + 1 < 2 ^ 64 - 1" by simp_all
  have "distinct (noted_launches tr)" "\<And>k. noted_launch op = Some k \<Longrightarrow> k \<notin> set (noted_launches tr)"
    using reach_op.prems(2) unfolding noted_snoc by (auto split: option.splits)
  with launches_op[OF reach_ok(1,2)[OF reach_op.hyps(1) room(1)] room(2) reach_op.IH[OF room(1)] reach_op.hyps(2), of E]
  have "launches_ok (set (noted_launches tr) \<union> set_option (noted_launch op)) (run_op E op st)" by blast
  moreover have "set (noted_launches tr) \<union> set_option (noted_launch op) = set (noted_launches (tr @ [(E, op)]))"
    unfolding noted_snoc by (cases "noted_launch op") auto
  ultimately show ?case by simp
qed

text \<open>C6. A launch is attributed at most once: no two \<open>WindowCreated\<close> events carry the same launch, no two
  windows hold the same launch, and a launch that a window holds is no longer pending, so that it cannot
  be given to a later window.\<close>

theorem launch_attributed_once:
  assumes "compositor_reach tr rs st" "length tr + 2 < 2 ^ 64 - 1" "distinct (noted_launches tr)"
  shows "distinct (created_launches (cs_sent st)) \<and>
    set (created_launches (cs_sent st)) \<subseteq> set (noted_launches tr) - pending_launches (cs_wm st) \<and>
    (\<forall>w w' l. bt_get (wb_launch_ids (cs_wm st)) w = Some l \<longrightarrow> l \<notin> pending_launches (cs_wm st) \<and>
       (bt_get (wb_launch_ids (cs_wm st)) w' = Some l \<longrightarrow> w = w'))"
  using launches_okD[OF reach_launches[OF assms]] by blast

section \<open>Commands\<close>

lemma bridge_toplevel:
  assumes ok: "bridge_ok b" and w: "win (wb_model b) w \<noteq> None"
  obtains s where "toplevel_of b w = Some s" "bt_get (wb_roots b) w = Some s" "window_geometry b w \<noteq> None"
proof -
  obtain r where "win (wb_model b) w = Some r" using w by blast
  from bridge_okD(2)[OF ok this] obtain s sl where s: "bt_get (wb_roots b) w = Some s"
    "bt_get (sr_toplevels (wb_surfaces b)) s = Some sl" by blast
  then show ?thesis
    using that[of s] bridge_okD(3)[OF ok s(2)] w by (auto simp: toplevel_of_def window_geometry_def win_def)
qed

lemma listed_iff: "w \<in> wi_id ` set (wb_windows b) \<longleftrightarrow> win (wb_model b) w \<noteq> None"
  by (auto simp: wb_windows_def win_None ids_def record_info_def image_iff)


lemma map_sum_eq_Inl: "map_sum f g r = Inl y \<longleftrightarrow> (\<exists>x. r = Inl x \<and> y = f x)"
  by (cases r) auto

text \<open>C8. An input command that fails does nothing: no key, motion or button reaches a client and no event is
  published; it can only fail because the key does not exist, no window has the focus, or the focused
  window is gone.\<close>

theorem failed_input_changes_nothing:
  assumes "handle_command E c st = (st', ReplyResult (Inl e), out)"
  shows "st' = st \<and> out = Continue \<and> err_code e \<in> {InvalidRequest, UnknownWindow, Internal}"
  using assms
  by (cases c)
    (auto simp: case_prod_beta map_sum_eq_Inl compositor_error_into_def Error_new_def activate_window_def close_window_def
      inject_key_def inject_pointer_move_def inject_pointer_button_def inject_pointer_axis_def focused_window_def
      split: option.splits sum.splits if_splits)

section \<open>A small run\<close>

text \<open>A launch is noted, its client creates a toplevel and commits a first buffer, and the server reserves a
  number.\<close>

definition demo_clients :: Clients where
  "demo_clients =
     \<lparr>cl_metadata = \<lambda>_. (Some ''gedit'', None), cl_pid = \<lambda>_. Some 7, cl_parent = \<lambda>_. None, cl_popup_parent = \<lambda>_. None,
      cl_popup_offset = \<lambda>_. (0, 0), cl_has_buffer = \<lambda>_. True, cl_view_offset = \<lambda>_. None, cl_damage = \<lambda>_. [],
      cl_buffer_scale = \<lambda>_. 1, cl_surface_size = \<lambda>_. None\<rparr>"

definition demo_env :: "unit Env" where
  "demo_env =
     \<lparr>ev_ts = \<lambda>_. 0, ev_now = 0, ev_uptime_ms = 0, ev_clients = demo_clients,
      ev_xkb = \<lparr>xk_keysym_from_name = \<lambda>_. 0, xk_utf32_to_keysym = id, xk_keysym_get_name = \<lambda>_. [],
        xk_debug = id, xk_uppercase = id\<rparr>,
      ev_render_window = \<lambda>_ _ _ _. Inl CeNotReady, ev_render_output = \<lambda>_ _ _ _. Inl CeNotReady\<rparr>"

definition demo_injector :: Injector where
  "demo_injector = \<lparr>in_keymap = [(97, \<lparr>rk_keycode = 38, rk_level = 0\<rparr>)], in_shift = None, in_level3 = None\<rparr>"

definition demo_trace :: "(unit Env \<times> Operation) list" where
  "demo_trace =
     map (Pair demo_env) [OpCommand (NoteLaunch (LaunchId 3) ''gedit'' (Some 7)), OpToplevelRegistered 5,
       OpSurfaceCommit 5, OpCommand ReserveSeq]"

definition demo_state :: "nat \<Rightarrow> CompositorState" where
  "demo_state n =
     fold (\<lambda>(E, op). run_op E op) (take n demo_trace)
       (State_new (Size_new 640 480) demo_injector)"

text \<open>The bridge after the registration and after the mapping.\<close>

definition demo_bridge :: "WmBridge" where
  "demo_bridge =
     \<lparr>wb_manager = \<lparr>config = \<lparr>output_size = Size_new 640 480\<rparr>, model = \<lparr>records = [], mru = [], next_id = 1\<rparr>\<rparr>,
      wb_surfaces = \<lparr>sr_toplevels = [(5, \<lparr>sl_key = SurfaceKey 1, sl_window = None\<rparr>)], sr_owners = [], sr_popups = [],
        sr_next_surface_key = 2, sr_next_popup_id = 1\<rparr>,
      wb_toplevels = [(5, 5)], wb_roots = [], wb_popup_handles = [], wb_grab = None,
      wb_launches = [\<lparr>nl_launch_id = LaunchId 3, nl_app_id = ''gedit'', nl_pid = Some 7, nl_noted_at = 0\<rparr>],
      wb_launch_ids = [], wb_app_ids = []\<rparr>"

definition demo_record :: WindowRecord where
  "demo_record =
     \<lparr>r_id = WindowId 1, r_surface_key = SurfaceKey 1, r_app_id = Some ''gedit'', r_pid = Some 7, r_title = None,
      r_geometry = config_tiled_rect \<lparr>output_size = Size_new 640 480\<rparr>, r_state = Active, r_mapped = True,
      r_created_seq = 0, r_last_commit_seq = 0, r_popup_count = 0\<rparr>"

definition demo_mapped :: "WmBridge" where
  "demo_mapped =
     \<lparr>wb_manager = \<lparr>config = \<lparr>output_size = Size_new 640 480\<rparr>,
        model = \<lparr>records = [demo_record], mru = [WindowId 1], next_id = 2\<rparr>\<rparr>,
      wb_surfaces = \<lparr>sr_toplevels = [(5, \<lparr>sl_key = SurfaceKey 1, sl_window = Some (WindowId 1)\<rparr>)],
        sr_owners = [(5, WindowId 1)], sr_popups = [], sr_next_surface_key = 2, sr_next_popup_id = 1\<rparr>,
      wb_toplevels = [(5, 5)], wb_roots = [(WindowId 1, 5)], wb_popup_handles = [], wb_grab = None,
      wb_launches = [], wb_launch_ids = [(WindowId 1, LaunchId 3)], wb_app_ids = [(WindowId 1, Some ''gedit'')]\<rparr>"

lemmas demo_defs = demo_env_def demo_clients_def demo_bridge_def demo_record_def demo_mapped_def

lemma demo_registered:
  "demo_state 2 =
     \<lparr>cs_output_size = Size_new 640 480, cs_last_seq = 0, cs_sent = [], cs_wm = demo_bridge,
      cs_injector = demo_injector, cs_focus = None,
      cs_out = [MsgConfigure 5 (config_tiled_rect \<lparr>output_size = Size_new 640 480\<rparr>) True]\<rparr>"
  by (simp add: demo_state_def demo_trace_def demo_defs State_new_def WmBridge_new_def SurfaceRegistry_new_def
      WindowManager_new_def WindowModel_new_def note_launch_def wb_note_launch_def ledger_record_def ledger_expire_def
      MAX_PENDING_LAUNCHES_def on_toplevel_registered_def register_toplevel_def reg_register_toplevel_def bt_get_def
      bt_contains_def send_message_def Let_def)

lemma demo_correlates:
  "ledger_correlate (Some ''gedit'') (Some 7) None 0 (wb_launches demo_bridge) = Some (LaunchId 3)"
  by (simp add: demo_bridge_def ledger_correlate_def rfind_def or_else_def launch_is_fresh_def LAUNCH_CORRELATION_TIMEOUT_def)

lemma demo_map:
  "map_toplevel demo_clients 0 5 (Some 7) 0 demo_bridge =
     (MapCreated \<lparr>mw_id = WindowId 1, mw_app_id = Some ''gedit'', mw_pid = Some 7, mw_title = None,
        mw_launch_id = Some (LaunchId 3),
        mw_decision = \<lparr>wd_actions = [ConfigureWindow (WindowId 1) (r_geometry demo_record), Activate (WindowId 1)],
          wd_previous_focus = None\<rparr>\<rparr>, demo_mapped)"
proof -
  have reg: "register_toplevel 5 demo_bridge = (SurfaceKey 1, demo_bridge)"
    by (simp add: demo_bridge_def register_toplevel_def reg_register_toplevel_def bt_get_def bt_contains_def Let_def)
  have meta: "cl_metadata demo_clients 5 = (Some ''gedit'', None)" by (simp add: demo_clients_def)
  have slot: "Option.bind (reg_slot (wb_surfaces demo_bridge) 5) sl_window = None"
    by (simp add: demo_bridge_def reg_slot_def bt_get_def)
  show ?thesis
    unfolding map_toplevel_def slot reg meta Let_def option.case prod.case demo_correlates
    by (simp add: demo_bridge_def demo_mapped_def demo_record_def on_map_def window_by_surface_def mark_active_def reg_bind_def with_model_def
        keyboard_focus_def active_window_def attribute_def ledger_take_def bt_get_def bt_modify_def Let_def)
qed

lemma demo_after_map:
  "map event_kind (cs_sent (on_toplevel_mapped demo_env 5 (demo_state 2))) = [KWindowCreated, KWindowActivated, KFocusChanged]"
  "created_launches (cs_sent (on_toplevel_mapped demo_env 5 (demo_state 2))) = [LaunchId 3]"
  "cs_wm (on_toplevel_mapped demo_env 5 (demo_state 2)) = demo_mapped"
proof -
  have "cl_pid demo_clients 5 = Some 7" "ev_clients demo_env = demo_clients" "ev_now demo_env = 0"
    by (simp_all add: demo_clients_def demo_env_def)
  note eval = on_toplevel_mapped_def demo_registered this demo_map apply_decision_def apply_activate_def
    dismiss_stale_grab_def emit_def next_seq_def Let_def List.map_filter_def send_message_def
  have g: "wb_grab demo_mapped = None" "toplevel_of demo_mapped (WindowId 1) = Some 5"
    by (simp_all add: demo_mapped_def toplevel_of_def bt_get_def)
  show "map event_kind (cs_sent (on_toplevel_mapped demo_env 5 (demo_state 2))) = [KWindowCreated, KWindowActivated, KFocusChanged]"
    "created_launches (cs_sent (on_toplevel_mapped demo_env 5 (demo_state 2))) = [LaunchId 3]"
    "cs_wm (on_toplevel_mapped demo_env 5 (demo_state 2)) = demo_mapped"
    by (simp_all add: eval g)
qed

lemma demo_last_seq: "cs_last_seq (on_toplevel_mapped demo_env 5 (demo_state 2)) = 3"
proof -
  have "cl_pid demo_clients 5 = Some 7" "ev_clients demo_env = demo_clients" "ev_now demo_env = 0"
    "wb_grab demo_mapped = None" "toplevel_of demo_mapped (WindowId 1) = Some 5"
    by (simp_all add: demo_defs toplevel_of_def bt_get_def)
  note eval = this on_toplevel_mapped_def demo_registered demo_map apply_decision_def apply_activate_def
    dismiss_stale_grab_def emit_def next_seq_def Let_def send_message_def
  show ?thesis by (simp add: eval)
qed

text \<open>The window's \<open>created_seq\<close> is the watermark before its own \<open>WindowCreated\<close> is numbered, one less than
  the number that event carries.\<close>

lemma created_seq_is_one_behind:
  "map wi_created_seq (wb_windows (cs_wm (on_toplevel_mapped demo_env 5 (demo_state 2)))) = [0] \<and>
   map event_seq (filter (\<lambda>e. event_kind e = KWindowCreated) (cs_sent (on_toplevel_mapped demo_env 5 (demo_state 2)))) = [1]"
proof -
  have "cl_pid demo_clients 5 = Some 7" "ev_clients demo_env = demo_clients" "ev_now demo_env = 0"
    "wb_grab demo_mapped = None" "toplevel_of demo_mapped (WindowId 1) = Some 5"
    by (simp_all add: demo_defs toplevel_of_def bt_get_def)
  note eval = this on_toplevel_mapped_def demo_registered demo_map apply_decision_def apply_activate_def
    dismiss_stale_grab_def emit_def next_seq_def Let_def send_message_def
  show ?thesis
    unfolding demo_after_map(3) by (simp add: eval) (simp add: demo_mapped_def demo_record_def wb_windows_def record_info_def)
qed

lemma demo_steps:
  "demo_state 1 = run_op demo_env (OpCommand (NoteLaunch (LaunchId 3) ''gedit'' (Some 7))) (demo_state 0)"
  "demo_state 2 = run_op demo_env (OpToplevelRegistered 5) (demo_state 1)"
  "demo_state 3 = run_op demo_env (OpSurfaceCommit 5) (demo_state 2)"
  "demo_state 4 = run_op demo_env (OpCommand ReserveSeq) (demo_state 3)"
  by (simp_all add: demo_state_def demo_trace_def)

lemma demo_committed:
  "map event_kind (cs_sent (demo_state 3)) = [KWindowCreated, KWindowActivated, KFocusChanged, KSurfaceCommit]"
  "created_launches (cs_sent (demo_state 3)) = [LaunchId 3]" "cs_last_seq (demo_state 3) = 4"
proof -
  have env: "ev_clients demo_env = demo_clients" by (simp add: demo_env_def)
  have unmapped: "unmapped_toplevel (cs_wm (demo_state 2)) 5 = Some 5"
    by (simp add: demo_registered demo_bridge_def unmapped_toplevel_def reg_is_unmapped_toplevel_def reg_slot_def bt_get_def)
  have owner: "window_for_surface demo_clients demo_mapped 5 = Some (WindowId 1)" "cl_has_buffer demo_clients 5"
    by (simp_all add: demo_mapped_def demo_clients_def window_for_surface_def reg_window_for_surface_def bt_get_def)
  obtain f b where run: "demo_state 3 = emit demo_env f (on_toplevel_mapped demo_env 5 (demo_state 2)\<lparr>cs_wm := b\<rparr>)"
    "\<And>s t. event_kind (f s t) = KSurfaceCommit" "\<And>s t. created_launch (f s t) = None"
    unfolding demo_steps(3)
    by (simp add: on_surface_commit_def env unmapped owner demo_after_map(3) Let_def case_prod_beta)
  show "map event_kind (cs_sent (demo_state 3)) = [KWindowCreated, KWindowActivated, KFocusChanged, KSurfaceCommit]"
    "cs_last_seq (demo_state 3) = 4"
    using demo_after_map(1) demo_last_seq run(2) by (simp_all add: run(1) emit_def next_seq_def Let_def)
  show "created_launches (cs_sent (demo_state 3)) = [LaunchId 3]"
    using demo_after_map(2) run(3) by (simp add: run(1))
qed

lemma demo_reach:
  "compositor_reach (take 2 demo_trace) [] (demo_state 2)" "compositor_reach demo_trace [5] (demo_state 4)"
proof -
  have "compositor_reach [] [] (demo_state 0)" using reach_new by (simp add: demo_state_def)
  from reach_op[OF this, of "OpCommand (NoteLaunch (LaunchId 3) ''gedit'' (Some 7))" demo_env]
  have "compositor_reach (take 1 demo_trace) [] (demo_state 1)" by (simp add: demo_steps(1)[simplified] demo_trace_def)
  from reach_op[OF this, of "OpToplevelRegistered 5" demo_env]
  show two: "compositor_reach (take 2 demo_trace) [] (demo_state 2)" by (simp add: demo_steps demo_trace_def)
  from reach_op[OF two, of "OpSurfaceCommit 5" demo_env]
  have "compositor_reach (take 3 demo_trace) [] (demo_state 3)" by (simp add: demo_steps(3) demo_trace_def)
  from reach_op[OF this, of "OpCommand ReserveSeq" demo_env] demo_committed(3)
  show "compositor_reach demo_trace [5] (demo_state 4)" by (simp add: demo_steps(4) demo_trace_def next_seq_def)
qed

lemma demo_sent: "cs_sent (demo_state 4) = cs_sent (demo_state 3)" "length demo_trace = 4" "length (cs_sent (demo_state 3)) = 4"
  "noted_launches demo_trace = [LaunchId 3]"
proof -
  show "length (cs_sent (demo_state 3)) = 4" using arg_cong[OF demo_committed(1), of length] by simp
qed (simp_all add: demo_steps(4) next_seq_def demo_trace_def List.map_filter_def)

theorem event_stream_mirrors_windows_witness:
  "map event_kind (cs_sent (demo_state 4)) = [KWindowCreated, KWindowActivated, KFocusChanged, KSurfaceCommit] \<and>
   replay (cs_sent (demo_state 4)) view_empty = Some (state_view (demo_state 4))"
  using event_stream_mirrors_windows[OF demo_reach(2)] demo_committed(1) by (simp add: demo_sent)

theorem sequence_numbers_partition_witness:
  "distinct (map event_seq (cs_sent (demo_state 4)) @ [5]) \<and>
   set (map event_seq (cs_sent (demo_state 4)) @ [5]) = {1..cs_last_seq (demo_state 4)} \<and>
   sorted_wrt (<) (map event_seq (cs_sent (demo_state 4))) \<and> sorted_wrt (<) [5 :: u64]"
  by (rule sequence_numbers_partition[OF demo_reach(2)]) (simp_all add: demo_sent)

theorem launch_attributed_once_witness:
  "created_launches (cs_sent (demo_state 4)) = [LaunchId 3] \<and> LaunchId 3 \<notin> pending_launches (cs_wm (demo_state 4))"
  using launch_attributed_once[OF demo_reach(2)] demo_committed(2) by (simp add: demo_sent)


theorem failed_input_changes_nothing_witness:
  "handle_command demo_env (PointerButton BtnLeft BtnPressed) (demo_state 2) =
     (demo_state 2, ReplyResult (Inl (compositor_error_into (CeInvalidRequest ''no window has keyboard focus''))), Continue) \<and>
   err_code (compositor_error_into (CeInvalidRequest ''no window has keyboard focus'')) = InvalidRequest"
proof -
  have "handle_command demo_env (PointerButton BtnLeft BtnPressed) (demo_state 2) =
     (demo_state 2, ReplyResult (Inl (compositor_error_into (CeInvalidRequest ''no window has keyboard focus''))), Continue)"
    by (simp add: inject_pointer_button_def focused_window_def demo_registered demo_bridge_def keyboard_focus_def active_window_def
        or_else_def)
  with failed_input_changes_nothing[OF this] show ?thesis by (simp add: compositor_error_into_def Error_new_def)
qed

end
