(* ===== verification/Compositor_Focus.thy ===== *)
theory Compositor_Focus
  imports Compositor_Run
begin

text \<open>
  Where the keyboard goes (\<open>crates/adesk-compositor/src/state.rs\<close>): in every reachable state the seat's
  keyboard focus is the surface of the active window, whatever maps, closes, activates and fallbacks led there.
\<close>

definition focus_ok :: "CompositorState \<Rightarrow> bool" where
  "focus_ok st \<longleftrightarrow>
     (\<forall>w. active_window (wb_model (cs_wm st)) = Some w \<longrightarrow> cs_focus st = bt_get (wb_roots (cs_wm st)) w)"

lemma focus_keep:
  assumes "focus_ok st" "cs_focus st' = cs_focus st"
    and "active_window (wb_model (cs_wm st')) = active_window (wb_model (cs_wm st))"
    and "wb_roots (cs_wm st') = wb_roots (cs_wm st)"
  shows "focus_ok st'"
  using assms by (simp add: focus_ok_def)

lemma dismiss_roots [simp]:
  "wb_roots (cs_wm (dismiss_stale_grab i st)) = wb_roots (cs_wm st)" "cs_focus (dismiss_stale_grab i st) = cs_focus st"
  "wb_toplevels (cs_wm (dismiss_stale_grab i st)) = wb_toplevels (cs_wm st)"
  by (simp_all add: dismiss_stale_grab_def take_popup_grab_def Let_def split: option.split)

lemma focus_activate:
  assumes "bridge_ok (cs_wm st)" "active_window (wb_model (cs_wm st)) = Some i"
  shows "focus_ok (apply_activate E i previous st)"
proof -
  have "win (wb_model (cs_wm st)) i \<noteq> None" using active_known[OF assms] .
  then obtain s where s: "toplevel_of (cs_wm st) i = Some s" "bt_get (wb_roots (cs_wm st)) i = Some s"
    using bridge_toplevel[OF assms(1), of i] by blast
  have "toplevel_of (cs_wm (dismiss_stale_grab i st)) i = toplevel_of (cs_wm st) i" by (simp add: toplevel_of_def)
  with assms(2) s show ?thesis by (simp add: focus_ok_def apply_activate_def Let_def)
qed

lemma apply_configure_focus [simp]: "cs_focus (apply_action E p (ConfigureWindow i r) st) = cs_focus st"
  by (simp split: option.split)

lemma focus_map:
  assumes ok: "bridge_ok (cs_wm st)" and room: "key_room (cs_wm st)" "id_room (cs_wm st)" and focus: "focus_ok st"
  shows "focus_ok (on_toplevel_mapped E t st)"
proof (cases "Option.bind (reg_slot (wb_surfaces (cs_wm st)) t) sl_window")
  case None
  obtain mw b' rect key where m:
    "map_toplevel (ev_clients E) (ev_now E) t (cl_pid (ev_clients E) t) (cs_last_seq st) (cs_wm st) = (MapCreated mw, b')"
    "bridge_ok b'" "mw_decision mw = \<lparr>wd_actions = [ConfigureWindow (mw_id mw) rect, Activate (mw_id mw)],
       wd_previous_focus = keyboard_focus (cs_wm st)\<rparr>"
    "active_window (wb_model b') = Some (mw_id mw)"
    using map_effect[OF ok room None] by metis
  have "on_toplevel_mapped E t st =
      apply_activate E (mw_id mw) (keyboard_focus (cs_wm st)) (apply_action E (keyboard_focus (cs_wm st)) (ConfigureWindow (mw_id mw) rect)
        (emit E (\<lambda>s ts. WindowCreated s ts (mw_id mw) (mw_app_id mw) (mw_pid mw) (mw_launch_id mw) (mw_title mw)) (st\<lparr>cs_wm := b'\<rparr>)))"
    using m(1,3) by (simp add: on_toplevel_mapped_def Let_def apply_decision_def)
  then show ?thesis using m(2,4) by (simp add: focus_activate del: apply_action.simps(1))
next
  case (Some i)
  then show ?thesis using focus by (simp add: on_toplevel_mapped_def map_toplevel_def focus_ok_def Let_def)
qed

lemma destroy_roots:
  assumes "destroy_toplevel t b = Some (dw, b')"
  shows "wb_roots b' = (case dw_window_id dw of None \<Rightarrow> wb_roots b | Some i \<Rightarrow> bt_remove i (wb_roots b))"
  using assms by (auto simp: destroy_toplevel_def Let_def case_prod_beta split: option.splits)

lemma fold_emit_focus [simp]: "cs_focus (fold (\<lambda>p. emit E (f p)) ps X) = cs_focus X"
  by (induction ps arbitrary: X) simp_all

lemma focus_destroy:
  assumes ok: "bridge_ok (cs_wm st)" and focus: "focus_ok st"
  shows "focus_ok (on_toplevel_destroyed E t st)"
proof (cases "reg_slot (wb_surfaces (cs_wm st)) t")
  case None
  then show ?thesis using focus by (simp add: on_toplevel_destroyed_def destroy_toplevel_def)
next
  case (Some sl)
  show ?thesis
  proof (rule destroy_effect[OF ok Some], goal_cases)
    case (1 dw b')
    note d = 1(1-3,7) and unbound = 1(8) and bound = 1(9)
    let ?X = "case dw_window_id dw of None \<Rightarrow> st\<lparr>cs_wm := b'\<rparr>
      | Some w \<Rightarrow> emit E (\<lambda>s ts. WindowDestroyed s ts w)
          (fold (\<lambda>p. emit E (\<lambda>s ts. PopupDisappeared s ts w p)) (dw_popup_ids dw) (st\<lparr>cs_wm := b'\<rparr>))"
    have X: "cs_wm ?X = b'" "cs_focus ?X = cs_focus st" by (simp_all split: option.split)
    have run: "on_toplevel_destroyed E t st = apply_decision E (dw_decision dw) ?X"
      using d(1) by (simp add: on_toplevel_destroyed_def Let_def)
    have keep: "focus_ok ?X" if "active_window (wb_model b') = active_window (wb_model (cs_wm st))" "dw_window_id dw \<noteq> active_window (wb_model b')"
      using focus that destroy_roots[OF d(1)] X bridge_ok_simps(4)[OF ok]
      by (auto simp: focus_ok_def split: option.splits)
    show ?case
    proof (cases "sl_window sl")
      case None
      then show ?thesis using unbound[OF None] destroy_roots[OF d(1)] d(3) focus X run
        by (simp add: apply_decision_def focus_ok_def)
    next
      case (Some i)
      from bound[OF Some] consider "active_window (wb_model (cs_wm st)) \<noteq> Some i" "wd_actions (dw_decision dw) = []"
          "active_window (wb_model b') = active_window (wb_model (cs_wm st))"
        | "active_window (wb_model b') = None" "wd_actions (dw_decision dw) = []"
        | f where "active_window (wb_model b') = Some f" "wd_actions (dw_decision dw) = [ActivatePrevious f]"
        by (elim conjE disjE exE) auto
      then show ?thesis
      proof cases
        case 1
        with keep Some d(3) show ?thesis unfolding run apply_decision_def by simp
      next
        case 2
        then show ?thesis unfolding run apply_decision_def using X by (simp add: focus_ok_def)
      next
        case (3 f)
        then show ?thesis unfolding run apply_decision_def using focus_activate[of ?X f] X d(2) by simp
      qed
    qed
  qed
qed

lemma wm_model_calls [simp]:
  "wb_roots (with_model m b) = wb_roots b" "wb_roots (attribute w l b) = wb_roots b"
  by (simp_all add: with_model_def attribute_def split: option.split)

lemma focus_title:
  assumes "bridge_ok (cs_wm st)" "focus_ok st"
  shows "focus_ok (on_title_changed E t st)"
proof (cases "wb_title_changed (ev_clients E) t (cs_wm st)")
  case (Some c)
  obtain tc b' where c: "wb_title_changed (ev_clients E) t (cs_wm st) = Some (tc, b')" using Some by (cases c) simp
  have "wb_roots b' = wb_roots (cs_wm st)"
    using c by (auto simp: wb_title_changed_def Let_def case_prod_beta split: option.splits if_splits)
  with title_effect(3,6)[OF assms(1) c] c assms(2) show ?thesis
    by (simp add: on_title_changed_def apply_decision_def focus_ok_def)
qed (use assms in \<open>simp add: on_title_changed_def\<close>)

lemma focus_app_id:
  assumes "bridge_ok (cs_wm st)" "focus_ok st"
  shows "focus_ok (on_app_id_changed E t st)"
proof (cases "wb_app_id_changed (ev_clients E) (ev_now E) t (cs_wm st)")
  case (Some c)
  obtain ac b' where c: "wb_app_id_changed (ev_clients E) (ev_now E) t (cs_wm st) = Some (ac, b')" using Some by (cases c) simp
  have "wb_roots b' = wb_roots (cs_wm st)"
    using c by (auto simp: wb_app_id_changed_def note_app_id_def Let_def case_prod_beta split: option.splits if_splits)
  with app_id_effect(4)[OF assms(1) c] c assms(2) show ?thesis
    by (simp add: on_app_id_changed_def focus_ok_def)
qed (use assms in \<open>simp add: on_app_id_changed_def\<close>)

lemma focus_popup:
  assumes "bridge_ok (cs_wm st)" "focus_ok st"
  shows "focus_ok (on_popup_created E p st)" "focus_ok (on_popup_destroyed E p st)"
  using assms
  by (auto simp: on_popup_created_def on_popup_destroyed_def popup_added_def popup_removed_def focus_ok_def Let_def case_prod_beta
      active_window_def on_popup_added_def on_popup_removed_def record_mut_def with_model_def split: option.splits)

lemma focus_activate_window:
  assumes "bridge_ok (cs_wm st)" "focus_ok st"
  shows "focus_ok (fst (activate_window E w st))"
proof (cases "wb_activate w (cs_wm st)")
  case None
  then show ?thesis using assms by (simp add: activate_window_def)
next
  case (Some c)
  obtain d b' where c: "wb_activate w (cs_wm st) = Some (d, b')" using Some by (cases c) simp
  note eff = activate_bridge_effect[OF assms(1) c]
  have roots: "wb_roots b' = wb_roots (cs_wm st)"
    using c by (auto simp: wb_activate_def Let_def case_prod_beta split: sum.splits)
  have run: "fst (activate_window E w st) = apply_decision E d (st\<lparr>cs_wm := b'\<rparr>)" using c by (simp add: activate_window_def)
  from eff(6) show ?thesis
  proof (elim disjE conjE)
    assume "wd_actions d = [WmNone]" "active_window (wb_model (cs_wm st)) = Some w"
    with eff(4) assms(2) roots show ?thesis by (simp add: run apply_decision_def focus_ok_def)
  next
    assume "wd_actions d = [Activate w]"
    with eff(1,4) show ?thesis by (simp add: run apply_decision_def focus_activate)
  qed
qed

lemma fold_keys_focus [simp]: "cs_focus (fold (\<lambda>(k, ks). send_message (MsgKey k ks t)) plan X) = cs_focus X"
  by (induction plan arbitrary: X) (auto simp: case_prod_beta)

lemma focus_command:
  assumes "bridge_ok (cs_wm st)" "focus_ok st"
  shows "focus_ok (fst (handle_command E c st))"
proof (cases c)
  case (ActivateWindow w)
  with focus_activate_window[OF assms, of E w] show ?thesis by (simp add: case_prod_beta)
qed (use assms in \<open>auto simp: case_prod_beta next_seq_def focus_ok_def note_launch_def wb_note_launch_def close_window_def
    inject_key_def inject_pointer_move_def inject_pointer_button_def inject_pointer_axis_def split: option.split sum.split\<close>)

lemma focus_commit:
  assumes ok: "bridge_ok (cs_wm st)" and room: "key_room (cs_wm st)" "id_room (cs_wm st)" and focus: "focus_ok st"
  shows "focus_ok (on_surface_commit E s st)"
proof -
  define st1 where "st1 = (case unmapped_toplevel (cs_wm st) s of
      Some t \<Rightarrow> if cl_has_buffer (ev_clients E) s then on_toplevel_mapped E t st else st | None \<Rightarrow> st)"
  have st1: "focus_ok st1" using focus focus_map[OF ok room focus, of E] by (simp add: st1_def split: option.split)
  have "wb_roots (snd (wb_commit w d b)) = wb_roots b" "active_window (wb_model (snd (wb_commit w d b))) = active_window (wb_model b)"
    for w d b
    by (auto simp: wb_commit_def Let_def with_model_def active_window_def on_commit_def record_mut_def split: option.split)
  then show ?thesis
    using st1 unfolding on_surface_commit_def Let_def st1_def[symmetric]
    by (auto simp: case_prod_beta focus_ok_def split: option.split)
qed

lemma focus_op:
  assumes ok: "bridge_ok (cs_wm st)" and room: "key_room (cs_wm st)" "id_room (cs_wm st)" and focus: "focus_ok st"
  shows "focus_ok (run_op E op st)"
proof (cases op)
  case (OpToplevelRegistered t)
  with focus show ?thesis
    by (simp add: on_toplevel_registered_def register_toplevel_def focus_ok_def Let_def case_prod_beta)
next
  case (OpPopupGrab p)
  have "\<exists>gr. note_popup_grab p (cs_wm st) = (cs_wm st)\<lparr>wb_grab := gr\<rparr>"
    by (auto simp: note_popup_grab_def split: option.split intro: exI[of _ "wb_grab (cs_wm st)"])
  with OpPopupGrab focus show ?thesis by (auto simp: focus_ok_def)
next
  case (OpRepositionRequest c p)
  have "focus_ok (send_message (MsgPopupDone p) st)" using focus by (simp add: focus_ok_def)
  with OpRepositionRequest focus ok show ?thesis by (simp add: reposition_request_def focus_popup)
qed (use assms in \<open>simp_all add: focus_destroy focus_title focus_app_id focus_popup focus_commit focus_command\<close>)

lemma reach_focus:
  assumes "compositor_reach tr rs st" "length tr + 2 < 2 ^ 64 - 1"
  shows "focus_ok st"
  using assms
proof (induction rule: compositor_reach.induct)
  case (reach_new sz injector)
  then show ?case
    by (simp add: State_new_def focus_ok_def WmBridge_new_def WindowManager_new_def WindowModel_new_def active_window_def)
next
  case (reach_op tr rs st op E)
  then have "length tr + 2 < 2 ^ 64 - 1" by simp
  note ok = reach_ok(1,2)[OF reach_op.hyps(1) this]
  have "length tr + 1 < 2 ^ 64 - 1" using reach_op.prems by simp
  from focus_op[OF ok(1) within_room(1,2)[OF ok(2) this] reach_op.IH] reach_op.prems show ?case by simp
qed

text \<open>C10. The seat's keyboard focus is always on the surface of the active window: whichever window maps,
  closes, is activated or takes over when the active one goes, keys go to the window that is shown, and
  when there is a window there is a focus.\<close>

theorem focus_is_on_the_active_window:
  assumes "compositor_reach tr rs st" "length tr + 2 < 2 ^ 64 - 1"
    and "active_window (wb_model (cs_wm st)) = Some w"
  shows "\<exists>s. cs_focus st = Some s \<and> toplevel_of (cs_wm st) w = Some s \<and> keyboard_focus (cs_wm st) = Some w"
proof -
  have ok: "bridge_ok (cs_wm st)" using reach_ok(1)[OF assms(1,2)] .
  obtain s where "toplevel_of (cs_wm st) w = Some s" "bt_get (wb_roots (cs_wm st)) w = Some s"
    using bridge_toplevel[OF ok active_known[OF ok assms(3)]] by blast
  with reach_focus[OF assms(1,2)] assms(3) show ?thesis by (simp add: focus_ok_def keyboard_focus_def)
qed

lemma demo_active: "active_window (wb_model (cs_wm (demo_state 4))) = Some (WindowId 1)"
proof -
  have env: "ev_clients demo_env = demo_clients" by (simp add: demo_env_def)
  have unmapped: "unmapped_toplevel (cs_wm (demo_state 2)) 5 = Some 5"
    by (simp add: demo_registered demo_bridge_def unmapped_toplevel_def reg_is_unmapped_toplevel_def reg_slot_def bt_get_def)
  have owner: "window_for_surface demo_clients demo_mapped 5 = Some (WindowId 1)" "cl_has_buffer demo_clients 5"
    by (simp_all add: demo_mapped_def demo_clients_def window_for_surface_def reg_window_for_surface_def bt_get_def)
  have "active_window (wb_model (snd (wb_commit w d demo_mapped))) = active_window (wb_model demo_mapped)" for w d
    by (simp add: wb_commit_def Let_def with_model_def active_window_def on_commit_def record_mut_def split: option.split)
  then show ?thesis
    by (simp add: demo_steps(3,4) next_seq_def on_surface_commit_def env unmapped owner demo_after_map(3) Let_def case_prod_beta)
      (simp add: demo_mapped_def active_window_def)
qed

theorem focus_is_on_the_active_window_witness:
  "active_window (wb_model (cs_wm (demo_state 4))) = Some (WindowId 1) \<and> cs_focus (demo_state 4) \<noteq> None"
  using focus_is_on_the_active_window[OF demo_reach(2) _ demo_active] demo_active by (auto simp: demo_sent)

end
