(* ===== verification/Server_Input.thy ===== *)
theory Server_Input
  imports Server_Error Compositor_Focus
begin

text \<open>
  Requests that reach the compositor (\<open>crates/adesk-server/src/dispatch\<close>): commands and their replies
  (\<open>command.rs\<close>), the window methods (\<open>windows.rs\<close>) and the input methods (\<open>input.rs\<close>). A handler is a
  sequence of exchanges with the compositor; before each of them the compositor may have handled anything
  else, which is a parameter, as are the clocks and whether the compositor still answers.
\<close>

section \<open>Handlers\<close>

record Runtime =
  rt_compositor :: CompositorState
  rt_observer :: Observer
  rt_cursor :: "Point option"
  rt_exchanges :: nat

text \<open>
  \<open>ho_others n\<close> is what the compositor does before the \<open>n\<close>-th exchange, \<open>ho_env n\<close> what it finds around it;
  \<open>ho_accepts\<close> says that its command channel is open, \<open>ho_answers\<close> that it lives to reply.
\<close>

record 'i Host =
  ho_env :: "nat \<Rightarrow> 'i Env"
  ho_others :: "nat \<Rightarrow> CompositorState \<Rightarrow> CompositorState"
  ho_accepts :: "nat \<Rightarrow> bool"
  ho_answers :: "nat \<Rightarrow> bool"
  ho_now :: "nat \<Rightarrow> instant"

type_synonym ('i, 'a) handler = "'i Host \<Rightarrow> Runtime \<Rightarrow> Runtime \<times> (ServerError + 'a)"

definition give :: "'a \<Rightarrow> ('i, 'a) handler" where
  "give x H r = (r, Inr x)"

definition give_up :: "ServerError \<Rightarrow> ('i, 'a) handler" where
  "give_up e H r = (r, Inl e)"

text \<open>One \<open>?\<close> after the other: an error ends the handler.\<close>

definition and_then :: "('i, 'a) handler \<Rightarrow> ('a \<Rightarrow> ('i, 'b) handler) \<Rightarrow> ('i, 'b) handler" where
  "and_then m f H r = (case m H r of (r', Inl e) \<Rightarrow> (r', Inl e) | (r', Inr x) \<Rightarrow> f x H r')"

definition before :: "('i, unit) handler \<Rightarrow> ('i, 'b) handler \<Rightarrow> ('i, 'b) handler" where
  "before m n = and_then m (\<lambda>_. n)"

section \<open>Commands\<close>

datatype 'i Answer = NotSent | Dropped | Answered "'i Reply"

definition exchange :: "'i Host \<Rightarrow> RuntimeCommand \<Rightarrow> Runtime \<Rightarrow> Runtime \<times> 'i Answer" where
  "exchange H c r =
     (let n = rt_exchanges r; st = ho_others H n (rt_compositor r); r = r\<lparr>rt_exchanges := Suc n, rt_compositor := st\<rparr>
      in if \<not> ho_accepts H n then (r, NotSent)
         else if \<not> ho_answers H n then (r, Dropped)
         else let (st', reply, _) = handle_command (ho_env H n) c st
              in (r\<lparr>rt_compositor := st'\<rparr>, Answered reply))"

definition send_infallible :: "RuntimeCommand \<Rightarrow> ('i, 'i Reply) handler" where
  "send_infallible c H r =
     (case exchange H c r of
        (r', NotSent) \<Rightarrow> (r', Inl (SeCompositor CeStopped))
      | (r', Dropped) \<Rightarrow> (r', Inl SeShuttingDown)
      | (r', Answered reply) \<Rightarrow> (r', Inr reply))"

text \<open>\<open>dropped\<close> is the error of a request whose reply is lost. The reply of these commands is a result.\<close>

definition send_result :: "WindowId option \<Rightarrow> ServerError \<Rightarrow> RuntimeCommand \<Rightarrow> ('i, unit) handler" where
  "send_result w dropped c H r =
     (case exchange H c r of
        (r', NotSent) \<Rightarrow> (r', Inl (SeCompositor CeStopped))
      | (r', Dropped) \<Rightarrow> (r', Inl dropped)
      | (r', Answered reply) \<Rightarrow>
          (case reply of
             ReplyResult (Inl e) \<Rightarrow> (r', Inl (command_error w e))
           | _ \<Rightarrow> (r', Inr ())))"

definition send_unit :: "WindowId option \<Rightarrow> RuntimeCommand \<Rightarrow> ('i, unit) handler" where
  "send_unit w c = send_result w SeShuttingDown c"

section \<open>Window methods\<close>

definition query_state :: "('i, CompositorSnapshot) handler" where
  "query_state =
     and_then (send_infallible QueryState)
       (\<lambda>reply. case reply of ReplyState s \<Rightarrow> give s | _ \<Rightarrow> give_up SeShuttingDown)"

definition reserve_seq :: "('i, u64) handler" where
  "reserve_seq =
     and_then (send_infallible ReserveSeq)
       (\<lambda>reply. case reply of ReplySeq s \<Rightarrow> give s | _ \<Rightarrow> give_up SeShuttingDown)"

definition snapshot_window :: "CompositorSnapshot \<Rightarrow> WindowId \<Rightarrow> WindowInfo option" where
  "snapshot_window s w = find (\<lambda>i. wi_id i = w) (sn_windows s)"

definition unknown_window :: "WindowId \<Rightarrow> ServerError" where
  "unknown_window w = SeCompositor (CeUnknownWindow w)"

definition list_windows :: "('i, WindowInfo list \<times> WindowId option) handler" where
  "list_windows = and_then query_state (\<lambda>s. give (sn_windows s, sn_active_window_id s))"

definition get_window :: "WindowId \<Rightarrow> ('i, WindowInfo) handler" where
  "get_window w =
     and_then query_state
       (\<lambda>s. case snapshot_window s w of None \<Rightarrow> give_up (unknown_window w) | Some i \<Rightarrow> give i)"

definition get_focus :: "('i, WindowId option \<times> bool) handler" where
  "get_focus = and_then query_state (\<lambda>s. give (sn_active_window_id s, sn_keyboard_focus s \<noteq> None))"

definition observed_action :: "ActionKind \<Rightarrow> WindowId option \<Rightarrow> Position option \<Rightarrow> ('i, ActionId) handler" where
  "observed_action kind w pos H r =
     (let (v, a) = record_action kind w pos (ho_now H (rt_exchanges r)) (rt_observer r)
      in (r\<lparr>rt_observer := v\<rparr>, Inr a))"

definition activate_window_request :: "WindowId \<Rightarrow> ('i, ActionId) handler" where
  "activate_window_request w =
     and_then (observed_action ActionKind.ActivateWindow (Some w) None) (\<lambda>a.
       before (send_result (Some w) (SeInternal ''compositor dropped the activate_window reply'')
           (RuntimeCommand.ActivateWindow w))
         (give a))"

definition close_window_request :: "WindowId \<Rightarrow> ('i, ActionId) handler" where
  "close_window_request w =
     and_then (observed_action ActionKind.CloseWindow (Some w) None) (\<lambda>a.
       before (send_result (Some w) (SeInternal ''compositor dropped the close_window reply'')
           (RuntimeCommand.CloseWindow w))
         (give a))"

section \<open>Pointer methods\<close>

definition window_rect :: "WindowId \<Rightarrow> ('i, Rect) handler" where
  "window_rect w =
     and_then query_state
       (\<lambda>s. case snapshot_window s w of None \<Rightarrow> give_up (unknown_window w) | Some i \<Rightarrow> give (wi_geometry i))"

text \<open>Differences of \<open>i32\<close> coordinates; both points are in windows of the output.\<close>

definition relative_to :: "Point \<Rightarrow> Rect \<Rightarrow> Position" where
  "relative_to p rect = Pixels (Point_new (px p - rx rect) (py p - ry rect))"

definition window_centre :: Position where
  "window_centre = Normalized (F64_fin 1 (- 1)) (F64_fin 1 (- 1))"

definition resolve_pointer_position :: "Position option \<Rightarrow> Rect \<Rightarrow> Point option \<Rightarrow> Position" where
  "resolve_pointer_position requested rect cursor =
     (case requested of
        Some pos \<Rightarrow> pos
      | None \<Rightarrow>
          (case cursor of
             Some p \<Rightarrow> if contains rect p then relative_to p rect else window_centre
           | None \<Rightarrow> window_centre))"

definition set_cursor :: "Point \<Rightarrow> ('i, unit) handler" where
  "set_cursor p H r = (r\<lparr>rt_cursor := Some p\<rparr>, Inr ())"

definition get_cursor :: "('i, Point option) handler" where
  "get_cursor H r = (r, Inr (rt_cursor r))"

definition move_pointer :: "WindowId \<Rightarrow> Position \<Rightarrow> Rect \<Rightarrow> ('i, unit) handler" where
  "move_pointer w pos rect =
     before (send_unit (Some w) (RuntimeCommand.PointerMove pos)) (set_cursor (resolve pos rect))"

definition move_to :: "WindowId \<Rightarrow> Position option \<Rightarrow> ('i, unit) handler" where
  "move_to w requested =
     and_then (window_rect w) (\<lambda>rect.
       and_then get_cursor (\<lambda>cursor. move_pointer w (resolve_pointer_position requested rect cursor) rect))"

definition button_event :: "WindowId \<Rightarrow> Button \<Rightarrow> ButtonState \<Rightarrow> ('i, unit) handler" where
  "button_event w b s = send_unit (Some w) (PointerButton b s)"

primrec click_times :: "nat \<Rightarrow> WindowId \<Rightarrow> Button \<Rightarrow> ('i, unit) handler" where
  "click_times 0 w b = give ()"
| "click_times (Suc n) w b =
     before (button_event w b BtnPressed) (before (button_event w b BtnReleased) (click_times n w b))"

definition pointer_move :: "WindowId \<Rightarrow> Position \<Rightarrow> ('i, ActionId) handler" where
  "pointer_move w pos =
     and_then (observed_action ActionKind.PointerMove (Some w) (Some pos)) (\<lambda>a.
       before (and_then (window_rect w) (move_pointer w pos)) (give a))"

definition click :: "WindowId \<Rightarrow> Position option \<Rightarrow> Button \<Rightarrow> u32 \<Rightarrow> ('i, ActionId) handler" where
  "click w pos b clicks =
     and_then (observed_action Click (Some w) pos) (\<lambda>a.
       before (before (move_to w pos) (click_times (unat clicks) w b)) (give a))"

text \<open>The 50 ms between the clicks pass between two exchanges.\<close>

definition double_click :: "WindowId \<Rightarrow> Position option \<Rightarrow> Button \<Rightarrow> ('i, ActionId) handler" where
  "double_click w pos b =
     and_then (observed_action DoubleClick (Some w) pos) (\<lambda>a.
       before (before (move_to w pos) (before (click_times 1 w b) (click_times 1 w b))) (give a))"

definition mouse_down :: "WindowId \<Rightarrow> Position option \<Rightarrow> Button \<Rightarrow> ('i, ActionId) handler" where
  "mouse_down w pos b =
     and_then (observed_action MouseDown (Some w) pos) (\<lambda>a.
       before (before (move_to w pos) (button_event w b BtnPressed)) (give a))"

definition mouse_up :: "WindowId \<Rightarrow> Position option \<Rightarrow> Button \<Rightarrow> ('i, ActionId) handler" where
  "mouse_up w pos b =
     and_then (observed_action MouseUp (Some w) pos) (\<lambda>a.
       before (before (move_to w pos) (button_event w b BtnReleased)) (give a))"

definition scroll :: "WindowId \<Rightarrow> Position option \<Rightarrow> f64 \<Rightarrow> f64 \<Rightarrow> ('i, ActionId) handler" where
  "scroll w pos dx dy =
     and_then (observed_action Scroll (Some w) pos) (\<lambda>a.
       before (before (move_to w pos) (send_unit (Some w) (PointerAxis dx dy))) (give a))"

text \<open>The hold time at the destination, \<open>duration_ms\<close>, passes between two exchanges.\<close>

definition drag :: "WindowId \<Rightarrow> Position \<Rightarrow> Position \<Rightarrow> Button \<Rightarrow> ('i, ActionId) handler" where
  "drag w start target b =
     and_then (observed_action Drag (Some w) (Some start)) (\<lambda>a.
       before
         (and_then (window_rect w) (\<lambda>rect.
            before (move_pointer w start rect)
              (before (button_event w b BtnPressed)
                (before (move_pointer w target rect) (button_event w b BtnReleased)))))
         (give a))"

section \<open>Keyboard methods\<close>

definition activate_if_needed :: "WindowId option \<Rightarrow> ('i, unit) handler" where
  "activate_if_needed w =
     (case w of
        None \<Rightarrow> give ()
      | Some w \<Rightarrow>
          and_then query_state (\<lambda>s.
            if snapshot_window s w = None then give_up (unknown_window w)
            else if or_else (sn_keyboard_focus s) (sn_active_window_id s) = Some w then give ()
            else send_unit (Some w) (RuntimeCommand.ActivateWindow w)))"

definition key_request :: "ActionKind \<Rightarrow> WindowId option \<Rightarrow> KeyCode \<Rightarrow> KeyState \<Rightarrow> ('i, ActionId) handler" where
  "key_request kind w key state =
     and_then (observed_action kind w None) (\<lambda>a.
       before (before (activate_if_needed w) (send_unit w (KeyEvent key state))) (give a))"

definition parse_key :: "(Xkb \<Rightarrow> Error + KeyCode) \<Rightarrow> WindowId option \<Rightarrow> ('i, KeyCode) handler" where
  "parse_key parse w H r =
     (case parse (ev_xkb (ho_env H (rt_exchanges r))) of
        Inl e \<Rightarrow> (r, Inl (command_error w e))
      | Inr key \<Rightarrow> (r, Inr key))"

definition keypress :: "WindowId option \<Rightarrow> string list \<Rightarrow> ('i, ActionId) handler" where
  "keypress w keys =
     and_then (parse_key (\<lambda>X. parse_chord X keys) w) (\<lambda>key. key_request Keypress w key KeyPressed)"

definition key_down :: "WindowId option \<Rightarrow> string \<Rightarrow> ('i, ActionId) handler" where
  "key_down w key =
     and_then (parse_key (\<lambda>X. KeyCode_parse X key) w) (\<lambda>key. key_request KeyDown w key KeyPressed)"

definition key_up :: "WindowId option \<Rightarrow> string \<Rightarrow> ('i, ActionId) handler" where
  "key_up w key =
     and_then (parse_key (\<lambda>X. KeyCode_parse X key) w) (\<lambda>key. key_request KeyUp w key KeyReleased)"

definition is_unmappable_key :: "ServerError \<Rightarrow> bool" where
  "is_unmappable_key e =
     (case e of SeCompositor (CeInvalidRequest message) \<Rightarrow> str_contains message ''keymap'' | _ \<Rightarrow> False)"

text \<open>The characters of a text, each as its UTF-8 encoding.\<close>

function utf8_chars :: "string \<Rightarrow> string list" where
  "utf8_chars [] = []"
| "utf8_chars (c # cs) = (c # takeWhile is_cont cs) # utf8_chars (dropWhile is_cont cs)"
  by pat_completeness auto
termination by (relation "measure length") (auto simp: le_imp_less_Suc length_dropWhile_le)

definition type_character :: "string \<Rightarrow> ('i, bool) handler" where
  "type_character ch H r =
     (case parse_chord (ev_xkb (ho_env H (rt_exchanges r))) [ch] of
        Inl _ \<Rightarrow> (r, Inr False)
      | Inr key \<Rightarrow>
          (case send_unit None (KeyEvent key KeyPressed) H r of
             (r', Inr _) \<Rightarrow> (r', Inr True)
           | (r', Inl e) \<Rightarrow> if is_unmappable_key e then (r', Inr False) else (r', Inl e)))"

text \<open>The loop over the characters; the result is those that were skipped.\<close>

primrec type_characters :: "string list \<Rightarrow> ('i, string list) handler" where
  "type_characters [] = give []"
| "type_characters (ch # chs) =
     and_then (type_character ch) (\<lambda>typed.
       and_then (type_characters chs) (\<lambda>skipped. give (if typed then skipped else ch # skipped)))"

definition type_text :: "WindowId option \<Rightarrow> string \<Rightarrow> ('i, ActionId \<times> string list) handler" where
  "type_text w text =
     and_then (observed_action TypeText w None) (\<lambda>a.
       and_then (before (activate_if_needed w) (type_characters (utf8_chars text))) (\<lambda>skipped. give (a, skipped)))"

section \<open>Exchanges nobody disturbs\<close>

text \<open>The compositor lives and handles nothing else between the exchanges of a handler.\<close>

definition undisturbed :: "'i Host \<Rightarrow> bool" where
  "undisturbed H \<longleftrightarrow> (\<forall>n. ho_others H n = id \<and> ho_accepts H n \<and> ho_answers H n)"

abbreviation (input) env_at :: "'i Host \<Rightarrow> Runtime \<Rightarrow> 'i Env" where
  "env_at H r \<equiv> ho_env H (rt_exchanges r)"

definition exchanged :: "Runtime \<Rightarrow> CompositorState \<Rightarrow> Runtime" where
  "exchanged r st = r\<lparr>rt_exchanges := Suc (rt_exchanges r), rt_compositor := st\<rparr>"

lemma exchanged_sel [simp]:
  "rt_compositor (exchanged r st) = st" "rt_exchanges (exchanged r st) = Suc (rt_exchanges r)"
  "rt_cursor (exchanged r st) = rt_cursor r" "rt_observer (exchanged r st) = rt_observer r"
  by (simp_all add: exchanged_def)

lemma exchange_undisturbed:
  "undisturbed H \<Longrightarrow> handle_command (env_at H r) c (rt_compositor r) = (st', reply, out) \<Longrightarrow>
   exchange H c r = (exchanged r st', Answered reply)"
  by (simp add: undisturbed_def exchange_def exchanged_def Let_def)

lemma query_state_undisturbed:
  "undisturbed H \<Longrightarrow>
   query_state H r = (exchanged r (rt_compositor r), Inr (state_snapshot (env_at H r) (rt_compositor r)))"
  by (simp add: query_state_def and_then_def send_infallible_def exchange_undisturbed give_def)

lemma send_unit_undisturbed:
  "undisturbed H \<Longrightarrow> handle_command (env_at H r) c (rt_compositor r) = (st', ReplyResult x, out) \<Longrightarrow>
   send_unit w c H r = (exchanged r st', map_sum (command_error w) (\<lambda>_. ()) x)"
  by (cases x) (simp_all add: send_unit_def send_result_def exchange_undisturbed)

lemma observed_sel:
  "observed_action kind w pos H r = (r', x) \<Longrightarrow>
   rt_compositor r' = rt_compositor r \<and> rt_exchanges r' = rt_exchanges r \<and> rt_cursor r' = rt_cursor r \<and> (\<exists>a. x = Inr a)"
  by (auto simp: observed_action_def case_prod_beta)

lemma and_then_ok:
  "and_then m f H r = (r', Inr x) \<longleftrightarrow> (\<exists>r1 y. m H r = (r1, Inr y) \<and> f y H r1 = (r', Inr x))"
  by (auto simp: and_then_def split: prod.splits sum.splits)

lemma before_ok:
  "before m n H r = (r', Inr x) \<longleftrightarrow> (\<exists>r1 y. m H r = (r1, Inr y) \<and> n H r1 = (r', Inr x))"
  by (simp add: before_def and_then_ok)

lemma result_command_undisturbed:
  assumes "undisturbed H"
    and "handle_command (env_at H r) c (rt_compositor r) = (fst p, ReplyResult (map_sum compositor_error_into id (snd p)), Continue)"
  shows "send_unit w c H r = (exchanged r (fst p), map_sum (command_error w \<circ> compositor_error_into) (\<lambda>_. ()) (snd p))"
  using send_unit_undisturbed[OF assms, of w] by (cases "snd p") simp_all

section \<open>Keys reach the window that was named\<close>

lemma snapshot_window_known:
  "snapshot_window (state_snapshot E st) w \<noteq> None \<longleftrightarrow> win (wb_model (cs_wm st)) w \<noteq> None"
  using listed_iff[of w "cs_wm st"] by (auto simp: snapshot_window_def state_snapshot_def find_None_iff image_iff)

text \<open>A state reached in a run with room for two more steps.\<close>

definition settled :: "CompositorState \<Rightarrow> bool" where
  "settled st \<longleftrightarrow> bridge_ok (cs_wm st) \<and> focus_ok st"

lemma reach_settled: "compositor_reach tr rs st \<Longrightarrow> length tr + 2 < 2 ^ 64 - 1 \<Longrightarrow> settled st"
  by (simp add: settled_def reach_ok(1) reach_focus)

lemma settled_focus:
  assumes "settled st" "active_window (wb_model (cs_wm st)) = Some w"
  obtains s where "toplevel_of (cs_wm st) w = Some s" "cs_focus st = Some s" "focused_window st = Inr w"
proof -
  have ok: "bridge_ok (cs_wm st)" using assms(1) by (simp add: settled_def)
  obtain s where "toplevel_of (cs_wm st) w = Some s" "bt_get (wb_roots (cs_wm st)) w = Some s"
    using bridge_toplevel[OF ok active_known[OF ok assms(2)]] by blast
  with assms that show ?thesis
    by (simp add: settled_def focus_ok_def focused_window_def keyboard_focus_def or_else_def)
qed

lemma activate_if_needed_ok:
  assumes H: "undisturbed H" and r: "settled (rt_compositor r)"
    and res: "activate_if_needed (Some w) H r = (r', Inr x)"
  shows "settled (rt_compositor r') \<and> active_window (wb_model (cs_wm (rt_compositor r'))) = Some w"
proof -
  let ?st = "rt_compositor r"
  let ?r1 = "exchanged r ?st"
  note query = query_state_undisturbed[OF H, of r]
  have focus: "or_else (sn_keyboard_focus (state_snapshot (env_at H r) ?st)) (sn_active_window_id (state_snapshot (env_at H r) ?st)) =
      active_window (wb_model (cs_wm ?st))"
    by (simp add: state_snapshot_def keyboard_focus_def or_else_def split: option.split)
  have known: "win (wb_model (cs_wm ?st)) w \<noteq> None"
    using res snapshot_window_known[of "env_at H r" ?st w]
    by (auto simp: activate_if_needed_def and_then_def query give_up_def split: if_splits)
  show ?thesis
  proof (cases "active_window (wb_model (cs_wm ?st)) = Some w")
    case True
    then have "r' = ?r1"
      using res focus by (simp add: activate_if_needed_def and_then_def query give_def give_up_def split: if_splits)
    with True r show ?thesis by simp
  next
    case False
    obtain d b' where d: "wb_activate w (cs_wm ?st) = Some (d, b')"
      using known by (auto simp: wb_activate_def require_window_def win_def Let_def case_prod_beta)
    have ok: "bridge_ok (cs_wm ?st)" using r by (simp add: settled_def)
    note eff = activate_bridge_effect[OF ok d]
    let ?st' = "apply_decision (ho_env H (Suc (rt_exchanges r))) d (?st\<lparr>cs_wm := b'\<rparr>)"
    have "handle_command (env_at H ?r1) (RuntimeCommand.ActivateWindow w) (rt_compositor ?r1) = (?st', ReplyResult (Inr ()), Continue)"
      using d by (simp add: activate_window_def)
    moreover obtain i where "snapshot_window (state_snapshot (env_at H r) ?st) w = Some i"
      using known snapshot_window_known[of "env_at H r" ?st w] by blast
    ultimately have "r' = exchanged ?r1 ?st'"
      using send_unit_undisturbed[OF H, of ?r1 "RuntimeCommand.ActivateWindow w" ?st' "Inr ()" Continue "Some w"] res False focus
      by (simp add: activate_if_needed_def and_then_def query)
    moreover have "?st' = apply_activate (ho_env H (Suc (rt_exchanges r))) w (wd_previous_focus d) (?st\<lparr>cs_wm := b'\<rparr>)"
      using eff(6) False by (auto simp: apply_decision_def)
    ultimately show ?thesis using eff(1,4) by (simp add: settled_def focus_activate)
  qed
qed

lemma fold_keys [simp]:
  "cs_out (fold (\<lambda>(k, ks). send_message (MsgKey k ks t)) plan st) = cs_out st @ map (\<lambda>(k, ks). MsgKey k ks t) plan"
  "cs_wm (fold (\<lambda>(k, ks). send_message (MsgKey k ks t)) plan st) = cs_wm st"
  "cs_injector (fold (\<lambda>(k, ks). send_message (MsgKey k ks t)) plan st) = cs_injector st"
  by (induction plan arbitrary: st) (auto simp: case_prod_beta send_message_def)

lemma key_event_undisturbed:
  "undisturbed H \<Longrightarrow>
   send_unit w (KeyEvent key state) H r =
     (exchanged r (fst (inject_key (env_at H r) key state (rt_compositor r))),
      map_sum (command_error w \<circ> compositor_error_into) (\<lambda>_. ()) (snd (inject_key (env_at H r) key state (rt_compositor r))))"
  by (rule result_command_undisturbed) (simp_all add: case_prod_beta)


section \<open>The pointer goes to the active window\<close>

lemma pointer_event_undisturbed:
  assumes "undisturbed H"
  shows "send_unit w (RuntimeCommand.PointerMove pos) H r =
      (exchanged r (fst (inject_pointer_move (env_at H r) pos (rt_compositor r))),
       map_sum (command_error w \<circ> compositor_error_into) (\<lambda>_. ()) (snd (inject_pointer_move (env_at H r) pos (rt_compositor r))))"
    and "send_unit w (PointerButton b bs) H r =
      (exchanged r (fst (inject_pointer_button (env_at H r) b bs (rt_compositor r))),
       map_sum (command_error w \<circ> compositor_error_into) (\<lambda>_. ()) (snd (inject_pointer_button (env_at H r) b bs (rt_compositor r))))"
  by (rule result_command_undisturbed[OF assms]; simp add: case_prod_beta)+

text \<open>A window's geometry is the tiled output, at the origin: both ways to resolve a position agree.\<close>

lemma sint_clamp_id: "clamp_i32 (sint (x :: i32)) = x"
proof -
  have "\<not> sint x < - 2147483648" "\<not> 2147483647 < sint x" using sint_bounds_i32[of x] by linarith+
  then show ?thesis by (simp add: clamp_i32_def)
qed

lemma resolve_at_origin:
  assumes "window m w = Some i" "rx (r_geometry i) = 0" "ry (r_geometry i) = 0"
  shows "resolve_position m w pos = Some (resolve pos (r_geometry i))"
proof -
  have "from_size (rect_size (r_geometry i)) = r_geometry i"
    using assms(2,3) by (cases "r_geometry i") (simp add: from_size_def rect_size_def)
  with assms show ?thesis by (simp add: resolve_position_def Let_def sint_clamp_id Point_new_def)
qed

lemma tiled_geometry:
  assumes "bridge_ok b" "window (wb_model b) w = Some i"
  shows "r_geometry i = config_tiled_rect (config (wb_manager b))"
proof -
  have "i \<in> set (records (wb_model b))" using assms(2) by (auto simp: window_def dest: find_Some_mem)
  with bridge_ok_simps(1)[OF assms(1)] show ?thesis by (simp add: wm_inv_D(8))
qed

text \<open>A message without the time it carries.\<close>

fun untimed :: "ClientMessage \<Rightarrow> ClientMessage" where
  "untimed (MsgKey k s _) = MsgKey k s 0"
| "untimed (MsgMotion t p _) = MsgMotion t p 0"
| "untimed (MsgButton b s _) = MsgButton b s 0"
| "untimed (MsgAxis x y _) = MsgAxis x y 0"
| "untimed m = m"

definition said :: "Runtime \<Rightarrow> ClientMessage list" where
  "said r = map untimed (cs_out (rt_compositor r))"

lemma focused_congs: "cs_wm st' = cs_wm st \<Longrightarrow> focused_window st' = focused_window st"
  by (simp add: focused_window_def)

lemma button_undisturbed:
  assumes "undisturbed H" "focused_window (rt_compositor r) = Inr f"
  obtains r' where "button_event w b bs H r = (r', Inr ())" "said r' = said r @ [MsgButton (button_code b) bs 0]"
    "cs_wm (rt_compositor r') = cs_wm (rt_compositor r)" "rt_cursor r' = rt_cursor r"
  using assms
  by (intro that[of "exchanged r (fst (inject_pointer_button (env_at H r) b bs (rt_compositor r)))"])
    (simp_all add: button_event_def pointer_event_undisturbed inject_pointer_button_def said_def send_message_def)

lemma clicks_undisturbed:
  assumes "undisturbed H" "focused_window (rt_compositor r) = Inr f"
  shows "\<exists>r'. click_times n w b H r = (r', Inr ()) \<and>
    said r' = said r @ concat (replicate n [MsgButton (button_code b) BtnPressed 0, MsgButton (button_code b) BtnReleased 0]) \<and>
    cs_wm (rt_compositor r') = cs_wm (rt_compositor r) \<and> rt_cursor r' = rt_cursor r"
  using assms(2)
proof (induction n arbitrary: r)
  case 0
  then show ?case by (simp add: give_def)
next
  case (Suc n)
  obtain r1 where r1: "button_event w b BtnPressed H r = (r1, Inr ())" "said r1 = said r @ [MsgButton (button_code b) BtnPressed 0]"
    "cs_wm (rt_compositor r1) = cs_wm (rt_compositor r)" "rt_cursor r1 = rt_cursor r"
    using button_undisturbed[OF assms(1) Suc.prems] .
  have "focused_window (rt_compositor r1) = Inr f" using focused_congs[OF r1(3)] Suc.prems by simp
  from button_undisturbed[OF assms(1) this] obtain r2 where r2: "button_event w b BtnReleased H r1 = (r2, Inr ())"
    "said r2 = said r1 @ [MsgButton (button_code b) BtnReleased 0]"
    "cs_wm (rt_compositor r2) = cs_wm (rt_compositor r1)" "rt_cursor r2 = rt_cursor r1" .
  have "focused_window (rt_compositor r2) = Inr f" using focused_congs[of "rt_compositor r2" "rt_compositor r"] r1(3) r2(3) Suc.prems by simp
  from Suc.IH[OF this] r1 r2 show ?case by (auto simp: before_def and_then_def)
qed

lemma move_to_undisturbed:
  assumes H: "undisturbed H" and st: "settled (rt_compositor r)" and f: "active_window (wb_model (cs_wm (rt_compositor r))) = Some f"
    and ok: "move_to w pos H r = (r', Inr x)"
  shows "\<exists>s p. toplevel_of (cs_wm (rt_compositor r)) f = Some s \<and> said r' = said r @ [MsgMotion s p 0] \<and>
    cs_wm (rt_compositor r') = cs_wm (rt_compositor r) \<and> rt_cursor r' = Some p \<and>
    p = resolve (resolve_pointer_position pos (config_tiled_rect (config (wb_manager (cs_wm (rt_compositor r))))) (rt_cursor r))
          (config_tiled_rect (config (wb_manager (cs_wm (rt_compositor r)))))"
proof -
  let ?st = "rt_compositor r"
  let ?g = "config_tiled_rect (config (wb_manager (cs_wm ?st)))"
  have bok: "bridge_ok (cs_wm ?st)" using st by (simp add: settled_def)
  obtain s where s: "toplevel_of (cs_wm ?st) f = Some s" "focused_window ?st = Inr f" using settled_focus[OF st f] by metis
  obtain i where i: "snapshot_window (state_snapshot (env_at H r) ?st) w = Some i"
    using ok by (auto simp: move_to_def window_rect_def and_then_ok query_state_undisturbed[OF H] give_up_def give_def split: option.splits)
  obtain j where j: "j \<in> set (records (wb_model (cs_wm ?st)))" "wi_geometry i = r_geometry j"
    using i by (auto simp: snapshot_window_def state_snapshot_def wb_windows_def record_info_def dest!: find_Some_mem)
  then have geo: "wi_geometry i = ?g" using wm_inv_D(8)[OF bridge_ok_simps(1)[OF bok]] by simp
  obtain k where k: "window (wb_model (cs_wm ?st)) f = Some k" using active_known[OF bok f] by (auto simp: win_def)
  have at: "resolve_position (wb_model (cs_wm ?st)) f q = Some (resolve q ?g)" for q
    using resolve_at_origin[OF k] tiled_geometry[OF bok k] by (simp add: config_tiled_rect_def from_size_def)
  let ?q = "resolve_pointer_position pos ?g (rt_cursor r)"
  let ?r1 = "exchanged r ?st"
  have "inject_pointer_move (env_at H ?r1) ?q (rt_compositor ?r1) =
      (send_message (MsgMotion s (resolve ?q ?g) (event_time (env_at H ?r1))) ?st, Inr ())"
    using s at by (simp add: inject_pointer_move_def)
  then have "r' = (exchanged ?r1 (send_message (MsgMotion s (resolve ?q ?g) (event_time (env_at H ?r1))) ?st))\<lparr>rt_cursor := Some (resolve ?q ?g)\<rparr>"
    using ok i geo by (simp add: move_to_def window_rect_def and_then_def before_def query_state_undisturbed[OF H] give_def get_cursor_def
        move_pointer_def pointer_event_undisturbed[OF H] set_cursor_def)
  with s show ?thesis by (simp add: said_def send_message_def)
qed

lemma resolve_pointer_wf: "(\<And>q. pos = Some q \<Longrightarrow> position_wf q) \<Longrightarrow> position_wf (resolve_pointer_position pos rect cursor)"
  by (simp add: resolve_pointer_position_def relative_to_def window_centre_def position_wf_def f64_wf_def
      split: option.split)


section \<open>Typing\<close>

definition typed_strokes :: "Xkb \<Rightarrow> Injector \<Rightarrow> string \<Rightarrow> (u32 \<times> KeyState) list option" where
  "typed_strokes X I ch =
     (case parse_chord X [ch] of
        Inl _ \<Rightarrow> None
      | Inr key \<Rightarrow> (case key_plan X I key KeyPressed of Inl _ \<Rightarrow> None | Inr plan \<Rightarrow> Some plan))"

lemma str_contains_append: "str_contains b n \<Longrightarrow> str_contains (a @ b) n" "str_contains b n \<Longrightarrow> str_contains (c # b) n"
  by (auto simp: str_contains_def sublist_append sublist_Cons_right)

lemma keymap_messages:
  "str_contains ('' cannot be produced by the compositor keymap'') ''keymap''"
  by (simp add: str_contains_def sublist_Cons_right)

lemma plan_error_mentions_keymap:
  assumes "parse_chord X [ch] = Inr key" "key_plan X I key KeyPressed = Inl e"
  shows "str_contains e ''keymap''"
proof -
  have mods: "modifier_keycodes I names = Inl e' \<Longrightarrow> str_contains e' ''keymap''" for names e'
    by (induction names arbitrary: e') (auto simp: str_contains_append keymap_messages map_sum_eq_Inl split: option.splits if_splits)
  then have "key_strokes X I k st = Inl e' \<Longrightarrow> str_contains e' ''keymap''" for k st e'
    by (auto simp: key_strokes_def str_contains_append keymap_messages map_sum_eq_Inl split: option.splits)
  then have "plan_strokes X I ks = Inl e' \<Longrightarrow> str_contains e' ''keymap''" for ks e'
    by (induction ks arbitrary: e') (auto simp: map_sum_eq_Inl split: sum.splits)
  with assms show ?thesis
    by (auto simp: key_plan_def parse_chord_def split: sum.splits list.splits)
qed

lemma type_character_undisturbed:
  assumes H: "undisturbed H" and f: "active_window (wb_model (cs_wm (rt_compositor r))) = Some f" "settled (rt_compositor r)"
    and X: "ev_xkb (env_at H r) = X" "cs_injector (rt_compositor r) = I"
  obtains r' where "type_character ch H r = (r', Inr (typed_strokes X I ch \<noteq> None))"
    "said r' = said r @ (case typed_strokes X I ch of None \<Rightarrow> [] | Some plan \<Rightarrow> map (\<lambda>(k, ks). MsgKey k ks 0) plan)"
    "cs_wm (rt_compositor r') = cs_wm (rt_compositor r)" "settled (rt_compositor r')" "cs_injector (rt_compositor r') = I"
proof (cases "parse_chord X [ch]")
  case (Inl e)
  then show ?thesis using X f by (intro that[of r]) (simp_all add: type_character_def typed_strokes_def)
next
  case (Inr key)
  obtain s where s: "toplevel_of (cs_wm (rt_compositor r)) f = Some s" "focused_window (rt_compositor r) = Inr f"
    using settled_focus[OF f(2,1)] by metis
  show ?thesis
  proof (cases "key_plan X I key KeyPressed")
    case plan: (Inl e)
    have "str_contains (''invalid request: '' @ e) ''keymap''"
      using plan_error_mentions_keymap[OF Inr plan] by (rule str_contains_append(1))
    then have "is_unmappable_key (command_error None (compositor_error_into (CeInvalidRequest e)))"
      by (simp add: is_unmappable_key_def command_error_def compositor_error_into_def Error_new_def)
    then show ?thesis using X f Inr plan
      by (intro that[of "exchanged r (rt_compositor r)"])
        (simp_all add: type_character_def typed_strokes_def key_event_undisturbed[OF H] inject_key_def said_def)
  next
    case plan: (Inr strokes)
    let ?st = "fold (\<lambda>(k, ks). send_message (MsgKey k ks (event_time (env_at H r)))) strokes (rt_compositor r)"
    have "inject_key (env_at H r) key KeyPressed (rt_compositor r) = (?st, Inr ())"
      using X plan s by (simp add: inject_key_def)
    moreover have "settled ?st" using f(2) by (simp add: settled_def focus_ok_def)
    ultimately show ?thesis using X f Inr plan
      by (intro that[of "exchanged r ?st"])
        (simp_all add: type_character_def typed_strokes_def key_event_undisturbed[OF H] said_def case_prod_beta comp_def)
  qed
qed

lemma type_characters_undisturbed:
  assumes H: "undisturbed H" and X: "\<And>n. ev_xkb (ho_env H n) = X"
    and "active_window (wb_model (cs_wm (rt_compositor r))) = Some f" "settled (rt_compositor r)" "cs_injector (rt_compositor r) = I"
  shows "\<exists>r'. type_characters chs H r = (r', Inr (filter (\<lambda>ch. typed_strokes X I ch = None) chs)) \<and>
    said r' = said r @ concat (map (map (\<lambda>(k, ks). MsgKey k ks 0)) (List.map_filter (typed_strokes X I) chs))"
  using assms(3-5)
proof (induction chs arbitrary: r)
  case Nil
  then show ?case by (simp add: give_def List.map_filter_def)
next
  case (Cons ch chs)
  obtain r1 where r1: "type_character ch H r = (r1, Inr (typed_strokes X I ch \<noteq> None))"
    "said r1 = said r @ (case typed_strokes X I ch of None \<Rightarrow> [] | Some plan \<Rightarrow> map (\<lambda>(k, ks). MsgKey k ks 0) plan)"
    "cs_wm (rt_compositor r1) = cs_wm (rt_compositor r)" "settled (rt_compositor r1)" "cs_injector (rt_compositor r1) = I"
    using type_character_undisturbed[OF H Cons.prems(1,2) X Cons.prems(3), of ch] by metis
  from Cons.IH[of r1] r1(3-5) Cons.prems(1) obtain r2 where
    r2: "type_characters chs H r1 = (r2, Inr (filter (\<lambda>ch. typed_strokes X I ch = None) chs))"
    "said r2 = said r1 @ concat (map (map (\<lambda>(k, ks). MsgKey k ks 0)) (List.map_filter (typed_strokes X I) chs))"
    by auto
  show ?case using r1(1,2) r2
    by (cases "typed_strokes X I ch") (simp_all add: and_then_def give_def List.map_filter_def)
qed


text \<open>White space has no strokes: the key name is trimmed before it is looked up.\<close>

lemma trim_examples: "trim '' '' = []" "trim ''A'' = ''A''" "trim ''a'' = ''a''"
  by (simp_all add: trim_def trim_start_def trim_end_def unicode_spaces_def strip_leading.simps[of _ "'' ''"]
      strip_leading.simps[of _ "[]"] strip_leading.simps[of _ "''A''"] strip_leading.simps[of _ "''a''"])

lemma space_is_skipped: "typed_strokes X I '' '' = None"
  by (simp add: typed_strokes_def parse_chord_def Keysym_parse_def trim_examples)

text \<open>libxkbcommon ignores case and answers with the lower-case key: an upper-case letter is typed in lower case.\<close>

lemma upper_case_is_typed_as_lower_case:
  assumes "xk_keysym_from_name X ''A'' = xk_keysym_from_name X ''a''" "xk_keysym_from_name X ''a'' \<noteq> 0"
  shows "typed_strokes X I ''A'' = typed_strokes X I ''a''"
  using assms
  by (simp add: typed_strokes_def parse_chord_def Keysym_parse_def trim_examples key_alias_def ALIASES_def
      eq_ignore_ascii_case_def Let_def)

text \<open>A drag whose second motion fails, because the window went away while the button was down, ends there: the
  release is skipped with the rest and the button stays pressed.\<close>

definition calm :: "'i Host \<Rightarrow> 'i Host" where
  "calm H = H\<lparr>ho_others := \<lambda>_. id, ho_accepts := \<lambda>_. True, ho_answers := \<lambda>_. True\<rparr>"

lemma undisturbed_calm: "undisturbed (calm H)"
  by (simp add: undisturbed_def calm_def)

lemma calm_exchange:
  assumes "ho_others H (rt_exchanges r) = id" "ho_accepts H (rt_exchanges r)" "ho_answers H (rt_exchanges r)"
  shows "query_state H r = query_state (calm H) r" "send_unit w c H r = send_unit w c (calm H) r"
proof -
  have "exchange H c r = exchange (calm H) c r" for c using assms by (simp add: exchange_def calm_def Let_def)
  then show "query_state H r = query_state (calm H) r" "send_unit w c H r = send_unit w c (calm H) r"
    by (simp_all add: query_state_def and_then_def send_infallible_def send_unit_def send_result_def give_def give_up_def
        split: prod.splits sum.splits Answer.splits Reply.splits)
qed


lemma drag_can_leave_the_button_down:
  assumes H: "\<And>n. ho_accepts H n \<and> ho_answers H n" "\<And>n. n \<noteq> rt_exchanges r + 3 \<Longrightarrow> ho_others H n = id"
    and gone: "\<And>st. active_window (wb_model (cs_wm (ho_others H (rt_exchanges r + 3) st))) = None"
      "\<And>st. keyboard_focus (cs_wm (ho_others H (rt_exchanges r + 3) st)) = None"
      "\<And>st. cs_out (ho_others H (rt_exchanges r + 3) st) = cs_out st"
    and st: "settled (rt_compositor r)" "active_window (wb_model (cs_wm (rt_compositor r))) = Some w"
    and res: "drag w start target b H r = (r', x)"
  shows "(\<exists>e. x = Inl e) \<and> (\<exists>m. said r' = said r @ [m, MsgButton (button_code b) BtnPressed 0])"
proof -
  let ?C = "calm H"
  have C: "undisturbed ?C" by (rule undisturbed_calm)
  obtain r1 a where r1: "observed_action Drag (Some w) (Some start) H r = (r1, Inr a)"
    by (simp add: observed_action_def case_prod_beta)
  have same: "rt_compositor r1 = rt_compositor r" "rt_exchanges r1 = rt_exchanges r" using observed_sel[OF r1] by simp_all
  have ok: "bridge_ok (cs_wm (rt_compositor r))" using st by (simp add: settled_def)
  obtain s where s: "toplevel_of (cs_wm (rt_compositor r)) w = Some s" "focused_window (rt_compositor r) = Inr w"
    using settled_focus[OF st] by metis
  obtain i where i: "snapshot_window (state_snapshot (env_at ?C r1) (rt_compositor r)) w = Some i"
    using snapshot_window_known[of _ "rt_compositor r" w] active_known[OF ok st(2)] by blast
  obtain k where "window (wb_model (cs_wm (rt_compositor r))) w = Some k" using active_known[OF ok st(2)] by (auto simp: win_def)
  then obtain p where p: "resolve_position (wb_model (cs_wm (rt_compositor r))) w start = Some p" by (simp add: resolve_position_def Let_def)
  let ?r2 = "exchanged r1 (rt_compositor r)"
  have r2: "window_rect w H r1 = (?r2, Inr (wi_geometry i))"
    using i same by (simp add: window_rect_def and_then_def give_def calm_exchange H query_state_undisturbed[OF C])
  obtain r3 where r3: "move_pointer w start (wi_geometry i) H ?r2 = (r3, Inr ())" "rt_exchanges r3 = rt_exchanges r + 2"
    "cs_wm (rt_compositor r3) = cs_wm (rt_compositor r)" "said r3 = said r @ [MsgMotion s p 0]"
    using s p same by (simp add: move_pointer_def before_def and_then_def calm_exchange H pointer_event_undisturbed[OF C]
        inject_pointer_move_def set_cursor_def send_message_def said_def)
  obtain r4 where r4: "button_event w b BtnPressed H r3 = (r4, Inr ())" "rt_exchanges r4 = rt_exchanges r + 3"
    "said r4 = said r3 @ [MsgButton (button_code b) BtnPressed 0]"
    using s r3(2,3) focused_congs[OF r3(3)] by (simp add: button_event_def calm_exchange H pointer_event_undisturbed[OF C]
        inject_pointer_button_def send_message_def said_def exchanged_def)
  obtain r5 e where r5: "move_pointer w target (wi_geometry i) H r4 = (r5, Inl e)" "said r5 = said r4"
    using gone r4(2) H by (simp add: move_pointer_def before_def and_then_def send_unit_def send_result_def exchange_def
        inject_pointer_move_def focused_window_def or_else_def said_def Let_def)
  have "(r', x) = (r5, Inl e)" using res by (simp add: drag_def and_then_def before_def r1 r2 r3(1) r4(1) r5(1))
  with r3(4) r4(3) r5(2) show ?thesis by simp
qed

section \<open>A run\<close>

text \<open>The compositor of the demonstration run: one window is mapped and active, and the keymap produces the letter a.\<close>

definition demo_host :: "unit Host" where
  "demo_host = \<lparr>ho_env = \<lambda>_. demo_env, ho_others = \<lambda>_. id, ho_accepts = \<lambda>_. True, ho_answers = \<lambda>_. True, ho_now = \<lambda>_. 0\<rparr>"

definition demo_runtime :: Runtime where
  "demo_runtime = \<lparr>rt_compositor = demo_state 4, rt_observer = ObserverService_new 0, rt_cursor = None, rt_exchanges = 0\<rparr>"

lemma demo_host_undisturbed: "undisturbed demo_host"
  by (simp add: demo_host_def undisturbed_def)

lemma demo_runtime_reach: "compositor_reach demo_trace [5] (rt_compositor demo_runtime)" "length demo_trace + 2 < 2 ^ 64 - 1"
  using demo_reach(2) by (simp_all add: demo_runtime_def demo_sent)

lemma demo_runtime_active: "active_window (wb_model (cs_wm (rt_compositor demo_runtime))) = Some (WindowId 1)"
  using demo_active by (simp add: demo_runtime_def)

lemma demo_runtime_settled: "settled (rt_compositor demo_runtime)"
  using reach_settled demo_runtime_reach .

lemma injector_kept:
  "cs_injector (apply_activate E w pf st) = cs_injector st"
  "cs_injector (fold (apply_action E pf) acts st) = cs_injector st"
  "cs_injector (on_toplevel_mapped E t st) = cs_injector st"
  "cs_injector (on_surface_commit E s st) = cs_injector st"
proof -
  show act: "cs_injector (apply_activate E w pf st) = cs_injector st" for E :: "'a Env" and w pf st
    by (simp add: apply_activate_def dismiss_stale_grab_def send_message_def Let_def split: option.split prod.split)
  have "cs_injector (apply_action E pf a st) = cs_injector st" for E :: "'a Env" and pf a st
    by (cases a) (simp_all add: act send_message_def split: option.split)
  then show fold: "cs_injector (fold (apply_action E pf) acts st) = cs_injector st" for E :: "'a Env" and pf acts st
    by (induction acts arbitrary: st) simp_all
  show mapped: "cs_injector (on_toplevel_mapped E t st) = cs_injector st" for E :: "'a Env" and t st
    by (simp add: on_toplevel_mapped_def apply_decision_def fold Let_def case_prod_beta split: MapOutcome.split)
  show "cs_injector (on_surface_commit E s st) = cs_injector st"
    by (simp add: on_surface_commit_def mapped Let_def case_prod_beta split: option.split)
qed

lemma demo_keymap: "cs_injector (rt_compositor demo_runtime) = demo_injector"
  by (simp add: demo_runtime_def demo_steps(3,4) injector_kept demo_registered next_seq_def Let_def)

definition demo_key :: KeyCode where
  "demo_key = KeyChord [\<lparr>ks_name = ''a'', ks_value = 97\<rparr>]"

lemma demo_plan: "key_plan (ev_xkb demo_env) demo_injector demo_key KeyPressed = Inr [(38, KeyPressed), (38, KeyReleased)]"
  by (simp add: demo_key_def demo_injector_def key_plan_def key_strokes_def keymap_resolve_def bt_get_def level_modifier_names_def)

lemma demo_known: "snapshot_window (state_snapshot demo_env (rt_compositor demo_runtime)) (WindowId 1) \<noteq> None"
proof -
  have "bridge_ok (cs_wm (rt_compositor demo_runtime))" using demo_runtime_settled by (simp add: settled_def)
  from active_known[OF this demo_runtime_active] show ?thesis by (rule snapshot_window_known[THEN iffD2])
qed

lemma demo_key_press:
  "\<exists>r' a. key_request Keypress (Some (WindowId 1)) demo_key KeyPressed demo_host demo_runtime = (r', Inr a)"
proof -
  obtain r1 a where r1: "observed_action Keypress (Some (WindowId 1)) None demo_host demo_runtime = (r1, Inr a)"
    by (simp add: observed_action_def case_prod_beta)
  have same: "rt_compositor r1 = rt_compositor demo_runtime" using observed_sel[OF r1] by simp
  have env: "ho_env demo_host n = demo_env" for n by (simp add: demo_host_def)
  have focus: "focused_window (rt_compositor demo_runtime) = Inr (WindowId 1)"
    using settled_focus[OF demo_runtime_settled demo_runtime_active] by metis
  obtain s where s: "toplevel_of (cs_wm (rt_compositor demo_runtime)) (WindowId 1) = Some s"
    using settled_focus[OF demo_runtime_settled demo_runtime_active] by metis
  obtain i where "snapshot_window (state_snapshot demo_env (rt_compositor demo_runtime)) (WindowId 1) = Some i"
    using demo_known by blast
  moreover have "or_else (sn_keyboard_focus (state_snapshot demo_env (rt_compositor demo_runtime)))
      (sn_active_window_id (state_snapshot demo_env (rt_compositor demo_runtime))) = Some (WindowId 1)"
    using demo_runtime_active by (simp add: state_snapshot_def keyboard_focus_def or_else_def split: option.split)
  ultimately have "activate_if_needed (Some (WindowId 1)) demo_host r1 = (exchanged r1 (rt_compositor demo_runtime), Inr ())"
    using same by (simp add: activate_if_needed_def and_then_def query_state_undisturbed[OF demo_host_undisturbed] env give_def)
  with r1 show ?thesis
    using focus s demo_keymap demo_plan
    by (simp add: key_request_def and_then_def before_def key_event_undisturbed[OF demo_host_undisturbed] env inject_key_def give_def)
qed


lemma demo_move:
  assumes "rt_compositor r = rt_compositor demo_runtime"
  shows "\<exists>r'. move_to (WindowId 1) None demo_host r = (r', Inr ()) \<and> cs_wm (rt_compositor r') = cs_wm (rt_compositor demo_runtime)"
proof -
  have ok: "bridge_ok (cs_wm (rt_compositor demo_runtime))" using demo_runtime_settled by (simp add: settled_def)
  obtain k where "window (wb_model (cs_wm (rt_compositor demo_runtime))) (WindowId 1) = Some k"
    using active_known[OF ok demo_runtime_active] by (auto simp: win_def)
  then have at: "\<exists>p. resolve_position (wb_model (cs_wm (rt_compositor demo_runtime))) (WindowId 1) q = Some p" for q
    by (simp add: resolve_position_def Let_def)
  obtain s where s: "toplevel_of (cs_wm (rt_compositor demo_runtime)) (WindowId 1) = Some s"
    "focused_window (rt_compositor demo_runtime) = Inr (WindowId 1)"
    using settled_focus[OF demo_runtime_settled demo_runtime_active] by metis
  obtain i where i: "snapshot_window (state_snapshot demo_env (rt_compositor demo_runtime)) (WindowId 1) = Some i"
    using demo_known by blast
  have env: "ho_env demo_host n = demo_env" for n by (simp add: demo_host_def)
  obtain p where "resolve_position (wb_model (cs_wm (rt_compositor demo_runtime))) (WindowId 1)
      (resolve_pointer_position None (wi_geometry i) (rt_cursor r)) = Some p" using at by blast
  with s i assms show ?thesis
    by (simp add: move_to_def window_rect_def and_then_def before_def query_state_undisturbed[OF demo_host_undisturbed] env give_def
        get_cursor_def move_pointer_def pointer_event_undisturbed[OF demo_host_undisturbed] inject_pointer_move_def set_cursor_def
        send_message_def)
qed

lemma demo_output: "config (wb_manager (cs_wm (rt_compositor demo_runtime))) = \<lparr>output_size = Size_new 640 480\<rparr>"
proof -
  have env: "ev_clients demo_env = demo_clients" by (simp add: demo_env_def)
  have unmapped: "unmapped_toplevel (cs_wm (demo_state 2)) 5 = Some 5"
    by (simp add: demo_registered demo_bridge_def unmapped_toplevel_def reg_is_unmapped_toplevel_def reg_slot_def bt_get_def)
  have owner: "window_for_surface demo_clients demo_mapped 5 = Some (WindowId 1)" "cl_has_buffer demo_clients 5"
    by (simp_all add: demo_mapped_def demo_clients_def window_for_surface_def reg_window_for_surface_def bt_get_def)
  have "config (wb_manager (snd (wb_commit w d demo_mapped))) = config (wb_manager demo_mapped)" for w d
    by (simp add: wb_commit_def Let_def with_model_def)
  then show ?thesis
    by (simp add: demo_runtime_def demo_steps(3,4) next_seq_def on_surface_commit_def env unmapped owner demo_after_map(3) Let_def
        case_prod_beta)
      (simp add: demo_mapped_def)
qed



end
