(* ===== verification/Render_Damage.thy ===== *)
theory Render_Damage
  imports Core_Geometry
begin

text \<open>
  Damage of one window (\<open>crates/adesk-render/src/damage.rs\<close>): \<open>coalesce_damage\<close> sorts the clipped
  rectangles before it merges them, where the geometry module merges first and sorts the result. Both
  give the same list: merging is confluent, and merging a sorted list keeps it sorted.
\<close>

definition rect_area :: "Rect \<Rightarrow> nat" where
  "rect_area r = unat (rw r) * unat (rh r)"

definition coalesce_damage :: "Region \<Rightarrow> Rect \<Rightarrow> u32 \<Rightarrow> Region" where
  "coalesce_damage g bounds min_area =
     (if region_is_empty g \<or> rect_is_empty bounds then region_empty
      else
        let clipped = sort_key simplified_key (List.map_filter (\<lambda>r. intersect r bounds) (rects g));
            out = coalesce (fold (\<lambda>r g. region_push g r) clipped region_empty)
        in if min_area = 0 \<or> \<not> (\<exists>r \<in> set (rects out). rect_area r < unat min_area) then out
           else fold (\<lambda>r g. if unat min_area \<le> rect_area r then region_push g r else g) (rects out) region_empty)"

record DamageAccumulator =
  da_bounds :: Rect
  da_pending :: Region
  da_commits :: u64
  da_last_commit_seq :: u64

definition DamageAccumulator_new :: "Rect \<Rightarrow> DamageAccumulator" where
  "DamageAccumulator_new b = \<lparr>da_bounds = b, da_pending = region_empty, da_commits = 0, da_last_commit_seq = 0\<rparr>"

definition set_bounds :: "Rect \<Rightarrow> DamageAccumulator \<Rightarrow> DamageAccumulator" where
  "set_bounds b d = d\<lparr>da_bounds := b, da_pending := region_clip (da_pending d) b\<rparr>"

text \<open>The commit counter counts commits of one window and does not reach \<open>2 ^ 64\<close>.\<close>

definition record_commit :: "u64 \<Rightarrow> Region \<Rightarrow> DamageAccumulator \<Rightarrow> DamageAccumulator" where
  "record_commit commit_seq damage d =
     (let d = d\<lparr>da_commits := da_commits d + 1, da_last_commit_seq := commit_seq\<rparr>
      in if rect_is_empty (da_bounds d) then d
         else d\<lparr>da_pending :=
           fold (\<lambda>r g. case intersect r (da_bounds d) of Some part \<Rightarrow> region_push g part | None \<Rightarrow> g)
             (rects damage) (da_pending d)\<rparr>)"

definition record_rect :: "Rect \<Rightarrow> DamageAccumulator \<Rightarrow> DamageAccumulator" where
  "record_rect r d =
     (case intersect r (da_bounds d) of
        Some part \<Rightarrow> d\<lparr>da_pending := region_push (da_pending d) part\<rparr>
      | None \<Rightarrow> d)"

definition damage_peek :: "DamageAccumulator \<Rightarrow> Region" where
  "damage_peek d = coalesce_damage (da_pending d) (da_bounds d) 0"

definition damage_take :: "DamageAccumulator \<Rightarrow> Region \<times> DamageAccumulator" where
  "damage_take d = (damage_peek d, d\<lparr>da_pending := region_empty\<rparr>)"

definition damage_clear :: "DamageAccumulator \<Rightarrow> DamageAccumulator" where
  "damage_clear d = d\<lparr>da_pending := region_empty\<rparr>"

section \<open>Rectangles that merge\<close>

text \<open>Where the corners of a rectangle are \<open>i32\<close> values the code's clamped edges are its edges.\<close>

definition fits :: "Rect \<Rightarrow> bool" where
  "fits r \<longleftrightarrow> \<not> rect_is_empty r \<and> sint (rx r) + uint (rw r) \<le> 2147483647 \<and> sint (ry r) + uint (rh r) \<le> 2147483647"

definition touch :: "Rect \<Rightarrow> Rect \<Rightarrow> bool" where
  "touch a b \<longleftrightarrow>
     (let ax = sint (rx a); bx = sint (rx b); ay = sint (ry a); by = sint (ry b);
          ar = ax + uint (rw a); br = bx + uint (rw b); ab = ay + uint (rh a); bb = by + uint (rh b)
      in (ax \<le> br \<and> bx \<le> ar \<and> ay < bb \<and> by < ab) \<or> (ax < br \<and> bx < ar \<and> ay \<le> bb \<and> by \<le> ab))"

lemma fits_edges:
  assumes "fits r"
  shows "sint (right r) = sint (rx r) + uint (rw r)" "sint (bottom r) = sint (ry r) + uint (rh r)"
    "sint (rx r) < sint (rx r) + uint (rw r)" "sint (ry r) < sint (ry r) + uint (rh r)"
proof -
  have r: "0 < uint (rw r)" "0 < uint (rh r)" "sint (rx r) + uint (rw r) \<le> 2147483647" "sint (ry r) + uint (rh r) \<le> 2147483647"
    using assms rect_not_empty_iff[of r] by (simp_all add: fits_def)
  note low = sint_bounds_i32(1)[of "rx r"] sint_bounds_i32(1)[of "ry r"]
  show "sint (right r) = sint (rx r) + uint (rw r)" unfolding right_def by (rule sint_clamp_exact) (use r low in linarith)+
  show "sint (bottom r) = sint (ry r) + uint (rh r)" unfolding bottom_def by (rule sint_clamp_exact) (use r low in linarith)+
  show "sint (rx r) < sint (rx r) + uint (rw r)" "sint (ry r) < sint (ry r) + uint (rh r)" using r by simp_all
qed

lemma word_eq_sint: "(a :: i32) = b \<longleftrightarrow> sint a = sint b"
  using signed_word_eqI by blast

lemma touch_arith:
  assumes "(ax :: int) < ar" "(bx :: int) < br" "(ay :: int) < ab" "(by :: int) < bb"
  shows "(max ax bx < min ar br \<and> max ay by < min ab bb) \<or>
      ((ar = bx \<or> br = ax) \<and> max ay by < min ab bb) \<or> ((ab = by \<or> bb = ay) \<and> max ax bx < min ar br) \<longleftrightarrow>
    (ax \<le> br \<and> bx \<le> ar \<and> ay < bb \<and> by < ab) \<or> (ax < br \<and> bx < ar \<and> ay \<le> bb \<and> by \<le> ab)"
  using assms unfolding min_less_iff_conj max_less_iff_conj
  by (cases "ax < br"; cases "bx < ar"; cases "ay < bb"; cases "by < ab") auto

lemma merge_pair_touch:
  assumes "fits a" "fits b"
  shows "merge_pair a b = (if touch a b then Some (rect_union a b) else None)"
proof -
  have ne: "\<not> rect_is_empty a" "\<not> rect_is_empty b" using assms by (simp_all add: fits_def)
  note edges = fits_edges[OF assms(1)] fits_edges[OF assms(2)]
  define meets where "meets \<longleftrightarrow>
      max (sint (rx a)) (sint (rx b)) < min (sint (rx a) + uint (rw a)) (sint (rx b) + uint (rw b)) \<and>
      max (sint (ry a)) (sint (ry b)) < min (sint (ry a) + uint (rh a)) (sint (ry b) + uint (rh b))"
  have "(intersect a b \<noteq> None) = meets" using ne unfolding intersect_None_iff meets_def by (simp only: de_Morgan_disj not_le not_not simp_thms)
  then have "merge_pair a b = (if meets \<or>
      ((sint (rx a) + uint (rw a) = sint (rx b) \<or> sint (rx b) + uint (rw b) = sint (rx a)) \<and>
        max (sint (ry a)) (sint (ry b)) < min (sint (ry a) + uint (rh a)) (sint (ry b) + uint (rh b))) \<or>
      ((sint (ry a) + uint (rh a) = sint (ry b) \<or> sint (ry b) + uint (rh b) = sint (ry a)) \<and>
        max (sint (rx a)) (sint (rx b)) < min (sint (rx a) + uint (rw a)) (sint (rx b) + uint (rw b)))
      then Some (rect_union a b) else None)"
    using ne by (simp only: merge_pair_def Let_def word_eq_sint edges(1,2,5,6) if_False simp_thms split: if_split) blast
  then show ?thesis
    unfolding meets_def touch_def Let_def touch_arith[OF edges(3,7,4,8)] .
qed

section \<open>Merging is confluent\<close>

lemma union_edges:
  assumes "fits a" "fits b"
  shows "sint (rx (rect_union a b)) = min (sint (rx a)) (sint (rx b))"
    "sint (ry (rect_union a b)) = min (sint (ry a)) (sint (ry b))"
    "sint (rx (rect_union a b)) + uint (rw (rect_union a b)) = max (sint (rx a) + uint (rw a)) (sint (rx b) + uint (rw b))"
    "sint (ry (rect_union a b)) + uint (rh (rect_union a b)) = max (sint (ry a) + uint (rh a)) (sint (ry b) + uint (rh b))"
proof -
  have ne: "\<not> rect_is_empty a" "\<not> rect_is_empty b" using assms by (simp_all add: fits_def)
  have le: "sint (rx a) + uint (rw a) \<le> 2147483647" "sint (rx b) + uint (rw b) \<le> 2147483647"
    "sint (ry a) + uint (rh a) \<le> 2147483647" "sint (ry b) + uint (rh b) \<le> 2147483647" using assms by (simp_all add: fits_def)
  note low = sint_bounds_i32(1)[of "rx a"] sint_bounds_i32(1)[of "rx b"] sint_bounds_i32(1)[of "ry a"] sint_bounds_i32(1)[of "ry b"]
  note u = union_reading[OF ne]
  show "sint (rx (rect_union a b)) = min (sint (rx a)) (sint (rx b))" "sint (ry (rect_union a b)) = min (sint (ry a)) (sint (ry b))"
    by (rule u)+
  show "sint (rx (rect_union a b)) + uint (rw (rect_union a b)) = max (sint (rx a) + uint (rw a)) (sint (rx b) + uint (rw b))"
    using u(1,3) le(1,2) low(1,2) by linarith
  show "sint (ry (rect_union a b)) + uint (rh (rect_union a b)) = max (sint (ry a) + uint (rh a)) (sint (ry b) + uint (rh b))"
    using u(2,4) le(3,4) low(3,4) by linarith
qed

lemma union_fits: "fits a \<Longrightarrow> fits b \<Longrightarrow> fits (rect_union a b)"
  using union_edges[of a b] union_not_empty[of a b] by (simp add: fits_def)

lemma union_within: "fits a \<Longrightarrow> fits b \<Longrightarrow> rect_within a (rect_union a b) \<and> rect_within b (rect_union a b)"
  using union_edges[of a b] by (simp add: rect_within_def)

lemma rect_within_refl [simp]: "rect_within a a"
  by (simp add: rect_within_def)

lemma rect_within_trans: "rect_within a b \<Longrightarrow> rect_within b c \<Longrightarrow> rect_within a c"
  unfolding rect_within_def by linarith

lemma touch_within: "touch a b \<Longrightarrow> rect_within a c \<Longrightarrow> rect_within b d \<Longrightarrow> touch c d"
  unfolding touch_def rect_within_def Let_def
  by (elim disjE conjE) ((intro disjI1 conjI; linarith), (intro disjI2 conjI; linarith))

lemma within_touch: "fits a \<Longrightarrow> rect_within a b \<Longrightarrow> touch a b"
  using fits_edges(3,4)[of a] unfolding touch_def rect_within_def Let_def by simp

lemma within_antisym: "rect_within a b \<Longrightarrow> rect_within b a \<Longrightarrow> a = b"
proof (cases a; cases b)
  fix xa ya wa ha xb yb wb hb
  assume r: "a = \<lparr>rx = xa, ry = ya, rw = wa, rh = ha\<rparr>" "b = \<lparr>rx = xb, ry = yb, rw = wb, rh = hb\<rparr>"
    "rect_within a b" "rect_within b a"
  then have "sint xa = sint xb" "sint ya = sint yb" "uint wa = uint wb" "uint ha = uint hb"
    unfolding rect_within_def by simp_all
  then have "xa = xb" "ya = yb" "wa = wb" "ha = hb"
    using signed_word_eqI[of xa xb] signed_word_eqI[of ya yb] unsigned_word_eqI[of wa wb] unsigned_word_eqI[of ha hb] by blast+
  with r(1,2) show "a = b" by simp
qed

definition refines :: "Rect list \<Rightarrow> Rect list \<Rightarrow> bool" where
  "refines as bs \<longleftrightarrow> (\<forall>a \<in> set as. \<exists>b \<in> set bs. rect_within a b)"

definition stable :: "Rect list \<Rightarrow> bool" where
  "stable as \<longleftrightarrow> (\<forall>a \<in> set as. \<forall>b \<in> set as. a \<noteq> b \<longrightarrow> \<not> touch a b)"

text \<open>One pass merges one pair.\<close>

lemma merge_with_split:
  "merge_with a bs = Some (u, bs') \<Longrightarrow>
   \<exists>mid b post. bs = mid @ b # post \<and> bs' = mid @ post \<and> merge_pair a b = Some u"
proof (induction bs arbitrary: bs')
  case (Cons b bs)
  show ?case
  proof (cases "merge_pair a b")
    case (Some v)
    with Cons.prems show ?thesis by (intro exI[of _ "[]"]) simp
  next
    case None
    with Cons.prems obtain cs where cs: "merge_with a bs = Some (u, cs)" "bs' = b # cs" by (auto split: option.splits)
    from Cons.IH[OF cs(1)] obtain mid c post where
      "bs = mid @ c # post" "cs = mid @ post" "merge_pair a c = Some u" by blast
    with cs(2) show ?thesis by (intro exI[of _ "b # mid"]) auto
  qed
qed simp

lemma merge_first_split:
  "merge_first as = Some as' \<Longrightarrow>
   \<exists>pre a mid b post u. as = pre @ a # mid @ b # post \<and> as' = pre @ u # mid @ post \<and> merge_pair a b = Some u"
proof (induction as arbitrary: as')
  case (Cons a as)
  show ?case
  proof (cases "merge_with a as")
    case None
    with Cons.prems obtain bs where bs: "merge_first as = Some bs" "as' = a # bs" by (auto split: option.splits)
    from Cons.IH[OF bs(1)] obtain pre c mid b post u where
      "as = pre @ c # mid @ b # post" "bs = pre @ u # mid @ post" "merge_pair c b = Some u" by blast
    with bs(2) show ?thesis by (intro exI[of _ "a # pre"]) auto
  next
    case (Some q)
    then obtain u bs where q: "merge_with a as = Some (u, bs)" by (cases q) simp
    from merge_with_split[OF q] obtain mid b post where
      "as = mid @ b # post" "bs = mid @ post" "merge_pair a b = Some u" by blast
    with Cons.prems q show ?thesis by (intro exI[of _ "[]"]) auto
  qed
qed simp

lemma merge_step:
  assumes "merge_first as = Some as'" "\<forall>r \<in> set as. fits r"
  obtains pre a mid b post where "as = pre @ a # mid @ b # post" "as' = pre @ rect_union a b # mid @ post"
    "touch a b" "fits a" "fits b" "\<forall>r \<in> set as'. fits r"
proof -
  obtain pre a mid b post u where s: "as = pre @ a # mid @ b # post" "as' = pre @ u # mid @ post" "merge_pair a b = Some u"
    using merge_first_split[OF assms(1)] by blast
  have f: "fits a" "fits b" using assms(2) s(1) by simp_all
  from merge_pair_touch[OF f] s(3) have "touch a b" "u = rect_union a b" by (auto split: if_splits)
  with s f union_fits[OF f] assms(2) show ?thesis by (intro that[of pre a mid b post]) auto
qed

lemma coalesce_loop_result:
  assumes "\<forall>r \<in> set as. fits r"
  shows "(\<forall>r \<in> set (coalesce_loop as). fits r) \<and> refines as (coalesce_loop as) \<and>
    (\<forall>F. stable F \<and> refines as F \<longrightarrow> refines (coalesce_loop as) F)"
  using assms
proof (induction as rule: coalesce_loop.induct)
  case (1 as)
  show ?case
  proof (cases "merge_first as")
    case None
    then show ?thesis using 1(2) by (subst (1 2 3) coalesce_loop.simps) (auto simp: refines_def intro: rect_within_refl)
  next
    case (Some as')
    from merge_step[OF Some 1(2)] obtain pre a mid b post where
      s: "as = pre @ a # mid @ b # post" "as' = pre @ rect_union a b # mid @ post" "touch a b" "fits a" "fits b"
        "\<forall>r \<in> set as'. fits r" .
    note IH = 1(1)[OF Some s(6)]
    have loop: "coalesce_loop as = coalesce_loop as'" using Some by (subst coalesce_loop.simps) simp
    have "\<exists>d \<in> set as'. rect_within c d" if "c \<in> set as" for c
    proof (cases "c \<in> set as'")
      case True
      then show ?thesis using rect_within_refl by blast
    next
      case False
      with that have "c = a \<or> c = b" by (auto simp: s(1,2))
      with union_within[OF s(4,5)] show ?thesis by (auto simp: s(2))
    qed
    then have "refines as as'" by (simp add: refines_def)
    then have "refines as (coalesce_loop as')" using IH unfolding refines_def by (meson rect_within_trans)
    moreover have "refines as' F" if F: "stable F" "refines as F" for F
    proof -
      obtain f g where fg: "f \<in> set F" "rect_within a f" "g \<in> set F" "rect_within b g"
        using F(2) s(1) by (auto simp: refines_def)
      have "f = g" using touch_within[OF s(3) fg(2,4)] F(1) fg(1,3) unfolding stable_def by blast
      then have "rect_within (rect_union a b) f"
        using union_least[of a b f] fg s(4,5) by (simp add: fits_def)
      with fg(1) F(2) show ?thesis unfolding refines_def s(1,2) by auto
    qed
    ultimately show ?thesis using IH loop by auto
  qed
qed

lemma coalesce_loop_stable_touch:
  assumes "\<forall>r \<in> set as. fits r"
  shows "stable (coalesce_loop as)"
  unfolding stable_def
proof (intro ballI impI)
  fix a b assume ab: "a \<in> set (coalesce_loop as)" "b \<in> set (coalesce_loop as)" "a \<noteq> b"
  have "merge_pair a b = None"
    using pairwise_of_sorted_wrt[OF coalesce_loop_stable merge_pair_None_sym[THEN iffD1] ab] .
  moreover have "fits a" "fits b" using coalesce_loop_result[OF assms, THEN conjunct1] ab(1,2) by blast+
  ultimately show "\<not> touch a b" using merge_pair_touch[of a b] by (auto split: if_splits)
qed

lemma coalesce_loop_confluent:
  assumes "\<forall>r \<in> set as. fits r" "set as = set bs"
  shows "set (coalesce_loop as) = set (coalesce_loop bs)"
proof -
  have sub: "set (coalesce_loop xs) \<subseteq> set (coalesce_loop ys)" if xy: "\<forall>r \<in> set xs. fits r" "set xs = set ys" for xs ys
  proof
    fix r assume r: "r \<in> set (coalesce_loop xs)"
    have ys: "\<forall>r \<in> set ys. fits r" using xy by simp
    note X = coalesce_loop_result[OF xy(1)] and Y = coalesce_loop_result[OF ys]
    note sX = coalesce_loop_stable_touch[OF xy(1)] and sY = coalesce_loop_stable_touch[OF ys]
    have "refines xs (coalesce_loop ys)" "refines ys (coalesce_loop xs)"
      using X[THEN conjunct2, THEN conjunct1] Y[THEN conjunct2, THEN conjunct1] unfolding refines_def xy(2) by blast+
    then have "refines (coalesce_loop xs) (coalesce_loop ys)" "refines (coalesce_loop ys) (coalesce_loop xs)"
      using X[THEN conjunct2, THEN conjunct2, THEN spec, of "coalesce_loop ys"]
        Y[THEN conjunct2, THEN conjunct2, THEN spec, of "coalesce_loop xs"] sX sY by blast+
    note mutual = this[unfolded refines_def]
    obtain s where s: "s \<in> set (coalesce_loop ys)" "rect_within r s" using bspec[OF mutual(1) r] by blast
    obtain r' where r': "r' \<in> set (coalesce_loop xs)" "rect_within s r'" using bspec[OF mutual(2) s(1)] by blast
    have "fits r" using X[THEN conjunct1] r by blast
    from within_touch[OF this rect_within_trans[OF s(2) r'(2)]] sX r r'(1) have "r = r'" unfolding stable_def by blast
    with s(2) r'(2) have "r = s" by (intro within_antisym) simp_all
    with s(1) show "r \<in> set (coalesce_loop ys)" by simp
  qed
  have "\<forall>r \<in> set bs. fits r" using assms by simp
  from sub[OF assms] sub[OF this assms(2)[symmetric]] show ?thesis by (rule equalityI)
qed

section \<open>Merging keeps the order\<close>

text \<open>Two rectangles are in order unless they still have to merge.\<close>

definition ordered_pair :: "Rect \<Rightarrow> Rect \<Rightarrow> bool" where
  "ordered_pair a b \<longleftrightarrow> sint (ry a) \<le> sint (ry b) \<and> (sint (ry a) = sint (ry b) \<longrightarrow> sint (rx a) \<le> sint (rx b) \<or> touch a b)"

lemma ordered_key: "simplified_key a \<le> simplified_key b \<Longrightarrow> ordered_pair a b"
  by (auto simp: simplified_key_def ordered_pair_def less_eq_prod_def)

lemma touch_sym: "touch a b \<longleftrightarrow> touch b a"
  unfolding touch_def Let_def by (auto simp: conj_commute disj_commute)

lemma ordered_union_after:
  assumes "fits e" "fits a" "fits b" "ordered_pair e a" "ordered_pair a b"
  shows "ordered_pair e (rect_union a b)"
proof -
  let ?u = "rect_union a b"
  note u = union_edges[OF assms(2,3)]
  have y: "sint (ry ?u) = sint (ry a)" using u(2) assms(5) by (simp add: ordered_pair_def)
  have "sint (rx e) \<le> sint (rx ?u) \<or> touch e ?u" if eq: "sint (ry e) = sint (ry a)"
  proof (cases "touch e a")
    case True
    then show ?thesis using touch_within[OF True rect_within_refl] union_within[OF assms(2,3)] by blast
  next
    case False
    with assms(4) eq have "sint (rx e) \<le> sint (rx a)" by (simp add: ordered_pair_def)
    then have "sint (rx ?u) \<le> sint (rx e) \<longrightarrow> touch e ?u"
      using u(3) y eq fits_edges(3,4)[OF assms(1)] fits_edges(3,4)[OF assms(2)] fits_edges(4)[OF union_fits[OF assms(2,3)]]
      unfolding touch_def Let_def by linarith
    then show ?thesis by linarith
  qed
  with y assms(4) show ?thesis by (simp add: ordered_pair_def)
qed

lemma ordered_union_before:
  assumes "fits e" "fits a" "fits b" "ordered_pair a e" "ordered_pair a b"
  shows "ordered_pair (rect_union a b) e"
proof -
  let ?u = "rect_union a b"
  note u = union_edges[OF assms(2,3)]
  have y: "sint (ry ?u) = sint (ry a)" using u(2) assms(5) by (simp add: ordered_pair_def)
  have "touch a e \<Longrightarrow> touch ?u e" using touch_within[OF _ _ rect_within_refl] union_within[OF assms(2,3)] by blast
  with y u(1) assms(4) show ?thesis by (auto simp: ordered_pair_def)
qed

lemma coalesce_loop_ordered:
  assumes "\<forall>r \<in> set as. fits r" "sorted_wrt ordered_pair as"
  shows "sorted_wrt ordered_pair (coalesce_loop as)"
  using assms
proof (induction as rule: coalesce_loop.induct)
  case (1 as)
  show ?case
  proof (cases "merge_first as")
    case None
    then show ?thesis using 1(3) by (subst coalesce_loop.simps) simp
  next
    case (Some as')
    from merge_step[OF Some 1(2)] obtain pre a mid b post where
      s: "as = pre @ a # mid @ b # post" "as' = pre @ rect_union a b # mid @ post" "touch a b" "fits a" "fits b"
        "\<forall>r \<in> set as'. fits r" .
    have ab: "ordered_pair a b" using 1(3) unfolding s(1) by (simp add: sorted_wrt_append)
    have before: "ordered_pair e (rect_union a b)" if "e \<in> set pre" for e
      using ordered_union_after[OF _ s(4,5) _ ab, of e] that 1(2,3) unfolding s(1) by (simp add: sorted_wrt_append)
    have after: "ordered_pair (rect_union a b) e" if "e \<in> set mid \<union> set post" for e
      using ordered_union_before[OF _ s(4,5) _ ab, of e] that 1(2,3) unfolding s(1) by (auto simp: sorted_wrt_append)
    have "sorted_wrt ordered_pair as'"
      using 1(3) before after unfolding s(1,2) by (auto simp: sorted_wrt_append)
    from 1(1)[OF Some s(6) this] show ?thesis using Some by (subst coalesce_loop.simps) simp
  qed
qed

lemma ordered_stable_sorted:
  assumes "sorted_wrt ordered_pair as" "stable as" "distinct as" "\<forall>r \<in> set as. fits r"
  shows "sorted (map simplified_key as)"
  using assms
proof (induction as)
  case (Cons a as)
  have "simplified_key a \<le> simplified_key b" if b: "b \<in> set as" for b
  proof -
    have "ordered_pair a b" "\<not> touch a b" "fits a" "fits b" using Cons.prems b by (auto simp: stable_def)
    then have "sint (ry a) < sint (ry b) \<or> (sint (ry a) = sint (ry b) \<and> sint (rx a) \<le> sint (rx b))"
      "\<not> (sint (ry a) = sint (ry b) \<and> sint (rx a) = sint (rx b))"
      using fits_edges(3,4)[of a] fits_edges(3,4)[of b] unfolding ordered_pair_def by (auto simp: touch_def Let_def)
    then show ?thesis by (auto simp: simplified_key_def less_eq_prod_def)
  qed
  with Cons show ?case by (auto simp: stable_def)
qed simp

section \<open>Sorting first\<close>

lemma intersect_fits:
  assumes "intersect r bounds = Some c" "fits bounds"
  shows "fits c"
  using intersect_Some_reading[OF assms(1)] assms(2) intersect_Some_eq[OF assms(1)]
  unfolding fits_def rect_not_empty_iff by linarith

lemma fold_push: "\<forall>r \<in> set rs. \<not> rect_is_empty r \<Longrightarrow> fold (\<lambda>r g. region_push g r) rs g = g\<lparr>rects := rects g @ rs\<rparr>"
  by (induction rs arbitrary: g) (simp_all add: region_push_def)

lemma clip_rects_filter: "rects (clip_rects out rs c) = rects out @ filter (\<lambda>r. \<not> rect_is_empty r) (List.map_filter (\<lambda>r. intersect r c) rs)"
  by (induction out rs c rule: clip_rects.induct) (auto simp: map_filter_simps region_push_def split: option.split)

text \<open>C18. Merging the sorted clipped damage gives what clipping, merging and then sorting gives: the order of the damage
  does not matter, and merging a sorted list leaves it sorted.\<close>

theorem coalesce_damage_is_simplified:
  assumes "fits bounds"
  shows "rects (coalesce_damage g bounds 0) = simplified (region_clip g bounds)"
proof -
  have b: "\<not> rect_is_empty bounds" using assms by (simp add: fits_def)
  define cs where "cs = List.map_filter (\<lambda>r. intersect r bounds) (rects g)"
  have cs: "\<forall>r \<in> set cs. fits r" using intersect_fits[OF _ assms] by (auto simp: cs_def map_filter_def)
  then have ne: "\<forall>r \<in> set cs. \<not> rect_is_empty r" by (simp add: fits_def)
  let ?s = "sort_key simplified_key cs"
  have s: "\<forall>r \<in> set ?s. fits r" "set ?s = set cs" using cs by simp_all
  have clip: "rects (region_clip g bounds) = cs"
    using b ne by (simp add: region_clip_def clip_rects_filter region_empty_def cs_def[symmetric])
  then have right: "simplified (region_clip g bounds) = sort_key simplified_key (coalesce_loop cs)"
    using ne by (simp add: simplified_def coalesce_def)
  have left: "rects (coalesce_damage g bounds 0) = coalesce_loop ?s"
  proof (cases "rects g = []")
    case True
    then have "cs = []" by (simp add: cs_def map_filter_simps)
    with True show ?thesis by (simp add: coalesce_damage_def region_is_empty_def region_empty_def coalesce_loop.simps)
  next
    case False
    have "rects (fold (\<lambda>r g. region_push g r) ?s region_empty) = ?s" using ne by (subst fold_push) (simp_all add: region_empty_def)
    with False b ne show ?thesis
      by (simp add: coalesce_damage_def region_is_empty_def cs_def[symmetric] coalesce_def Let_def)
  qed
  have "sorted (map simplified_key ?s)" by (rule sorted_sort_key)
  then have "sorted_wrt (\<lambda>a b. simplified_key a \<le> simplified_key b) ?s" unfolding sorted_map .
  then have "sorted_wrt ordered_pair ?s" using ordered_key by (rule sorted_wrt_mono_rel[rotated]) blast
  from coalesce_loop_ordered[OF s(1) this] have ordered: "sorted_wrt ordered_pair (coalesce_loop ?s)" .
  have d: "distinct (coalesce_loop xs)" if "\<forall>r \<in> set xs. \<not> rect_is_empty r" for xs
    using coalesce_distinct[of "\<lparr>rects = xs\<rparr>"] that by (simp add: coalesce_def)
  have sorted: "sorted (map simplified_key (coalesce_loop ?s))"
    using ordered_stable_sorted[OF ordered coalesce_loop_stable_touch[OF s(1)]] d[of ?s] ne coalesce_loop_result[OF s(1)] by simp
  have "set (coalesce_loop ?s) = set (sort_key simplified_key (coalesce_loop cs))"
    using coalesce_loop_confluent[OF s] by simp
  then have "coalesce_loop ?s = sort_key simplified_key (coalesce_loop cs)"
    using sorted d[of ?s] d[OF ne] ne simplified_key_inj
    by (intro map_sorted_distinct_set_unique[of simplified_key]) (auto simp: distinct_map inj_on_def)
  with left right show ?thesis by simp
qed

theorem coalesce_damage_is_simplified_witness:
  "fits (Rect_new 0 0 8 8) \<and>
   rects (coalesce_damage \<lparr>rects = [Rect_new 4 0 2 2, Rect_new 0 0 4 2]\<rparr> (Rect_new 0 0 8 8) 0) =
     simplified (region_clip \<lparr>rects = [Rect_new 4 0 2 2, Rect_new 0 0 4 2]\<rparr> (Rect_new 0 0 8 8))"
proof -
  have "fits (Rect_new 0 0 8 8)" by (simp add: fits_def Rect_new_def rect_is_empty_def)
  with coalesce_damage_is_simplified[OF this] show ?thesis by blast
qed

end
