(* ===== verification/Render_Pipeline.thy ===== *)
theory Render_Pipeline
  imports Core_Image Render_Damage
begin

text \<open>
  The offscreen render pass of \<open>crates/adesk-render/src\<close>: its configuration (\<open>config.rs\<close>), the scene
  (\<open>scene.rs\<close>), the targets and their pool (\<open>output.rs\<close>, \<open>pool.rs\<close>) and the pass itself
  (\<open>pipeline.rs\<close>). The renderer, its targets and smithay's rectangle intersection are parameters.
\<close>

section \<open>Configuration\<close>

record RenderConfig =
  rc_source :: Rect
  rc_crop :: "Rect option"
  rc_max_dimension :: "u32 option"
  rc_clear_color :: "u8 list"

definition DEFAULT_CLEAR_COLOR :: "u8 list" where
  "DEFAULT_CLEAR_COLOR = [0, 0, 0, 0xff]"

definition RenderConfig_new :: "Rect \<Rightarrow> RenderConfig" where
  "RenderConfig_new source =
     \<lparr>rc_source = source, rc_crop = None, rc_max_dimension = None, rc_clear_color = DEFAULT_CLEAR_COLOR\<rparr>"

definition with_crop :: "Rect \<Rightarrow> RenderConfig \<Rightarrow> RenderConfig" where
  "with_crop r c = c\<lparr>rc_crop := Some r\<rparr>"

definition with_max_dimension :: "u32 \<Rightarrow> RenderConfig \<Rightarrow> RenderConfig" where
  "with_max_dimension m c = c\<lparr>rc_max_dimension := Some m\<rparr>"

definition config_target_size :: "RenderConfig \<Rightarrow> Size" where
  "config_target_size c = rect_size (rc_source c)"

definition config_output_size :: "RenderConfig \<Rightarrow> Size" where
  "config_output_size c =
     (let base = (case rc_crop c of None \<Rightarrow> config_target_size c | Some r \<Rightarrow> rect_size r)
      in case rc_max_dimension c of Some m \<Rightarrow> fit_dimensions base m | None \<Rightarrow> base)"

text \<open>\<open>show_rect\<close> is the derived \<open>Debug\<close> text of a rectangle.\<close>

definition validate :: "(Rect \<Rightarrow> string) \<Rightarrow> RenderConfig \<Rightarrow> RenderError + unit" where
  "validate show_rect c =
     (if rect_is_empty (rc_source c) then Inl (ReInvalidConfig ''source rect is empty'')
      else case rc_crop c of
        None \<Rightarrow> Inr ()
      | Some r \<Rightarrow>
          if rect_is_empty r then Inl (ReInvalidConfig ''crop rect is empty'')
          else if intersect r (rc_source c) \<noteq> Some r
          then Inl (ReInvalidConfig (''crop '' @ show_rect r @ '' is not contained in source '' @ show_rect (rc_source c)))
          else Inr ())"

section \<open>Scenes\<close>

record 'e SceneNode =
  sd_element :: 'e
  sd_location :: "int \<times> int"
  sd_damage :: Region

record 'e Scene =
  sc_commit_seq :: u64
  sc_nodes :: "'e SceneNode list"

definition SceneNode_new :: "'e \<Rightarrow> int \<times> int \<Rightarrow> 'e SceneNode" where
  "SceneNode_new e l = \<lparr>sd_element = e, sd_location = l, sd_damage = region_empty\<rparr>"

definition with_damage :: "'e \<Rightarrow> int \<times> int \<Rightarrow> Region \<Rightarrow> 'e SceneNode" where
  "with_damage e l d = \<lparr>sd_element = e, sd_location = l, sd_damage = d\<rparr>"

definition Scene_new :: "u64 \<Rightarrow> 'e Scene" where
  "Scene_new s = \<lparr>sc_commit_seq = s, sc_nodes = []\<rparr>"

definition scene_push :: "'e SceneNode \<Rightarrow> 'e Scene \<Rightarrow> 'e Scene" where
  "scene_push n s = s\<lparr>sc_nodes := sc_nodes s @ [n]\<rparr>"

definition scene_damage :: "'e Scene \<Rightarrow> Region" where
  "scene_damage s = fold (\<lambda>n d. region_extend d (sd_damage n)) (sc_nodes s) region_empty"

section \<open>Targets\<close>

record 't OffscreenTarget =
  ot_target :: 't
  ot_size :: "i32 \<times> i32"

definition max_0 :: "i32 \<Rightarrow> u32" where
  "max_0 v = (if sint v < 0 then 0 else v)"

definition core_size :: "'t OffscreenTarget \<Rightarrow> Size" where
  "core_size t = Size_new (max_0 (fst (ot_size t))) (max_0 (snd (ot_size t)))"

definition target_dims :: "'t OffscreenTarget \<Rightarrow> int \<times> int" where
  "target_dims t = (sint (fst (ot_size t)), sint (snd (ot_size t)))"

definition saturated_edge :: "u32 \<Rightarrow> i32" where
  "saturated_edge v = min v 2147483647"

text \<open>\<open>create_buffer\<close> is the renderer's allocator.\<close>

definition create_target ::
  "(Size \<Rightarrow> string) \<Rightarrow> (i32 \<times> i32 \<Rightarrow> string + 't) \<Rightarrow> Size \<Rightarrow> RenderError + 't OffscreenTarget" where
  "create_target show_size create_buffer s =
     (if sw s = 0 \<or> sh s = 0
      then Inl (ReTargetCreation s (''a '' @ show_size s @ '' render target cannot be allocated''))
      else
        let size = (saturated_edge (sw s), saturated_edge (sh s))
        in case create_buffer size of
             Inl e \<Rightarrow> Inl (ReTargetCreation s e)
           | Inr t \<Rightarrow> Inr \<lparr>ot_target = t, ot_size = size\<rparr>)"

definition MAX_POOLED_TARGETS :: nat where
  "MAX_POOLED_TARGETS = 4"

type_synonym 't TargetPool = "'t OffscreenTarget list"

definition TargetPool_new :: "'t TargetPool" where
  "TargetPool_new = []"

fun position_of :: "('a \<Rightarrow> bool) \<Rightarrow> 'a list \<Rightarrow> nat option" where
  "position_of P [] = None"
| "position_of P (x # xs) = (if P x then Some 0 else map_option Suc (position_of P xs))"

text \<open>\<open>Vec::swap_remove\<close>: the last element takes the place of the removed one.\<close>

definition swap_remove :: "nat \<Rightarrow> 'a list \<Rightarrow> 'a \<times> 'a list" where
  "swap_remove i xs = (xs ! i, butlast (xs[i := List.last xs]))"

definition pool_acquire ::
  "(Size \<Rightarrow> string) \<Rightarrow> (i32 \<times> i32 \<Rightarrow> string + 't) \<Rightarrow> Size \<Rightarrow> 't TargetPool \<Rightarrow>
   (RenderError + 't OffscreenTarget) \<times> 't TargetPool" where
  "pool_acquire show_size create_buffer s pool =
     (case position_of (\<lambda>t. core_size t = s) pool of
        Some i \<Rightarrow> let (t, rest) = swap_remove i pool in (Inr t, rest)
      | None \<Rightarrow> (create_target show_size create_buffer s, pool))"

definition pool_release :: "'t OffscreenTarget \<Rightarrow> 't TargetPool \<Rightarrow> 't TargetPool" where
  "pool_release t pool =
     (if \<exists>p \<in> set pool. core_size p = core_size t then pool
      else if length pool < MAX_POOLED_TARGETS then pool @ [t] else pool)"

section \<open>The pass\<close>

record IRect =
  ir_x :: int
  ir_y :: int
  ir_w :: int
  ir_h :: int

text \<open>A mapped read-back: its size and, or an error instead, its bytes.\<close>

record Mapping =
  mp_w :: int
  mp_h :: int
  mp_bytes :: "string + u8 list"

record ('t, 'f, 'e) Renderer =
  rn_bind :: "'t \<Rightarrow> string + 'f"
  rn_start :: "int \<times> int \<Rightarrow> 'f \<Rightarrow> string + 'f"
  rn_clear :: "u8 list \<Rightarrow> IRect \<Rightarrow> 'f \<Rightarrow> string + 'f"
  rn_geometry :: "'e \<Rightarrow> int \<times> int"
  rn_intersection :: "IRect \<Rightarrow> IRect \<Rightarrow> IRect option"
  rn_draw :: "'e \<Rightarrow> IRect \<Rightarrow> IRect \<Rightarrow> 'f \<Rightarrow> string + 'f"
  rn_finish :: "'f \<Rightarrow> string + 'f"
  rn_copy :: "'f \<Rightarrow> IRect \<Rightarrow> string + Mapping"

record Frame =
  fr_image :: ImageBuffer
  fr_commit_seq :: u64
  fr_damage :: Region

definition sat_i32 :: "int \<Rightarrow> int" where
  "sat_i32 v = max (- 2147483648) (min 2147483647 v)"

definition to_target :: "int \<times> int \<Rightarrow> Rect \<Rightarrow> int \<times> int" where
  "to_target p source = (sat_i32 (fst p - sint (rx source)), sat_i32 (snd p - sint (ry source)))"

definition on_ok :: "'x + 'a \<Rightarrow> ('a \<Rightarrow> 'x + 'b) \<Rightarrow> 'x + 'b" where
  "on_ok r k = (case r of Inl e \<Rightarrow> Inl e | Inr x \<Rightarrow> k x)"

definition wrap_err :: "(string \<Rightarrow> RenderError) \<Rightarrow> string + 'a \<Rightarrow> RenderError + 'a" where
  "wrap_err f r = map_sum f id r"

text \<open>The nodes are drawn bottom to top; one outside the source contributes nothing.\<close>

fun draw_nodes :: "('t, 'f, 'e) Renderer \<Rightarrow> Rect \<Rightarrow> IRect \<Rightarrow> 'e SceneNode list \<Rightarrow> 'f \<Rightarrow> RenderError + 'f" where
  "draw_nodes R source target [] f = Inr f"
| "draw_nodes R source target (n # ns) f =
     (let loc = to_target (sd_location n) source; size = rn_geometry R (sd_element n);
          dst = \<lparr>ir_x = fst loc, ir_y = snd loc, ir_w = fst size, ir_h = snd size\<rparr>
      in case rn_intersection R dst target of
           None \<Rightarrow> draw_nodes R source target ns f
         | Some v \<Rightarrow>
             on_ok
               (wrap_err ReRenderFailed
                 (rn_draw R (sd_element n) dst
                   \<lparr>ir_x = ir_x v - ir_x dst, ir_y = ir_y v - ir_y dst, ir_w = ir_w v, ir_h = ir_h v\<rparr> f))
               (draw_nodes R source target ns))"

definition readback_rect :: "RenderConfig \<Rightarrow> int \<times> int \<Rightarrow> IRect" where
  "readback_rect c dims =
     (case rc_crop c of
        Some r \<Rightarrow>
          let origin = to_target (sint (rx r), sint (ry r)) (rc_source c)
          in \<lparr>ir_x = fst origin, ir_y = snd origin, ir_w = sint (rw r), ir_h = sint (rh r)\<rparr>
      | None \<Rightarrow> \<lparr>ir_x = 0, ir_y = 0, ir_w = fst dims, ir_h = snd dims\<rparr>)"

definition u32_or :: "u32 \<Rightarrow> int \<Rightarrow> u32" where
  "u32_or d v = (if 0 \<le> v \<and> v < 2 ^ 32 then word_of_int v else d)"

definition readback :: "('t, 'f, 'e) Renderer \<Rightarrow> RenderConfig \<Rightarrow> int \<times> int \<Rightarrow> 'f \<Rightarrow> (RenderError + ImageBuffer) option" where
  "readback R c dims f =
     (let r = readback_rect c dims;
          region = Rect_new (word_of_int (ir_x r)) (word_of_int (ir_y r)) (word_of_int (max (ir_w r) 0)) (word_of_int (max (ir_h r) 0))
      in case rn_copy R f r of
           Inl e \<Rightarrow> Some (Inl (ReReadback region e))
         | Inr m \<Rightarrow>
             let width = u32_or 0 (mp_w m); height = u32_or 0 (mp_h m)
             in case mp_bytes m of
                  Inl e \<Rightarrow> Some (Inl (ReReadback region e))
                | Inr bytes \<Rightarrow>
                    image_from_readback bytes width height
                      (u32_or (- 1) (int (length bytes div max (unat height) 1))) False)"

text \<open>The first part, up to the finished frame.\<close>

definition draw_scene :: "('t, 'f, 'e) Renderer \<Rightarrow> 't OffscreenTarget \<Rightarrow> 'e Scene \<Rightarrow> RenderConfig \<Rightarrow> RenderError + 'f" where
  "draw_scene R t scene c =
     (let size = target_dims t; target = \<lparr>ir_x = 0, ir_y = 0, ir_w = fst size, ir_h = snd size\<rparr>
      in on_ok (wrap_err (ReTargetBind (config_target_size c)) (rn_bind R (ot_target t))) (\<lambda>f.
           on_ok (wrap_err ReRenderFailed (rn_start R size f)) (\<lambda>f.
             on_ok (wrap_err ReRenderFailed (rn_clear R (rc_clear_color c) target f)) (\<lambda>f.
               on_ok (draw_nodes R (rc_source c) target (sc_nodes scene) f) (\<lambda>f.
                 wrap_err ReRenderFailed (rn_finish R f))))))"

definition render_scene ::
  "(Rect \<Rightarrow> string) \<Rightarrow> (Size \<Rightarrow> string) \<Rightarrow> ('t, 'f, 'e) Renderer \<Rightarrow> 't OffscreenTarget \<Rightarrow> 'e Scene \<Rightarrow> RenderConfig \<Rightarrow>
   (RenderError + Frame) option" where
  "render_scene show_rect show_size R t scene c =
     (case validate show_rect c of
        Inl e \<Rightarrow> Some (Inl e)
      | Inr _ \<Rightarrow>
          if core_size t \<noteq> config_target_size c
          then Some (Inl (ReInvalidConfig (''render target is '' @ show_size (core_size t) @
            '' but the configuration renders '' @ show_size (config_target_size c) @
            ''; readback and crop math assume target size == source size'')))
          else case draw_scene R t scene c of
            Inl e \<Rightarrow> Some (Inl e)
          | Inr f \<Rightarrow>
              (case readback R c (target_dims t) f of
                 None \<Rightarrow> None
               | Some (Inl e) \<Rightarrow> Some (Inl e)
               | Some (Inr img) \<Rightarrow>
                   map_option
                     (\<lambda>img. Inr \<lparr>fr_image = img, fr_commit_seq = sc_commit_seq scene,
                        fr_damage = region_clip (scene_damage scene) (rc_source c)\<rparr>)
                     (case rc_max_dimension c of Some m \<Rightarrow> downscale img m | None \<Rightarrow> Some img)))"

section \<open>The pool\<close>

definition pool_ok :: "'t TargetPool \<Rightarrow> bool" where
  "pool_ok pool \<longleftrightarrow> distinct (map core_size pool) \<and> length pool \<le> MAX_POOLED_TARGETS"

lemma position_of_Some: "position_of P xs = Some i \<Longrightarrow> i < length xs \<and> P (xs ! i)"
  by (induction xs arbitrary: i) (auto split: if_splits)

lemma position_of_None: "position_of P xs = None \<Longrightarrow> \<forall>x \<in> set xs. \<not> P x"
  by (induction xs) (auto split: if_splits)

lemma swap_remove_mset:
  assumes "i < length xs"
  shows "mset (snd (swap_remove i xs)) + {#xs ! i#} = mset xs"
proof -
  have "xs \<noteq> []" using assms by auto
  then obtain ys z where xs: "xs = ys @ [z]" by (metis rev_exhaust)
  show ?thesis
  proof (cases "i < length ys")
    case True
    then have "mset (ys[i := z]) + {#ys ! i#} = add_mset z (mset ys)"
      by (simp add: mset_update insert_DiffM)
    with True show ?thesis by (simp add: xs swap_remove_def list_update_append nth_append)
  next
    case False
    with assms have "i = length ys" by (simp add: xs)
    then show ?thesis by (simp add: xs swap_remove_def list_update_append)
  qed
qed

lemma sint_of_small:
  assumes "uint v \<le> 2147483647"
  shows "sint (v :: u32) = uint v"
proof -
  have "uint v < 2 ^ 31" "- (2 ^ 31) \<le> uint v" using assms order_trans[OF _ uint_bounds_u32(1)[of v], of "- (2 ^ 31)"] by simp_all
  then show ?thesis unfolding sint_uint by (simp add: signed_take_bit_int_eq_self_iff)
qed

lemma sint_small: "v \<le> 2147483647 \<Longrightarrow> \<not> sint (v :: i32) < 0"
  using sint_of_small[of v] uint_bounds_u32(1)[of v] by (simp add: word_le_def)

lemma created_size: "create_target d cb s = Inr t \<Longrightarrow> sw s \<le> 2147483647 \<Longrightarrow> sh s \<le> 2147483647 \<Longrightarrow> core_size t = s"
  by (cases s) (auto simp: create_target_def core_size_def saturated_edge_def Size_new_def max_0_def sint_small min_def Let_def
      split: if_splits sum.splits)

lemma pool_release_ok: "pool_ok pool \<Longrightarrow> pool_ok (pool_release t pool)"
  by (auto simp: pool_release_def pool_ok_def)

lemma swap_remove_ok:
  assumes "pool_ok pool" "i < length pool"
  shows "pool_ok (snd (swap_remove i pool))"
proof -
  let ?rest = "snd (swap_remove i pool)"
  note m = swap_remove_mset[OF assms(2)]
  have "mset (core_size (pool ! i) # map core_size ?rest) = mset (map core_size pool)"
    using arg_cong[OF m, of "image_mset core_size"] by simp
  then have "distinct (core_size (pool ! i) # map core_size ?rest)"
    using assms(1) mset_eq_imp_distinct_iff by (metis pool_ok_def)
  moreover have "Suc (length ?rest) = length pool" using arg_cong[OF m, of size] by simp
  ultimately show ?thesis using assms(1) by (simp add: pool_ok_def)
qed

text \<open>The pool hands out a target of exactly the size asked for (up to the renderer's limit on sizes), and
  whatever is acquired and released, it holds at most four targets, no two of one size.\<close>

theorem pool_keeps_one_target_per_size:
  assumes "pool_ok pool" "pool_acquire d cb s pool = (r, pool')" "sw s \<le> 2147483647" "sh s \<le> 2147483647"
  shows "pool_ok pool' \<and> (\<forall>t. r = Inr t \<longrightarrow> core_size t = s) \<and> pool_ok (pool_release t pool)"
proof (cases "position_of (\<lambda>t. core_size t = s) pool")
  case None
  then have "pool' = pool" "r = create_target d cb s" using assms(2) by (auto simp: pool_acquire_def)
  with assms(1,3,4) created_size[of d cb s] pool_release_ok[OF assms(1)] show ?thesis by simp
next
  case (Some i)
  note i = position_of_Some[OF Some]
  have "r = Inr (pool ! i)" "pool' = snd (swap_remove i pool)"
    using assms(2) Some by (auto simp: pool_acquire_def swap_remove_def)
  with i swap_remove_ok[OF assms(1)] pool_release_ok[OF assms(1)] show ?thesis by simp
qed

section \<open>What a pass leaves behind\<close>

text \<open>Clearing the whole target rectangle leaves nothing of what the framebuffer held: what smithay documents of
  \<open>Frame::clear\<close> over a damage rectangle that covers the target.\<close>

definition clears :: "('t, 'f, 'e) Renderer \<Rightarrow> bool" where
  "clears R \<longleftrightarrow> (\<forall>size color f g f1 g1. rn_start R size f = Inr f1 \<longrightarrow> rn_start R size g = Inr g1 \<longrightarrow>
     rn_clear R color \<lparr>ir_x = 0, ir_y = 0, ir_w = fst size, ir_h = snd size\<rparr> f1 =
     rn_clear R color \<lparr>ir_x = 0, ir_y = 0, ir_w = fst size, ir_h = snd size\<rparr> g1)"

text \<open>C20. A pooled target leaks nothing: two passes over targets of one size that both begin give the same frame or the
  same error, whatever the targets held before.\<close>

theorem pooled_target_leaks_nothing:
  assumes "clears R" "ot_size t = ot_size u"
    and "rn_bind R (ot_target t) = Inr f" "rn_start R (target_dims t) f = Inr f1"
    and "rn_bind R (ot_target u) = Inr g" "rn_start R (target_dims u) g = Inr g1"
  shows "render_scene show_rect show_size R t scene c = render_scene show_rect show_size R u scene c"
proof -
  have d: "target_dims t = target_dims u" using assms(2) by (simp add: target_dims_def)
  have "rn_clear R (rc_clear_color c) \<lparr>ir_x = 0, ir_y = 0, ir_w = fst (target_dims u), ir_h = snd (target_dims u)\<rparr> f1 =
      rn_clear R (rc_clear_color c) \<lparr>ir_x = 0, ir_y = 0, ir_w = fst (target_dims u), ir_h = snd (target_dims u)\<rparr> g1"
    using assms(1,4,6) d unfolding clears_def by metis
  then have "draw_scene R t scene c = draw_scene R u scene c"
    using assms(3-6) d by (simp add: draw_scene_def on_ok_def wrap_err_def Let_def)
  moreover have "core_size t = core_size u" using assms(2) by (simp add: core_size_def)
  ultimately show ?thesis unfolding render_scene_def d by (simp only:)
qed

lemma max_0_reading: "uint (max_0 v) = max 0 (sint v)" "sint (max_0 v) = max 0 (sint v)"
  using sint_bounds_i32(2)[of v] order_less_trans[OF sint_bounds_i32(2)[of v], of 4294967296]
  by (simp_all add: max_0_def uint_sint take_bit_int_eq_self_iff)

lemma u32_or_reading: "0 \<le> sint v \<Longrightarrow> u32_or d (sint v) = v" "sint v < 0 \<Longrightarrow> u32_or d (sint v) = d"
  using order_less_trans[OF sint_bounds_i32(2)[of v], of "2 ^ 32"] by (simp_all add: u32_or_def)

text \<open>The renderer reads back the region it is asked for: what smithay documents of \<open>copy_framebuffer\<close>.\<close>

definition reads_back :: "('t, 'f, 'e) Renderer \<Rightarrow> bool" where
  "reads_back R \<longleftrightarrow> (\<forall>f r m. rn_copy R f r = Inr m \<longrightarrow> mp_w m = ir_w r \<and> mp_h m = ir_h r)"

text \<open>What is asked of the read-back is the crop, or the whole target.\<close>

lemma readback_size:
  assumes "validate show_rect c = Inr x" "core_size t = config_target_size c"
    and "reads_back R"
  shows "case readback R c (target_dims t) f of None \<Rightarrow> False | Some (Inl e) \<Rightarrow> True
    | Some (Inr m) \<Rightarrow> image_tight m \<and> image_size m = (case rc_crop c of None \<Rightarrow> config_target_size c | Some r \<Rightarrow> rect_size r)"
proof -
  let ?r = "readback_rect c (target_dims t)"
  have source: "uint (rw (rc_source c)) = max 0 (sint (fst (ot_size t)))" "uint (rh (rc_source c)) = max 0 (sint (snd (ot_size t)))"
  proof -
    have "rw (rc_source c) = max_0 (fst (ot_size t))" "rh (rc_source c) = max_0 (snd (ot_size t))"
      using assms(2) by (simp_all add: core_size_def config_target_size_def rect_size_def Size_new_def)
    then show "uint (rw (rc_source c)) = max 0 (sint (fst (ot_size t)))" "uint (rh (rc_source c)) = max 0 (sint (snd (ot_size t)))"
      by (simp_all only: max_0_reading(1))
  qed
  have small: "uint (rw (rc_source c)) \<le> 2147483647" "uint (rh (rc_source c)) \<le> 2147483647"
    using source sint_bounds_i32(2)[of "fst (ot_size t)"] sint_bounds_i32(2)[of "snd (ot_size t)"] by linarith+
  define want where "want = (case rc_crop c of None \<Rightarrow> config_target_size c | Some r \<Rightarrow> rect_size r)"
  have dims: "u32_or 0 (ir_w ?r) = sw want" "u32_or 0 (ir_h ?r) = sh want"
  proof -
    have "u32_or 0 (sint v) = max_0 v" for v :: i32 using u32_or_reading[of v 0] by (cases "sint v < 0") (simp_all add: max_0_def)
    then have whole: "u32_or 0 (ir_w ?r) = sw want \<and> u32_or 0 (ir_h ?r) = sh want" if "rc_crop c = None"
      using assms(2)[symmetric] that by (simp add: readback_rect_def want_def target_dims_def core_size_def Size_new_def)
    have part: "u32_or 0 (ir_w ?r) = sw want \<and> u32_or 0 (ir_h ?r) = sh want" if r: "rc_crop c = Some r" for r
    proof -
      have "intersect r (rc_source c) = Some r" using assms(1) r by (auto simp: validate_def split: if_splits)
      note i = intersect_Some_reading[OF this]
      have "uint (rw r) \<le> 2147483647" "uint (rh r) \<le> 2147483647" using i small by linarith+
      then have "sint (rw r) = uint (rw r)" "sint (rh r) = uint (rh r)" by (simp_all add: sint_of_small)
      then show ?thesis
        using u32_or_reading(1)[of "rw r" 0] u32_or_reading(1)[of "rh r" 0] r
        by (simp add: readback_rect_def want_def rect_size_def Let_def)
    qed
    show "u32_or 0 (ir_w ?r) = sw want" "u32_or 0 (ir_h ?r) = sh want"
      using whole part by (cases "rc_crop c"; simp)+
  qed
  show ?thesis
  proof (cases "rn_copy R f ?r")
    case (Inr m)
    with assms(3) dims have wh: "u32_or 0 (mp_w m) = sw want" "u32_or 0 (mp_h m) = sh want"
      unfolding reads_back_def by (metis)+
    show ?thesis
    proof (cases "mp_bytes m")
      case bytes: (Inr bytes)
      let ?s = "u32_or (- 1) (int (length bytes div max (unat (sh want)) 1))"
      have "readback R c (target_dims t) f = image_from_readback bytes (sw want) (sh want) ?s False"
        by (simp add: readback_def Inr bytes wh Let_def)
      with readback_is_exact[where data = bytes and w = "sw want" and h = "sh want" and stride = ?s and flipped = False] show ?thesis
        unfolding want_def[symmetric] by (auto simp: image_size_def split: option.splits sum.splits)
    qed (simp add: readback_def Inr Let_def)
  qed (simp add: readback_def Let_def)
qed

text \<open>C19. A pass never panics, and when the renderer reads back the region it is asked for, the image has the size the
  configuration announces: the crop, or the source, fitted to the bound.\<close>

theorem render_has_announced_size:
  assumes "reads_back R"
  shows "case render_scene show_rect show_size R t scene c of
      None \<Rightarrow> False
    | Some (Inl e) \<Rightarrow> True
    | Some (Inr fr) \<Rightarrow> image_size (fr_image fr) = config_output_size c \<and> image_tight (fr_image fr)"
proof -
  let ?bound = "\<lambda>img. case rc_max_dimension c of Some m \<Rightarrow> downscale img m | None \<Rightarrow> Some img"
  have scaled: "\<exists>out. ?bound img = Some out \<and> image_tight out \<and> image_size out = config_output_size c"
    if "image_tight img" "image_size img = (case rc_crop c of None \<Rightarrow> config_target_size c | Some r \<Rightarrow> rect_size r)" for img
    using that downscale_shape[OF that(1)] by (auto simp: config_output_size_def Let_def split: option.split)
  show ?thesis
  proof (cases "validate show_rect c")
    case valid: (Inr x)
    show ?thesis
    proof (cases "core_size t = config_target_size c")
      case fits: True
      show ?thesis
      proof (cases "draw_scene R t scene c")
        case drawn: (Inr f)
        note result = readback_size[OF valid fits assms, where f = f]
        show ?thesis
        proof (cases "readback R c (target_dims t) f")
          case None
          with result show ?thesis by simp
        next
          case (Some r)
          show ?thesis
          proof (cases r)
            case (Inr img)
            with Some result obtain out where "?bound img = Some out" "image_tight out" "image_size out = config_output_size c"
              using scaled[of img] by auto
            with Some Inr show ?thesis by (simp add: render_scene_def valid fits drawn)
          qed (simp add: render_scene_def valid fits drawn Some)
        qed
      qed (simp add: render_scene_def valid fits)
    qed (simp add: render_scene_def valid)
  qed (simp add: render_scene_def)
qed

section \<open>A renderer\<close>

text \<open>A renderer whose framebuffer is one pixel value, which a clear sets and a read-back repeats.\<close>

definition demo_renderer :: "(nat, nat, unit) Renderer" where
  "demo_renderer =
     \<lparr>rn_bind = Inr, rn_start = (\<lambda>_. Inr), rn_clear = (\<lambda>color _ _. Inr (unat (color ! 3))), rn_geometry = (\<lambda>_. (0, 0)),
      rn_intersection = (\<lambda>_ _. None), rn_draw = (\<lambda>_ _ _. Inr), rn_finish = Inr,
      rn_copy = (\<lambda>f r. Inr \<lparr>mp_w = ir_w r, mp_h = ir_h r,
        mp_bytes = Inr (replicate (nat (ir_w r) * nat (ir_h r) * 4) (word_of_nat f))\<rparr>)\<rparr>"

definition demo_config :: RenderConfig where
  "demo_config = RenderConfig_new (Rect_new 0 0 2 1)"

theorem pooled_target_leaks_nothing_witness:
  "render_scene (\<lambda>_. []) (\<lambda>_. []) demo_renderer \<lparr>ot_target = 7, ot_size = (2, 1)\<rparr> (Scene_new 5) demo_config =
   render_scene (\<lambda>_. []) (\<lambda>_. []) demo_renderer \<lparr>ot_target = 8, ot_size = (2, 1)\<rparr> (Scene_new 5) demo_config"
  by (rule pooled_target_leaks_nothing[of _ _ _ 7 7 8 8]) (simp_all add: demo_renderer_def clears_def)

theorem render_has_announced_size_witness:
  "\<exists>fr. render_scene (\<lambda>_. []) (\<lambda>_. []) demo_renderer \<lparr>ot_target = 7, ot_size = (2, 1)\<rparr> (Scene_new 5) demo_config = Some (Inr fr) \<and>
     image_size (fr_image fr) = Size_new 2 1"
proof -
  let ?r = "render_scene (\<lambda>_. []) (\<lambda>_. []) demo_renderer \<lparr>ot_target = 7, ot_size = (2, 1)\<rparr> (Scene_new 5) demo_config"
  have "\<exists>fr. ?r = Some (Inr fr)"
    by (simp add: render_scene_def demo_config_def demo_renderer_def RenderConfig_new_def Rect_new_def validate_def rect_is_empty_def
        core_size_def config_target_size_def rect_size_def Size_new_def max_0_def draw_scene_def on_ok_def wrap_err_def Scene_new_def
        readback_def readback_rect_def target_dims_def u32_or_def image_from_readback_def slice_def from_rgba_def Let_def)
  then obtain fr where fr: "?r = Some (Inr fr)" by blast
  have "case ?r of None \<Rightarrow> False | Some (Inl e) \<Rightarrow> True
      | Some (Inr fr) \<Rightarrow> image_size (fr_image fr) = config_output_size demo_config \<and> image_tight (fr_image fr)"
    by (rule render_has_announced_size) (auto simp: demo_renderer_def reads_back_def)
  with fr show ?thesis
    by (simp add: config_output_size_def demo_config_def RenderConfig_new_def config_target_size_def rect_size_def Rect_new_def Size_new_def)
qed

theorem pool_keeps_one_target_per_size_witness:
  "pool_ok (pool_release \<lparr>ot_target = (7 :: nat), ot_size = (2, 1)\<rparr> [])"
  using pool_keeps_one_target_per_size[of "[]" "\<lambda>_. []" "\<lambda>_. Inr (7 :: nat)" "Size_new 2 1"
    "Inr \<lparr>ot_target = 7, ot_size = (2, 1)\<rparr>" "[]" "\<lparr>ot_target = 7, ot_size = (2, 1)\<rparr>"]
  by (simp add: pool_ok_def pool_acquire_def create_target_def saturated_edge_def Size_new_def word_le_nat_alt min_def Let_def)

end
