(* ===== verification/Recorder_Avi.thy ===== *)
theory Recorder_Avi
  imports Core_Types
begin

text \<open>
  The AVI muxer of the recorder (\<open>crates/adesk-recorder/src/avi.rs\<close>). The sink is the seekable byte buffer
  the writer is generic over: its bytes and its cursor; a write at the cursor overwrites, and extends the
  buffer past its end. Positions are \<open>u64\<close> in the code and numbers here, which a file cannot reach the
  end of; the casts to \<open>u32\<close> that the format forces are written out and wrap. I/O errors of the sink are not
  modelled.
\<close>

section \<open>Bytes\<close>

definition ascii :: "string \<Rightarrow> u8 list" where
  "ascii s = map of_char s"

definition le16 :: "u16 \<Rightarrow> u8 list" where
  "le16 x = map (\<lambda>k. word_of_nat (unat x div 256 ^ k)) [0, 1]"

definition le32 :: "u32 \<Rightarrow> u8 list" where
  "le32 x = map (\<lambda>k. word_of_nat (unat x div 256 ^ k)) [0, 1, 2, 3]"

definition as_u32 :: "nat \<Rightarrow> u32" where
  "as_u32 n = word_of_nat n"

record Sink =
  sk_data :: "u8 list"
  sk_cursor :: nat

definition write_all :: "u8 list \<Rightarrow> Sink \<Rightarrow> Sink" where
  "write_all bs s =
     (let c = sk_cursor s; d = sk_data s
      in \<lparr>sk_data = take c d @ replicate (c - length d) 0 @ bs @ drop (c + length bs) d, sk_cursor = c + length bs\<rparr>)"

definition seek :: "nat \<Rightarrow> Sink \<Rightarrow> Sink" where
  "seek off s = s\<lparr>sk_cursor := off\<rparr>"

section \<open>The writer\<close>

definition AVIHEADER_AVIH_SIZE :: u32 where "AVIHEADER_AVIH_SIZE = 56"
definition BITMAPINFOHEADER_SIZE :: u32 where "BITMAPINFOHEADER_SIZE = 40"
definition AVISTREAMHEADER_SIZE :: u32 where "AVISTREAMHEADER_SIZE = 56"
definition AVIF_HASINDEX :: u32 where "AVIF_HASINDEX = 16"
definition AVIIF_KEYFRAME :: u32 where "AVIIF_KEYFRAME = 16"
definition AVI_DEFAULT_QUALITY :: u32 where "AVI_DEFAULT_QUALITY = 0xFFFFFFFF"

lemmas avi_constants = AVIHEADER_AVIH_SIZE_def BITMAPINFOHEADER_SIZE_def AVISTREAMHEADER_SIZE_def
  AVIF_HASINDEX_def AVIIF_KEYFRAME_def AVI_DEFAULT_QUALITY_def

record IndexEntry =
  ie_offset :: u32
  ie_length :: u32

record AviWriter =
  av_inner :: Sink
  av_pos :: nat
  av_width :: u32
  av_height :: u32
  av_fps :: u32
  av_frames :: nat
  av_max_frame_bytes :: u32
  av_index :: "IndexEntry list"
  av_riff_size_offset :: nat
  av_avih_max_bytes_offset :: nat
  av_avih_frames_offset :: nat
  av_avih_buffer_offset :: nat
  av_strh_length_offset :: nat
  av_strh_buffer_offset :: nat
  av_movi_size_offset :: nat
  av_movi_base :: nat
  av_finished :: bool

definition write_bytes :: "u8 list \<Rightarrow> AviWriter \<Rightarrow> AviWriter" where
  "write_bytes bs a = a\<lparr>av_inner := write_all bs (av_inner a), av_pos := av_pos a + length bs\<rparr>"

definition write_u16 :: "u16 \<Rightarrow> AviWriter \<Rightarrow> AviWriter" where
  "write_u16 x = write_bytes (le16 x)"

definition write_u32 :: "u32 \<Rightarrow> AviWriter \<Rightarrow> AviWriter" where
  "write_u32 x = write_bytes (le32 x)"

definition patch_u32 :: "nat \<Rightarrow> u32 \<Rightarrow> AviWriter \<Rightarrow> AviWriter" where
  "patch_u32 off x a = a\<lparr>av_inner := seek (av_pos a) (write_all (le32 x) (seek off (av_inner a)))\<rparr>"

definition write_avih :: "AviWriter \<Rightarrow> AviWriter" where
  "write_avih a =
     (let a = write_u32 AVIHEADER_AVIH_SIZE (write_bytes (ascii ''avih'') a);
          start = av_pos a;
          a = a\<lparr>av_avih_max_bytes_offset := start + 4, av_avih_frames_offset := start + 16,
                av_avih_buffer_offset := start + 28\<rparr>
      in fold write_u32
           [1000000 div av_fps a, 0, 0, AVIF_HASINDEX, 0, 0, 1, 0, av_width a, av_height a, 0, 0, 0, 0] a)"

definition write_strh :: "AviWriter \<Rightarrow> AviWriter" where
  "write_strh a =
     (let a = write_u32 AVISTREAMHEADER_SIZE (write_bytes (ascii ''strh'') a);
          start = av_pos a;
          a = a\<lparr>av_strh_length_offset := start + 32, av_strh_buffer_offset := start + 36\<rparr>;
          a = write_bytes (ascii ''MJPG'') (write_bytes (ascii ''vids'') a);
          a = write_u16 0 (write_u16 0 (write_u32 0 a));
          a = fold write_u32 [0, 1, av_fps a, 0, 0, 0, AVI_DEFAULT_QUALITY, 0] a
      in fold write_u16 [0, 0, ucast (av_width a), ucast (av_height a)] a)"

definition write_strf :: "AviWriter \<Rightarrow> AviWriter" where
  "write_strf a =
     (let a = write_u32 BITMAPINFOHEADER_SIZE (write_bytes (ascii ''strf'') a);
          a = fold write_u32 [BITMAPINFOHEADER_SIZE, av_width a, av_height a] a;
          a = write_bytes (ascii ''MJPG'') (write_u16 24 (write_u16 1 a));
          size_image = min (unat (av_width a) * unat (av_height a) * 3) 4294967295
      in fold write_u32 [as_u32 size_image, 0, 0, 0, 0] a)"

definition write_strl :: "AviWriter \<Rightarrow> AviWriter" where
  "write_strl a =
     (let a = write_bytes (ascii ''LIST'') a;
          strl_size_offset = av_pos a;
          a = write_strf (write_strh (write_bytes (ascii ''strl'') (write_u32 0 a)))
      in patch_u32 strl_size_offset (as_u32 (av_pos a - (strl_size_offset + 4))) a)"

definition write_hdrl :: "AviWriter \<Rightarrow> AviWriter" where
  "write_hdrl a =
     (let a = write_bytes (ascii ''LIST'') a;
          hdrl_size_offset = av_pos a;
          a = write_strl (write_avih (write_bytes (ascii ''hdrl'') (write_u32 0 a)))
      in patch_u32 hdrl_size_offset (as_u32 (av_pos a - (hdrl_size_offset + 4))) a)"

definition write_header :: "AviWriter \<Rightarrow> AviWriter" where
  "write_header a =
     (let a = write_bytes (ascii ''RIFF'') a;
          a = a\<lparr>av_riff_size_offset := av_pos a\<rparr>;
          a = write_hdrl (write_bytes (ascii ''AVI '') (write_u32 0 a));
          a = write_bytes (ascii ''LIST'') a;
          a = a\<lparr>av_movi_size_offset := av_pos a\<rparr>;
          a = write_u32 0 a;
          a = a\<lparr>av_movi_base := av_pos a\<rparr>
      in write_bytes (ascii ''movi'') a)"

datatype RecorderError =
    RcIo string
  | RcEncode string
  | RcUnsupported string
  | RcMux string
  | RcBackend string

fun recorder_error_code :: "RecorderError \<Rightarrow> ErrorCode" where
  "recorder_error_code (RcUnsupported _) = NotSupported"
| "recorder_error_code (RcEncode _) = CaptureFailed"
| "recorder_error_code (RcMux _) = CaptureFailed"
| "recorder_error_code (RcIo _) = Internal"
| "recorder_error_code (RcBackend _) = RenderFailed"

definition AviWriter_new :: "Sink \<Rightarrow> u32 \<Rightarrow> u32 \<Rightarrow> u32 \<Rightarrow> RecorderError + AviWriter" where
  "AviWriter_new inner w h fps =
     (if w = 0 \<or> h = 0
      then Inl (RcMux (''cannot mux a '' @ decimal (unat w) @ ''x'' @ decimal (unat h) @ '' video''))
      else if fps = 0 then Inl (RcMux ''cannot mux a video with 0 fps'')
      else Inr (write_header
        \<lparr>av_inner = inner, av_pos = 0, av_width = w, av_height = h, av_fps = fps, av_frames = 0,
         av_max_frame_bytes = 0, av_index = [], av_riff_size_offset = 0, av_avih_max_bytes_offset = 0,
         av_avih_frames_offset = 0, av_avih_buffer_offset = 0, av_strh_length_offset = 0,
         av_strh_buffer_offset = 0, av_movi_size_offset = 0, av_movi_base = 0, av_finished = False\<rparr>))"

definition write_frame :: "u8 list \<Rightarrow> AviWriter \<Rightarrow> AviWriter" where
  "write_frame d a =
     (let offset = as_u32 (av_pos a - av_movi_base a); len = as_u32 (length d);
          a = write_bytes d (write_u32 len (write_bytes (ascii ''00dc'') a));
          a = (if length d mod 2 = 1 then write_bytes [0] a else a)
      in a\<lparr>av_index := av_index a @ [\<lparr>ie_offset = offset, ie_length = len\<rparr>], av_frames := av_frames a + 1,
           av_max_frame_bytes := max (av_max_frame_bytes a) len\<rparr>)"

definition write_index_entry :: "IndexEntry \<Rightarrow> AviWriter \<Rightarrow> AviWriter" where
  "write_index_entry e a =
     fold write_u32 [AVIIF_KEYFRAME, ie_offset e, ie_length e] (write_bytes (ascii ''00dc'') a)"

definition avi_finish :: "AviWriter \<Rightarrow> AviWriter" where
  "avi_finish a =
     (if av_finished a then a
      else
        let a = a\<lparr>av_finished := True\<rparr>;
            a = patch_u32 (av_movi_size_offset a) (as_u32 (av_pos a - av_movi_base a)) a;
            a = write_u32 (as_u32 (length (av_index a) * 16)) (write_bytes (ascii ''idx1'') a);
            a = fold write_index_entry (av_index a) a;
            frames = as_u32 (av_frames a);
            max_bytes_per_sec = saturating_mul (saturating_add (av_max_frame_bytes a) 8) (av_fps a);
            a = patch_u32 (av_avih_frames_offset a) frames a;
            a = patch_u32 (av_avih_max_bytes_offset a) max_bytes_per_sec a;
            a = patch_u32 (av_avih_buffer_offset a) (av_max_frame_bytes a) a;
            a = patch_u32 (av_strh_length_offset a) frames a;
            a = patch_u32 (av_strh_buffer_offset a) (av_max_frame_bytes a) a
        in patch_u32 (av_riff_size_offset a) (as_u32 (av_pos a - 8)) a)"

section \<open>The file format\<close>

text \<open>What a RIFF reader expects: chunks of an identifier, a length and that many bytes, padded to an even
  length, and lists of chunks.\<close>

definition riff_chunk :: "string \<Rightarrow> u8 list \<Rightarrow> u8 list" where
  "riff_chunk name body =
     ascii name @ le32 (as_u32 (length body)) @ body @ (if length body mod 2 = 1 then [0] else [])"

definition riff_list :: "string \<Rightarrow> string \<Rightarrow> u8 list \<Rightarrow> u8 list" where
  "riff_list name kind body =
     ascii name @ le32 (as_u32 (length kind + length body)) @ ascii kind @ body"

definition u32s :: "u32 list \<Rightarrow> u8 list" where
  "u32s xs = concat (map le32 xs)"

text \<open>The index of frames whose first chunk is at an offset.\<close>

fun frame_index :: "nat \<Rightarrow> u8 list list \<Rightarrow> IndexEntry list" where
  "frame_index off [] = []"
| "frame_index off (d # ds) =
     \<lparr>ie_offset = as_u32 off, ie_length = as_u32 (length d)\<rparr> # frame_index (off + length (riff_chunk ''00dc'' d)) ds"

definition index_bytes :: "IndexEntry \<Rightarrow> u8 list" where
  "index_bytes e = ascii ''00dc'' @ u32s [AVIIF_KEYFRAME, ie_offset e, ie_length e]"

definition largest_frame :: "u8 list list \<Rightarrow> u32" where
  "largest_frame ds = fold (\<lambda>d m. max m (as_u32 (length d))) ds 0"

definition header_list :: "u32 \<Rightarrow> u32 \<Rightarrow> u32 \<Rightarrow> u32 \<Rightarrow> u32 \<Rightarrow> u32 \<Rightarrow> u8 list" where
  "header_list w h fps frames rate largest =
     riff_list ''LIST'' ''hdrl''
       (riff_chunk ''avih''
          (u32s [1000000 div fps, rate, 0, AVIF_HASINDEX, frames, 0, 1, largest, w, h, 0, 0, 0, 0]) @
        riff_list ''LIST'' ''strl''
          (riff_chunk ''strh''
             (ascii ''vidsMJPG'' @ le32 0 @ le16 0 @ le16 0 @ u32s [0, 1, fps, 0, frames, largest, AVI_DEFAULT_QUALITY, 0] @
              le16 0 @ le16 0 @ le16 (ucast w) @ le16 (ucast h)) @
           riff_chunk ''strf''
             (u32s [BITMAPINFOHEADER_SIZE, w, h] @ le16 1 @ le16 24 @ ascii ''MJPG'' @
              u32s [as_u32 (min (unat w * unat h * 3) 4294967295), 0, 0, 0, 0])))"

definition avi_file :: "u32 \<Rightarrow> u32 \<Rightarrow> u32 \<Rightarrow> u8 list list \<Rightarrow> u8 list" where
  "avi_file w h fps ds =
     riff_list ''RIFF'' ''AVI ''
       (header_list w h fps (as_u32 (length ds)) (saturating_mul (saturating_add (largest_frame ds) 8) fps)
          (largest_frame ds) @
        riff_list ''LIST'' ''movi'' (concat (map (riff_chunk ''00dc'') ds)) @
        riff_chunk ''idx1'' (concat (map index_bytes (frame_index 4 ds))))"

section \<open>The writer writes the format\<close>

lemma le_length [simp]: "length (le16 v) = 2" "length (le32 x) = 4" "length (ascii s) = length s"
  by (simp_all add: le16_def le32_def ascii_def)

definition at_end :: "AviWriter \<Rightarrow> bool" where
  "at_end a \<longleftrightarrow> sk_cursor (av_inner a) = av_pos a \<and> length (sk_data (av_inner a)) = av_pos a"

abbreviation "av_data a \<equiv> sk_data (av_inner a)"


lemma write_bytes_at_end:
  assumes "at_end a"
  shows "write_bytes bs a =
    a\<lparr>av_inner := \<lparr>sk_data = av_data a @ bs, sk_cursor = av_pos a + length bs\<rparr>, av_pos := av_pos a + length bs\<rparr>"
  using assms by (simp add: write_bytes_def write_all_def at_end_def Let_def)

lemma at_end_write [simp]: "at_end a \<Longrightarrow> at_end (write_bytes bs a)"
  by (simp add: write_bytes_at_end) (simp add: at_end_def)

named_theorems writes \<open>how writes, patches and field updates combine\<close>

lemma write_write [writes]: "at_end a \<Longrightarrow> write_bytes ys (write_bytes xs a) = write_bytes (xs @ ys) a"
  by (simp add: write_bytes_at_end del: at_end_write) (simp add: write_bytes_at_end at_end_def)

lemma write_nothing: "at_end a \<Longrightarrow> write_bytes [] a = a"
  by (cases a, cases "av_inner a") (simp add: write_bytes_at_end, simp add: at_end_def)

lemma length_u32s [simp]: "length (u32s xs) = 4 * length xs"
  by (induction xs) (simp_all add: u32s_def)

lemma write_u32s [writes]: "at_end a \<Longrightarrow> fold write_u32 xs a = write_bytes (u32s xs) a"
  by (induction xs arbitrary: a) (simp_all add: write_nothing write_write write_u32_def u32s_def)

lemma write_u16s [writes]: "at_end a \<Longrightarrow> fold write_u16 xs a = write_bytes (concat (map le16 xs)) a"
  by (induction xs arbitrary: a) (simp_all add: write_nothing write_write write_u16_def)

lemma write_sel [writes]:
  "av_pos (write_bytes bs a) = av_pos a + length bs"
  "av_width (write_bytes bs a) = av_width a" "av_height (write_bytes bs a) = av_height a"
  "av_fps (write_bytes bs a) = av_fps a" "av_frames (write_bytes bs a) = av_frames a"
  "av_max_frame_bytes (write_bytes bs a) = av_max_frame_bytes a" "av_index (write_bytes bs a) = av_index a"
  "av_movi_base (write_bytes bs a) = av_movi_base a" "av_finished (write_bytes bs a) = av_finished a"
  "av_riff_size_offset (write_bytes bs a) = av_riff_size_offset a"
  "av_avih_max_bytes_offset (write_bytes bs a) = av_avih_max_bytes_offset a"
  "av_avih_frames_offset (write_bytes bs a) = av_avih_frames_offset a"
  "av_avih_buffer_offset (write_bytes bs a) = av_avih_buffer_offset a"
  "av_strh_length_offset (write_bytes bs a) = av_strh_length_offset a"
  "av_strh_buffer_offset (write_bytes bs a) = av_strh_buffer_offset a"
  "av_movi_size_offset (write_bytes bs a) = av_movi_size_offset a"
  by (simp_all add: write_bytes_def)

lemma write_update [writes]:
  "write_bytes bs (a\<lparr>av_riff_size_offset := n\<rparr>) = (write_bytes bs a)\<lparr>av_riff_size_offset := n\<rparr>"
  "write_bytes bs (a\<lparr>av_avih_max_bytes_offset := n\<rparr>) = (write_bytes bs a)\<lparr>av_avih_max_bytes_offset := n\<rparr>"
  "write_bytes bs (a\<lparr>av_avih_frames_offset := n\<rparr>) = (write_bytes bs a)\<lparr>av_avih_frames_offset := n\<rparr>"
  "write_bytes bs (a\<lparr>av_avih_buffer_offset := n\<rparr>) = (write_bytes bs a)\<lparr>av_avih_buffer_offset := n\<rparr>"
  "write_bytes bs (a\<lparr>av_strh_length_offset := n\<rparr>) = (write_bytes bs a)\<lparr>av_strh_length_offset := n\<rparr>"
  "write_bytes bs (a\<lparr>av_strh_buffer_offset := n\<rparr>) = (write_bytes bs a)\<lparr>av_strh_buffer_offset := n\<rparr>"
  "write_bytes bs (a\<lparr>av_movi_size_offset := n\<rparr>) = (write_bytes bs a)\<lparr>av_movi_size_offset := n\<rparr>"
  "write_bytes bs (a\<lparr>av_movi_base := n\<rparr>) = (write_bytes bs a)\<lparr>av_movi_base := n\<rparr>"
  by (simp_all add: write_bytes_def)

lemma patch_update [writes]:
  "patch_u32 off x (a\<lparr>av_riff_size_offset := n\<rparr>) = (patch_u32 off x a)\<lparr>av_riff_size_offset := n\<rparr>"
  "patch_u32 off x (a\<lparr>av_avih_max_bytes_offset := n\<rparr>) = (patch_u32 off x a)\<lparr>av_avih_max_bytes_offset := n\<rparr>"
  "patch_u32 off x (a\<lparr>av_avih_frames_offset := n\<rparr>) = (patch_u32 off x a)\<lparr>av_avih_frames_offset := n\<rparr>"
  "patch_u32 off x (a\<lparr>av_avih_buffer_offset := n\<rparr>) = (patch_u32 off x a)\<lparr>av_avih_buffer_offset := n\<rparr>"
  "patch_u32 off x (a\<lparr>av_strh_length_offset := n\<rparr>) = (patch_u32 off x a)\<lparr>av_strh_length_offset := n\<rparr>"
  "patch_u32 off x (a\<lparr>av_strh_buffer_offset := n\<rparr>) = (patch_u32 off x a)\<lparr>av_strh_buffer_offset := n\<rparr>"
  by (simp_all add: patch_u32_def)

lemma at_end_update [writes]:
  "at_end (a\<lparr>av_riff_size_offset := n\<rparr>) = at_end a" "at_end (a\<lparr>av_avih_max_bytes_offset := n\<rparr>) = at_end a"
  "at_end (a\<lparr>av_avih_frames_offset := n\<rparr>) = at_end a" "at_end (a\<lparr>av_avih_buffer_offset := n\<rparr>) = at_end a"
  "at_end (a\<lparr>av_strh_length_offset := n\<rparr>) = at_end a" "at_end (a\<lparr>av_strh_buffer_offset := n\<rparr>) = at_end a"
  "at_end (a\<lparr>av_movi_size_offset := n\<rparr>) = at_end a" "at_end (a\<lparr>av_movi_base := n\<rparr>) = at_end a"
  by (simp_all add: at_end_def)

text \<open>A patch inside the last write changes only the four bytes at its place.\<close>

lemma patch_write:
  assumes "at_end a" "off = av_pos a + length p"
  shows "patch_u32 off x (write_bytes (p @ le32 y @ q) a) = write_bytes (p @ le32 x @ q) a"
  using assms by (simp add: write_bytes_at_end patch_u32_def write_all_def seek_def Let_def at_end_def)

lemma write_avih_bytes [writes]:
  assumes "at_end a"
  shows "write_avih a = (write_bytes (riff_chunk ''avih''
      (u32s [1000000 div av_fps a, 0, 0, AVIF_HASINDEX, 0, 0, 1, 0, av_width a, av_height a, 0, 0, 0, 0])) a)
    \<lparr>av_avih_max_bytes_offset := av_pos a + 12, av_avih_frames_offset := av_pos a + 24,
     av_avih_buffer_offset := av_pos a + 36\<rparr>"
proof -
  have "riff_chunk ''avih'' (u32s (x # xs)) = (ascii ''avih'' @ le32 AVIHEADER_AVIH_SIZE) @ u32s (x # xs)"
    if "length xs = 13" for x xs
    using that by (simp add: riff_chunk_def avi_constants as_u32_def)
  then show ?thesis
    using assms by (simp add: write_avih_def Let_def writes write_u32_def del: fold.simps fold_simps)
qed

text \<open>The headers as they are first written, and the writer's place in the file after them.\<close>

lemma write_strh_bytes [writes]:
  assumes "at_end a"
  shows "write_strh a = (write_bytes (riff_chunk ''strh''
      (ascii ''vidsMJPG'' @ le32 0 @ le16 0 @ le16 0 @ u32s [0, 1, av_fps a, 0, 0, 0, AVI_DEFAULT_QUALITY, 0] @
       le16 0 @ le16 0 @ le16 (ucast (av_width a)) @ le16 (ucast (av_height a)))) a)
    \<lparr>av_strh_length_offset := av_pos a + 40, av_strh_buffer_offset := av_pos a + 44\<rparr>"
proof -
  let ?body = "le32 0 @ le16 0 @ le16 0 @ u32s [0, 1, av_fps a, 0, 0, 0, AVI_DEFAULT_QUALITY, 0] @
       le16 0 @ le16 0 @ le16 (ucast (av_width a)) @ le16 (ucast (av_height a))"
  have "write_strh a = (write_bytes (ascii ''strh'' @ le32 AVISTREAMHEADER_SIZE @ ascii ''vids'' @ ascii ''MJPG'' @ ?body) a)
    \<lparr>av_strh_length_offset := av_pos a + 40, av_strh_buffer_offset := av_pos a + 44\<rparr>"
    using assms by (simp add: write_strh_def Let_def writes write_u32_def write_u16_def del: fold.simps fold_simps)
  moreover have "ascii ''strh'' @ le32 AVISTREAMHEADER_SIZE @ ascii ''vids'' @ ascii ''MJPG'' @ ?body =
      riff_chunk ''strh'' (ascii ''vidsMJPG'' @ ?body)"
    by (simp add: riff_chunk_def as_u32_def avi_constants) (simp add: ascii_def)
  ultimately show ?thesis by simp
qed

lemma write_strf_bytes [writes]:
  assumes "at_end a"
  shows "write_strf a = write_bytes (riff_chunk ''strf''
      (u32s [BITMAPINFOHEADER_SIZE, av_width a, av_height a] @ le16 1 @ le16 24 @ ascii ''MJPG'' @
       u32s [as_u32 (min (unat (av_width a) * unat (av_height a) * 3) 4294967295), 0, 0, 0, 0])) a"
proof -
  let ?body = "u32s [BITMAPINFOHEADER_SIZE, av_width a, av_height a] @ le16 1 @ le16 24 @ ascii ''MJPG'' @
       u32s [as_u32 (min (unat (av_width a) * unat (av_height a) * 3) 4294967295), 0, 0, 0, 0]"
  have "write_strf a = write_bytes (ascii ''strf'' @ le32 BITMAPINFOHEADER_SIZE @ ?body) a"
    using assms by (simp add: write_strf_def Let_def writes write_u32_def write_u16_def del: fold.simps fold_simps)
  moreover have "ascii ''strf'' @ le32 BITMAPINFOHEADER_SIZE @ ?body = riff_chunk ''strf'' ?body"
    by (simp add: riff_chunk_def as_u32_def avi_constants)
  ultimately show ?thesis by simp
qed

lemma length_riff_chunk: "length (riff_chunk name body) = length name + 4 + length body + length body mod 2"
  by (auto simp: riff_chunk_def)

lemma length_riff_list [simp]: "length (riff_list name kind body) = length name + 4 + length kind + length body"
  by (simp add: riff_list_def)

abbreviation strh_chunk :: "u32 \<Rightarrow> u32 \<Rightarrow> u32 \<Rightarrow> u32 \<Rightarrow> u32 \<Rightarrow> u8 list" where
  "strh_chunk w h fps frames largest \<equiv> riff_chunk ''strh''
     (ascii ''vidsMJPG'' @ le32 0 @ le16 0 @ le16 0 @ u32s [0, 1, fps, 0, frames, largest, AVI_DEFAULT_QUALITY, 0] @
      le16 0 @ le16 0 @ le16 (ucast w) @ le16 (ucast h))"

abbreviation strf_chunk :: "u32 \<Rightarrow> u32 \<Rightarrow> u8 list" where
  "strf_chunk w h \<equiv> riff_chunk ''strf''
     (u32s [BITMAPINFOHEADER_SIZE, w, h] @ le16 1 @ le16 24 @ ascii ''MJPG'' @
      u32s [as_u32 (min (unat w * unat h * 3) 4294967295), 0, 0, 0, 0])"

abbreviation avih_chunk :: "u32 \<Rightarrow> u32 \<Rightarrow> u32 \<Rightarrow> u32 \<Rightarrow> u32 \<Rightarrow> u32 \<Rightarrow> u8 list" where
  "avih_chunk w h fps frames rate largest \<equiv> riff_chunk ''avih''
     (u32s [1000000 div fps, rate, 0, AVIF_HASINDEX, frames, 0, 1, largest, w, h, 0, 0, 0, 0])"

lemma chunk_lengths:
  "length (strh_chunk w h fps frames largest) = 64" "length (strf_chunk w h) = 48"
  "length (avih_chunk w h fps frames rate largest) = 64"
  by (simp_all add: length_riff_chunk)

lemma four: "Suc (Suc (Suc (Suc n))) = n + 4"
  by simp

lemma write_strl_bytes [writes]:
  assumes "at_end a"
  shows "write_strl a = (write_bytes (riff_list ''LIST'' ''strl''
      (strh_chunk (av_width a) (av_height a) (av_fps a) 0 0 @ strf_chunk (av_width a) (av_height a))) a)
    \<lparr>av_strh_length_offset := av_pos a + 52, av_strh_buffer_offset := av_pos a + 56\<rparr>"
proof -
  let ?body = "strh_chunk (av_width a) (av_height a) (av_fps a) 0 0 @ strf_chunk (av_width a) (av_height a)"
  define a1 where "a1 = write_bytes (ascii ''LIST'' @ le32 0 @ ascii ''strl'' @ ?body) a"
  have "write_strf (write_strh (write_bytes (ascii ''strl'') (write_u32 0 (write_bytes (ascii ''LIST'') a)))) =
      a1\<lparr>av_strh_length_offset := av_pos a + 52, av_strh_buffer_offset := av_pos a + 56\<rparr>"
    using assms by (simp add: writes write_u32_def a1_def del: fold.simps fold_simps)
  moreover have "av_pos a1 = av_pos a + 124" by (simp add: a1_def write_sel chunk_lengths)
  moreover have "patch_u32 (av_pos a + 4) (as_u32 116) a1 = write_bytes (riff_list ''LIST'' ''strl'' ?body) a"
    using patch_write[OF assms, of "av_pos a + 4" "ascii ''LIST''"] by (simp add: a1_def riff_list_def chunk_lengths)
  ultimately show ?thesis by (simp add: write_strl_def Let_def writes four)
qed

lemma write_hdrl_bytes [writes]:
  assumes "at_end a"
  shows "write_hdrl a = (write_bytes (header_list (av_width a) (av_height a) (av_fps a) 0 0 0) a)
    \<lparr>av_avih_max_bytes_offset := av_pos a + 24, av_avih_frames_offset := av_pos a + 36,
     av_avih_buffer_offset := av_pos a + 48, av_strh_length_offset := av_pos a + 128,
     av_strh_buffer_offset := av_pos a + 132\<rparr>"
proof -
  let ?body = "avih_chunk (av_width a) (av_height a) (av_fps a) 0 0 0 @ riff_list ''LIST'' ''strl''
      (strh_chunk (av_width a) (av_height a) (av_fps a) 0 0 @ strf_chunk (av_width a) (av_height a))"
  define a1 where "a1 = write_bytes (ascii ''LIST'' @ le32 0 @ ascii ''hdrl'' @ ?body) a"
  have "write_strl (write_avih (write_bytes (ascii ''hdrl'') (write_u32 0 (write_bytes (ascii ''LIST'') a)))) =
      a1\<lparr>av_avih_max_bytes_offset := av_pos a + 24, av_avih_frames_offset := av_pos a + 36,
     av_avih_buffer_offset := av_pos a + 48, av_strh_length_offset := av_pos a + 128,
     av_strh_buffer_offset := av_pos a + 132\<rparr>"
    using assms by (simp add: writes write_u32_def a1_def chunk_lengths del: fold.simps fold_simps)
  moreover have "av_pos a1 = av_pos a + 200" by (simp add: a1_def write_sel chunk_lengths)
  moreover have "patch_u32 (av_pos a + 4) (as_u32 192) a1 =
      write_bytes (header_list (av_width a) (av_height a) (av_fps a) 0 0 0) a"
    using patch_write[OF assms, of "av_pos a + 4" "ascii ''LIST''"]
    by (simp add: a1_def header_list_def riff_list_def[of "''LIST''" "''hdrl''"] chunk_lengths)
  ultimately show ?thesis by (simp add: write_hdrl_def Let_def writes four)
qed

lemma length_header_list: "length (header_list w h fps frames rate largest) = 200"
  by (simp add: header_list_def chunk_lengths)

lemma write_header_bytes:
  assumes "at_end a" "av_pos a = 0"
  shows "write_header a = (write_bytes (ascii ''RIFF'' @ le32 0 @ ascii ''AVI '' @
      header_list (av_width a) (av_height a) (av_fps a) 0 0 0 @ ascii ''LIST'' @ le32 0 @ ascii ''movi'') a)
    \<lparr>av_riff_size_offset := 4, av_avih_max_bytes_offset := 36,
      av_avih_frames_offset := 48, av_avih_buffer_offset := 60, av_strh_length_offset := 140,
      av_strh_buffer_offset := 144, av_movi_size_offset := 216, av_movi_base := 220\<rparr>"
  using assms by (simp add: write_header_def Let_def writes write_u32_def length_header_list)


text \<open>The bytes before the frames, each field that is patched at the end on its own.\<close>

definition file_head ::
  "u32 \<Rightarrow> u32 \<Rightarrow> u32 \<Rightarrow> u32 \<Rightarrow> u32 \<Rightarrow> u32 \<Rightarrow> u32 \<Rightarrow> u32 \<Rightarrow> u32 \<Rightarrow> u32 \<Rightarrow> u8 list" where
  "file_head w h fps riff rate frames largest frames' largest' movi =
     ascii ''RIFF'' @ le32 riff @ ascii ''AVI '' @
     riff_list ''LIST'' ''hdrl'' (avih_chunk w h fps frames rate largest @
       riff_list ''LIST'' ''strl'' (strh_chunk w h fps frames' largest' @ strf_chunk w h)) @
     ascii ''LIST'' @ le32 movi"

lemma file_head_header:
  "file_head w h fps riff rate frames largest frames largest movi =
     ascii ''RIFF'' @ le32 riff @ ascii ''AVI '' @ header_list w h fps frames rate largest @ ascii ''LIST'' @ le32 movi"
  by (simp add: file_head_def header_list_def)

lemma length_file_head: "length (file_head w h fps riff rate frames largest frames' largest' movi) = 220"
  by (simp add: file_head_def chunk_lengths)

definition patched :: "nat \<Rightarrow> u32 \<Rightarrow> u8 list \<Rightarrow> u8 list" where
  "patched off x d = take off d @ le32 x @ drop (off + 4) d"

lemma patched_append: "off + 4 \<le> length d \<Longrightarrow> patched off x (d @ s) = patched off x d @ s"
  by (simp add: patched_def)

lemma patched_at: "off = length p \<Longrightarrow> patched off x (p @ le32 y @ s) = p @ le32 x @ s"
  by (simp add: patched_def)

lemma patch_head:
  "patched 4 x (file_head w h fps riff rate frames largest frames' largest' movi @ s) =
     file_head w h fps x rate frames largest frames' largest' movi @ s"
  "patched 36 x (file_head w h fps riff rate frames largest frames' largest' movi @ s) =
     file_head w h fps riff x frames largest frames' largest' movi @ s"
  "patched 48 x (file_head w h fps riff rate frames largest frames' largest' movi @ s) =
     file_head w h fps riff rate x largest frames' largest' movi @ s"
  "patched 60 x (file_head w h fps riff rate frames largest frames' largest' movi @ s) =
     file_head w h fps riff rate frames x frames' largest' movi @ s"
  "patched 140 x (file_head w h fps riff rate frames largest frames' largest' movi @ s) =
     file_head w h fps riff rate frames largest x largest' movi @ s"
  "patched 144 x (file_head w h fps riff rate frames largest frames' largest' movi @ s) =
     file_head w h fps riff rate frames largest frames' x movi @ s"
  "patched 216 x (file_head w h fps riff rate frames largest frames' largest' movi @ s) =
     file_head w h fps riff rate frames largest frames' largest' x @ s"
  by (simp_all add: file_head_def patched_def riff_list_def riff_chunk_def u32s_def)

lemma patch_data:
  assumes "at_end a" "off + 4 \<le> av_pos a"
  shows "av_data (patch_u32 off x a) = patched off x (av_data a)" "at_end (patch_u32 off x a)"
  using assms by (simp_all add: patch_u32_def write_all_def seek_def at_end_def patched_def Let_def)

lemma patch_sel [simp]:
  "av_pos (patch_u32 off x a) = av_pos a" "av_frames (patch_u32 off x a) = av_frames a"
  "av_fps (patch_u32 off x a) = av_fps a" "av_index (patch_u32 off x a) = av_index a"
  "av_max_frame_bytes (patch_u32 off x a) = av_max_frame_bytes a"
  "av_riff_size_offset (patch_u32 off x a) = av_riff_size_offset a"
  "av_avih_max_bytes_offset (patch_u32 off x a) = av_avih_max_bytes_offset a"
  "av_avih_frames_offset (patch_u32 off x a) = av_avih_frames_offset a"
  "av_avih_buffer_offset (patch_u32 off x a) = av_avih_buffer_offset a"
  "av_strh_length_offset (patch_u32 off x a) = av_strh_length_offset a"
  "av_strh_buffer_offset (patch_u32 off x a) = av_strh_buffer_offset a"
  "av_finished (patch_u32 off x a) = av_finished a"
  by (simp_all add: patch_u32_def)

lemma write_data: "at_end a \<Longrightarrow> av_data (write_bytes bs a) = av_data a @ bs"
  by (simp add: write_bytes_at_end)

lemma write_u32_index: "av_index (write_u32 x a) = av_index a"
  by (simp add: write_u32_def write_sel)

text \<open>A writer that has been given a list of frames.\<close>

definition places :: "AviWriter \<Rightarrow> bool" where
  "places a \<longleftrightarrow> av_riff_size_offset a = 4 \<and> av_avih_max_bytes_offset a = 36 \<and> av_avih_frames_offset a = 48 \<and>
     av_avih_buffer_offset a = 60 \<and> av_strh_length_offset a = 140 \<and> av_strh_buffer_offset a = 144 \<and>
     av_movi_size_offset a = 216 \<and> av_movi_base a = 220"

definition chunks :: "u8 list list \<Rightarrow> u8 list" where
  "chunks ds = concat (map (riff_chunk ''00dc'') ds)"

definition recorded :: "u32 \<Rightarrow> u32 \<Rightarrow> u32 \<Rightarrow> u8 list list \<Rightarrow> AviWriter \<Rightarrow> bool" where
  "recorded w h fps ds a \<longleftrightarrow>
     at_end a \<and> av_data a = file_head w h fps 0 0 0 0 0 0 0 @ ascii ''movi'' @ chunks ds \<and>
     av_fps a = fps \<and> av_frames a = length ds \<and> av_max_frame_bytes a = largest_frame ds \<and>
     av_index a = frame_index 4 ds \<and> places a \<and> \<not> av_finished a"

lemma recorded_pos: "recorded w h fps ds a \<Longrightarrow> av_pos a = 224 + length (chunks ds)"
  by (auto simp: recorded_def at_end_def length_file_head)

lemma new_recorded:
  assumes "AviWriter_new \<lparr>sk_data = [], sk_cursor = 0\<rparr> w h fps = Inr a"
  shows "recorded w h fps [] a"
  using assms
  by (auto simp: AviWriter_new_def recorded_def write_header_bytes at_end_def write_data writes places_def chunks_def
      largest_frame_def file_head_header write_bytes_def write_all_def Let_def length_header_list split: if_splits)

lemma frame_index_snoc: "frame_index off (ds @ [d]) =
    frame_index off ds @ [\<lparr>ie_offset = as_u32 (off + length (chunks ds)), ie_length = as_u32 (length d)\<rparr>]"
  by (induction ds arbitrary: off) (simp_all add: chunks_def add.assoc)

lemma write_frame_bytes:
  assumes "at_end a"
  shows "write_frame d a = (write_bytes (riff_chunk ''00dc'' d) a)
    \<lparr>av_index := av_index a @ [\<lparr>ie_offset = as_u32 (av_pos a - av_movi_base a), ie_length = as_u32 (length d)\<rparr>],
     av_frames := av_frames a + 1, av_max_frame_bytes := max (av_max_frame_bytes a) (as_u32 (length d))\<rparr>"
  using assms by (simp add: write_frame_def Let_def write_u32_def writes riff_chunk_def)

lemma write_frame_recorded:
  assumes "recorded w h fps ds a"
  shows "recorded w h fps (ds @ [d]) (write_frame d a)"
proof -
  have e: "at_end a" using assms by (simp add: recorded_def)
  have "at_end (write_frame d a)"
    using e by (simp add: write_frame_bytes write_bytes_at_end del: at_end_write) (simp add: at_end_def)
  then show ?thesis
    using assms recorded_pos[OF assms]
    by (simp add: recorded_def write_frame_bytes writes write_data chunks_def[of "ds @ [d]"] chunks_def[symmetric]
        largest_frame_def frame_index_snoc places_def)
qed

lemma write_frames_recorded:
  "recorded w h fps ds a \<Longrightarrow> recorded w h fps (ds @ fs) (fold write_frame fs a)"
proof (induction fs arbitrary: ds a)
  case (Cons f fs)
  from Cons.IH[OF write_frame_recorded[OF Cons.prems], of f] show ?case by simp
qed simp

lemma write_index_bytes:
  "at_end a \<Longrightarrow> fold write_index_entry es a = write_bytes (concat (map index_bytes es)) a"
proof (induction es arbitrary: a)
  case (Cons e es)
  have "write_index_entry e a = write_bytes (index_bytes e) a"
    using Cons.prems by (simp add: write_index_entry_def index_bytes_def writes del: fold.simps fold_simps)
  with Cons show ?case by (simp add: writes)
qed (simp add: write_nothing)

lemma length_index_bytes: "length (concat (map index_bytes es)) = length es * 16"
  by (induction es) (simp_all add: index_bytes_def)

lemma length_frame_index [simp]: "length (frame_index off ds) = length ds"
  by (induction ds arbitrary: off) simp_all

lemma finish_recorded:
  assumes "recorded w h fps ds a"
  shows "av_data (avi_finish a) = avi_file w h fps ds" "av_finished (avi_finish a)"
proof -
  let ?ix = "concat (map index_bytes (frame_index 4 ds))"
  have r: "at_end a" "av_data a = file_head w h fps 0 0 0 0 0 0 0 @ ascii ''movi'' @ chunks ds" "av_fps a = fps"
    "av_frames a = length ds" "av_max_frame_bytes a = largest_frame ds" "av_index a = frame_index 4 ds" "places a"
    "\<not> av_finished a" using assms by (simp_all add: recorded_def)
  note pos = recorded_pos[OF assms]
  define a1 where "a1 = patch_u32 216 (as_u32 (4 + length (chunks ds))) (a\<lparr>av_finished := True\<rparr>)"
  have a0: "at_end (a\<lparr>av_finished := True\<rparr>)" using r(1) by (simp add: at_end_def)
  have a1: "at_end a1" "av_pos a1 = 224 + length (chunks ds)"
    "av_data a1 = file_head w h fps 0 0 0 0 0 0 (as_u32 (4 + length (chunks ds))) @ ascii ''movi'' @ chunks ds"
    using patch_data[OF a0, of 216] pos r(2) by (simp_all add: a1_def patch_head)
  define a2 where "a2 = write_bytes (riff_chunk ''idx1'' ?ix) a1"
  have even: "riff_chunk ''idx1'' ?ix = ascii ''idx1'' @ le32 (as_u32 (length ds * 16)) @ ?ix"
    by (simp add: riff_chunk_def length_index_bytes)
  have a2: "at_end a2" "av_pos a2 = 232 + length (chunks ds) + length ds * 16" "av_fps a2 = fps" "av_frames a2 = length ds"
    "av_max_frame_bytes a2 = largest_frame ds" "places a2" "av_finished a2"
    "av_data a2 = file_head w h fps 0 0 0 0 0 0 (as_u32 (4 + length (chunks ds))) @ ascii ''movi'' @ chunks ds @ riff_chunk ''idx1'' ?ix"
    using a1 r pos
    by (simp_all add: a2_def write_sel write_data even length_index_bytes places_def)
      (simp_all add: a1_def places_def patch_u32_def)
  let ?rate = "saturating_mul (saturating_add (largest_frame ds) 8) fps"
  define a3 where "a3 = patch_u32 144 (largest_frame ds) (patch_u32 140 (as_u32 (length ds)) (patch_u32 60 (largest_frame ds)
    (patch_u32 36 ?rate (patch_u32 48 (as_u32 (length ds)) a2))))"
  have "avi_finish a = patch_u32 4 (as_u32 (av_pos a2 - 8)) a3"
  proof -
    have "fold write_index_entry (frame_index 4 ds) (write_u32 (as_u32 (length ds * 16)) (write_bytes (ascii ''idx1'') a1)) = a2"
      using a1(1) by (simp add: write_index_bytes write_u32_def writes a2_def even)
    then show ?thesis
      using r(3-8) a2 pos unfolding a3_def
      by (simp add: avi_finish_def Let_def places_def a1_def write_u32_index write_sel)
  qed
  moreover have "at_end a3" "av_pos a3 = av_pos a2" "av_finished a3"
    "av_data a3 = file_head w h fps 0 ?rate (as_u32 (length ds)) (largest_frame ds) (as_u32 (length ds)) (largest_frame ds)
       (as_u32 (4 + length (chunks ds))) @ ascii ''movi'' @ chunks ds @ riff_chunk ''idx1'' ?ix"
    using a2 by (simp_all add: a3_def patch_data patch_head)
  ultimately show "av_data (avi_finish a) = avi_file w h fps ds" "av_finished (avi_finish a)"
    using a2(2) patched_at[of 4 "ascii ''RIFF''"]
    by (simp_all add: four patch_data patch_head file_head_header avi_file_def riff_list_def[of "''LIST''" "''movi''"]
        riff_list_def[of "''RIFF''"] chunks_def[symmetric] length_header_list length_riff_chunk length_index_bytes algebra_simps)
qed


section \<open>Reading the file back\<close>

text \<open>A little-endian number of a file, and the frames its index names: the index follows the list of
  chunks, which follows the list of headers.\<close>

definition le32_at :: "u8 list \<Rightarrow> nat \<Rightarrow> nat" where
  "le32_at d off = foldr (\<lambda>b n. unat b + 256 * n) (take 4 (drop off d)) 0"

definition avi_frames :: "u8 list \<Rightarrow> u8 list list" where
  "avi_frames d =
     (let movi = 12 + 8 + le32_at d 16 + 8; idx1 = movi + le32_at d (movi - 4)
      in map (\<lambda>i. let entry = idx1 + 8 + 16 * i
                  in take (le32_at d (entry + 12)) (drop (movi + le32_at d (entry + 8) + 8) d))
           [0..<le32_at d (idx1 + 4) div 16])"

lemma le32_value: "foldr (\<lambda>b n. unat b + 256 * n) (le32 x) 0 = unat x"
proof -
  have byte: "unat (word_of_nat n :: u8) = n mod 256" for n by (simp add: unat_of_nat)
  have "n mod 256 + 256 * (n div 256 mod 256 + 256 * (n div 65536 mod 256 + 256 * (n div 16777216 mod 256))) = n"
    if "n < 4294967296" for n :: nat
  proof -
    have "n div 65536 = n div 256 div 256" "n div 16777216 = n div 256 div 256 div 256"
      by (simp_all add: div_mult2_eq[symmetric])
    moreover have "n div 16777216 < 256" using that by (simp add: less_mult_imp_div_less)
    ultimately show ?thesis by simp
  qed
  moreover have "unat (ucast x :: u8) = unat x mod 256" using byte[of "unat x"] by simp
  ultimately show ?thesis using unat_lt2p_len[of x] by (simp add: le32_def byte)
qed

lemma le32_at_append: "off = length p \<Longrightarrow> le32_at (p @ le32 x @ s) off = unat x"
  by (simp add: le32_at_def le32_value)

lemma unat_as_u32: "n < 2 ^ 32 \<Longrightarrow> unat (as_u32 n) = n"
  by (simp add: as_u32_def unat_of_nat)

lemma frame_index_nth: "i < length ds \<Longrightarrow> frame_index off ds ! i =
    \<lparr>ie_offset = as_u32 (off + length (chunks (take i ds))), ie_length = as_u32 (length (ds ! i))\<rparr>"
proof (induction ds arbitrary: off i)
  case (Cons d ds)
  then show ?case by (cases i) (simp_all add: chunks_def add.assoc)
qed simp

lemma chunks_split: "i < length ds \<Longrightarrow>
    chunks ds = chunks (take i ds) @ ascii ''00dc'' @ le32 (as_u32 (length (ds ! i))) @ ds ! i @
      (if length (ds ! i) mod 2 = 1 then [0] else []) @ chunks (drop (Suc i) ds)"
  by (subst id_take_nth_drop[of i ds]) (simp_all add: chunks_def riff_chunk_def)

lemma index_split: "i < length es \<Longrightarrow>
    concat (map index_bytes es) = concat (map index_bytes (take i es)) @ index_bytes (es ! i) @
      concat (map index_bytes (drop (Suc i) es))"
  by (subst id_take_nth_drop[of i es]) simp_all


lemma length_avi_file: "length (avi_file w h fps ds) = 232 + length (chunks ds) + 16 * length ds"
  by (simp add: avi_file_def length_header_list chunks_def[symmetric] length_riff_chunk length_index_bytes)

text \<open>The finished file cut at its parts, and at one frame and its index entry.\<close>

lemma le32_at_part: "d = p @ le32 x @ s \<Longrightarrow> off = length p \<Longrightarrow> le32_at d off = unat x"
  by (simp add: le32_at_append)

lemma drop_part: "d = p @ s \<Longrightarrow> n = length p \<Longrightarrow> drop n d = s"
  by simp

abbreviation padding :: "u8 list \<Rightarrow> u8 list" where
  "padding d \<equiv> if length d mod 2 = 1 then [0] else []"

lemma avi_file_parts:
  obtains head where "length head = 216" "le32_at (head @ s) 16 = 192"
    "avi_file w h fps ds = head @ le32 (as_u32 (4 + length (chunks ds))) @ ascii ''movi'' @ chunks ds @ ascii ''idx1'' @
       le32 (as_u32 (length ds * 16)) @ concat (map index_bytes (frame_index 4 ds))"
proof -
  define head where "head = ascii ''RIFF'' @ le32 (as_u32 (length (chunks ds) + (length ds * 16 + 224))) @ ascii ''AVI '' @
    header_list w h fps (as_u32 (length ds)) (saturating_mul (saturating_add (largest_frame ds) 8) fps) (largest_frame ds) @
    ascii ''LIST''"
  have "length head = 216" by (simp add: head_def length_header_list)
  moreover have "\<exists>t. head @ s = (ascii ''RIFF'' @ le32 (as_u32 (length (chunks ds) + (length ds * 16 + 224))) @ ascii ''AVI '' @
      ascii ''LIST'') @ le32 (as_u32 192) @ t"
    by (simp add: head_def header_list_def riff_list_def[of "''LIST''" "''hdrl''"] chunk_lengths)
  then have "le32_at (head @ s) 16 = 192"
    by (elim exE) (subst le32_at_part, assumption, simp, simp add: unat_as_u32)
  moreover have "avi_file w h fps ds = head @ le32 (as_u32 (4 + length (chunks ds))) @ ascii ''movi'' @ chunks ds @ ascii ''idx1'' @
       le32 (as_u32 (length ds * 16)) @ concat (map index_bytes (frame_index 4 ds))"
    by (simp add: head_def avi_file_def riff_list_def[of "''LIST''" "''movi''"] riff_list_def[of "''RIFF''"]
        chunks_def[symmetric] length_header_list length_riff_chunk length_index_bytes riff_chunk_def algebra_simps four)
  ultimately show ?thesis by (rule that)
qed

lemma frame_in_file:
  assumes f: "d = head @ le32 m @ ascii ''movi'' @ chunks ds @ ascii ''idx1'' @ le32 k @ concat (map index_bytes (frame_index 4 ds))"
    and head: "length head = 216" and small: "length d < 2 ^ 32" and i: "i < length ds"
  shows "le32_at d (224 + length (chunks ds) + 8 + 16 * i + 8) = 4 + length (chunks (take i ds))"
    and "le32_at d (224 + length (chunks ds) + 8 + 16 * i + 12) = length (ds ! i)"
    and "take (length (ds ! i)) (drop (220 + (4 + length (chunks (take i ds))) + 8) d) = ds ! i"
proof -
  let ?pre = "chunks (take i ds)" and ?x = "ds ! i" and ?es = "frame_index 4 ds"
  note c = chunks_split[OF i]
  have fits: "length ?pre + 8 + length ?x \<le> length (chunks ds)" using arg_cong[OF c, of length] by simp
  moreover have "length (chunks ds) + 232 \<le> length d" using arg_cong[OF f, of length] head by simp
  ultimately have small': "4 + length ?pre < 2 ^ 32" "length ?x < 2 ^ 32" using small by simp_all
  have entry: "index_bytes (?es ! i) = ascii ''00dc'' @ le32 AVIIF_KEYFRAME @ le32 (as_u32 (4 + length ?pre)) @ le32 (as_u32 (length ?x))"
    using i by (simp add: index_bytes_def frame_index_nth u32s_def)
  let ?before = "head @ le32 m @ ascii ''movi'' @ chunks ds @ ascii ''idx1'' @ le32 k @ concat (map index_bytes (take i ?es)) @
    ascii ''00dc'' @ le32 AVIIF_KEYFRAME"
  have cut: "d = ?before @ le32 (as_u32 (4 + length ?pre)) @ le32 (as_u32 (length ?x)) @ concat (map index_bytes (drop (Suc i) ?es))"
    unfolding f by (subst index_split[of i ?es]) (simp_all add: i entry)
  have before: "length ?before = 224 + length (chunks ds) + 8 + 16 * i + 8" using i by (simp add: head length_index_bytes)
  show "le32_at d (224 + length (chunks ds) + 8 + 16 * i + 8) = 4 + length ?pre"
    using le32_at_part[OF cut before[symmetric]] small'(1) by (simp add: unat_as_u32)
  have cut': "d = (?before @ le32 (as_u32 (4 + length ?pre))) @ le32 (as_u32 (length ?x)) @ concat (map index_bytes (drop (Suc i) ?es))"
    using cut by simp
  show "le32_at d (224 + length (chunks ds) + 8 + 16 * i + 12) = length ?x"
    using le32_at_part[OF cut', of "224 + length (chunks ds) + 8 + 16 * i + 12"] before small'(2) by (simp add: unat_as_u32)
  have "d = (head @ le32 m @ ascii ''movi'' @ ?pre @ ascii ''00dc'' @ le32 (as_u32 (length ?x))) @
      ?x @ padding ?x @ chunks (drop (Suc i) ds) @ ascii ''idx1'' @ le32 k @ concat (map index_bytes ?es)"
    unfolding f by (subst c) simp
  from drop_part[OF this, of "220 + (4 + length ?pre) + 8"]
  show "take (length ?x) (drop (220 + (4 + length ?pre) + 8) d) = ?x" by (simp add: head)
qed

lemma avi_file_frames:
  assumes "length (avi_file w h fps ds) < 2 ^ 32"
  shows "avi_frames (avi_file w h fps ds) = ds"
proof -
  define d where "d = avi_file w h fps ds"
  obtain head where head: "length head = 216" and f: "d = head @ le32 (as_u32 (4 + length (chunks ds))) @ ascii ''movi'' @
      chunks ds @ ascii ''idx1'' @ le32 (as_u32 (length ds * 16)) @ concat (map index_bytes (frame_index 4 ds))"
    and "le32_at (head @ drop 216 d) 16 = 192"
    unfolding d_def by (rule avi_file_parts)
  then have "le32_at d 16 = 192" by simp
  moreover have small: "232 + length (chunks ds) + 16 * length ds < 2 ^ 32" using assms by (simp add: length_avi_file)
  have "le32_at d 216 = 4 + length (chunks ds)"
    using le32_at_part[OF f, of 216] head small by (simp add: unat_as_u32)
  moreover have "d = (head @ le32 (as_u32 (4 + length (chunks ds))) @ ascii ''movi'' @ chunks ds @ ascii ''idx1'') @
      le32 (as_u32 (length ds * 16)) @ concat (map index_bytes (frame_index 4 ds))" by (simp add: f)
  from le32_at_part[OF this, of "228 + length (chunks ds)"] have "le32_at d (228 + length (chunks ds)) = length ds * 16"
    using head small by (simp add: unat_as_u32)
  ultimately have "avi_frames d = map (\<lambda>i. take (le32_at d (224 + length (chunks ds) + 8 + 16 * i + 12))
      (drop (220 + le32_at d (224 + length (chunks ds) + 8 + 16 * i + 8) + 8) d)) [0..<length ds]"
    by (simp add: avi_frames_def Let_def algebra_simps)
  also have "\<dots> = map (\<lambda>i. ds ! i) [0..<length ds]"
    using frame_in_file[OF f head] assms by (intro map_cong) (simp_all add: d_def)
  finally show ?thesis by (simp add: d_def map_nth)
qed

end
