(* ===== verification/Recorder.thy ===== *)
theory Recorder
  imports Recorder_Avi Core_Image Rust_Text
begin

text \<open>
  The screen recorder (\<open>crates/adesk-recorder\<close>): the Motion-JPEG and the ffmpeg backend behind the
  \<open>Encoder\<close> trait, the recorder over a backend and the session that runs it on a thread of its own. An
  operation that can fail after it has changed its object returns the object beside its result. The JPEG
  encoder and the ffmpeg process are parameters; I/O errors of the AVI file are not modelled.
\<close>

section \<open>Frames as rows\<close>

text \<open>The checks of both backends make every range lie inside the data (lemma \<open>rows_in_range\<close> below), so no
  slice of these loops panics; the products fit in a \<open>usize\<close>.\<close>

definition frame_rows :: "ImageBuffer \<Rightarrow> RecorderError + u8 list list" where
  "frame_rows m =
     (let row_bytes = unat (ib_width m) * 4; stride = unat (ib_stride m); needed = stride * unat (ib_height m)
      in if stride < row_bytes
         then Inl (RcEncode (''stride '' @ decimal stride @ '' is smaller than the '' @ decimal row_bytes @ ''-byte row''))
         else if length (ib_data m) < needed
         then Inl (RcEncode (''image data ('' @ decimal (length (ib_data m)) @
           '' bytes) is shorter than height * stride ('' @ decimal needed @ '' bytes)''))
         else Inr (map (\<lambda>y. take row_bytes (drop (y * stride) (ib_data m))) [0..<unat (ib_height m)]))"

fun drop_alpha :: "u8 list \<Rightarrow> u8 list" where
  "drop_alpha (r # g # b # a # rest) = r # g # b # drop_alpha rest"
| "drop_alpha _ = []"

definition rgba_to_rgb :: "ImageBuffer \<Rightarrow> RecorderError + u8 list" where
  "rgba_to_rgb m = map_sum id (concat \<circ> map drop_alpha) (frame_rows m)"

definition pack_rgba :: "ImageBuffer \<Rightarrow> RecorderError + u8 list" where
  "pack_rgba m = map_sum id concat (frame_rows m)"

section \<open>The Motion-JPEG backend\<close>

definition DEFAULT_JPEG_QUALITY :: u8 where "DEFAULT_JPEG_QUALITY = 90"

type_synonym jpeg = "u8 \<Rightarrow> u8 list \<Rightarrow> u16 \<Rightarrow> u16 \<Rightarrow> string + u8 list"

record MjpegEncoder =
  mj_path :: string
  mj_fps :: u32
  mj_quality :: u8
  mj_writer :: "Sink option"
  mj_avi :: "AviWriter option"
  mj_width :: u32
  mj_height :: u32
  mj_rgb :: "u8 list"
  mj_jpeg :: "u8 list"
  mj_frames :: nat
  mj_finished :: bool

definition empty_file :: Sink where
  "empty_file = \<lparr>sk_data = [], sk_cursor = 0\<rparr>"

definition MjpegEncoder_create :: "string \<Rightarrow> u32 \<Rightarrow> MjpegEncoder" where
  "MjpegEncoder_create path fps =
     \<lparr>mj_path = path, mj_fps = fps, mj_quality = DEFAULT_JPEG_QUALITY, mj_writer = Some empty_file,
      mj_avi = None, mj_width = 0, mj_height = 0, mj_rgb = [], mj_jpeg = [], mj_frames = 0, mj_finished = False\<rparr>"

definition u16_try_from :: "u32 \<Rightarrow> u16 option" where
  "u16_try_from x = (if x < 65536 then Some (ucast x) else None)"

definition size_changed :: "u32 \<Rightarrow> u32 \<Rightarrow> ImageBuffer \<Rightarrow> RecorderError" where
  "size_changed w h m = RcEncode (''frame size changed from '' @ decimal (unat w) @ ''x'' @ decimal (unat h) @ '' to '' @
     decimal (unat (ib_width m)) @ ''x'' @ decimal (unat (ib_height m)))"

text \<open>The output is opened by the first frame; a later one has to have its size.\<close>

definition mjpeg_open :: "ImageBuffer \<Rightarrow> MjpegEncoder \<Rightarrow> MjpegEncoder \<times> (RecorderError + unit)" where
  "mjpeg_open m e =
     (case mj_avi e of
        None \<Rightarrow>
          (case mj_writer e of
             None \<Rightarrow> (e, Inl (RcBackend ''mjpeg output already closed''))
           | Some writer \<Rightarrow>
               (let e = e\<lparr>mj_writer := None\<rparr>
                in case AviWriter_new writer (ib_width m) (ib_height m) (mj_fps e) of
                     Inl err \<Rightarrow> (e, Inl err)
                   | Inr avi \<Rightarrow> (e\<lparr>mj_avi := Some avi, mj_width := ib_width m, mj_height := ib_height m\<rparr>, Inr ())))
      | Some _ \<Rightarrow>
          if (mj_width e, mj_height e) \<noteq> (ib_width m, ib_height m)
          then (e, Inl (size_changed (mj_width e) (mj_height e) m)) else (e, Inr ()))"

definition mjpeg_encode_frame :: "jpeg \<Rightarrow> ImageBuffer \<Rightarrow> MjpegEncoder \<Rightarrow> MjpegEncoder \<times> (RecorderError + unit)" where
  "mjpeg_encode_frame jpeg m e =
     (if mj_finished e then (e, Inl (RcBackend ''mjpeg encoder already finalized''))
      else case u16_try_from (ib_width m) of
        None \<Rightarrow> (e, Inl (RcUnsupported (''frame width '' @ decimal (unat (ib_width m)) @ '' exceeds the JPEG limit'')))
      | Some w \<Rightarrow>
        case u16_try_from (ib_height m) of
          None \<Rightarrow> (e, Inl (RcUnsupported (''frame height '' @ decimal (unat (ib_height m)) @ '' exceeds the JPEG limit'')))
        | Some h \<Rightarrow>
          if w = 0 \<or> h = 0 then (e, Inl (RcEncode ''cannot encode a zero-sized frame''))
          else case mjpeg_open m e of
            (e, Inl err) \<Rightarrow> (e, Inl err)
          | (e, Inr _) \<Rightarrow>
            case rgba_to_rgb m of
              Inl err \<Rightarrow> (e, Inl err)
            | Inr rgb \<Rightarrow>
              let e = e\<lparr>mj_rgb := rgb, mj_jpeg := []\<rparr>
              in case jpeg (mj_quality e) rgb w h of
                   Inl msg \<Rightarrow> (e, Inl (RcEncode msg))
                 | Inr bytes \<Rightarrow>
                   let e = e\<lparr>mj_jpeg := bytes\<rparr>
                   in case mj_avi e of
                        None \<Rightarrow> (e, Inl (RcBackend ''mjpeg output missing''))
                      | Some avi \<Rightarrow> (e\<lparr>mj_avi := Some (write_frame bytes avi), mj_frames := mj_frames e + 1\<rparr>, Inr ()))"

definition mjpeg_finish :: "MjpegEncoder \<Rightarrow> MjpegEncoder \<times> (RecorderError + unit)" where
  "mjpeg_finish e =
     (if mj_finished e then (e, Inr ())
      else (e\<lparr>mj_finished := True, mj_avi := map_option avi_finish (mj_avi e)\<rparr>, Inr ()))"

text \<open>What is in the file: the muxer's bytes, or nothing before the first frame.\<close>

definition mjpeg_file :: "MjpegEncoder \<Rightarrow> u8 list" where
  "mjpeg_file e =
     (case mj_avi e of Some a \<Rightarrow> av_data a | None \<Rightarrow> (case mj_writer e of Some s \<Rightarrow> sk_data s | None \<Rightarrow> []))"

section \<open>The ffmpeg backend\<close>

text \<open>
  The ffmpeg process: what \<open>ffmpeg -encoders\<close> prints (its exit status and decoded output; \<open>None\<close> when it
  cannot be run), whether a command line starts, whether a write reaches it and how it ends, given its
  arguments and everything written to it (a write that fails counts as nothing written).
\<close>

record Ffmpeg =
  ff_probe :: "(bool \<times> string) option"
  ff_spawn :: "string list \<Rightarrow> string option"
  ff_write :: "string list \<Rightarrow> u8 list \<Rightarrow> u8 list \<Rightarrow> string option"
  ff_wait :: "string list \<Rightarrow> u8 list \<Rightarrow> string + bool \<times> string \<times> string"

datatype FfmpegChoice = H264Vaapi | H264Nvenc | H264V4l2m2m | LibX264

fun choice_name :: "FfmpegChoice \<Rightarrow> string" where
  "choice_name H264Vaapi = ''h264_vaapi''"
| "choice_name H264Nvenc = ''h264_nvenc''"
| "choice_name H264V4l2m2m = ''h264_v4l2m2m''"
| "choice_name LibX264 = ''libx264''"

definition is_hardware :: "FfmpegChoice \<Rightarrow> bool" where
  "is_hardware c \<longleftrightarrow> c \<noteq> LibX264"

text \<open>\<open>str::split_whitespace\<close>; the number is how much of a multi-byte space is left to skip.\<close>

fun unicode_words :: "string \<Rightarrow> nat \<Rightarrow> string \<Rightarrow> string list" where
  "unicode_words cur k [] = (if cur = [] then [] else [cur])"
| "unicode_words cur (Suc k) (c # cs) = unicode_words cur k cs"
| "unicode_words cur 0 (c # cs) =
     (case find (\<lambda>sp. prefix sp (c # cs)) unicode_spaces of
        Some sp \<Rightarrow> (if cur = [] then [] else [cur]) @ unicode_words [] (length sp - 1) cs
      | None \<Rightarrow> unicode_words (cur @ [c]) 0 cs)"

definition encoder_row :: "string \<Rightarrow> string option" where
  "encoder_row line =
     (case unicode_words [] 0 line of
        flags # name # _ \<Rightarrow>
          if length flags = 6 \<and> CHR ''A'' \<le> hd flags \<and> hd flags \<le> CHR ''Z'' \<and> \<not> prefix ''='' name then Some name else None
      | _ \<Rightarrow> None)"

definition probe_encoders :: "Ffmpeg \<Rightarrow> string list option" where
  "probe_encoders F =
     (case ff_probe F of
        Some (True, out) \<Rightarrow> Some (List.map_filter encoder_row (str_lines out))
      | _ \<Rightarrow> None)"

definition ffmpeg_available :: "Ffmpeg \<Rightarrow> bool" where
  "ffmpeg_available F \<longleftrightarrow> probe_encoders F \<noteq> None"

definition select_hardware_encoder :: "Ffmpeg \<Rightarrow> FfmpegChoice option" where
  "select_hardware_encoder F =
     (case probe_encoders F of
        None \<Rightarrow> None
      | Some names \<Rightarrow> find (\<lambda>c. choice_name c \<in> set names) [H264Vaapi, H264Nvenc, H264V4l2m2m])"

definition gpu_available :: "Ffmpeg \<Rightarrow> bool" where
  "gpu_available F \<longleftrightarrow> select_hardware_encoder F \<noteq> None"

text \<open>A running child: its arguments and what has been written to its standard input.\<close>

record FfmpegEncoder =
  fe_path :: string
  fe_fps :: u32
  fe_preferred :: FfmpegChoice
  fe_active :: FfmpegChoice
  fe_name :: string
  fe_child :: "(string list \<times> u8 list) option"
  fe_stdin_open :: bool
  fe_width :: u32
  fe_height :: u32
  fe_raw :: "u8 list"
  fe_frames :: nat
  fe_finished :: bool

definition FfmpegEncoder_create :: "Ffmpeg \<Rightarrow> string \<Rightarrow> u32 \<Rightarrow> RecorderError + FfmpegEncoder" where
  "FfmpegEncoder_create F path fps =
     (if \<not> ffmpeg_available F then Inl (RcUnsupported ''ffmpeg is not available for GPU-accelerated recording'')
      else let preferred = (case select_hardware_encoder F of Some c \<Rightarrow> c | None \<Rightarrow> LibX264)
           in Inr \<lparr>fe_path = path, fe_fps = fps, fe_preferred = preferred, fe_active = preferred,
                fe_name = ''ffmpeg/'' @ choice_name preferred, fe_child = None, fe_stdin_open = False,
                fe_width = 0, fe_height = 0, fe_raw = [], fe_frames = 0, fe_finished = False\<rparr>)"

definition VAAPI_DEVICE :: string where "VAAPI_DEVICE = ''/dev/dri/renderD128''"

definition build_args :: "FfmpegEncoder \<Rightarrow> FfmpegChoice \<Rightarrow> string list" where
  "build_args e choice =
     [''-hide_banner'', ''-loglevel'', ''error'', ''-y''] @
     (if choice = H264Vaapi then [''-vaapi_device'', VAAPI_DEVICE] else []) @
     [''-f'', ''rawvideo'', ''-pix_fmt'', ''rgba''] @
     [''-s'', decimal (unat (fe_width e)) @ ''x'' @ decimal (unat (fe_height e))] @
     [''-r'', decimal (unat (fe_fps e))] @
     [''-i'', ''-'', ''-an''] @
     (case choice of
        H264Vaapi \<Rightarrow> [''-vf'', ''format=nv12,hwupload'', ''-c:v'', ''h264_vaapi'']
      | H264Nvenc \<Rightarrow> [''-c:v'', ''h264_nvenc'', ''-pix_fmt'', ''yuv420p'']
      | H264V4l2m2m \<Rightarrow> [''-c:v'', ''h264_v4l2m2m'', ''-pix_fmt'', ''yuv420p'']
      | LibX264 \<Rightarrow> [''-c:v'', ''libx264'', ''-pix_fmt'', ''yuv420p'']) @
     [fe_path e]"

definition spawn_ffmpeg :: "Ffmpeg \<Rightarrow> FfmpegChoice \<Rightarrow> FfmpegEncoder \<Rightarrow> FfmpegEncoder \<times> (RecorderError + unit)" where
  "spawn_ffmpeg F choice e =
     (let args = build_args e choice
      in case ff_spawn F args of
           Some msg \<Rightarrow> (e, Inl (RcBackend (''failed to start ffmpeg: '' @ msg)))
         | None \<Rightarrow> (e\<lparr>fe_active := choice, fe_name := ''ffmpeg/'' @ choice_name choice, fe_child := Some (args, []),
                      fe_stdin_open := True\<rparr>, Inr ()))"

definition ensure_started :: "Ffmpeg \<Rightarrow> ImageBuffer \<Rightarrow> FfmpegEncoder \<Rightarrow> FfmpegEncoder \<times> (RecorderError + unit)" where
  "ensure_started F m e =
     (if fe_child e \<noteq> None
      then if (fe_width e, fe_height e) \<noteq> (ib_width m, ib_height m)
           then (e, Inl (size_changed (fe_width e) (fe_height e) m)) else (e, Inr ())
      else if ib_width m = 0 \<or> ib_height m = 0 then (e, Inl (RcEncode ''cannot encode a zero-sized frame''))
      else
        let e = e\<lparr>fe_width := ib_width m, fe_height := ib_height m\<rparr>
        in case spawn_ffmpeg F (fe_preferred e) e of
             (e, Inr _) \<Rightarrow> (e, Inr ())
           | (e, Inl err) \<Rightarrow> if is_hardware (fe_preferred e) then spawn_ffmpeg F LibX264 e else (e, Inl err))"

definition ffmpeg_encode_frame :: "Ffmpeg \<Rightarrow> ImageBuffer \<Rightarrow> FfmpegEncoder \<Rightarrow> FfmpegEncoder \<times> (RecorderError + unit)" where
  "ffmpeg_encode_frame F m e =
     (if fe_finished e then (e, Inl (RcBackend ''ffmpeg encoder already finalized''))
      else case ensure_started F m e of
        (e, Inl err) \<Rightarrow> (e, Inl err)
      | (e, Inr _) \<Rightarrow>
        case pack_rgba m of
          Inl err \<Rightarrow> (e, Inl err)
        | Inr raw \<Rightarrow>
          let e = e\<lparr>fe_raw := raw\<rparr>
          in case fe_child e of
               Some (args, input) \<Rightarrow>
                 (if \<not> fe_stdin_open e then (e, Inl (RcBackend ''ffmpeg stdin is closed''))
                  else case ff_write F args input raw of
                    Some msg \<Rightarrow> (e, Inl (RcBackend (''failed to write frame to ffmpeg: '' @ msg)))
                  | None \<Rightarrow> (e\<lparr>fe_child := Some (args, input @ raw), fe_frames := fe_frames e + 1\<rparr>, Inr ()))
             | None \<Rightarrow> (e, Inl (RcBackend ''ffmpeg stdin is closed'')))"

definition ffmpeg_finish :: "Ffmpeg \<Rightarrow> FfmpegEncoder \<Rightarrow> FfmpegEncoder \<times> (RecorderError + unit)" where
  "ffmpeg_finish F e =
     (if fe_finished e then (e, Inr ())
      else
        let e' = e\<lparr>fe_finished := True, fe_stdin_open := False, fe_child := None\<rparr>
        in case fe_child e of
             None \<Rightarrow> (e', Inr ())
           | Some (args, input) \<Rightarrow>
               (case ff_wait F args input of
                  Inl msg \<Rightarrow> (e', Inl (RcBackend (''failed to wait for ffmpeg: '' @ msg)))
                | Inr (success, status, stderr) \<Rightarrow>
                    if success then (e', Inr ())
                    else (e', Inl (RcBackend (''ffmpeg exited with '' @ status @ '': '' @ trim stderr)))))"


section \<open>The recorder\<close>

datatype EncoderKind = Auto | Software | Gpu

definition detect :: "Ffmpeg \<Rightarrow> EncoderKind \<Rightarrow> EncoderKind" where
  "detect F kind = (case kind of Auto \<Rightarrow> if gpu_available F then Gpu else Software | other \<Rightarrow> other)"

definition suggest_extension :: "Ffmpeg \<Rightarrow> EncoderKind \<Rightarrow> string" where
  "suggest_extension F kind = (case detect F kind of Gpu \<Rightarrow> ''.mp4'' | _ \<Rightarrow> ''.avi'')"

text \<open>\<open>Box<dyn Encoder>\<close> and the calls through it.\<close>

datatype Encoder = Mjpeg MjpegEncoder | Ffmpeg FfmpegEncoder

record Backends =
  bk_jpeg :: jpeg
  bk_ffmpeg :: Ffmpeg

fun encoder_name :: "Encoder \<Rightarrow> string" where
  "encoder_name (Mjpeg e) = ''mjpeg''"
| "encoder_name (Ffmpeg e) = fe_name e"

fun encoder_frames :: "Encoder \<Rightarrow> nat" where
  "encoder_frames (Mjpeg e) = mj_frames e"
| "encoder_frames (Ffmpeg e) = fe_frames e"

fun encode_frame :: "Backends \<Rightarrow> ImageBuffer \<Rightarrow> Encoder \<Rightarrow> Encoder \<times> (RecorderError + unit)" where
  "encode_frame B m (Mjpeg e) = map_prod Mjpeg id (mjpeg_encode_frame (bk_jpeg B) m e)"
| "encode_frame B m (Ffmpeg e) = map_prod Ffmpeg id (ffmpeg_encode_frame (bk_ffmpeg B) m e)"

fun encoder_finish :: "Backends \<Rightarrow> Encoder \<Rightarrow> Encoder \<times> (RecorderError + unit)" where
  "encoder_finish B (Mjpeg e) = map_prod Mjpeg id (mjpeg_finish e)"
| "encoder_finish B (Ffmpeg e) = map_prod Ffmpeg id (ffmpeg_finish (bk_ffmpeg B) e)"

definition DEFAULT_FPS :: u32 where "DEFAULT_FPS = 30"

record RecorderConfig =
  rg_path :: string
  rg_fps :: u32
  rg_encoder :: EncoderKind
  rg_max_frames :: "u64 option"

definition RecorderConfig_new :: "string \<Rightarrow> RecorderConfig" where
  "RecorderConfig_new path = \<lparr>rg_path = path, rg_fps = DEFAULT_FPS, rg_encoder = Auto, rg_max_frames = None\<rparr>"

record RecordingSummary =
  sm_path :: string
  sm_encoder :: string
  sm_frames :: nat
  sm_duration_ms :: u64

record Recorder =
  rc_path :: string
  rc_encoder :: Encoder
  rc_max_frames :: "u64 option"
  rc_frames :: nat
  rc_dims :: "(u32 \<times> u32) option"
  rc_first_ts_ms :: "u64 option"
  rc_last_ts_ms :: "u64 option"
  rc_finished :: bool

definition Recorder_create :: "Backends \<Rightarrow> RecorderConfig \<Rightarrow> RecorderError + Recorder" where
  "Recorder_create B config =
     (if rg_fps config = 0 then Inl (RcEncode ''recording fps must be greater than zero'')
      else
        let F = bk_ffmpeg B;
            encoder = (case detect F (rg_encoder config) of
              Gpu \<Rightarrow>
                (if \<not> gpu_available F
                 then Inl (RcUnsupported ''no GPU H.264 encoder is available for this recording'')
                 else map_sum id Ffmpeg (FfmpegEncoder_create F (rg_path config) (rg_fps config)))
            | _ \<Rightarrow> Inr (Mjpeg (MjpegEncoder_create (rg_path config) (rg_fps config))))
        in map_sum id (\<lambda>e. \<lparr>rc_path = rg_path config, rc_encoder = e, rc_max_frames = rg_max_frames config,
             rc_frames = 0, rc_dims = None, rc_first_ts_ms = None, rc_last_ts_ms = None, rc_finished = False\<rparr>) encoder)"

definition push_frame :: "Backends \<Rightarrow> ImageBuffer \<Rightarrow> u64 \<Rightarrow> Recorder \<Rightarrow> Recorder \<times> (RecorderError + unit)" where
  "push_frame B m ts r =
     (if rc_finished r then (r, Inl (RcBackend ''recorder already finalized''))
      else if \<exists>limit. rc_max_frames r = Some limit \<and> unat limit \<le> rc_frames r
      then (r, Inl (RcEncode (''frame limit of '' @ decimal (unat (the (rc_max_frames r))) @ '' reached'')))
      else if \<exists>d. rc_dims r = Some d \<and> d \<noteq> (ib_width m, ib_height m)
      then (r, Inl (size_changed (fst (the (rc_dims r))) (snd (the (rc_dims r))) m))
      else case encode_frame B m (rc_encoder r) of
        (e, Inl err) \<Rightarrow> (r\<lparr>rc_encoder := e\<rparr>, Inl err)
      | (e, Inr _) \<Rightarrow>
          let r = r\<lparr>rc_encoder := e\<rparr>;
              r = (if rc_dims r = None then r\<lparr>rc_dims := Some (ib_width m, ib_height m), rc_first_ts_ms := Some ts\<rparr> else r)
          in (r\<lparr>rc_last_ts_ms := Some ts, rc_frames := rc_frames r + 1\<rparr>, Inr ()))"

definition recorder_finish :: "Backends \<Rightarrow> Recorder \<Rightarrow> Recorder \<times> (RecorderError + RecordingSummary)" where
  "recorder_finish B r =
     (case encoder_finish B (rc_encoder r) of
        (e, Inl err) \<Rightarrow> (r\<lparr>rc_finished := True, rc_encoder := e\<rparr>, Inl err)
      | (e, Inr _) \<Rightarrow>
          let duration_ms = (case (rc_first_ts_ms r, rc_last_ts_ms r) of
                (Some first, Some lst) \<Rightarrow> saturating_sub lst first | _ \<Rightarrow> 0)
          in (r\<lparr>rc_finished := True, rc_encoder := e\<rparr>,
              Inr \<lparr>sm_path = rc_path r, sm_encoder = encoder_name e, sm_frames = rc_frames r, sm_duration_ms = duration_ms\<rparr>))"

section \<open>The session\<close>

datatype Command = CommandFrame ImageBuffer u64 | CommandStop

datatype Outcome = Done RecordingSummary | Failed RecorderError

text \<open>\<open>drive\<close> on the commands of the channel; the end of the list is a channel without senders.\<close>

fun drive :: "Backends \<Rightarrow> Command list \<Rightarrow> Recorder \<Rightarrow> Recorder \<times> (RecorderError + RecordingSummary)" where
  "drive B (CommandFrame m ts # cs) r =
     (case push_frame B m ts r of (r', Inl err) \<Rightarrow> (r', Inl err) | (r', Inr _) \<Rightarrow> drive B cs r')"
| "drive B (CommandStop # _) r = recorder_finish B r"
| "drive B [] r = recorder_finish B r"

text \<open>
  The session and its thread. The thread takes one command from the channel at a time while it drives the
  recorder; it drops the receiver when it leaves the loop and then publishes the outcome.
\<close>

datatype Worker = Driving Recorder | Ending Outcome | Ended

record Session =
  ss_queue :: "Command list"
  ss_worker :: Worker
  ss_frames :: nat
  ss_running :: bool
  ss_encoder :: string
  ss_outcome :: "Outcome option"
  ss_joined :: bool
  ss_summary :: "RecordingSummary option"

definition session_start :: "Backends \<Rightarrow> RecorderConfig \<Rightarrow> RecorderError + Session" where
  "session_start B config =
     map_sum id (\<lambda>r. \<lparr>ss_queue = [], ss_worker = Driving r, ss_frames = 0, ss_running = True,
       ss_encoder = encoder_name (rc_encoder r), ss_outcome = None, ss_joined = False, ss_summary = None\<rparr>)
       (Recorder_create B config)"

definition conclude :: "RecorderError + RecordingSummary \<Rightarrow> Outcome" where
  "conclude res = (case res of Inl err \<Rightarrow> Failed err | Inr s \<Rightarrow> Done s)"

definition worker_turn :: "Backends \<Rightarrow> Session \<Rightarrow> Session" where
  "worker_turn B s =
     (case ss_worker s of
        Ended \<Rightarrow> s
      | Ending out \<Rightarrow> s\<lparr>ss_worker := Ended, ss_running := False, ss_outcome := Some out\<rparr>
      | Driving r \<Rightarrow>
          (case ss_queue s of
             [] \<Rightarrow> s
           | CommandFrame m ts # cs \<Rightarrow>
               (case push_frame B m ts r of
                  (r', Inl err) \<Rightarrow> s\<lparr>ss_queue := [], ss_worker := Ending (Failed err)\<rparr>
                | (r', Inr _) \<Rightarrow> s\<lparr>ss_queue := cs, ss_worker := Driving r', ss_frames := rc_frames r'\<rparr>)
           | CommandStop # _ \<Rightarrow>
               (case recorder_finish B r of
                  (r', Inl err) \<Rightarrow> s\<lparr>ss_queue := [], ss_worker := Ending (Failed err)\<rparr>
                | (r', Inr summary) \<Rightarrow> s\<lparr>ss_queue := [], ss_worker := Ending (Done summary), ss_frames := sm_frames summary\<rparr>)))"

definition receiving :: "Session \<Rightarrow> bool" where
  "receiving s \<longleftrightarrow> (\<exists>r. ss_worker s = Driving r)"

definition session_send :: "Command \<Rightarrow> Session \<Rightarrow> Session" where
  "session_send c s = (if receiving s then s\<lparr>ss_queue := ss_queue s @ [c]\<rparr> else s)"

definition session_push :: "(RecorderError \<Rightarrow> string) \<Rightarrow> ImageBuffer \<Rightarrow> u64 \<Rightarrow> Session \<Rightarrow> Session \<times> (RecorderError + unit)" where
  "session_push show m ts s =
     (if receiving s then (session_send (CommandFrame m ts) s, Inr ())
      else (s, Inl (RcBackend (case ss_outcome s of
              Some (Failed err) \<Rightarrow> ''recording stopped: '' @ show err
            | _ \<Rightarrow> ''recording session is no longer running''))))"

text \<open>Joining the thread lets it run to its end; with a stop in the channel that takes no more turns than
  there are commands, and two.\<close>

definition join_worker :: "Backends \<Rightarrow> Session \<Rightarrow> Session" where
  "join_worker B s = ((worker_turn B) ^^ (length (ss_queue s) + 2)) s"

definition session_stop :: "Backends \<Rightarrow> Session \<Rightarrow> Session \<times> (RecorderError + RecordingSummary)" where
  "session_stop B s =
     (case ss_summary s of
        Some summary \<Rightarrow> (s, Inr summary)
      | None \<Rightarrow>
          let s = session_send CommandStop s;
              s = (if ss_joined s then s else (join_worker B s)\<lparr>ss_joined := True\<rparr>);
              outcome = ss_outcome s;
              s = s\<lparr>ss_running := False, ss_outcome := None\<rparr>
          in case outcome of
               Some (Done summary) \<Rightarrow> (s\<lparr>ss_summary := Some summary\<rparr>, Inr summary)
             | Some (Failed err) \<Rightarrow> (s, Inl err)
             | None \<Rightarrow> (s, Inl (RcBackend ''recording thread terminated unexpectedly'')))"


section \<open>The pixels a backend is given\<close>

lemma frame_rows_Inr:
  "frame_rows m = Inr rows \<longleftrightarrow> unat (ib_width m) * 4 \<le> unat (ib_stride m) \<and>
     unat (ib_stride m) * unat (ib_height m) \<le> length (ib_data m) \<and>
     rows = map (\<lambda>y. take (unat (ib_width m) * 4) (drop (y * unat (ib_stride m)) (ib_data m))) [0..<unat (ib_height m)]"
  by (auto simp: frame_rows_def Let_def)

lemma rows_in_range:
  assumes "frame_rows m = Inr rows"
  shows "map Some rows = map (\<lambda>y. slice (ib_data m) (y * unat (ib_stride m)) (unat (ib_width m) * 4)) [0..<unat (ib_height m)]"
  using assms row_in_data by (auto simp: frame_rows_Inr slice_def)

lemma drop_alpha_row:
  "length row = w * 4 \<Longrightarrow> drop_alpha row = concat (map (\<lambda>x. take 3 (drop (x * 4) row)) [0..<w])"
proof (induction w arbitrary: row)
  case (Suc w)
  then obtain a b c d rest where row: "row = a # b # c # d # rest" "length rest = w * 4"
    by (auto simp: length_Suc_conv eval_nat_numeral)
  have "[0..<Suc w] = 0 # map Suc [0..<w]" by (simp add: map_Suc_upt upt_conv_Cons del: upt_Suc)
  have "drop (4 + n) row = drop n rest" for n by (simp only: add.commute[of 4] drop_drop[symmetric]) (simp add: row(1))
  with Suc.IH[OF row(2)] \<open>[0..<Suc w] = 0 # map Suc [0..<w]\<close> show ?case
    by (simp add: comp_def del: upt_Suc) (simp add: row(1))
qed simp

text \<open>Dropping the alpha channel keeps the colours of every pixel, row by row, whatever the padding.\<close>

lemma rgb_is_exact:
  assumes "rgba_to_rgb m = Inr rgb"
  shows "rgb = concat (map (\<lambda>y. concat (map (\<lambda>x. take 3 (the (image_pixel m (of_nat x) (of_nat y)))) [0..<unat (ib_width m)]))
    [0..<unat (ib_height m)])"
proof -
  from assms obtain rows where r: "frame_rows m = Inr rows" and rgb: "rgb = concat (map drop_alpha rows)"
    by (cases "frame_rows m") (auto simp: rgba_to_rgb_def)
  have wf: "image_wf m" using r by (simp add: frame_rows_Inr image_wf_def)
  have row: "drop_alpha (take (unat (ib_width m) * 4) (drop (y * unat (ib_stride m)) (ib_data m))) =
      concat (map (\<lambda>x. take 3 (the (image_pixel m (of_nat x) (of_nat y)))) [0..<unat (ib_width m)])" (is "drop_alpha ?row = _")
    if y: "y < unat (ib_height m)" for y
  proof -
    have "y * unat (ib_stride m) + unat (ib_width m) * 4 \<le> length (ib_data m)"
      using r y by (intro row_in_data) (auto simp: frame_rows_Inr)
    then have "length ?row = unat (ib_width m) * 4" by simp
    then have "drop_alpha ?row = concat (map (\<lambda>x. take 3 (drop (x * 4) ?row)) [0..<unat (ib_width m)])" by (rule drop_alpha_row)
    also have "\<dots> = concat (map (\<lambda>x. take 3 (the (image_pixel m (of_nat x) (of_nat y)))) [0..<unat (ib_width m)])"
    proof (intro arg_cong[where f = concat] map_cong refl)
      fix x assume "x \<in> set [0..<unat (ib_width m)]"
      then have x: "x < unat (ib_width m)" by simp
      have words: "unat (of_nat x :: u32) = x" "unat (of_nat y :: u32) = y"
        using x y unat_lt2p_len[of "ib_width m"] unat_lt2p_len[of "ib_height m"] by (simp_all add: unat_of_nat)
      have "image_pixel m (of_nat x) (of_nat y) = Some (take 4 (drop (y * unat (ib_stride m) + x * 4) (ib_data m)))"
        using image_pixel_wf[OF wf, of "of_nat x" "of_nat y"] x y by (simp add: word_less_nat_alt words)
      moreover have "x * 4 + 4 \<le> unat (ib_width m) * 4" using x by simp
      ultimately show "take 3 (drop (x * 4) ?row) = take 3 (the (image_pixel m (of_nat x) (of_nat y)))"
        by (simp add: drop_take add.commute)
    qed
    finally show ?thesis .
  qed
  have "rows = map (\<lambda>y. take (unat (ib_width m) * 4) (drop (y * unat (ib_stride m)) (ib_data m))) [0..<unat (ib_height m)]"
    using r unfolding frame_rows_Inr by blast
  then show ?thesis unfolding rgb using row by (simp add: comp_def) (intro arg_cong[where f = concat] map_cong, simp_all)
qed

section \<open>The contract of an encoder\<close>

locale encoder =
  fixes encode :: "ImageBuffer \<Rightarrow> 'e \<Rightarrow> 'e \<times> (RecorderError + unit)"
    and frames :: "'e \<Rightarrow> nat"
    and finish :: "'e \<Rightarrow> 'e \<times> (RecorderError + unit)"
  assumes encode_ok: "encode m e = (e', Inr u) \<Longrightarrow> frames e' = Suc (frames e)"
    and encode_err: "encode m e = (e', Inl err) \<Longrightarrow> frames e' = frames e"
    and finish_keeps: "frames (fst (finish e)) = frames e"
    and finish_again: "finish (fst (finish e)) = (fst (finish e), Inr ())"
    and finish_closes: "\<exists>err. encode m (fst (finish e)) = (fst (finish e), Inl err)"
begin

lemma encode_counts: "frames (fst (encode m e)) = (case snd (encode m e) of Inl _ \<Rightarrow> frames e | Inr _ \<Rightarrow> Suc (frames e))"
  by (cases "encode m e") (auto split: sum.split dest: encode_ok encode_err)

lemma closed_for_good: "fold (\<lambda>m e. fst (encode m e)) ms (fst (finish e)) = fst (finish e)"
proof (induction ms)
  case (Cons m ms)
  from finish_closes[of m e] have "fst (encode m (fst (finish e))) = fst (finish e)" by auto
  with Cons show ?case by simp
qed simp

end

lemma mjpeg_open_frames: "mj_frames (fst (mjpeg_open m e)) = mj_frames e"
  by (simp add: mjpeg_open_def Let_def split: option.split sum.split)

interpretation mjpeg: encoder "mjpeg_encode_frame jpeg" mj_frames mjpeg_finish for jpeg
  by unfold_locales
    (auto simp: mjpeg_encode_frame_def mjpeg_finish_def Let_def
      split: if_splits option.splits sum.splits prod.splits
      dest!: arg_cong[where f = "\<lambda>p. mj_frames (fst p)" and x = "mjpeg_open _ _"] simp: mjpeg_open_frames)

lemma ensure_started_frames: "fe_frames (fst (ensure_started F m e)) = fe_frames e"
  by (simp add: ensure_started_def spawn_ffmpeg_def Let_def split: option.split sum.split prod.split)

interpretation ffmpeg: encoder "ffmpeg_encode_frame F" fe_frames "ffmpeg_finish F" for F
  by unfold_locales
    (auto simp: ffmpeg_encode_frame_def ffmpeg_finish_def Let_def
      split: if_splits option.splits sum.splits prod.splits
      dest!: arg_cong[where f = "\<lambda>p. fe_frames (fst p)" and x = "ensure_started _ _ _"] simp: ensure_started_frames)

interpretation dyn: encoder "encode_frame B" encoder_frames "encoder_finish B" for B
proof unfold_locales
  fix m e e' u err
  show "encode_frame B m e = (e', Inr u) \<Longrightarrow> encoder_frames e' = Suc (encoder_frames e)"
    by (cases e) (auto simp: map_prod_def split: prod.splits dest: mjpeg.encode_ok ffmpeg.encode_ok)
  show "encode_frame B m e = (e', Inl err) \<Longrightarrow> encoder_frames e' = encoder_frames e"
    by (cases e) (auto simp: map_prod_def split: prod.splits dest: mjpeg.encode_err ffmpeg.encode_err)
  show "encoder_frames (fst (encoder_finish B e)) = encoder_frames e"
    by (cases e) (simp_all add: mjpeg.finish_keeps ffmpeg.finish_keeps)
  show "encoder_finish B (fst (encoder_finish B e)) = (fst (encoder_finish B e), Inr ())"
    by (cases e) (simp_all add: mjpeg.finish_again ffmpeg.finish_again)
  show "\<exists>err. encode_frame B m (fst (encoder_finish B e)) = (fst (encoder_finish B e), Inl err)"
    using mjpeg.finish_closes[of "bk_jpeg B" m] ffmpeg.finish_closes[of "bk_ffmpeg B" m]
    by (cases e) (simp_all add: map_prod_def split: prod.split, (metis fst_conv old.prod.inject)+)
qed


section \<open>Stopping a session\<close>

text \<open>What a client does with a running session, interleaved with the turns of its thread: the frames whose
  push succeeded, in order.\<close>

datatype SessionStep = Push ImageBuffer u64 | Turn

fun session_run :: "Backends \<Rightarrow> SessionStep list \<Rightarrow> Session \<Rightarrow> Session \<times> (ImageBuffer \<times> u64) list" where
  "session_run B [] s = (s, [])"
| "session_run B (Turn # ops) s = session_run B ops (worker_turn B s)"
| "session_run B (Push m ts # ops) s =
     (let (s', res) = session_push (\<lambda>_. []) m ts s; (s'', fs) = session_run B ops s'
      in (s'', (case res of Inr _ \<Rightarrow> (m, ts) # fs | Inl _ \<Rightarrow> fs)))"

abbreviation commands :: "(ImageBuffer \<times> u64) list \<Rightarrow> Command list" where
  "commands fs \<equiv> map (\<lambda>(m, ts). CommandFrame m ts) fs"

lemma drive_stop: "snd (drive B (commands fs @ CommandStop # cs) r) = snd (drive B (commands fs) r)"
  by (induction fs arbitrary: r) (auto split: prod.split sum.split)

text \<open>The thread is part of the way through the frames accepted so far, or over at the first one that failed.\<close>

definition on_the_way :: "Backends \<Rightarrow> Recorder \<Rightarrow> (ImageBuffer \<times> u64) list \<Rightarrow> Session \<Rightarrow> bool" where
  "on_the_way B r0 fs s \<longleftrightarrow> \<not> ss_joined s \<and> ss_summary s = None \<and>
     (case ss_worker s of
        Driving r \<Rightarrow> \<exists>rest. ss_queue s = commands rest \<and>
          (\<forall>more. snd (drive B (commands (fs @ more)) r0) = snd (drive B (commands (rest @ more)) r))
      | Ending out \<Rightarrow> ss_queue s = [] \<and> (\<forall>more. out = conclude (snd (drive B (commands (fs @ more)) r0)))
      | Ended \<Rightarrow> ss_queue s = [] \<and> (\<forall>more. ss_outcome s = Some (conclude (snd (drive B (commands (fs @ more)) r0)))))"

lemma turn_on_the_way:
  assumes "on_the_way B r0 fs s"
  shows "on_the_way B r0 fs (worker_turn B s)"
proof (cases "ss_worker s")
  case (Driving r)
  from assms Driving obtain rest where q: "ss_queue s = commands rest"
    and d: "\<And>more. snd (drive B (commands (fs @ more)) r0) = snd (drive B (commands (rest @ more)) r)"
    and k: "\<not> ss_joined s" "ss_summary s = None" by (auto simp: on_the_way_def)
  show ?thesis
  proof (cases rest)
    case Nil
    then show ?thesis using assms Driving q by (simp add: worker_turn_def)
  next
    case (Cons f rest')
    obtain m ts where f: "f = (m, ts)" by (cases f)
    obtain r' res where p: "push_frame B m ts r = (r', res)" by (cases "push_frame B m ts r")
    show ?thesis
    proof (cases res)
      case (Inl err)
      then show ?thesis using Driving q Cons f p d k by (simp add: worker_turn_def on_the_way_def conclude_def)
    next
      case (Inr u)
      then have "ss_worker (worker_turn B s) = Driving r'" "ss_queue (worker_turn B s) = commands rest'"
        "\<not> ss_joined (worker_turn B s)" "ss_summary (worker_turn B s) = None"
        using Driving q Cons f p k by (simp_all add: worker_turn_def)
      moreover have "snd (drive B (commands (fs @ more)) r0) = snd (drive B (commands (rest' @ more)) r')" for more
        using d[of more] Inr Cons f p by simp
      ultimately show ?thesis unfolding on_the_way_def by (simp only: Worker.case) blast
    qed
  qed
qed (use assms in \<open>simp_all add: worker_turn_def on_the_way_def\<close>)

lemma push_on_the_way:
  assumes "on_the_way B r0 fs s" "session_push show m ts s = (s', res)"
  shows "on_the_way B r0 (case res of Inr _ \<Rightarrow> fs @ [(m, ts)] | Inl _ \<Rightarrow> fs) s'"
proof (cases "ss_worker s")
  case (Driving r)
  then have s': "s' = s\<lparr>ss_queue := ss_queue s @ [CommandFrame m ts]\<rparr>" "res = Inr ()"
    using assms(2) by (auto simp: session_push_def session_send_def receiving_def)
  from assms(1) Driving obtain rest where q: "ss_queue s = commands rest"
    and d: "\<And>more. snd (drive B (commands (fs @ more)) r0) = snd (drive B (commands (rest @ more)) r)"
    and k: "\<not> ss_joined s" "ss_summary s = None" by (auto simp: on_the_way_def)
  have "ss_queue s' = commands (rest @ [(m, ts)])" by (simp add: s' q)
  moreover have "snd (drive B (commands ((fs @ [(m, ts)]) @ more)) r0) = snd (drive B (commands ((rest @ [(m, ts)]) @ more)) r)"
    for more using d[of "(m, ts) # more"] by simp
  moreover have "ss_worker s' = Driving r" "\<not> ss_joined s'" "ss_summary s' = None" using Driving k by (simp_all add: s')
  ultimately show ?thesis unfolding on_the_way_def s'(2) by (simp only: Worker.case sum.case) blast
qed (use assms in \<open>auto simp: session_push_def session_send_def receiving_def on_the_way_def\<close>)

lemma run_on_the_way:
  "session_run B ops s = (s', fs') \<Longrightarrow> on_the_way B r0 fs s \<Longrightarrow> on_the_way B r0 (fs @ fs') s'"
proof (induction B ops s arbitrary: fs fs' rule: session_run.induct)
  case (2 B ops s)
  then show ?case using turn_on_the_way by simp
next
  case (3 B m ts ops s)
  obtain t res where p: "session_push (\<lambda>_. []) m ts s = (t, res)" by (cases "session_push (\<lambda>_. []) m ts s")
  obtain fs2 where r: "session_run B ops t = (s', fs2)" "fs' = (case res of Inr _ \<Rightarrow> (m, ts) # fs2 | Inl _ \<Rightarrow> fs2)"
    using 3(2) p by (auto simp: Let_def split: prod.splits)
  from 3(1)[OF p[symmetric] refl r(1) push_on_the_way[OF 3(3) p]] show ?case
    by (cases res) (simp_all add: r(2))
qed simp

text \<open>Joining runs the thread over everything that is left.\<close>

lemma ended_stays: "ss_worker s = Ended \<Longrightarrow> (worker_turn B ^^ n) s = s"
  by (induction n) (simp_all add: worker_turn_def)

lemma ending_turns: "ss_worker s = Ending out \<Longrightarrow>
    (worker_turn B ^^ Suc n) s = s\<lparr>ss_worker := Ended, ss_running := False, ss_outcome := Some out\<rparr>"
  using ended_stays[of "worker_turn B s" n B] by (simp add: funpow_swap1[of "worker_turn B"]) (simp add: worker_turn_def)

lemma join_drives:
  "ss_worker s = Driving r \<Longrightarrow> ss_queue s = commands rest @ [CommandStop] \<Longrightarrow>
   ss_outcome ((worker_turn B ^^ (length rest + 2 + k)) s) = Some (conclude (snd (drive B (commands rest) r))) \<and>
   ss_summary ((worker_turn B ^^ (length rest + 2 + k)) s) = ss_summary s"
proof (induction rest arbitrary: s r)
  case Nil
  obtain r' res where f: "recorder_finish B r = (r', res)" by (cases "recorder_finish B r")
  have "ss_worker (worker_turn B s) = Ending (conclude res) \<and> ss_summary (worker_turn B s) = ss_summary s"
    using Nil f by (auto simp: worker_turn_def conclude_def split: sum.split)
  with ending_turns[of "worker_turn B s" "conclude res" k B] f show ?case by (simp add: funpow_swap1)
next
  case (Cons x rest)
  obtain m ts where x: "x = (m, ts)" by (cases x)
  obtain r' res where p: "push_frame B m ts r = (r', res)" by (cases "push_frame B m ts r")
  show ?case
  proof (cases res)
    case (Inl err)
    have "ss_worker (worker_turn B s) = Ending (Failed err) \<and> ss_summary (worker_turn B s) = ss_summary s"
      using Cons.prems p Inl x by (simp add: worker_turn_def)
    with ending_turns[of "worker_turn B s" "Failed err" "length rest + 1 + k" B] p Inl x show ?thesis
      by (simp add: funpow_swap1 conclude_def)
  next
    case (Inr u)
    have t: "ss_worker (worker_turn B s) = Driving r'" "ss_queue (worker_turn B s) = commands rest @ [CommandStop]"
      "ss_summary (worker_turn B s) = ss_summary s"
      using Cons.prems p Inr x by (simp_all add: worker_turn_def)
    from Cons.IH[OF t(1,2)] t(3) p Inr x show ?thesis by (simp add: funpow_swap1)
  qed
qed

lemma stop_on_the_way:
  assumes "on_the_way B r0 fs s"
  shows "snd (session_stop B s) = snd (drive B (commands fs) r0)"
proof -
  have k: "\<not> ss_joined s" "ss_summary s = None" using assms by (simp_all add: on_the_way_def)
  let ?t = "join_worker B (session_send CommandStop s)"
  have "ss_outcome ?t = Some (conclude (snd (drive B (commands fs) r0)))"
  proof (cases "ss_worker s")
    case (Driving r)
    with assms obtain rest where q: "ss_queue s = commands rest"
      and d: "\<And>more. snd (drive B (commands (fs @ more)) r0) = snd (drive B (commands (rest @ more)) r)"
      by (auto simp: on_the_way_def)
    let ?s = "session_send CommandStop s"
    have "ss_worker ?s = Driving r" "ss_queue ?s = commands rest @ [CommandStop]"
      using Driving q by (simp_all add: session_send_def receiving_def)
    from join_drives[OF this, of 1 B] d[of "[]"] q Driving show ?thesis
      by (simp add: join_worker_def session_send_def receiving_def)
  next
    case (Ending out)
    then show ?thesis
      using assms[unfolded on_the_way_def, THEN conjunct2, THEN conjunct2] ending_turns[of s out 1 B]
      by (auto simp: join_worker_def session_send_def receiving_def dest: spec[of _ "[]"])
  next
    case Ended
    then show ?thesis
      using assms[unfolded on_the_way_def, THEN conjunct2, THEN conjunct2] ended_stays[of s 1 B]
      by (auto simp: join_worker_def session_send_def receiving_def dest: spec[of _ "[]"])
  qed
  with k show ?thesis
    by (auto simp: session_stop_def Let_def conclude_def session_send_def split: sum.splits)
qed


text \<open>C17. Stopping a recording session waits for every frame that was accepted: however pushes and turns of
  the recording thread interleave, the result is the one of recording the accepted frames one after the
  other, the summary or the error of the first frame that fails.\<close>

theorem stop_reports_every_frame:
  assumes "session_start B config = Inr s0" "Recorder_create B config = Inr r0" "session_run B ops s0 = (s, fs)"
  shows "snd (session_stop B s) = snd (drive B (commands fs) r0)"
proof -
  have "on_the_way B r0 [] s0"
    using assms(1,2) unfolding on_the_way_def by (auto simp: session_start_def)
  from run_on_the_way[OF assms(3) this] show ?thesis by (simp add: stop_on_the_way)
qed

definition demo_backends :: Backends where
  "demo_backends = \<lparr>bk_jpeg = \<lambda>q rgb w h. Inr (q # rgb), bk_ffmpeg =
     \<lparr>ff_probe = None, ff_spawn = \<lambda>_. None, ff_write = \<lambda>_ _ _. None, ff_wait = \<lambda>_ _. Inr (True, [], [])\<rparr>\<rparr>"

definition demo_pixel :: ImageBuffer where
  "demo_pixel = \<lparr>ib_width = 1, ib_height = 1, ib_stride = 4, ib_format = Rgba8, ib_data = [1, 2, 3, 255]\<rparr>"

definition demo_recorder :: Recorder where
  "demo_recorder = \<lparr>rc_path = ''demo.avi'', rc_encoder = Mjpeg (MjpegEncoder_create ''demo.avi'' 30), rc_max_frames = None,
     rc_frames = 0, rc_dims = None, rc_first_ts_ms = None, rc_last_ts_ms = None, rc_finished = False\<rparr>"

lemma demo_create: "Recorder_create demo_backends (RecorderConfig_new ''demo.avi'') = Inr demo_recorder"
  by (simp add: Recorder_create_def RecorderConfig_new_def detect_def gpu_available_def select_hardware_encoder_def
      probe_encoders_def demo_backends_def demo_recorder_def DEFAULT_FPS_def)

theorem stop_reports_every_frame_witness:
  "\<exists>s0 s. session_start demo_backends (RecorderConfig_new ''demo.avi'') = Inr s0 \<and>
     session_run demo_backends [Turn, Push demo_pixel 0, Push demo_pixel 33] s0 = (s, [(demo_pixel, 0), (demo_pixel, 33)]) \<and>
     snd (session_stop demo_backends s) = snd (drive demo_backends (commands [(demo_pixel, 0), (demo_pixel, 33)]) demo_recorder)"
proof -
  obtain s0 where s0: "session_start demo_backends (RecorderConfig_new ''demo.avi'') = Inr s0" "ss_worker s0 = Driving demo_recorder"
    "ss_queue s0 = []"
    by (simp add: session_start_def demo_create)
  then obtain s where "session_run demo_backends [Turn, Push demo_pixel 0, Push demo_pixel 33] s0 =
      (s, [(demo_pixel, 0), (demo_pixel, 33)])"
    by (simp add: worker_turn_def session_push_def session_send_def receiving_def)
  with s0 stop_reports_every_frame[OF s0(1) demo_create this] show ?thesis by blast
qed

section \<open>What a software recording holds\<close>

text \<open>The JPEG images of frames.\<close>

definition jpeg_of :: "Backends \<Rightarrow> ImageBuffer \<Rightarrow> u8 list \<Rightarrow> bool" where
  "jpeg_of B m j \<longleftrightarrow> (\<exists>rgb. rgba_to_rgb m = Inr rgb \<and>
     bk_jpeg B DEFAULT_JPEG_QUALITY rgb (ucast (ib_width m)) (ucast (ib_height m)) = Inr j)"

definition mjpeg_holds :: "u32 \<Rightarrow> u8 list list \<Rightarrow> MjpegEncoder \<Rightarrow> bool" where
  "mjpeg_holds fps js e \<longleftrightarrow> \<not> mj_finished e \<and> mj_fps e = fps \<and> mj_quality e = DEFAULT_JPEG_QUALITY \<and>
     (case mj_avi e of
        None \<Rightarrow> js = [] \<and> mj_writer e = Some empty_file
      | Some a \<Rightarrow> \<exists>w h. recorded w h fps js a)"

lemma open_holds:
  assumes "mjpeg_holds fps js e" "mjpeg_open m e = (e', Inr u)"
  shows "mjpeg_holds fps js e' \<and> mj_avi e' \<noteq> None"
proof (cases "mj_avi e")
  case None
  then have w: "mj_writer e = Some empty_file" "js = []" "mj_fps e = fps" using assms(1) by (simp_all add: mjpeg_holds_def)
  with assms(2) None obtain a where a: "AviWriter_new empty_file (ib_width m) (ib_height m) fps = Inr a"
    and e': "e' = e\<lparr>mj_writer := None, mj_avi := Some a, mj_width := ib_width m, mj_height := ib_height m\<rparr>"
    by (auto simp: mjpeg_open_def Let_def split: sum.splits)
  have "recorded (ib_width m) (ib_height m) fps [] a" using a by (intro new_recorded) (simp add: empty_file_def)
  then show ?thesis using assms(1) w by (auto simp: e' mjpeg_holds_def)
qed (use assms in \<open>auto simp: mjpeg_open_def mjpeg_holds_def split: if_splits\<close>)

lemma encode_holds:
  assumes "mjpeg_holds fps js e" "mjpeg_encode_frame (bk_jpeg B) m e = (e', Inr u)"
  shows "\<exists>j. jpeg_of B m j \<and> mjpeg_holds fps (js @ [j]) e'"
proof -
  have u16: "u16_try_from x = Some y \<Longrightarrow> y = ucast x" for x y by (simp add: u16_try_from_def split: if_splits)
  from assms obtain e1 v where o: "mjpeg_open m e = (e1, Inr v)"
    by (auto simp: mjpeg_encode_frame_def mjpeg_holds_def split: option.splits if_splits prod.splits sum.splits)
  note h = open_holds[OF assms(1) o, THEN conjunct1]
  obtain a where "mj_avi e1 = Some a" using open_holds[OF assms(1) o] by blast
  with h obtain w h' where a: "mj_avi e1 = Some a" "recorded w h' fps js a" by (auto simp: mjpeg_holds_def)
  from assms(2) o obtain rgb j where rgb: "rgba_to_rgb m = Inr rgb"
    and j: "bk_jpeg B (mj_quality e1) rgb (ucast (ib_width m)) (ucast (ib_height m)) = Inr j"
    and e': "mj_avi e' = Some (write_frame j a)" "mj_finished e' = mj_finished e1" "mj_fps e' = mj_fps e1" "mj_quality e' = mj_quality e1"
    using a(1) by (auto simp: mjpeg_encode_frame_def Let_def dest!: u16 split: option.splits if_splits sum.splits)
  have "jpeg_of B m j" using rgb j h by (auto simp: jpeg_of_def mjpeg_holds_def)
  moreover have "mjpeg_holds fps (js @ [j]) e'"
    using h e' write_frame_recorded[OF a(2)] by (auto simp: mjpeg_holds_def)
  ultimately show ?thesis by blast
qed

definition recording :: "Backends \<Rightarrow> u32 \<Rightarrow> (ImageBuffer \<times> u64) list \<Rightarrow> Recorder \<Rightarrow> bool" where
  "recording B fps fs r \<longleftrightarrow> rc_frames r = length fs \<and>
     rc_first_ts_ms r = (if fs = [] then None else Some (snd (hd fs))) \<and>
     rc_last_ts_ms r = (if fs = [] then None else Some (snd (last fs))) \<and>
     (rc_dims r = None \<longleftrightarrow> fs = []) \<and>
     (\<exists>e js. rc_encoder r = Mjpeg e \<and> mjpeg_holds fps js e \<and> list_all2 (jpeg_of B) (map fst fs) js)"

lemma push_recording:
  assumes "recording B fps fs r" "push_frame B m ts r = (r', Inr u)"
  shows "recording B fps (fs @ [(m, ts)]) r'"
proof -
  from assms(1) obtain e js where e: "rc_encoder r = Mjpeg e" "mjpeg_holds fps js e" "list_all2 (jpeg_of B) (map fst fs) js"
    by (auto simp: recording_def)
  from assms(2) e(1) obtain e' where enc: "mjpeg_encode_frame (bk_jpeg B) m e = (e', Inr ())"
    and enc': "rc_encoder r' = Mjpeg e'"
    by (auto simp: push_frame_def Let_def map_prod_def split: if_splits prod.splits sum.splits)
  from encode_holds[OF e(2) enc] obtain j where j: "jpeg_of B m j" "mjpeg_holds fps (js @ [j]) e'" by blast
  have "list_all2 (jpeg_of B) (map fst (fs @ [(m, ts)])) (js @ [j])" using e(3) j(1) by (simp add: list_all2_appendI)
  moreover have "rc_frames r' = length fs + 1 \<and> rc_first_ts_ms r' = (if fs = [] then Some ts else Some (snd (hd fs))) \<and>
      rc_last_ts_ms r' = Some ts \<and> rc_dims r' \<noteq> None"
    using assms enc e(1) by (auto simp: push_frame_def recording_def Let_def split: if_splits)
  ultimately show ?thesis using j(2) enc' unfolding recording_def by auto
qed

lemma drive_recording:
  "recording B fps fs r \<Longrightarrow> drive B (commands gs) r = (r', Inr s) \<Longrightarrow>
   \<exists>r2. recording B fps (fs @ gs) r2 \<and> recorder_finish B r2 = (r', Inr s)"
proof (induction gs arbitrary: fs r)
  case (Cons g gs)
  obtain m ts where g: "g = (m, ts)" by (cases g)
  from Cons.prems(2) obtain r1 u where p: "push_frame B m ts r = (r1, Inr u)" and d: "drive B (commands gs) r1 = (r', Inr s)"
    by (auto simp: g split: prod.splits sum.splits)
  from Cons.IH[OF push_recording[OF Cons.prems(1) p] d] show ?case by (simp add: g)
qed auto

lemma avi_frames_Nil [simp]: "avi_frames [] = []"
  by (simp add: avi_frames_def le32_at_def)

lemma finish_holds:
  assumes "mjpeg_holds fps js e" "length (mjpeg_file (fst (mjpeg_finish e))) < 2 ^ 32"
  shows "avi_frames (mjpeg_file (fst (mjpeg_finish e))) = js"
proof (cases "mj_avi e")
  case None
  with assms(1) show ?thesis by (simp add: mjpeg_holds_def mjpeg_finish_def mjpeg_file_def empty_file_def)
next
  case (Some a)
  with assms(1) obtain w h where "recorded w h fps js a" by (auto simp: mjpeg_holds_def)
  from finish_recorded(1)[OF this] have "mjpeg_file (fst (mjpeg_finish e)) = avi_file w h fps js"
    using Some assms(1) by (simp add: mjpeg_holds_def mjpeg_finish_def mjpeg_file_def)
  with avi_file_frames assms(2) show ?thesis by simp
qed

text \<open>C16. A recording that ends well holds what was recorded: the summary counts every frame and the time from
  the first to the last, and the AVI file, read back through its index, gives exactly the JPEG image of each
  frame in order (as long as its 32-bit sizes suffice).\<close>

theorem recording_holds_every_frame:
  assumes "Recorder_create B config = Inr r0" "detect (bk_ffmpeg B) (rg_encoder config) = Software"
    and "drive B (commands fs) r0 = (r, Inr s)"
  shows "sm_frames s = length fs \<and>
    sm_duration_ms s = (if fs = [] then 0 else saturating_sub (snd (last fs)) (snd (hd fs))) \<and>
    (\<exists>e. rc_encoder r = Mjpeg e \<and>
      (length (mjpeg_file e) < 2 ^ 32 \<longrightarrow> list_all2 (jpeg_of B) (map fst fs) (avi_frames (mjpeg_file e))))"
proof -
  have "recording B (rg_fps config) [] r0"
    using assms(1,2) by (auto simp: Recorder_create_def recording_def mjpeg_holds_def MjpegEncoder_create_def split: if_splits)
  from drive_recording[OF this assms(3)] obtain r2 where r2: "recording B (rg_fps config) fs r2"
    and f: "recorder_finish B r2 = (r, Inr s)" by auto
  from r2 obtain e js where e: "rc_encoder r2 = Mjpeg e" "mjpeg_holds (rg_fps config) js e" "list_all2 (jpeg_of B) (map fst fs) js"
    by (auto simp: recording_def)
  have r: "rc_encoder r = Mjpeg (fst (mjpeg_finish e))"
    using f e(1) by (auto simp: recorder_finish_def Let_def map_prod_def split: prod.splits sum.splits)
  have "sm_frames s = rc_frames r2 \<and> sm_duration_ms s =
      (case (rc_first_ts_ms r2, rc_last_ts_ms r2) of (Some first, Some lst) \<Rightarrow> saturating_sub lst first | _ \<Rightarrow> 0)"
    using f e(1) by (auto simp: recorder_finish_def Let_def split: prod.splits sum.splits)
  then have "sm_frames s = length fs \<and> sm_duration_ms s = (if fs = [] then 0 else saturating_sub (snd (last fs)) (snd (hd fs)))"
    using r2 by (simp add: recording_def)
  with r finish_holds[OF e(2)] e(3) show ?thesis by auto
qed


theorem recording_holds_every_frame_witness:
  "\<exists>r s. drive demo_backends (commands [(demo_pixel, 0), (demo_pixel, 33)]) demo_recorder = (r, Inr s) \<and>
     sm_frames s = 2 \<and> sm_duration_ms s = 33 \<and> (\<exists>e. rc_encoder r = Mjpeg e)"
proof -
  have f: "frame_rows demo_pixel = Inr [[1, 2, 3, 255]]" by (simp add: frame_rows_def demo_pixel_def)
  have d: "detect (bk_ffmpeg demo_backends) (rg_encoder (RecorderConfig_new ''demo.avi'')) = Software"
    by (simp add: RecorderConfig_new_def detect_def gpu_available_def select_hardware_encoder_def probe_encoders_def demo_backends_def)
  have p: "ib_width demo_pixel = 1" "ib_height demo_pixel = 1" "u16_try_from 1 = Some 1" "rgba_to_rgb demo_pixel = Inr [1, 2, 3]"
    by (simp_all add: u16_try_from_def rgba_to_rgb_def f) (simp_all add: demo_pixel_def)
  have j: "bk_jpeg demo_backends q rgb w h = Inr (q # rgb)" for q rgb w h by (simp add: demo_backends_def)
  obtain r s where "drive demo_backends (commands [(demo_pixel, 0), (demo_pixel, 33)]) demo_recorder = (r, Inr s)"
    by (simp add: demo_recorder_def push_frame_def MjpegEncoder_create_def mjpeg_encode_frame_def mjpeg_open_def p j
        AviWriter_new_def recorder_finish_def mjpeg_finish_def Let_def)
  from recording_holds_every_frame[OF demo_create d this] this show ?thesis
    by (auto simp: saturating_sub_def)
qed

end
