(* ===== verification/Server_Subscriptions.thy ===== *)
theory Server_Subscriptions
  imports Server_Error Interfaces Notify_Inbox
begin

text \<open>
  Event subscriptions of the server (\<open>crates/adesk-server/src\<close>): the registries and the fan-out
  (\<open>subscriptions.rs\<close>), sessions (\<open>session.rs\<close>), the life of a connection and its outbound queue
  (\<open>connection.rs\<close>, the sinks of \<open>dispatch/mod.rs\<close>), the methods of \<open>dispatch/events.rs\<close> and the
  inspector streams of \<open>dispatch/inspect.rs\<close>. A run interleaves them; the writer task takes frames out of
  a connection's queue at its own pace.
\<close>

section \<open>Outbound queues\<close>

text \<open>
  A sink is the sending half of a connection's bounded channel. A channel whose receiver is gone is
  closed for good; \<open>ch_taken\<close> is what the writer task has taken out of it.
\<close>

type_synonym SessionId = u64
type_synonym SubscriptionId = u64
type_synonym EventSink = nat

record 'p Channel =
  ch_capacity :: nat
  ch_queue :: "'p Frame list"
  ch_taken :: "'p Frame list"
  ch_open :: bool

datatype SendResult = SendOk | SendFull | SendClosed

definition OUTBOUND_QUEUE_CAPACITY :: nat where
  "OUTBOUND_QUEUE_CAPACITY = 1024"

definition channel_new :: "nat \<Rightarrow> 'p Channel" where
  "channel_new n = \<lparr>ch_capacity = n, ch_queue = [], ch_taken = [], ch_open = True\<rparr>"

type_synonym 'p channels = "EventSink \<Rightarrow> 'p Channel"

definition sink_is_closed :: "'p channels \<Rightarrow> EventSink \<Rightarrow> bool" where
  "sink_is_closed cs k \<longleftrightarrow> \<not> ch_open (cs k)"

definition try_send :: "'p Frame \<Rightarrow> EventSink \<Rightarrow> 'p channels \<Rightarrow> 'p channels \<times> SendResult" where
  "try_send f k cs =
     (if \<not> ch_open (cs k) then (cs, SendClosed)
      else if ch_capacity (cs k) \<le> length (ch_queue (cs k)) then (cs, SendFull)
      else (cs(k := (cs k)\<lparr>ch_queue := ch_queue (cs k) @ [f]\<rparr>), SendOk))"

section \<open>Registries\<close>

record 'e Registry =
  rg_entries :: "'e list"
  rg_allocated :: u64

definition Registry_default :: "'e Registry" where
  "Registry_default = \<lparr>rg_entries = [], rg_allocated = 0\<rparr>"

text \<open>What the trait \<open>RegistryEntry\<close> asks of an entry.\<close>

record 'e RegistryEntry =
  entry_id :: "'e \<Rightarrow> SubscriptionId"
  entry_connection :: "'e \<Rightarrow> SessionId"
  entry_sink :: "'e \<Rightarrow> EventSink"

definition rg_insert :: "(SubscriptionId \<Rightarrow> 'e) \<Rightarrow> 'e Registry \<Rightarrow> 'e Registry \<times> SubscriptionId" where
  "rg_insert build r =
     (let i = rg_allocated r + 1
      in (r\<lparr>rg_allocated := i, rg_entries := rg_entries r @ [build i]\<rparr>, i))"

definition rg_unsubscribe :: "'e RegistryEntry \<Rightarrow> SubscriptionId \<Rightarrow> 'e Registry \<Rightarrow> 'e Registry \<times> bool" where
  "rg_unsubscribe T i r =
     (let kept = filter (\<lambda>e. entry_id T e \<noteq> i) (rg_entries r)
      in (r\<lparr>rg_entries := kept\<rparr>, length kept \<noteq> length (rg_entries r)))"

definition rg_remove_connection ::
  "'e RegistryEntry \<Rightarrow> SessionId \<Rightarrow> 'e Registry \<Rightarrow> 'e Registry \<times> SubscriptionId list" where
  "rg_remove_connection T c r =
     (r\<lparr>rg_entries := filter (\<lambda>e. entry_connection T e \<noteq> c) (rg_entries r)\<rparr>,
      map (entry_id T) (filter (\<lambda>e. entry_connection T e = c) (rg_entries r)))"

definition rg_contains :: "'e RegistryEntry \<Rightarrow> SubscriptionId \<Rightarrow> 'e Registry \<Rightarrow> bool" where
  "rg_contains T i r \<longleftrightarrow> list_ex (\<lambda>e. entry_id T e = i) (rg_entries r)"

definition rg_prune_closed :: "'e RegistryEntry \<Rightarrow> 'p channels \<Rightarrow> 'e Registry \<Rightarrow> 'e Registry \<times> nat" where
  "rg_prune_closed T cs r =
     (let kept = filter (\<lambda>e. \<not> sink_is_closed cs (entry_sink T e)) (rg_entries r)
      in (r\<lparr>rg_entries := kept\<rparr>, length (rg_entries r) - length kept))"

section \<open>Event subscriptions\<close>

record Subscription =
  sub_id :: SubscriptionId
  sub_connection :: SessionId
  sub_kinds :: "ProtoKind list"
  sub_window_id :: "WindowId option"
  sub_sink :: EventSink

definition sub_matches :: "Subscription \<Rightarrow> RuntimeEvent \<Rightarrow> bool" where
  "sub_matches s e =
     (if sub_kinds s \<noteq> [] \<and> \<not> list_ex (\<lambda>k. kind_matches k e) (sub_kinds s) then False
      else case sub_window_id s of None \<Rightarrow> True | Some w \<Rightarrow> event_window_id e = Some w)"

definition Subscriptions :: "Subscription RegistryEntry" where
  "Subscriptions = \<lparr>entry_id = sub_id, entry_connection = sub_connection, entry_sink = sub_sink\<rparr>"

definition sub_subscribe ::
  "SessionId \<Rightarrow> ProtoKind list \<Rightarrow> WindowId option \<Rightarrow> EventSink \<Rightarrow> Subscription Registry
    \<Rightarrow> Subscription Registry \<times> SubscriptionId" where
  "sub_subscribe connection kinds w sink =
     rg_insert (\<lambda>i. \<lparr>sub_id = i, sub_connection = connection, sub_kinds = kinds, sub_window_id = w, sub_sink = sink\<rparr>)"

text \<open>One pass of \<open>retain\<close>: a full queue loses the frame, a closed one its subscription.\<close>

primrec fan_out_loop ::
  "RuntimeEvent \<Rightarrow> Subscription list \<Rightarrow> 'p channels \<Rightarrow> Subscription list \<times> 'p channels" where
  "fan_out_loop e [] cs = ([], cs)"
| "fan_out_loop e (s # subs) cs =
     (let (keep, cs) =
        (if \<not> sub_matches s e then (True, cs)
         else let (cs, r) = try_send (Event (frame_from_runtime e)) (sub_sink s) cs
              in (case r of SendOk \<Rightarrow> True | SendFull \<Rightarrow> True | SendClosed \<Rightarrow> False, cs));
        (rest, cs) = fan_out_loop e subs cs
      in (if keep then s # rest else rest, cs))"

definition fan_out ::
  "RuntimeEvent \<Rightarrow> Subscription Registry \<Rightarrow> 'p channels \<Rightarrow> Subscription Registry \<times> 'p channels" where
  "fan_out e r cs =
     (if rg_entries r = [] then (r, cs)
      else let (subs, cs) = fan_out_loop e (rg_entries r) cs in (r\<lparr>rg_entries := subs\<rparr>, cs))"

section \<open>Inspector streams\<close>

datatype OverlayKind =
    WindowIds | AppIds | Focus | Damage | SurfaceBounds | Cursor | Actions | CommitTiming

record InspectSubscription =
  is_id :: SubscriptionId
  is_connection :: SessionId
  is_overlays :: "OverlayKind list"
  is_min_interval_ms :: u64
  is_sink :: EventSink

definition InspectSubscriptions :: "InspectSubscription RegistryEntry" where
  "InspectSubscriptions = \<lparr>entry_id = is_id, entry_connection = is_connection, entry_sink = is_sink\<rparr>"

definition inspect_sub_subscribe ::
  "SessionId \<Rightarrow> OverlayKind list \<Rightarrow> u64 \<Rightarrow> EventSink \<Rightarrow> InspectSubscription Registry
    \<Rightarrow> InspectSubscription Registry \<times> SubscriptionId" where
  "inspect_sub_subscribe connection overlays min_interval_ms sink =
     rg_insert (\<lambda>i. \<lparr>is_id = i, is_connection = connection, is_overlays = overlays,
                    is_min_interval_ms = min_interval_ms, is_sink = sink\<rparr>)"

section \<open>Sessions and connections\<close>

record Session =
  se_id :: SessionId
  se_subscriptions :: "SubscriptionId list"

definition Session_new :: "SessionId \<Rightarrow> Session" where
  "Session_new i = \<lparr>se_id = i, se_subscriptions = []\<rparr>"

definition add_subscription :: "SubscriptionId \<Rightarrow> Session \<Rightarrow> Session" where
  "add_subscription i s = s\<lparr>se_subscriptions := se_subscriptions s @ [i]\<rparr>"

definition remove_subscription :: "SubscriptionId \<Rightarrow> Session \<Rightarrow> Session \<times> bool" where
  "remove_subscription i s =
     (let kept = filter (\<lambda>j. j \<noteq> i) (se_subscriptions s)
      in (s\<lparr>se_subscriptions := kept\<rparr>, length kept \<noteq> length (se_subscriptions s)))"

text \<open>
  The shared state: both registries, the sinks registered per session, the sessions, the counter of
  connection ids and the channels; \<open>sv_channel_count\<close> numbers the channels created so far.
\<close>

record 'p Streams =
  sv_subscriptions :: "Subscription Registry"
  sv_inspect :: "InspectSubscription Registry"
  sv_sinks :: "SessionId \<rightharpoonup> EventSink"
  sv_sessions :: "SessionId \<rightharpoonup> Session"
  sv_next_connection_id :: u64
  sv_channels :: "'p channels"
  sv_channel_count :: nat

definition Streams_new :: "'p Streams" where
  "Streams_new =
     \<lparr>sv_subscriptions = Registry_default, sv_inspect = Registry_default, sv_sinks = Map.empty,
      sv_sessions = Map.empty, sv_next_connection_id = 1, sv_channels = (\<lambda>_. channel_new 0), sv_channel_count = 0\<rparr>"

definition next_connection_id :: "'p Streams \<Rightarrow> 'p Streams \<times> u64" where
  "next_connection_id v = (v\<lparr>sv_next_connection_id := sv_next_connection_id v + 1\<rparr>, sv_next_connection_id v)"

definition register_session_sink :: "SessionId \<Rightarrow> EventSink \<Rightarrow> 'p Streams \<Rightarrow> 'p Streams" where
  "register_session_sink c k v = v\<lparr>sv_sinks := (sv_sinks v)(c \<mapsto> k)\<rparr>"

definition forget_session_sink :: "SessionId \<Rightarrow> 'p Streams \<Rightarrow> 'p Streams" where
  "forget_session_sink c v = v\<lparr>sv_sinks := (sv_sinks v)(c := None)\<rparr>"

text \<open>The head of \<open>Connection::run\<close>: a session, its channel and its registered sink.\<close>

definition connection_open :: "'p Streams \<Rightarrow> 'p Streams \<times> SessionId" where
  "connection_open v =
     (let (v, c) = next_connection_id v;
          k = sv_channel_count v;
          v = v\<lparr>sv_channels := (sv_channels v)(k := channel_new OUTBOUND_QUEUE_CAPACITY), sv_channel_count := Suc k,
                sv_sessions := (sv_sessions v)(c \<mapsto> Session_new c)\<rparr>
      in (register_session_sink c k v, c))"

text \<open>Its tail: the peer is gone, nothing is registered for it any more.\<close>

definition connection_close :: "SessionId \<Rightarrow> 'p Streams \<Rightarrow> 'p Streams" where
  "connection_close c v =
     forget_session_sink c
       (v\<lparr>sv_subscriptions := fst (rg_remove_connection Subscriptions c (sv_subscriptions v)),
          sv_inspect := fst (rg_remove_connection InspectSubscriptions c (sv_inspect v)),
          sv_sessions := (sv_sessions v)(c := None)\<rparr>)"

text \<open>\<open>write_loop\<close>: everything queued goes out in one write; a failed write ends the task and with it the queue.\<close>

definition write_turn :: "EventSink \<Rightarrow> bool \<Rightarrow> 'p Streams \<Rightarrow> 'p Streams" where
  "write_turn k succeeds v =
     (let ch = sv_channels v k
      in if succeeds
         then v\<lparr>sv_channels := (sv_channels v)(k := ch\<lparr>ch_taken := ch_taken ch @ ch_queue ch, ch_queue := []\<rparr>)\<rparr>
         else v\<lparr>sv_channels := (sv_channels v)(k := ch\<lparr>ch_taken := ch_taken ch @ ch_queue ch, ch_queue := [], ch_open := False\<rparr>)\<rparr>)"

section \<open>The methods\<close>

definition session_sink :: "SessionId \<Rightarrow> 'p Streams \<Rightarrow> ServerError + EventSink" where
  "session_sink c v =
     (case sv_sinks v c of
        None \<Rightarrow> Inl (SeInternal (''connection '' @ decimal (unat c) @ '' has no outbound sink registered''))
      | Some k \<Rightarrow> Inr k)"

definition with_session :: "SessionId \<Rightarrow> (Session \<Rightarrow> Session) \<Rightarrow> 'p Streams \<Rightarrow> 'p Streams" where
  "with_session c f v = v\<lparr>sv_sessions := (sv_sessions v)(c := map_option f (sv_sessions v c))\<rparr>"

definition subscribe_events ::
  "SessionId \<Rightarrow> ProtoKind list \<Rightarrow> WindowId option \<Rightarrow> 'p Streams \<Rightarrow> 'p Streams \<times> (ServerError + SubscriptionId)" where
  "subscribe_events c kinds w v =
     (case find (\<lambda>k. \<not> is_subscribable k) kinds of
        Some _ \<Rightarrow>
          (v, Inl (SeProto (PeInvalidParams ''subscribe_events''
             (''`InspectFrame` is not a subscribable event kind ('' @ [CHR 0xC2, CHR 0xA7] @ ''5.6)''))))
      | None \<Rightarrow>
          (case session_sink c v of
             Inl e \<Rightarrow> (v, Inl e)
           | Inr k \<Rightarrow>
               (let (r, i) = sub_subscribe c kinds w k (sv_subscriptions v)
                in (with_session c (add_subscription i) (v\<lparr>sv_subscriptions := r\<rparr>), Inr i))))"

text \<open>Both registries are asked; the reply is the same whether anything was found.\<close>

definition unsubscribe_events :: "SessionId \<Rightarrow> SubscriptionId \<Rightarrow> 'p Streams \<Rightarrow> 'p Streams" where
  "unsubscribe_events c i v =
     with_session c (fst \<circ> remove_subscription i)
       (v\<lparr>sv_subscriptions := fst (rg_unsubscribe Subscriptions i (sv_subscriptions v)),
          sv_inspect := fst (rg_unsubscribe InspectSubscriptions i (sv_inspect v))\<rparr>)"

definition inspect_subscribe ::
  "SessionId \<Rightarrow> OverlayKind list \<Rightarrow> u64 \<Rightarrow> 'p Streams \<Rightarrow> 'p Streams \<times> (ServerError + SubscriptionId)" where
  "inspect_subscribe c overlays min_interval_ms v =
     (case session_sink c v of
        Inl e \<Rightarrow> (v, Inl e)
      | Inr k \<Rightarrow>
          (let (r, i) = inspect_sub_subscribe c overlays min_interval_ms k (sv_inspect v)
           in (with_session c (add_subscription i) (v\<lparr>sv_inspect := r\<rparr>), Inr i)))"

text \<open>
  One stream's loop: \<open>InspectCheck\<close> is the test at its head, \<open>InspectPush\<close> what follows the rendering,
  whose outcome is its argument. A loop that ends takes its subscription with it.
\<close>

datatype InspectPc = InspectCheck | InspectPush | InspectDone

definition inspect_end :: "SubscriptionId \<Rightarrow> 'p Streams \<Rightarrow> InspectPc \<times> 'p Streams" where
  "inspect_end i v = (InspectDone, v\<lparr>sv_inspect := fst (rg_unsubscribe InspectSubscriptions i (sv_inspect v))\<rparr>)"

fun inspect_turn ::
  "(ServerError + ImagePayload \<times> u64 \<times> u64) \<Rightarrow> SubscriptionId \<Rightarrow> EventSink \<Rightarrow> InspectPc \<times> 'p Streams \<Rightarrow> InspectPc \<times> 'p Streams" where
  "inspect_turn rendered i k (InspectCheck, v) =
     (if sink_is_closed (sv_channels v) k \<or> \<not> rg_contains InspectSubscriptions i (sv_inspect v)
      then inspect_end i v else (InspectPush, v))"
| "inspect_turn rendered i k (InspectPush, v) =
     (case rendered of
        Inl _ \<Rightarrow> inspect_end i v
      | Inr (img, s, t) \<Rightarrow>
          (case try_send (Event (EventFrame_new PInspectFrame s t (PlInspectFrame i img))) k (sv_channels v) of
             (cs, SendClosed) \<Rightarrow> inspect_end i v
           | (cs, _) \<Rightarrow> (InspectCheck, v\<lparr>sv_channels := cs\<rparr>)))"
| "inspect_turn rendered i k (InspectDone, v) = (InspectDone, v)"

text \<open>The pump's part: fan out, then forget the streams whose connection is gone.\<close>

definition publish :: "RuntimeEvent \<Rightarrow> 'p Streams \<Rightarrow> 'p Streams" where
  "publish e v =
     (let (r, cs) = fan_out e (sv_subscriptions v) (sv_channels v)
      in v\<lparr>sv_subscriptions := r, sv_channels := cs,
           sv_inspect := fst (rg_prune_closed InspectSubscriptions cs (sv_inspect v))\<rparr>)"

text \<open>A response waits for room in the queue of its connection; it is lost when the connection is gone.\<close>

definition respond :: "'p Frame \<Rightarrow> EventSink \<Rightarrow> 'p Streams \<Rightarrow> 'p Streams" where
  "respond f k v = v\<lparr>sv_channels := fst (try_send f k (sv_channels v))\<rparr>"

section \<open>Waiting for events\<close>

text \<open>\<open>translate.rs\<close>: the kinds of the wire as the inbox knows them, and an event as the wire reports it.\<close>

fun proto_event_kind :: "ProtoKind \<Rightarrow> EventKind option" where
  "proto_event_kind PWindowCreated = Some KWindowCreated"
| "proto_event_kind PWindowDestroyed = Some KWindowDestroyed"
| "proto_event_kind PWindowActivated = Some KWindowActivated"
| "proto_event_kind PTitleChanged = Some KTitleChanged"
| "proto_event_kind PSurfaceCommit = Some KSurfaceCommit"
| "proto_event_kind PSurfaceDamage = Some KSurfaceCommit"
| "proto_event_kind PFocusChanged = Some KFocusChanged"
| "proto_event_kind PPopupAppeared = Some KPopupAppeared"
| "proto_event_kind PPopupDisappeared = Some KPopupDisappeared"
| "proto_event_kind PAppLaunched = Some KAppLaunched"
| "proto_event_kind PNotification = Some KNotification"
| "proto_event_kind PNotificationClosed = Some KNotificationClosed"
| "proto_event_kind PNotificationAction = Some KNotificationAction"
| "proto_event_kind PQuiet = None"
| "proto_event_kind PInspectFrame = None"

record EventRecord =
  er_event :: ProtoKind
  er_seq :: u64
  er_ts_ms :: u64
  er_data :: Value

definition event_record :: "'p Serde \<Rightarrow> RuntimeEvent \<Rightarrow> ProtoError + EventRecord" where
  "event_record S e =
     (let payload = payload_from_runtime e
      in map_sum PeJson (\<lambda>data. \<lparr>er_event = payload_kind payload, er_seq = event_seq e, er_ts_ms = event_ts_ms e,
                                er_data = data\<rparr>) (sd_to_payload S payload))"

record WaitForEventsParams =
  wfe_kinds :: "ProtoKind list"
  wfe_window_id :: "WindowId option"
  wfe_timeout_ms :: u64
  wfe_max_events :: u32
  wfe_since_seq :: "u64 option"

definition event_wait_spec :: "WaitForEventsParams \<Rightarrow> EventWaitSpec" where
  "event_wait_spec params =
     \<lparr>ew_kinds = List.map_filter proto_event_kind (wfe_kinds params), ew_window_id = wfe_window_id params,
      ew_timeout_ms = wfe_timeout_ms params, ew_max_events = wfe_max_events params,
      ew_since_seq = wfe_since_seq params\<rparr>"

record WaitForEventsResult =
  wfr_events :: "EventRecord list"
  wfr_timed_out :: bool
  wfr_elapsed_ms :: u64
  wfr_seq :: u64

primrec collect_records :: "'p Serde \<Rightarrow> RuntimeEvent list \<Rightarrow> ProtoError + EventRecord list" where
  "collect_records S [] = Inr []"
| "collect_records S (e # es) =
     (case event_record S e of
        Inl x \<Rightarrow> Inl x
      | Inr r \<Rightarrow> map_sum id ((#) r) (collect_records S es))"

definition wait_for_events_result :: "'p Serde \<Rightarrow> NotifyError + EventBatch \<Rightarrow> ServerError + WaitForEventsResult" where
  "wait_for_events_result S outcome =
     (case outcome of
        Inl e \<Rightarrow> Inl (SeNotify e)
      | Inr batch \<Rightarrow>
          map_sum SeProto (\<lambda>events. \<lparr>wfr_events = events, wfr_timed_out = eb_timed_out batch,
                                    wfr_elapsed_ms = eb_elapsed_ms batch, wfr_seq = eb_seq batch\<rparr>)
            (collect_records S (eb_events batch)))"

section \<open>Runs\<close>

text \<open>
  \<open>sy_loops\<close> holds the streams' loops. A request is one step: its handler has no \<open>await\<close> between the
  sink it looks up and the entries it makes. The rendering of a stream is an argument of its step.
\<close>

record 'p StreamSys =
  sy_streams :: "'p Streams"
  sy_loops :: "SubscriptionId \<rightharpoonup> InspectPc \<times> EventSink"

datatype StreamOp =
    Connect
  | Disconnect SessionId
  | Subscribe SessionId "ProtoKind list" "WindowId option"
  | Unsubscribe SessionId SubscriptionId
  | SubscribeInspect SessionId "OverlayKind list" u64
  | InspectTurn SubscriptionId "ServerError + ImagePayload \<times> u64 \<times> u64"
  | Publish RuntimeEvent
  | Respond EventSink u64 ResponseOutcome
  | Write EventSink bool

definition on_streams :: "('p Streams \<Rightarrow> 'p Streams) \<Rightarrow> 'p StreamSys \<Rightarrow> 'p StreamSys" where
  "on_streams f y = y\<lparr>sy_streams := f (sy_streams y)\<rparr>"

fun stream_step :: "StreamOp \<Rightarrow> 'p StreamSys \<Rightarrow> 'p StreamSys" where
  "stream_step Connect y = on_streams (fst \<circ> connection_open) y"
| "stream_step (Disconnect c) y = on_streams (connection_close c) y"
| "stream_step (Subscribe c kinds w) y = on_streams (fst \<circ> subscribe_events c kinds w) y"
| "stream_step (Unsubscribe c i) y = on_streams (unsubscribe_events c i) y"
| "stream_step (SubscribeInspect c overlays ms) y =
     (case (inspect_subscribe c overlays ms (sy_streams y), session_sink c (sy_streams y)) of
        ((v, Inr i), Inr k) \<Rightarrow> \<lparr>sy_streams = v, sy_loops = (sy_loops y)(i \<mapsto> (InspectCheck, k))\<rparr>
      | _ \<Rightarrow> y)"
| "stream_step (InspectTurn i rendered) y =
     (case sy_loops y i of
        None \<Rightarrow> y
      | Some (pc, k) \<Rightarrow>
          (let (pc, v) = inspect_turn rendered i k (pc, sy_streams y)
           in \<lparr>sy_streams = v, sy_loops = (sy_loops y)(i \<mapsto> (pc, k))\<rparr>))"
| "stream_step (Publish e) y = on_streams (publish e) y"
| "stream_step (Respond k i outcome) y = on_streams (respond (Response i outcome) k) y"
| "stream_step (Write k succeeds) y = on_streams (write_turn k succeeds) y"

definition stream_run :: "StreamOp list \<Rightarrow> 'p StreamSys \<Rightarrow> 'p StreamSys" where
  "stream_run ops y = fold stream_step ops y"

definition StreamSys_new :: "'p StreamSys" where
  "StreamSys_new = \<lparr>sy_streams = Streams_new, sy_loops = Map.empty\<rparr>"

lemma stream_run_simps [simp]:
  "stream_run [] y = y" "stream_run (op # ops) y = stream_run ops (stream_step op y)"
  by (simp_all add: stream_run_def)

section \<open>Deliveries\<close>

text \<open>The runtime events among the frames ever queued for a connection.\<close>

fun runtime_frame :: "'p Frame \<Rightarrow> bool" where
  "runtime_frame (Event f) \<longleftrightarrow> ef_event f \<noteq> PInspectFrame"
| "runtime_frame _ \<longleftrightarrow> False"

definition events_sent :: "'p channels \<Rightarrow> EventSink \<Rightarrow> 'p Frame list" where
  "events_sent cs k = filter runtime_frame (ch_taken (cs k) @ ch_queue (cs k))"

definition room :: "'p Channel \<Rightarrow> nat" where
  "room ch = (if ch_open ch then ch_capacity ch - length (ch_queue ch) else 0)"

definition subscribers :: "RuntimeEvent \<Rightarrow> EventSink \<Rightarrow> Subscription list \<Rightarrow> nat" where
  "subscribers e k subs = length (filter (\<lambda>s. sub_sink s = k \<and> sub_matches s e) subs)"

text \<open>Every published event with the subscriptions of a sink it matches and the room there is at that moment.\<close>

fun publications :: "EventSink \<Rightarrow> StreamOp list \<Rightarrow> 'p StreamSys \<Rightarrow> (RuntimeEvent \<times> nat \<times> nat) list" where
  "publications k [] y = []"
| "publications k (op # ops) y =
     (case op of
        Publish e \<Rightarrow>
          [(e, subscribers e k (rg_entries (sv_subscriptions (sy_streams y))), room (sv_channels (sy_streams y) k))]
      | _ \<Rightarrow> []) @ publications k ops (stream_step op y)"

definition deliveries :: "RuntimeEvent \<times> nat \<times> nat \<Rightarrow> 'p Frame list" where
  "deliveries = (\<lambda>(e, n, free). replicate (min n free) (Event (frame_from_runtime e)))"

lemma try_send_other: "j \<noteq> k \<Longrightarrow> fst (try_send f j cs) k = cs k"
  by (simp add: try_send_def)

lemma try_send_at:
  "fst (try_send f k cs) k = (cs k)\<lparr>ch_queue := ch_queue (cs k) @ (if room (cs k) = 0 then [] else [f])\<rparr>"
  by (simp add: try_send_def room_def)

lemma fan_out_loop_channel:
  "snd (fan_out_loop e subs cs) k =
     (cs k)\<lparr>ch_queue := ch_queue (cs k) @ replicate (min (subscribers e k subs) (room (cs k))) (Event (frame_from_runtime e))\<rparr>"
proof (induction subs arbitrary: cs)
  case Nil
  then show ?case by (simp add: subscribers_def)
next
  case (Cons s subs)
  define f where "f = (Event (frame_from_runtime e) :: 'a Frame)"
  define cs' where "cs' = (if sub_matches s e then fst (try_send f (sub_sink s) cs) else cs)"
  have loop: "snd (fan_out_loop e (s # subs) cs) k = snd (fan_out_loop e subs cs') k"
    by (simp add: cs'_def f_def split: prod.split)
  show ?case
  proof (cases "sub_matches s e \<and> sub_sink s = k")
    case True
    then have "cs' k = (cs k)\<lparr>ch_queue := ch_queue (cs k) @ (if room (cs k) = 0 then [] else [f])\<rparr>"
      by (simp add: cs'_def try_send_at)
    moreover from this have "room (cs' k) = room (cs k) - 1" by (simp add: room_def)
    moreover have "subscribers e k (s # subs) = Suc (subscribers e k subs)" using True by (simp add: subscribers_def)
    ultimately show ?thesis unfolding loop Cons.IH
      by (cases "room (cs k)") (simp_all add: f_def)
  next
    case False
    then have "cs' k = cs k" by (auto simp: cs'_def try_send_other)
    moreover have "subscribers e k (s # subs) = subscribers e k subs" using False by (auto simp: subscribers_def)
    ultimately show ?thesis unfolding loop Cons.IH by simp
  qed
qed

lemma fan_out_eq:
  "fan_out e r cs = (r\<lparr>rg_entries := fst (fan_out_loop e (rg_entries r) cs)\<rparr>, snd (fan_out_loop e (rg_entries r) cs))"
  by (cases "rg_entries r = []") (simp_all add: fan_out_def case_prod_unfold Let_def)

lemma runtime_frame_of_runtime [simp]: "ef_event (frame_from_runtime e) \<noteq> PInspectFrame"
  by (cases e) (simp_all add: frame_from_runtime_def Let_def)

lemma publish_sends:
  "events_sent (sv_channels (publish e v)) k =
     events_sent (sv_channels v) k @ deliveries (e, subscribers e k (rg_entries (sv_subscriptions v)), room (sv_channels v k))"
proof -
  have "sv_channels (publish e v) k = (sv_channels v k)\<lparr>ch_queue := ch_queue (sv_channels v k) @
      deliveries (e, subscribers e k (rg_entries (sv_subscriptions v)), room (sv_channels v k))\<rparr>"
    by (simp add: publish_def fan_out_eq deliveries_def fan_out_loop_channel Let_def)
  then show ?thesis by (simp add: events_sent_def deliveries_def filter_replicate)
qed

lemma write_sends: "events_sent (sv_channels (write_turn j b v)) k = events_sent (sv_channels v) k"
  by (simp add: write_turn_def events_sent_def Let_def)

lemma try_send_sends:
  "\<not> runtime_frame f \<Longrightarrow> events_sent (fst (try_send f j cs)) k = events_sent cs k"
  by (simp add: try_send_def events_sent_def)

lemma inspect_turn_sends:
  "events_sent (sv_channels (snd (inspect_turn rendered i j (pc, v)))) k = events_sent (sv_channels v) k"
proof (cases pc)
  case InspectPush
  have f: "\<not> runtime_frame (Event (EventFrame_new PInspectFrame s t d) :: 'a Frame)" for s t d
    by (simp add: EventFrame_new_def)
  show ?thesis unfolding InspectPush
    using try_send_sends[OF f, of _ _ _ j "sv_channels v" k]
    by (auto simp: inspect_end_def split: sum.split prod.splits SendResult.split) (metis fst_conv)+
qed (simp_all add: inspect_end_def)

lemma connection_open_sends:
  "k \<noteq> sv_channel_count v \<Longrightarrow> events_sent (sv_channels (fst (connection_open v))) k = events_sent (sv_channels v) k"
  by (simp add: connection_open_def next_connection_id_def register_session_sink_def events_sent_def Let_def)

lemma request_sends [simp]:
  "sv_channels (connection_close c v) = sv_channels v"
  "sv_channels (fst (subscribe_events c kinds w v)) = sv_channels v"
  "sv_channels (unsubscribe_events c i v) = sv_channels v"
  "sv_channels (fst (inspect_subscribe c overlays ms v)) = sv_channels v"
  by (simp_all add: connection_close_def forget_session_sink_def subscribe_events_def inspect_subscribe_def
      unsubscribe_events_def with_session_def Let_def case_prod_unfold split: option.split sum.split)

text \<open>The channel a \<open>Connect\<close> creates is a new one.\<close>

fun makes_channel :: "EventSink \<Rightarrow> StreamOp \<Rightarrow> 'p StreamSys \<Rightarrow> bool" where
  "makes_channel k Connect y \<longleftrightarrow> sv_channel_count (sy_streams y) = k"
| "makes_channel k _ y \<longleftrightarrow> False"

lemma step_sends:
  assumes "\<not> makes_channel k op y"
  shows "events_sent (sv_channels (sy_streams (stream_step op y))) k =
    events_sent (sv_channels (sy_streams y)) k @ concat (map deliveries (publications k [op] y))"
proof (cases op)
  case Connect
  with assms show ?thesis using connection_open_sends[of k "sy_streams y"] by (simp add: on_streams_def)
next
  case (SubscribeInspect c overlays ms)
  show ?thesis unfolding SubscribeInspect
    by (auto split: prod.split sum.split) (metis fst_conv request_sends(4))
next
  case (InspectTurn i rendered)
  then show ?thesis
    using inspect_turn_sends[of rendered i _ _ "sy_streams y" k] by (auto split: option.split prod.splits) (metis snd_conv)
next
  case (Publish e)
  then show ?thesis by (simp add: on_streams_def publish_sends)
next
  case (Respond j i outcome)
  then show ?thesis by (simp add: on_streams_def respond_def try_send_sends)
qed (simp_all add: on_streams_def write_sends)

lemma run_sends:
  assumes "\<forall>n < length ops. \<not> makes_channel k (ops ! n) (stream_run (take n ops) y)"
  shows "events_sent (sv_channels (sy_streams (stream_run ops y))) k =
    events_sent (sv_channels (sy_streams y)) k @ concat (map deliveries (publications k ops y))"
  using assms
proof (induction ops arbitrary: y)
  case (Cons op ops)
  have first: "\<not> makes_channel k op y" using Cons.prems by (auto dest: spec[of _ 0])
  have rest: "\<forall>n < length ops. \<not> makes_channel k (ops ! n) (stream_run (take n ops) (stream_step op y))"
  proof (intro allI impI)
    fix n assume "n < length ops"
    then show "\<not> makes_channel k (ops ! n) (stream_run (take n ops) (stream_step op y))"
      using Cons.prems[THEN spec, of "Suc n"] by simp
  qed
  show ?case using step_sends[OF first] Cons.IH[OF rest] by simp
qed simp

lemma fan_out_loop_keeps:
  "fst (fan_out_loop e subs cs) = filter (\<lambda>s. \<not> (sub_matches s e \<and> sink_is_closed cs (sub_sink s))) subs"
proof (induction subs arbitrary: cs)
  case (Cons s subs)
  have same: "sink_is_closed (fst (try_send f j cs)) k = sink_is_closed cs k" for f :: "'a Frame" and j k
    by (simp add: sink_is_closed_def try_send_def)
  have closed: "(case snd (try_send f k cs) of SendOk \<Rightarrow> True | SendFull \<Rightarrow> True | SendClosed \<Rightarrow> False) = (\<not> sink_is_closed cs k)"
    for f :: "'a Frame" and k
    by (simp add: sink_is_closed_def try_send_def)
  with Cons.IH show ?case by (auto simp: case_prod_unfold Let_def same)
qed simp

text \<open>C21. A connection's queue is given every published event, in order, once per subscription it has at
  that moment whose kinds and window match, as far as the queue has room; no other request adds, removes or
  reorders an event. A full queue loses the frame and nothing else: a publication removes exactly the
  subscriptions it matches whose connection is gone.\<close>

theorem deliveries_are_exact:
  assumes "\<forall>n < length ops. \<not> makes_channel k (ops ! n) (stream_run (take n ops) y)"
  shows "events_sent (sv_channels (sy_streams (stream_run ops y))) k =
      events_sent (sv_channels (sy_streams y)) k @ concat (map deliveries (publications k ops y)) \<and>
    (\<forall>e. rg_entries (sv_subscriptions (publish e (sy_streams y))) =
       filter (\<lambda>s. \<not> (sub_matches s e \<and> \<not> ch_open (sv_channels (sy_streams y) (sub_sink s))))
         (rg_entries (sv_subscriptions (sy_streams y))))"
  using run_sends[OF assms] by (simp add: publish_def fan_out_eq fan_out_loop_keeps sink_is_closed_def Let_def)

section \<open>Who is registered\<close>

text \<open>Identifiers come from counters; both registries and the connections are such sources.\<close>

interpretation registry_ids: id_source "\<lambda>build r. map_prod id Some (rg_insert build r)" "\<lambda>r. Suc (unat (rg_allocated r))"
  by unfold_locales (auto simp: rg_insert_def Let_def unat_Suc_word)

interpretation connection_ids: id_source "\<lambda>(_ :: unit) v. map_prod id Some (next_connection_id v)"
    "\<lambda>v. unat (sv_next_connection_id v)"
  by unfold_locales (auto simp: next_connection_id_def unat_Suc_word)

text \<open>
  Ids are distinct and allocated; an entry's sink is the one registered for its connection, whose
  session lists it.
\<close>

definition owned :: "'p Streams \<Rightarrow> SessionId \<Rightarrow> EventSink \<Rightarrow> SubscriptionId \<Rightarrow> bool" where
  "owned v c k i \<longleftrightarrow> sv_sinks v c = Some k \<and> (\<exists>s. sv_sessions v c = Some s \<and> i \<in> set (se_subscriptions s))"

definition entries_ok :: "'e RegistryEntry \<Rightarrow> 'e Registry \<Rightarrow> 'p Streams \<Rightarrow> bool" where
  "entries_ok T r v \<longleftrightarrow>
     distinct (map (entry_id T) (rg_entries r)) \<and>
     (\<forall>e \<in> set (rg_entries r). entry_id T e \<le> rg_allocated r \<and>
        owned v (entry_connection T e) (entry_sink T e) (entry_id T e))"

definition sinks_ok :: "'p Streams \<Rightarrow> bool" where
  "sinks_ok v \<longleftrightarrow>
     (\<forall>c k. sv_sinks v c = Some k \<longrightarrow> k < sv_channel_count v \<and> c < sv_next_connection_id v \<and> sv_sessions v c \<noteq> None) \<and>
     (\<forall>c d k. sv_sinks v c = Some k \<and> sv_sinks v d = Some k \<longrightarrow> c = d)"

definition streams_ok :: "'p Streams \<Rightarrow> bool" where
  "streams_ok v \<longleftrightarrow>
     entries_ok Subscriptions (sv_subscriptions v) v \<and> entries_ok InspectSubscriptions (sv_inspect v) v \<and> sinks_ok v"

text \<open>The counters after at most \<open>n\<close> operations.\<close>

definition counted :: "nat \<Rightarrow> 'p Streams \<Rightarrow> bool" where
  "counted n v \<longleftrightarrow> unat (rg_allocated (sv_subscriptions v)) \<le> n \<and> unat (rg_allocated (sv_inspect v)) \<le> n \<and>
     unat (sv_next_connection_id v) \<le> Suc n"

lemma entries_okI:
  assumes "distinct (map (entry_id T) (rg_entries r))"
    and "\<And>e. e \<in> set (rg_entries r) \<Longrightarrow> entry_id T e \<le> rg_allocated r \<and>
          owned v (entry_connection T e) (entry_sink T e) (entry_id T e)"
  shows "entries_ok T r v"
  using assms by (simp add: entries_ok_def)

lemma entries_filter:
  "entries_ok T r v \<Longrightarrow> entries_ok T (r\<lparr>rg_entries := filter P (rg_entries r)\<rparr>) v"
  by (simp add: entries_ok_def distinct_map_filter)

lemma entries_insert:
  assumes "entries_ok T r v" "unat (rg_allocated r) < 2 ^ 64 - 1" "\<And>i. entry_id T (build i) = i"
    and "owned v (entry_connection T (build (rg_allocated r + 1))) (entry_sink T (build (rg_allocated r + 1))) (rg_allocated r + 1)"
  shows "entries_ok T (fst (rg_insert build r)) v"
proof -
  have up: "x < rg_allocated r + 1" "x \<le> rg_allocated r + 1" if "x \<le> rg_allocated r" for x
    using that assms(2) by (simp_all add: word_le_nat_alt word_less_nat_alt unat_Suc_word)
  have "rg_allocated r + 1 \<notin> entry_id T ` set (rg_entries r)"
    using assms(1) up by (fastforce simp: entries_ok_def)
  with assms up show ?thesis by (auto simp: entries_ok_def rg_insert_def Let_def)
qed

lemma entries_keep:
  assumes "entries_ok T r v"
    and "\<And>c k i. \<lbrakk>owned v c k i; \<exists>e \<in> set (rg_entries r). entry_connection T e = c \<and> entry_id T e = i\<rbrakk> \<Longrightarrow> owned v' c k i"
  shows "entries_ok T r v'"
  using assms(1) by (auto simp: entries_ok_def intro!: assms(2))

lemma owned_add: "owned v c k i \<Longrightarrow> owned (with_session d (add_subscription j) v) c k i"
  by (auto simp: owned_def with_session_def add_subscription_def)

lemma owned_new: "sv_sinks v c = Some k \<Longrightarrow> sv_sessions v c \<noteq> None \<Longrightarrow> owned (with_session c (add_subscription i) v) c k i"
  by (auto simp: owned_def with_session_def add_subscription_def)

lemma owned_cong [simp]:
  "owned (v\<lparr>sv_subscriptions := r\<rparr>) c k i = owned v c k i"
  "owned (v\<lparr>sv_inspect := r'\<rparr>) c k i = owned v c k i"
  "owned (v\<lparr>sv_channels := cs\<rparr>) c k i = owned v c k i"
  by (simp_all add: owned_def)

lemma entries_cong [simp]:
  "entries_ok T r (v\<lparr>sv_subscriptions := r1\<rparr>) = entries_ok T r v"
  "entries_ok T r (v\<lparr>sv_inspect := r2\<rparr>) = entries_ok T r v"
  "entries_ok T r (v\<lparr>sv_channels := cs\<rparr>) = entries_ok T r v"
  by (simp_all add: entries_ok_def)

lemma sinks_cong [simp]:
  "sinks_ok (v\<lparr>sv_subscriptions := r1\<rparr>) = sinks_ok v" "sinks_ok (v\<lparr>sv_inspect := r2\<rparr>) = sinks_ok v"
  "sinks_ok (v\<lparr>sv_channels := cs\<rparr>) = sinks_ok v"
  by (simp_all add: sinks_ok_def)

lemma sinks_with_session: "sinks_ok v \<Longrightarrow> sinks_ok (with_session c f v)"
  by (auto simp: sinks_ok_def with_session_def)

lemma streams_new_ok: "streams_ok Streams_new" "counted 0 Streams_new"
  by (simp_all add: streams_ok_def entries_ok_def sinks_ok_def counted_def Streams_new_def Registry_default_def)

lemma connect_ok:
  assumes "streams_ok v" "counted n v" "n + 2 < 2 ^ 64"
  shows "streams_ok (fst (connection_open v))" "counted (Suc n) (fst (connection_open v))"
proof -
  have up: "unat (sv_next_connection_id v + 1) = Suc (unat (sv_next_connection_id v))"
    using assms(2,3) by (intro unat_Suc_word) (simp add: counted_def)
  have fresh: "sv_sinks v (sv_next_connection_id v) = None"
    using assms(1) by (auto simp: streams_ok_def sinks_ok_def) (metis less_irrefl option.exhaust)
  have below: "c < sv_next_connection_id v + 1" if "c < sv_next_connection_id v" for c
    using that up by (simp add: word_less_nat_alt)
  have owned: "owned v c k i \<Longrightarrow> owned (fst (connection_open v)) c k i" for c k i
    using fresh by (auto simp: owned_def connection_open_def next_connection_id_def register_session_sink_def Let_def)
  have "sinks_ok (fst (connection_open v))"
    using assms(1) below up
    by (auto simp: streams_ok_def sinks_ok_def connection_open_def word_less_nat_alt[of "sv_next_connection_id v"] next_connection_id_def register_session_sink_def Let_def
        less_Suc_eq)
  moreover have "entries_ok Subscriptions (sv_subscriptions v) (fst (connection_open v))"
    "entries_ok InspectSubscriptions (sv_inspect v) (fst (connection_open v))"
    using assms(1) owned by (auto simp: streams_ok_def intro: entries_keep)
  ultimately show "streams_ok (fst (connection_open v))"
    by (simp add: streams_ok_def connection_open_def next_connection_id_def register_session_sink_def Let_def)
  show "counted (Suc n) (fst (connection_open v))"
    using assms(2) up by (simp add: counted_def connection_open_def next_connection_id_def register_session_sink_def Let_def)
qed

lemma remove_entries:
  assumes "entries_ok T r v" "\<And>d k i. owned v d k i \<Longrightarrow> d \<noteq> c \<Longrightarrow> owned v' d k i"
  shows "entries_ok T (fst (rg_remove_connection T c r)) v'"
proof (rule entries_keep)
  show "entries_ok T (fst (rg_remove_connection T c r)) v"
    using entries_filter[OF assms(1)] by (simp add: rg_remove_connection_def)
qed (auto simp: rg_remove_connection_def intro: assms(2))

lemma disconnect_ok:
  assumes "streams_ok v"
  shows "streams_ok (connection_close c v)"
proof -
  have owned: "owned v d k i \<Longrightarrow> d \<noteq> c \<Longrightarrow> owned (connection_close c v) d k i" for d k i
    by (auto simp: owned_def connection_close_def forget_session_sink_def)
  have "entries_ok Subscriptions (fst (rg_remove_connection Subscriptions c (sv_subscriptions v))) (connection_close c v)"
    "entries_ok InspectSubscriptions (fst (rg_remove_connection InspectSubscriptions c (sv_inspect v))) (connection_close c v)"
    using assms unfolding streams_ok_def by (blast intro: remove_entries owned)+
  moreover have "sinks_ok (connection_close c v)"
    using assms by (auto simp: streams_ok_def sinks_ok_def connection_close_def forget_session_sink_def)
  ultimately show ?thesis
    by (simp add: streams_ok_def connection_close_def forget_session_sink_def)
qed

text \<open>An inserted entry that its connection's session comes to list.\<close>

lemma insert_ok:
  assumes "entries_ok T r v" "unat (rg_allocated r) < 2 ^ 64 - 1" "sv_sinks v c = Some k" "sv_sessions v c \<noteq> None"
    and "\<And>i. entry_id T (build i) = i" "\<And>i. entry_connection T (build i) = c" "\<And>i. entry_sink T (build i) = k"
  shows "entries_ok T (fst (rg_insert build r)) (with_session c (add_subscription (rg_allocated r + 1)) v)"
proof (rule entries_insert)
  show "entries_ok T r (with_session c (add_subscription (rg_allocated r + 1)) v)"
    using assms(1) by (auto intro: entries_keep owned_add)
qed (use assms(2-7) owned_new[OF assms(3,4)] in simp_all)

lemma with_session_fields [simp]:
  "sv_subscriptions (with_session c f v) = sv_subscriptions v" "sv_inspect (with_session c f v) = sv_inspect v"
  "sv_channels (with_session c f v) = sv_channels v" "sv_next_connection_id (with_session c f v) = sv_next_connection_id v"
  by (simp_all add: with_session_def)

lemma with_session_commute [simp]:
  "with_session c f (v\<lparr>sv_subscriptions := r1\<rparr>) = (with_session c f v)\<lparr>sv_subscriptions := r1\<rparr>"
  "with_session c f (v\<lparr>sv_inspect := r2\<rparr>) = (with_session c f v)\<lparr>sv_inspect := r2\<rparr>"
  by (cases v; simp add: with_session_def)+

lemma subscribe_events_effect:
  obtains "fst (subscribe_events c kinds w v) = v"
  | k where "sv_sinks v c = Some k"
    "fst (subscribe_events c kinds w v) =
       (with_session c (add_subscription (rg_allocated (sv_subscriptions v) + 1)) v)
         \<lparr>sv_subscriptions := fst (sub_subscribe c kinds w k (sv_subscriptions v))\<rparr>"
proof (cases "find (\<lambda>k. \<not> is_subscribable k) kinds = None \<and> sv_sinks v c \<noteq> None")
  case True
  then obtain k where "sv_sinks v c = Some k" by auto
  then show ?thesis using True
    by (intro that(2)) (simp_all add: subscribe_events_def session_sink_def sub_subscribe_def rg_insert_def Let_def)
next
  case False
  then show ?thesis by (intro that(1)) (auto simp: subscribe_events_def session_sink_def split: option.split)
qed

lemma inspect_subscribe_effect:
  obtains "fst (inspect_subscribe c overlays ms v) = v"
  | k where "sv_sinks v c = Some k"
    "fst (inspect_subscribe c overlays ms v) =
       (with_session c (add_subscription (rg_allocated (sv_inspect v) + 1)) v)
         \<lparr>sv_inspect := fst (inspect_sub_subscribe c overlays ms k (sv_inspect v))\<rparr>"
proof (cases "sv_sinks v c")
  case (Some k)
  then show ?thesis
    by (intro that(2)) (simp_all add: inspect_subscribe_def session_sink_def inspect_sub_subscribe_def rg_insert_def
        Let_def)
qed (auto intro: that(1) simp: inspect_subscribe_def session_sink_def)

lemma subscribe_ok:
  assumes v: "streams_ok v" "counted n v" "n + 2 < 2 ^ 64"
  shows "streams_ok (fst (subscribe_events c kinds w v))"
proof (rule subscribe_events_effect[of c kinds w v], goal_cases)
  case 1
  with v(1) show ?case by simp
next
  case (2 k)
  have "sv_sessions v c \<noteq> None" using v(1) 2(1) by (auto simp: streams_ok_def sinks_ok_def)
  moreover have "unat (rg_allocated (sv_subscriptions v)) < 2 ^ 64 - 1" using v(2,3) by (simp add: counted_def)
  ultimately have "entries_ok Subscriptions (fst (sub_subscribe c kinds w k (sv_subscriptions v)))
      (with_session c (add_subscription (rg_allocated (sv_subscriptions v) + 1)) v)"
    using v(1) 2(1) unfolding sub_subscribe_def
    by (intro insert_ok) (simp_all add: streams_ok_def Subscriptions_def)
  moreover have "entries_ok InspectSubscriptions (sv_inspect v) (with_session c (add_subscription (rg_allocated (sv_subscriptions v) + 1)) v)"
    using v(1) unfolding streams_ok_def by (auto intro: entries_keep owned_add)
  ultimately show ?case using v(1) by (simp add: 2(2) streams_ok_def sinks_with_session)
qed

lemma inspect_subscribe_ok:
  assumes v: "streams_ok v" "counted n v" "n + 2 < 2 ^ 64"
  shows "streams_ok (fst (inspect_subscribe c overlays ms v))"
proof (rule inspect_subscribe_effect[of c overlays ms v], goal_cases)
  case 1
  with v(1) show ?case by simp
next
  case (2 k)
  have "sv_sessions v c \<noteq> None" using v(1) 2(1) by (auto simp: streams_ok_def sinks_ok_def)
  moreover have "unat (rg_allocated (sv_inspect v)) < 2 ^ 64 - 1" using v(2,3) by (simp add: counted_def)
  ultimately have "entries_ok InspectSubscriptions (fst (inspect_sub_subscribe c overlays ms k (sv_inspect v)))
      (with_session c (add_subscription (rg_allocated (sv_inspect v) + 1)) v)"
    using v(1) 2(1) unfolding inspect_sub_subscribe_def
    by (intro insert_ok) (simp_all add: streams_ok_def InspectSubscriptions_def)
  moreover have "entries_ok Subscriptions (sv_subscriptions v) (with_session c (add_subscription (rg_allocated (sv_inspect v) + 1)) v)"
    using v(1) unfolding streams_ok_def by (auto intro: entries_keep owned_add)
  ultimately show ?case using v(1) by (simp add: 2(2) streams_ok_def sinks_with_session)
qed

lemma unsubscribe_entries:
  assumes "entries_ok T r v"
  shows "entries_ok T (fst (rg_unsubscribe T i r)) (with_session c (fst \<circ> remove_subscription i) v)"
proof (rule entries_keep)
  show "entries_ok T (fst (rg_unsubscribe T i r)) v" using entries_filter[OF assms] by (simp add: rg_unsubscribe_def Let_def)
qed (auto simp: rg_unsubscribe_def Let_def owned_def with_session_def remove_subscription_def)

lemma unsubscribe_ok:
  assumes "streams_ok v"
  shows "streams_ok (unsubscribe_events c i v)"
proof -
  have "unsubscribe_events c i v =
      (with_session c (fst \<circ> remove_subscription i) v)
        \<lparr>sv_subscriptions := fst (rg_unsubscribe Subscriptions i (sv_subscriptions v)),
         sv_inspect := fst (rg_unsubscribe InspectSubscriptions i (sv_inspect v))\<rparr>"
    by (simp add: unsubscribe_events_def)
  with assms show ?thesis by (simp add: streams_ok_def sinks_with_session unsubscribe_entries)
qed

lemma inspect_turn_ok:
  assumes "streams_ok v"
  shows "streams_ok (snd (inspect_turn rendered i k (pc, v)))"
proof -
  have "entries_ok InspectSubscriptions (fst (rg_unsubscribe InspectSubscriptions i (sv_inspect v))) v"
    using assms by (simp add: streams_ok_def rg_unsubscribe_def Let_def entries_filter)
  with assms show ?thesis
    by (cases pc) (simp_all add: inspect_end_def streams_ok_def split: sum.split prod.split SendResult.split)
qed

lemma publish_ok: "streams_ok v \<Longrightarrow> streams_ok (publish e v)"
  by (simp add: publish_def fan_out_eq fan_out_loop_keeps rg_prune_closed_def streams_ok_def entries_filter Let_def)

lemma respond_ok: "streams_ok v \<Longrightarrow> streams_ok (respond f k v)"
  by (simp add: respond_def streams_ok_def)

lemma write_ok: "streams_ok v \<Longrightarrow> streams_ok (write_turn k b v)"
  by (simp add: write_turn_def streams_ok_def Let_def)

lemma counted_Suc: "counted n v \<Longrightarrow> counted (Suc n) v"
  by (simp add: counted_def)

lemma counted_keep:
  "counted n v \<Longrightarrow> counted (Suc n) (connection_close c v)"
  "counted n v \<Longrightarrow> counted (Suc n) (unsubscribe_events c i v)"
  "counted n v \<Longrightarrow> counted (Suc n) (publish e v)"
  "counted n v \<Longrightarrow> counted (Suc n) (respond f k v)"
  "counted n v \<Longrightarrow> counted (Suc n) (write_turn k b v)"
  by (simp_all add: counted_def connection_close_def forget_session_sink_def rg_remove_connection_def unsubscribe_events_def
      rg_unsubscribe_def publish_def fan_out_eq rg_prune_closed_def respond_def write_turn_def Let_def)

lemma counted_inspect_turn:
  "counted n v \<Longrightarrow> counted (Suc n) (snd (inspect_turn rendered i k (pc, v)))"
  by (cases pc) (simp_all add: counted_def inspect_end_def rg_unsubscribe_def Let_def split: sum.split prod.split SendResult.split)

lemma counted_subscribe:
  assumes c: "counted n v" "n + 2 < 2 ^ 64"
  shows "counted (Suc n) (fst (subscribe_events c kinds w v))"
proof (rule subscribe_events_effect[of c kinds w v], goal_cases)
  case 1
  with c(1) show ?case by (simp add: counted_def)
next
  case (2 k)
  have "unat (rg_allocated (sv_subscriptions v) + 1) = Suc (unat (rg_allocated (sv_subscriptions v)))"
    using c by (intro unat_Suc_word) (simp add: counted_def)
  with c(1) show ?case by (simp add: 2(2) counted_def sub_subscribe_def rg_insert_def Let_def)
qed

lemma counted_inspect_subscribe:
  assumes c: "counted n v" "n + 2 < 2 ^ 64"
  shows "counted (Suc n) (fst (inspect_subscribe c overlays ms v))"
proof (rule inspect_subscribe_effect[of c overlays ms v], goal_cases)
  case 1
  with c(1) show ?case by (simp add: counted_def)
next
  case (2 k)
  have "unat (rg_allocated (sv_inspect v) + 1) = Suc (unat (rg_allocated (sv_inspect v)))"
    using c by (intro unat_Suc_word) (simp add: counted_def)
  with c(1) show ?case by (simp add: 2(2) counted_def inspect_sub_subscribe_def rg_insert_def Let_def)
qed

lemma step_ok:
  assumes "streams_ok (sy_streams y)" "counted n (sy_streams y)" "n + 2 < 2 ^ 64"
  shows "streams_ok (sy_streams (stream_step op y)) \<and> counted (Suc n) (sy_streams (stream_step op y))"
proof (cases op)
  case Connect
  with assms connect_ok[of "sy_streams y" n] show ?thesis by (simp add: on_streams_def)
next
  case (Subscribe c kinds w)
  with assms show ?thesis by (simp add: on_streams_def subscribe_ok counted_subscribe)
next
  case (SubscribeInspect c overlays ms)
  have "streams_ok (fst (inspect_subscribe c overlays ms (sy_streams y)))"
    "counted (Suc n) (fst (inspect_subscribe c overlays ms (sy_streams y)))" "counted (Suc n) (sy_streams y)"
    using assms by (blast intro: inspect_subscribe_ok counted_inspect_subscribe counted_Suc)+
  with assms(1) show ?thesis unfolding SubscribeInspect by (auto split: prod.split sum.split)
next
  case (InspectTurn i rendered)
  have "streams_ok (snd (inspect_turn rendered i k (pc, sy_streams y)))"
    "counted (Suc n) (snd (inspect_turn rendered i k (pc, sy_streams y)))" "counted (Suc n) (sy_streams y)" for k pc
    using assms by (blast intro: inspect_turn_ok counted_inspect_turn counted_Suc)+
  with assms(1) show ?thesis unfolding InspectTurn by (simp add: case_prod_unfold Let_def split: option.split)
qed (use assms(1,2) in \<open>simp_all add: on_streams_def counted_keep disconnect_ok unsubscribe_ok publish_ok respond_ok write_ok\<close>)

lemma run_ok:
  "\<lbrakk>streams_ok (sy_streams y); counted n (sy_streams y); n + length ops + 1 < 2 ^ 64\<rbrakk>
   \<Longrightarrow> streams_ok (sy_streams (stream_run ops y))"
proof (induction ops arbitrary: y n)
  case (Cons op ops)
  have "n + 2 < 2 ^ 64" using Cons.prems(3) by simp
  note step = step_ok[OF Cons.prems(1,2) this, of op]
  with Cons.IH[of "stream_step op y" "Suc n"] Cons.prems(3) show ?case by simp
qed simp


text \<open>Two connections, an event subscription of the first and an inspector stream of the second, both with id 1.\<close>

definition two_clients :: "StreamOp list" where
  "two_clients = [Connect, Connect, Subscribe 1 [PTitleChanged] None, SubscribeInspect 2 [] 0]"

definition first_client :: "StreamOp list" where
  "first_client = [Connect, Subscribe 1 [PTitleChanged] None]"

lemmas stream_eval = StreamSys_new_def Streams_new_def Registry_default_def on_streams_def connection_open_def
  next_connection_id_def register_session_sink_def Session_new_def subscribe_events_def session_sink_def sub_subscribe_def
  rg_insert_def with_session_def add_subscription_def inspect_subscribe_def inspect_sub_subscribe_def Let_def

lemma stream_examples:
  "rg_entries (sv_subscriptions (sy_streams (stream_run two_clients StreamSys_new))) =
     [\<lparr>sub_id = 1, sub_connection = 1, sub_kinds = [PTitleChanged], sub_window_id = None, sub_sink = 0\<rparr>]"
  "rg_entries (sv_inspect (sy_streams (stream_run two_clients StreamSys_new))) =
     [\<lparr>is_id = 1, is_connection = 2, is_overlays = [], is_min_interval_ms = 0, is_sink = 1\<rparr>]"
  by (simp_all add: two_clients_def stream_eval is_subscribable_def)

text \<open>Unsubscribing an event stream also ends another connection's inspector stream that has the same number.\<close>

lemma unsubscribe_ends_a_foreign_stream:
  "rg_entries (sv_inspect (sy_streams (stream_run (two_clients @ [Unsubscribe 1 1]) StreamSys_new))) = []"
  by (simp add: two_clients_def stream_eval is_subscribable_def unsubscribe_events_def rg_unsubscribe_def
      Subscriptions_def InspectSubscriptions_def)

text \<open>A title change and a focus change published to one client that asked for titles.\<close>

lemma first_client_state:
  "sy_streams (stream_run first_client StreamSys_new) =
     \<lparr>sv_subscriptions = \<lparr>rg_entries =
          [\<lparr>sub_id = 1, sub_connection = 1, sub_kinds = [PTitleChanged], sub_window_id = None, sub_sink = 0\<rparr>], rg_allocated = 1\<rparr>,
      sv_inspect = Registry_default, sv_sinks = Map.empty(1 \<mapsto> 0),
      sv_sessions = Map.empty(1 \<mapsto> \<lparr>se_id = 1, se_subscriptions = [1]\<rparr>), sv_next_connection_id = 2,
      sv_channels = (\<lambda>_. channel_new 0)(0 := channel_new OUTBOUND_QUEUE_CAPACITY), sv_channel_count = 1\<rparr>"
  by (simp add: first_client_def stream_eval is_subscribable_def)

theorem deliveries_are_exact_witness:
  "events_sent (sv_channels (sy_streams (stream_run
       [Publish (TitleChanged 5 7 (WindowId 3) None), Publish (FocusChanged 6 8 None)]
       (stream_run first_client StreamSys_new)))) 0 =
     [Event (frame_from_runtime (TitleChanged 5 7 (WindowId 3) None)) :: unit Frame]"
proof -
  let ?y = "stream_run first_client StreamSys_new :: unit StreamSys"
  let ?ops = "[Publish (TitleChanged 5 7 (WindowId 3) None), Publish (FocusChanged 6 8 None)]"
  have old: "\<forall>n < length ?ops. \<not> makes_channel 0 (?ops ! n) (stream_run (take n ?ops) ?y)"
    by (simp add: All_less_Suc)
  show ?thesis unfolding deliveries_are_exact[OF old, THEN conjunct1]
    by (simp add: first_client_state deliveries_def on_streams_def publish_def fan_out_eq fan_out_loop_keeps
        subscribers_def sub_matches_def sink_is_closed_def channel_new_def OUTBOUND_QUEUE_CAPACITY_def room_def
        events_sent_def Let_def del: fan_out_loop.simps)
qed


lemma kind_matches_emitted:
  "k \<notin> {PQuiet, PInspectFrame, PSurfaceDamage} \<Longrightarrow> kind_matches k e \<longleftrightarrow> proto_event_kind k = Some (event_kind e)"
  by (cases e; cases k) simp_all

text \<open>\<open>wait_for_events\<close> and \<open>subscribe_events\<close> select the same events from the same kinds and window, for
  the kinds that are emitted under their own name.\<close>

theorem wait_and_subscription_agree:
  assumes "set (wfe_kinds p) \<inter> {PQuiet, PInspectFrame, PSurfaceDamage} = {}"
    and "sub_kinds s = wfe_kinds p" "sub_window_id s = wfe_window_id p"
  shows "spec_matches (event_wait_spec p) e \<longleftrightarrow> sub_matches s e"
proof -
  have kinds: "kind_matches k e \<longleftrightarrow> proto_event_kind k = Some (event_kind e)" "proto_event_kind k \<noteq> None" if "k \<in> set (wfe_kinds p)" for k
  proof -
    from that assms(1) have k: "k \<notin> {PQuiet, PInspectFrame, PSurfaceDamage}" by auto
    then show "kind_matches k e \<longleftrightarrow> proto_event_kind k = Some (event_kind e)" by (rule kind_matches_emitted)
    from k show "proto_event_kind k \<noteq> None" by (cases k) simp_all
  qed
  have "event_kind e \<in> set (List.map_filter proto_event_kind (wfe_kinds p)) \<longleftrightarrow> list_ex (\<lambda>k. kind_matches k e) (wfe_kinds p)"
    using kinds(1) by (auto simp: List.map_filter_def list_ex_iff image_iff)
  moreover have "List.map_filter proto_event_kind (wfe_kinds p) = [] \<longleftrightarrow> wfe_kinds p = []"
    using kinds(2) by (auto simp: List.map_filter_def filter_empty_conv)
  ultimately show ?thesis
    using assms(2,3) by (auto simp: spec_matches_def sub_matches_def event_wait_spec_def split: option.splits)
qed

definition title_wait :: WaitForEventsParams where
  "title_wait = \<lparr>wfe_kinds = [PTitleChanged], wfe_window_id = None, wfe_timeout_ms = 5000, wfe_max_events = 32, wfe_since_seq = None\<rparr>"

theorem wait_and_subscription_agree_witness:
  "sub_matches \<lparr>sub_id = 1, sub_connection = 1, sub_kinds = [PTitleChanged], sub_window_id = None, sub_sink = 0\<rparr>
     (TitleChanged 5 7 (WindowId 3) None) \<and> spec_matches (event_wait_spec title_wait) (TitleChanged 5 7 (WindowId 3) None)"
proof -
  let ?s = "\<lparr>sub_id = 1, sub_connection = 1, sub_kinds = [PTitleChanged], sub_window_id = None, sub_sink = 0\<rparr>"
  have "spec_matches (event_wait_spec title_wait) e \<longleftrightarrow> sub_matches ?s e" for e
    by (rule wait_and_subscription_agree) (simp_all add: title_wait_def)
  then show ?thesis by (simp add: sub_matches_def)
qed

text \<open>A wait for \<open>quiet\<close> alone, a kind that is never emitted, is answered by any event.\<close>

lemma wait_for_quiet_events_matches_all:
  "spec_matches (event_wait_spec (title_wait\<lparr>wfe_kinds := [PQuiet]\<rparr>)) e"
  by (simp add: spec_matches_def event_wait_spec_def title_wait_def List.map_filter_def)

end
