(* ===== verification/Server_Pump.thy ===== *)
theory Server_Pump
  imports Server_Subscriptions Server_Input App_Launch Core_Image
begin

text \<open>
  The event pump of the server (\<open>crates/adesk-server/src/event_pump.rs\<close>), the cached inspection snapshot
  it keeps up to date (\<open>inspection.rs\<close>) and the translations between the components' views
  (\<open>translate.rs\<close>). The pump joins the other components: every event of the compositor's broadcast goes
  through the launch correlator to the observer, the notification inbox, the inspection cache and the
  event subscriptions. The last section runs it against the compositor, with a broadcast that may lag.
\<close>

section \<open>The inspection cache\<close>

record ActionMarker =
  am_action_id :: ActionId
  am_kind :: ActionKind
  am_position :: "Point option"
  am_age_ms :: u64

record CommitInfo =
  cm_commit_seq :: u64
  cm_age_ms :: u64

record InspectionSnapshot =
  in_frame :: ImageBuffer
  in_windows :: "WindowInfo list"
  in_active :: "WindowId option"
  in_cursor :: "Point option"
  in_actions :: "ActionMarker list"
  in_damage :: "Rect list"
  in_commit :: "CommitInfo option"
  in_seq :: u64
  in_ts_ms :: u64

text \<open>\<open>None\<close> is a cache that has not been primed. The sums of coordinates are those of \<open>i32\<close>.\<close>

type_synonym InspectionCache = "InspectionSnapshot option"

definition cache_update :: "(InspectionSnapshot \<Rightarrow> InspectionSnapshot) \<Rightarrow> InspectionCache \<Rightarrow> InspectionCache" where
  "cache_update f c = map_option f c"

definition damage_to_output :: "Region \<Rightarrow> Rect option \<Rightarrow> Rect list" where
  "damage_to_output damage geometry =
     (let (dx, dy) = (case geometry of Some r \<Rightarrow> (rx r, ry r) | None \<Rightarrow> (0, 0))
      in map (\<lambda>r. r\<lparr>rx := rx r + dx, ry := ry r + dy\<rparr>) (simplified damage))"

section \<open>Translations\<close>

definition observer_snapshot :: "CompositorSnapshot \<Rightarrow> StateSnapshot" where
  "observer_snapshot s =
     \<lparr>ss_seq = sn_seq s, ss_ts_ms = sn_ts_ms s,
      ss_windows = map (\<lambda>w. \<lparr>ws_window_id = wi_id w, ws_last_commit_seq = wi_last_commit_seq w,
        ws_geometry = wi_geometry w, ws_popup_count = wi_popup_count w\<rparr>) (sn_windows s)\<rparr>"

definition action_marker :: "ActionRecord \<Rightarrow> Rect option \<Rightarrow> u64 \<Rightarrow> ActionMarker" where
  "action_marker r geometry now =
     \<lparr>am_action_id = ar_id r, am_kind = ar_kind r,
      am_position =
        (case (ar_position r, geometry) of
           (Some p, Some g) \<Rightarrow>
             let local = resolve p (from_size \<lparr>sw = rw g, sh = rh g\<rparr>)
             in Some (Point_new (saturating_add_i32 (rx g) (px local)) (saturating_add_i32 (ry g) (py local)))
         | _ \<Rightarrow> None),
      am_age_ms = saturating_sub now (ar_ts_ms r)\<rparr>"


section \<open>The pump\<close>

text \<open>The part of \<open>ServerContext\<close> the pump writes, and the readings of the three clocks an event meets.\<close>

record 'p Pump =
  pu_correlator :: Correlator
  pu_observer :: Observer
  pu_notify :: NotificationService
  pu_inspection :: InspectionCache
  pu_streams :: "'p Streams"

record Readings =
  rd_correlator :: u64
  rd_observer :: instant
  rd_server :: u64

fun correlate_window :: "(string \<Rightarrow> string) \<Rightarrow> u64 \<Rightarrow> RuntimeEvent \<Rightarrow> Correlator \<Rightarrow> Correlator \<times> RuntimeEvent" where
  "correlate_window lower now (WindowCreated s ts w app pid None title) c =
     (case correlate lower now \<lparr>wc_window_id = w, wc_pid = pid, wc_app_id = app, wc_title = title\<rparr> c of
        (c', None) \<Rightarrow> (c', WindowCreated s ts w app pid None title)
      | (c', Some cr) \<Rightarrow> (c', WindowCreated s ts w app pid (Some (lr_launch_id (cr_launch cr))) title))"
| "correlate_window lower now e c = (c, e)"

fun update_inspection :: "u64 \<Rightarrow> Observer \<Rightarrow> RuntimeEvent \<Rightarrow> InspectionCache \<Rightarrow> InspectionCache" where
  "update_inspection now v (SurfaceCommit s ts w commit_seq damage) =
     (if rects damage = [] then id
      else cache_update (\<lambda>i. i\<lparr>in_damage := damage_to_output damage (service_window_geometry v w),
        in_commit := Some \<lparr>cm_commit_seq = commit_seq, cm_age_ms = saturating_sub now ts\<rparr>,
        in_seq := s, in_ts_ms := now\<rparr>))"
| "update_inspection now v (WindowActivated s ts w previous) =
     cache_update (\<lambda>i. i\<lparr>in_active := Some w, in_seq := s, in_ts_ms := now\<rparr>)"
| "update_inspection now v (WindowDestroyed s ts w) =
     cache_update (\<lambda>i. i\<lparr>in_windows := filter (\<lambda>x. wi_id x \<noteq> w) (in_windows i),
       in_active := (if in_active i = Some w then None else in_active i), in_seq := s, in_ts_ms := now\<rparr>)"
| "update_inspection now v _ = id"

definition pump_event :: "(string \<Rightarrow> string) \<Rightarrow> Readings \<Rightarrow> RuntimeEvent \<Rightarrow> 'p Pump \<Rightarrow> 'p Pump" where
  "pump_event lower rd e p =
     (let (c, e) = correlate_window lower (rd_correlator rd) e (pu_correlator p);
          v = handle_event e (rd_observer rd) (pu_observer p);
          n = service_handle_event e (pu_notify p);
          i = update_inspection (rd_server rd) v e (pu_inspection p)
      in p\<lparr>pu_correlator := c, pu_observer := v, pu_notify := n, pu_inspection := i,
           pu_streams := publish e (pu_streams p)\<rparr>)"

text \<open>\<open>resync\<close> with the snapshot that answers its \<open>QueryState\<close>.\<close>

definition pump_resync :: "Readings \<Rightarrow> CompositorSnapshot \<Rightarrow> 'p Pump \<Rightarrow> 'p Pump" where
  "pump_resync rd s p =
     p\<lparr>pu_observer := fst (resync (observer_snapshot s) (rd_observer rd) (pu_observer p)),
       pu_inspection := cache_update (\<lambda>i. i\<lparr>in_windows := sn_windows s, in_active := sn_active_window_id s,
         in_seq := sn_seq s, in_ts_ms := rd_server rd\<rparr>) (pu_inspection p)\<rparr>"

section \<open>The pump beside the compositor\<close>

text \<open>
  The broadcast keeps the last \<open>cap\<close> events for the pump. What the compositor emits goes into it, and so
  do the server's own events, which name no window and carry a reserved number. A pump that has fallen
  further behind is told so, continues with the oldest event that is left and resynchronizes first; the
  compositor answers its query at any later time. Requests record actions on windows, and waiters come and
  go.
\<close>

record 'p PumpSys =
  py_compositor :: CompositorState
  py_log :: "RuntimeEvent list"
  py_cursor :: nat
  py_resyncing :: bool
  py_pump :: "'p Pump"

definition Pump_new :: "instant \<Rightarrow> nat \<Rightarrow> 'p Pump" where
  "Pump_new now n =
     \<lparr>pu_correlator = Correlator_new, pu_observer = ObserverService_new now, pu_notify = NotificationService_new n,
      pu_inspection = None, pu_streams = Streams_new\<rparr>"

definition with_observer :: "(Observer \<Rightarrow> Observer) \<Rightarrow> 'p PumpSys \<Rightarrow> 'p PumpSys" where
  "with_observer f y = y\<lparr>py_pump := (py_pump y)\<lparr>pu_observer := f (pu_observer (py_pump y))\<rparr>\<rparr>"

abbreviation compositor_windows :: "CompositorState \<Rightarrow> WindowId set" where
  "compositor_windows st \<equiv> {w. win (wb_model (cs_wm st)) w \<noteq> None}"

inductive pump_reach :: "nat \<Rightarrow> ('i Env \<times> Operation) list \<Rightarrow> u64 list \<Rightarrow> 'p PumpSys \<Rightarrow> bool" for cap where
  pump_start: "pump_reach cap [] [] \<lparr>py_compositor = State_new sz injector, py_log = [], py_cursor = 0,
      py_resyncing = False, py_pump = Pump_new now n\<rparr>"
| pump_compositor: "pump_reach cap tr rs y \<Longrightarrow> op_allowed op (py_compositor y) \<Longrightarrow>
    pump_reach cap (tr @ [(E, op)]) (rs @ handed_out op (py_compositor y))
      (y\<lparr>py_compositor := run_op E op (py_compositor y),
         py_log := py_log y @ drop (length (cs_sent (py_compositor y))) (cs_sent (run_op E op (py_compositor y)))\<rparr>)"
| pump_server_event: "pump_reach cap tr rs y \<Longrightarrow> event_window_id e = None \<Longrightarrow> event_seq e \<in> set rs \<Longrightarrow>
    pump_reach cap tr rs (y\<lparr>py_log := py_log y @ [e]\<rparr>)"
| pump_recv: "pump_reach cap tr rs y \<Longrightarrow> \<not> py_resyncing y \<Longrightarrow> py_cursor y < length (py_log y) \<Longrightarrow>
    length (py_log y) - py_cursor y \<le> cap \<Longrightarrow>
    pump_reach cap tr rs (y\<lparr>py_cursor := Suc (py_cursor y),
      py_pump := pump_event lower rd (py_log y ! py_cursor y) (py_pump y)\<rparr>)"
| pump_lagged: "pump_reach cap tr rs y \<Longrightarrow> \<not> py_resyncing y \<Longrightarrow> cap < length (py_log y) - py_cursor y \<Longrightarrow>
    pump_reach cap tr rs (y\<lparr>py_cursor := length (py_log y) - cap, py_resyncing := True\<rparr>)"
| pump_resynced: "pump_reach cap tr rs y \<Longrightarrow> py_resyncing y \<Longrightarrow>
    pump_reach cap tr rs (y\<lparr>py_resyncing := False,
      py_pump := pump_resync rd (state_snapshot (E :: 'i Env) (py_compositor y)) (py_pump y)\<rparr>)"
| pump_action: "pump_reach cap tr rs y \<Longrightarrow> set_option w \<subseteq> compositor_windows (py_compositor y) \<Longrightarrow>
    pump_reach cap tr rs (with_observer (\<lambda>v. fst (record_action kind w pos now v)) y)"
| pump_waiter: "pump_reach cap tr rs y \<Longrightarrow>
    pump_reach cap tr rs (with_observer (\<lambda>v. v\<lparr>sv_state := guard_register w key (sv_state v)\<rparr>) y)"
| pump_waiter_gone: "pump_reach cap tr rs y \<Longrightarrow>
    pump_reach cap tr rs (with_observer (\<lambda>v. v\<lparr>sv_state := guard_drop w key (sv_state v)\<rparr>) y)"

section \<open>What is tracked\<close>

definition alive_after :: "WindowId \<Rightarrow> bool \<Rightarrow> RuntimeEvent list \<Rightarrow> bool" where
  "alive_after w b es = fold (\<lambda>e b. if event_window_id e = Some w then event_kind e \<noteq> KWindowDestroyed else b) es b"

abbreviation named :: "WindowId \<Rightarrow> RuntimeEvent list \<Rightarrow> bool" where
  "named w es \<equiv> \<exists>e \<in> set es. event_window_id e = Some w"

lemma alive_after_append: "alive_after w b (es @ fs) = alive_after w (alive_after w b es) fs"
  by (simp add: alive_after_def)

lemma alive_after_simps [simp]:
  "alive_after w b [] = b"
  "alive_after w b (e # es) = alive_after w (if event_window_id e = Some w then event_kind e \<noteq> KWindowDestroyed else b) es"
  by (simp_all add: alive_after_def)

lemma alive_after_named: "named w es \<Longrightarrow> alive_after w b es = alive_after w b' es"
  by (induction es arbitrary: b b') auto

lemma alive_after_unnamed: "\<not> named w es \<Longrightarrow> alive_after w b es = b"
  by (induction es) auto

text \<open>A view never has popups or an active window without the window.\<close>

definition view_sound :: "View \<Rightarrow> bool" where
  "view_sound v \<longleftrightarrow> set_option (vw_active v) \<subseteq> dom (vw_windows v) \<and> fst ` vw_popups v \<subseteq> dom (vw_windows v)"

lemma view_event_sound:
  assumes "view_event e v = Some v'" "view_sound v"
  shows "view_sound v'"
proof -
  have keep: "set_option (vw_active v) \<subseteq> D \<and> fst ` vw_popups v \<subseteq> D" if "dom (vw_windows v) \<subseteq> D" for D
    using assms(2) that unfolding view_sound_def by (meson order_trans)
  show ?thesis
  proof (cases e)
    case (WindowDestroyed s ts w)
    then have w: "w \<notin> fst ` vw_popups v" and v': "v' = v\<lparr>vw_windows := (vw_windows v)(w := None),
        vw_active := (if vw_active v = Some w then None else vw_active v)\<rparr>" using assms(1) by (simp_all split: if_splits)
    show ?thesis using keep[OF order_refl] w unfolding view_sound_def v' by (simp add: subset_Diff_insert)
  next
    case (SurfaceCommit s ts w c d)
    then obtain x where v': "v' = v\<lparr>vw_windows := (vw_windows v)(w \<mapsto> x)\<rparr>" using assms(1) by (auto simp del: split_paired_Ex split: option.splits if_splits)
    show ?thesis using keep[OF subset_insertI[of _ w]] unfolding view_sound_def v' by simp
  next
    case (TitleChanged s ts w t)
    then obtain x where v': "v' = v\<lparr>vw_windows := (vw_windows v)(w \<mapsto> x)\<rparr>" using assms(1) by (auto simp del: split_paired_Ex split: option.splits if_splits)
    show ?thesis using keep[OF subset_insertI[of _ w]] unfolding view_sound_def v' by simp
  next
    case (WindowCreated s ts w app pid l t)
    then obtain x where v': "v' = v\<lparr>vw_windows := (vw_windows v)(w \<mapsto> x)\<rparr>" using assms(1) by (auto simp del: split_paired_Ex split: option.splits if_splits)
    show ?thesis using keep[OF subset_insertI[of _ w]] unfolding view_sound_def v' by simp
  next
    case (PopupDisappeared s ts w p)
    then have "v' = v\<lparr>vw_popups := vw_popups v - {(w, p)}\<rparr>" using assms(1) by (simp split: if_splits)
    then show ?thesis using keep[OF order_refl] unfolding view_sound_def by (auto simp del: not_None_eq)
  next
    case (WindowActivated s ts w previous)
    then have "v' = v\<lparr>vw_active := Some w\<rparr>" "w \<in> dom (vw_windows v)" using assms(1) by (auto split: if_splits)
    then show ?thesis using keep[OF order_refl] unfolding view_sound_def by simp
  next
    case (PopupAppeared s ts w p)
    then have "v' = v\<lparr>vw_popups := insert (w, p) (vw_popups v)\<rparr>" "w \<in> dom (vw_windows v)" using assms(1) by (auto split: if_splits)
    then show ?thesis using keep[OF order_refl] unfolding view_sound_def by simp
  qed (use assms in \<open>simp_all split: if_splits\<close>)
qed

lemma view_event_alive:
  assumes "view_event e v = Some v'" "view_sound v"
  shows "(vw_windows v' w \<noteq> None) = (if event_window_id e = Some w then event_kind e \<noteq> KWindowDestroyed else vw_windows v w \<noteq> None)"
proof -
  have "vw_windows v x \<noteq> None" if "vw_active v = Some x" for x using assms(2) that by (auto simp: view_sound_def domIff)
  moreover have "vw_windows v x \<noteq> None" if "(x, p) \<in> vw_popups v" for x p
    using assms(2) that by (force simp: view_sound_def domIff simp del: not_None_eq)
  ultimately show ?thesis using assms(1)
    by (cases e) (auto split: if_splits option.splits prod.splits)
qed

lemma replay_alive: "replay es v = Some v' \<Longrightarrow> view_sound v \<Longrightarrow>
    view_sound v' \<and> (vw_windows v' w \<noteq> None) = alive_after w (vw_windows v w \<noteq> None) es"
proof (induction es arbitrary: v)
  case (Cons e es)
  from Cons.prems(1) obtain v1 where v1: "view_event e v = Some v1" "replay es v1 = Some v'" by (auto simp: Option.bind_eq_Some_conv)
  from Cons.IH[OF v1(2) view_event_sound[OF v1(1) Cons.prems(2)]] view_event_alive[OF v1(1) Cons.prems(2)] show ?case by simp
qed simp

lemma reach_sound:
  assumes "compositor_reach tr rs st" "length tr + 2 < 2 ^ 64 - 1"
  shows "view_sound (state_view st)"
proof -
  have "view_sound view_empty" by (simp add: view_sound_def view_empty_def)
  from replay_alive[OF reach_ok(3)[OF assms] this] show ?thesis by blast
qed


text \<open>What one step of the compositor adds to its event stream.\<close>

lemma reach_append:
  assumes "compositor_reach tr rs st" "op_allowed op st" "length tr + 3 < 2 ^ 64 - 1"
  obtains es where "cs_sent (run_op E op st) = cs_sent st @ es" "replay es (state_view st) = Some (state_view (run_op E op st))"
proof (cases "op = OpCommand ReserveSeq")
  case True
  then show ?thesis by (intro that[of "[]"]) (simp_all add: next_seq_def)
next
  case False
  have "length tr + 2 < 2 ^ 64 - 1" using assms(3) by simp
  from advance_op[OF reach_ok(1,2)[OF assms(1) this] _ _ assms(2) False, of E] assms(3)
  have "advance st (run_op E op st)" by simp
  then show ?thesis using that by (auto simp: advance_def follows_def emitted_def)
qed

lemma reach_seq_le:
  assumes "compositor_reach tr rs st" "length tr + 2 < 2 ^ 64 - 1" "length (cs_sent st) + length rs < 2 ^ 64"
  shows "cs_last_seq st = of_nat (length (cs_sent st) + length rs)"
    "\<forall>x \<in> event_seq ` set (cs_sent st) \<union> set rs. x \<le> cs_last_seq st"
    "cs_last_seq st \<in> insert 0 (event_seq ` set (cs_sent st) \<union> set rs)"
proof -
  have small: "unat (of_nat m :: u64) = m" if "m < 2 ^ 64" for m :: nat using that by (simp add: unat_of_nat)
  have of_nat_le: "(of_nat k :: u64) \<le> of_nat n" if "n < 2 ^ 64" "k \<le> n" for k n :: nat
    unfolding word_le_nat_alt small[OF that(1)] small[OF le_less_trans[OF that(2,1)]] by (rule that(2))
  from reach_numbers[OF assms(1,2)] obtain ns ms where
    n: "map event_seq (cs_sent st) = map of_nat ns" "rs = map of_nat ms"
       "set ns \<union> set ms = {1..length ns + length ms}" "cs_last_seq st = of_nat (length ns + length ms)" by blast
  have len: "length ns = length (cs_sent st)" "length ms = length rs"
    using arg_cong[OF n(1), of length] arg_cong[OF n(2), of length] by simp_all
  show last: "cs_last_seq st = of_nat (length (cs_sent st) + length rs)" by (simp only: n(4) len)
  have "event_seq ` set (cs_sent st) = of_nat ` set ns" using arg_cong[OF n(1), of set] unfolding set_map .
  moreover have "set rs = of_nat ` set ms" using arg_cong[OF n(2), of set] unfolding set_map .
  ultimately have all: "event_seq ` set (cs_sent st) \<union> set rs = of_nat ` (set ns \<union> set ms)" by (simp only: image_Un)
  have "(of_nat k :: u64) \<le> cs_last_seq st" if "k \<in> {1..length ns + length ms}" for k
    unfolding last by (rule of_nat_le[OF assms(3)]) (use that len in simp)
  then show "\<forall>x \<in> event_seq ` set (cs_sent st) \<union> set rs. x \<le> cs_last_seq st" unfolding all n(3) by blast
  show "cs_last_seq st \<in> insert 0 (event_seq ` set (cs_sent st) \<union> set rs)"
  proof (cases "length ns + length ms = 0")
    case False
    then have "length ns + length ms \<in> {1..length ns + length ms}" by (metis Suc_leI atLeastAtMost_iff gr0I le_refl One_nat_def)
    then show ?thesis unfolding all n(3,4) by (intro insertI2 imageI)
  qed (simp add: n(4))
qed

section \<open>The invariant\<close>

abbreviation tracked :: "'p PumpSys \<Rightarrow> WindowId \<Rightarrow> bool" where
  "tracked y w \<equiv> bt_get (windows (sv_state (pu_observer (py_pump y)))) w \<noteq> None"

abbreviation pending_events :: "'p PumpSys \<Rightarrow> RuntimeEvent list" where
  "pending_events y \<equiv> drop (py_cursor y) (py_log y)"

definition pump_inv :: "u64 set \<Rightarrow> 'p PumpSys \<Rightarrow> bool" where
  "pump_inv given y \<longleftrightarrow>
     py_cursor y \<le> length (py_log y) \<and> event_seq ` set (py_log y) \<subseteq> given \<and> watermark (sv_state (pu_observer (py_pump y))) \<in> insert 0 given \<and>
     bt_ok (windows (sv_state (pu_observer (py_pump y)))) \<and>
     (\<forall>w. named w (pending_events y) \<or> \<not> py_resyncing y \<longrightarrow>
        alive_after w (tracked y w) (pending_events y) = (w \<in> compositor_windows (py_compositor y)))"

lemma pump_invD:
  assumes "pump_inv given y"
  shows "py_cursor y \<le> length (py_log y)" "event_seq ` set (py_log y) \<subseteq> given"
    "watermark (sv_state (pu_observer (py_pump y))) \<in> insert 0 given"
    "bt_ok (windows (sv_state (pu_observer (py_pump y))))"
    "\<And>w. named w (pending_events y) \<or> \<not> py_resyncing y \<Longrightarrow>
        alive_after w (tracked y w) (pending_events y) = (w \<in> compositor_windows (py_compositor y))"
proof -
  note i = assms[unfolded pump_inv_def]
  show "py_cursor y \<le> length (py_log y)" "event_seq ` set (py_log y) \<subseteq> given"
    "watermark (sv_state (pu_observer (py_pump y))) \<in> insert 0 given"
    by (rule i[THEN conjunct1] i[THEN conjunct2, THEN conjunct1] i[THEN conjunct2, THEN conjunct2, THEN conjunct1])+
  show "bt_ok (windows (sv_state (pu_observer (py_pump y))))"
    by (rule i[THEN conjunct2, THEN conjunct2, THEN conjunct2, THEN conjunct1])
  show "alive_after w (tracked y w) (pending_events y) = (w \<in> compositor_windows (py_compositor y))"
    if "named w (pending_events y) \<or> \<not> py_resyncing y" for w
    by (rule i[THEN conjunct2, THEN conjunct2, THEN conjunct2, THEN conjunct2, THEN spec, THEN mp, OF that])
qed

lemma pump_invI:
  assumes "py_cursor y \<le> length (py_log y)" "event_seq ` set (py_log y) \<subseteq> given"
    "watermark (sv_state (pu_observer (py_pump y))) \<in> insert 0 given"
    "bt_ok (windows (sv_state (pu_observer (py_pump y))))"
    "\<And>w. named w (pending_events y) \<or> \<not> py_resyncing y \<Longrightarrow>
        alive_after w (tracked y w) (pending_events y) = (w \<in> compositor_windows (py_compositor y))"
  shows "pump_inv given y"
  unfolding pump_inv_def using assms by (intro conjI allI impI)

lemma tracked_after_event:
  "(bt_get (windows (state_handle_event e s)) w \<noteq> None) =
     (if event_window_id e = Some w then event_kind e \<noteq> KWindowDestroyed else bt_get (windows s) w \<noteq> None)"
  by (cases e) (auto simp: get_state_handle_event get_event_windows simp del: event_windows.simps split: option.split)

lemma correlate_window_same:
  assumes "correlate_window lower now e c = (c', e')"
  shows "event_window_id e' = event_window_id e" "event_kind e' = event_kind e" "event_seq e' = event_seq e"
  using assms
  by (induction lower now e c rule: correlate_window.induct) (auto split: prod.splits option.splits)

lemma event_windows_bt_ok: "bt_ok (windows s) \<Longrightarrow> bt_ok (windows (event_windows e s))"
  by (cases e) (simp_all add: window_on_demand_def split: option.split)


lemma state_handle_event_ok:
  "bt_ok (windows s) \<Longrightarrow> bt_ok (windows (state_handle_event e s))"
  "watermark (state_handle_event e s) = max (watermark s) (event_seq e)"
  using event_windows_bt_ok[of "s\<lparr>watermark := max (watermark s) (event_seq e)\<rparr>" e]
  by (auto simp: state_handle_event_def Let_def refresh_pending_observation_def split: option.split)

lemma pump_event_observer:
  "\<exists>e'. event_window_id e' = event_window_id e \<and> event_kind e' = event_kind e \<and> event_seq e' = event_seq e \<and>
     sv_state (pu_observer (pump_event lower rd e p)) = state_handle_event e' (sv_state (pu_observer p))"
proof -
  obtain c e' where c: "correlate_window lower (rd_correlator rd) e (pu_correlator p) = (c, e')"
    by (cases "correlate_window lower (rd_correlator rd) e (pu_correlator p)")
  then show ?thesis using correlate_window_same[OF c]
    by (intro exI[of _ e'])
      (simp add: pump_event_def handle_event_def bump_generation_def service_observe_ts_def Let_def)
qed

lemma resync_observer:
  "sv_state (fst (resync snap now v)) = fst (state_resync snap (sv_state v))"
  by (simp add: resync_def Let_def bump_generation_def service_observe_ts_def split: prod.split)

lemma inv_event:
  assumes inv: "pump_inv given y" and c: "py_cursor y < length (py_log y)" and r: "\<not> py_resyncing y"
  shows "pump_inv given (y\<lparr>py_cursor := Suc (py_cursor y), py_pump := pump_event lower rd (py_log y ! py_cursor y) (py_pump y)\<rparr>)"
proof -
  let ?e = "py_log y ! py_cursor y" and ?s = "sv_state (pu_observer (py_pump y))"
  note D = pump_invD[OF inv]
  obtain e' where e': "event_window_id e' = event_window_id ?e" "event_kind e' = event_kind ?e" "event_seq e' = event_seq ?e"
    "sv_state (pu_observer (pump_event lower rd ?e (py_pump y))) = state_handle_event e' ?s"
    using pump_event_observer by blast
  have pending: "pending_events y = ?e # drop (Suc (py_cursor y)) (py_log y)" using Cons_nth_drop_Suc[OF c] by simp
  have "event_seq ?e \<in> given" using D(2) nth_mem[OF c] by blast
  then have mark: "max (watermark ?s) (event_seq ?e) \<in> insert 0 given" using D(3) unfolding max_def by (simp split: if_split)
  have alive: "alive_after w (bt_get (windows (state_handle_event e' ?s)) w \<noteq> None) (drop (Suc (py_cursor y)) (py_log y)) =
      (w \<in> compositor_windows (py_compositor y))" for w
    using D(5)[of w] r unfolding tracked_after_event e'(1,2) pending alive_after_simps by blast
  show ?thesis
    by (rule pump_invI)
      (use c D(2) mark state_handle_event_ok(1)[OF D(4)] alive in \<open>simp_all add: e'(3,4) state_handle_event_ok(2) del: not_None_eq\<close>)
qed

lemma inv_lagged:
  assumes inv: "pump_inv given y" and c: "py_cursor y \<le> c" "c \<le> length (py_log y)"
  shows "pump_inv given (y\<lparr>py_cursor := c, py_resyncing := True\<rparr>)"
proof -
  note D = pump_invD[OF inv]
  have split: "pending_events y = take (c - py_cursor y) (pending_events y) @ drop c (py_log y)"
    using c(1) by (metis append_take_drop_id drop_drop le_add_diff_inverse2)
  have "alive_after w (tracked y w) (drop c (py_log y)) = (w \<in> compositor_windows (py_compositor y))"
    if n: "named w (drop c (py_log y))" for w
  proof -
    have "named w (pending_events y)" using n by (subst split) auto
    then have "alive_after w (tracked y w) (pending_events y) = (w \<in> compositor_windows (py_compositor y))"
      by (intro D(5) disjI1)
    moreover have "alive_after w (tracked y w) (pending_events y) = alive_after w (tracked y w) (drop c (py_log y))"
      by (subst split) (unfold alive_after_append, rule alive_after_named[OF n])
    ultimately show ?thesis by (simp only:)
  qed
  then show ?thesis by (intro pump_invI) (use D(2-4) c in \<open>simp_all del: not_None_eq\<close>)
qed

lemma inv_resynced:
  assumes inv: "pump_inv given y" and seq: "\<forall>x \<in> given. x \<le> cs_last_seq (py_compositor y)"
    and last: "cs_last_seq (py_compositor y) \<in> insert 0 given" and ok: "bridge_ok (cs_wm (py_compositor y))"
  shows "pump_inv given (y\<lparr>py_resyncing := False, py_pump := pump_resync rd (state_snapshot E (py_compositor y)) (py_pump y)\<rparr>)"
proof -
  let ?snap = "observer_snapshot (state_snapshot E (py_compositor y))" and ?s = "sv_state (pu_observer (py_pump y))"
  let ?s' = "fst (state_resync ?snap ?s)"
  note D = pump_invD[OF inv]
  have ids: "map ws_window_id (ss_windows ?snap) = map wi_id (wb_windows (cs_wm (py_compositor y)))"
    by (simp add: observer_snapshot_def state_snapshot_def)
  have "map wi_id (wb_windows (cs_wm (py_compositor y))) = ids (wb_model (cs_wm (py_compositor y)))"
    by (simp add: wb_windows_def ids_def record_info_def)
  moreover have "distinct (ids (wb_model (cs_wm (py_compositor y))))"
    by (rule wm_inv_D(2)) (rule ok[unfolded bridge_ok_def, THEN conjunct1])
  ultimately have distinct: "distinct (map ws_window_id (ss_windows ?snap))" by (simp only: ids)
  have seq': "ss_seq ?snap = cs_last_seq (py_compositor y)" by (simp add: observer_snapshot_def state_snapshot_def)
  have used: "watermark ?s \<le> ss_seq ?snap" using D(3) seq unfolding seq' by (elim insertE) simp_all
  have okw: "bt_ok (windows ?s')"
    using resync_windows_result[OF distinct D(4), of ?snap] by (simp add: state_resync_used[OF used] Let_def bt.ok_fold_remove)
  have tracked: "(bt_get (windows ?s') w \<noteq> None) = (w \<in> compositor_windows (py_compositor y))" for w
    unfolding resync_tracks_snapshot(1)[OF used distinct D(4)] list.set_map[symmetric] ids unfolding list.set_map listed_iff by simp
  have mark: "watermark ?s' \<in> insert 0 given" using D(3) last unfolding resync_watermark seq' max_def by (simp split: if_split)
  have alive: "alive_after w (w \<in> compositor_windows (py_compositor y)) (pending_events y) = (w \<in> compositor_windows (py_compositor y))" for w
  proof (cases "named w (pending_events y)")
    case True
    show ?thesis unfolding alive_after_named[OF True, of "w \<in> compositor_windows (py_compositor y)" "tracked y w"]
      by (rule D(5)[OF disjI1[OF True]])
  qed (rule alive_after_unnamed)
  show ?thesis
    by (rule pump_invI) (use D(1,2) mark okw alive in \<open>simp_all add: pump_resync_def resync_observer tracked del: not_None_eq\<close>)
qed

lemma inv_grows:
  assumes inv: "pump_inv given y" and g: "given \<subseteq> given'" "event_seq ` set es \<subseteq> given'"
    and st: "\<And>w. (w \<in> compositor_windows st') = alive_after w (w \<in> compositor_windows (py_compositor y)) es"
  shows "pump_inv given' (y\<lparr>py_compositor := st', py_log := py_log y @ es\<rparr>)"
proof -
  note D = pump_invD[OF inv]
  have pending: "drop (py_cursor y) (py_log y @ es) = pending_events y @ es" using D(1) by simp
  have alive: "alive_after w (tracked y w) (pending_events y @ es) = (w \<in> compositor_windows st')"
    if c: "named w (pending_events y @ es) \<or> \<not> py_resyncing y" for w
  proof (cases "named w (pending_events y) \<or> \<not> py_resyncing y")
    case True
    show ?thesis by (simp only: alive_after_append D(5)[OF True] st)
  next
    case False
    with c have n: "named w es" by auto
    show ?thesis unfolding alive_after_append st by (rule alive_after_named[OF n])
  qed
  show ?thesis
    by (rule pump_invI) (use D(1-4) g alive in \<open>auto simp: pending simp del: not_None_eq\<close>)
qed

lemma inv_observer:
  assumes inv: "pump_inv given y"
    and mark: "watermark (sv_state (f (pu_observer (py_pump y)))) = watermark (sv_state (pu_observer (py_pump y)))"
    and ok: "bt_ok (windows (sv_state (f (pu_observer (py_pump y)))))"
    and same: "\<And>w. (bt_get (windows (sv_state (f (pu_observer (py_pump y))))) w \<noteq> None) =
      (tracked y w \<or> w \<in> W)" "W \<subseteq> compositor_windows (py_compositor y)"
  shows "pump_inv given (with_observer f y)"
proof -
  note D = pump_invD[OF inv]
  have alive: "alive_after w (tracked y w \<or> w \<in> W) (pending_events y) = (w \<in> compositor_windows (py_compositor y))"
    if c: "named w (pending_events y) \<or> \<not> py_resyncing y" for w
  proof (cases "named w (pending_events y)")
    case True
    show ?thesis unfolding alive_after_named[OF True, of "tracked y w \<or> w \<in> W" "tracked y w"] by (rule D(5)[OF c])
  next
    case False
    from D(5)[OF c] same(2) show ?thesis unfolding alive_after_unnamed[OF False] by blast
  qed
  show ?thesis
    by (rule pump_invI) (use D(1-3) mark ok alive in \<open>simp_all add: with_observer_def same(1) del: not_None_eq\<close>)
qed


lemma pump_compositor_reach: "pump_reach cap tr rs y \<Longrightarrow> compositor_reach tr rs (py_compositor y)"
  by (induction rule: pump_reach.induct) (simp_all add: reach_new reach_op with_observer_def)

lemma compositor_windows_view: "(w \<in> compositor_windows st) = (vw_windows (state_view st) w \<noteq> None)"
  by (simp add: bridge_view_def)

lemma guard_windows:
  "watermark (guard_register w key s) = watermark s" "bt_ok (windows s) \<Longrightarrow> bt_ok (windows (guard_register w key s))"
  "(bt_get (windows (guard_register w key s)) i \<noteq> None) = (bt_get (windows s) i \<noteq> None)"
  "watermark (guard_drop w key s) = watermark s" "bt_ok (windows s) \<Longrightarrow> bt_ok (windows (guard_drop w key s))"
  "(bt_get (windows (guard_drop w key s)) i \<noteq> None) = (bt_get (windows s) i \<noteq> None)"
  by (auto simp: guard_register_def guard_drop_def refresh_pending_observation_def Let_def split: option.split)

lemma action_windows:
  "watermark (sv_state (fst (record_action kind w pos now v))) = watermark (sv_state v)"
  "bt_ok (windows (sv_state v)) \<Longrightarrow> bt_ok (windows (sv_state (fst (record_action kind w pos now v))))"
  "(bt_get (windows (sv_state (fst (record_action kind w pos now v)))) i \<noteq> None) =
     (bt_get (windows (sv_state v)) i \<noteq> None \<or> i \<in> set_option w)"
  by (auto simp: record_action_def action_window_def Let_def window_on_demand_def split: prod.split option.split)

abbreviation given_seqs :: "u64 list \<Rightarrow> 'p PumpSys \<Rightarrow> u64 set" where
  "given_seqs rs y \<equiv> event_seq ` set (cs_sent (py_compositor y)) \<union> set rs"

lemma pump_inv_reach:
  assumes "pump_reach cap tr rs y" "length tr + 3 < 2 ^ 64 - 1" "length (cs_sent (py_compositor y)) + length rs < 2 ^ 64"
  shows "pump_inv (given_seqs rs y) y"
  using assms
proof (induction rule: pump_reach.induct)
  case (pump_start sz injector now n)
  have "win (wb_model (WmBridge_new sz)) w = None" for w
    by (simp add: WmBridge_new_def WindowManager_new_def WindowModel_new_def win_def window_def)
  then show ?case by (simp add: pump_inv_def Pump_new_def ObserverService_new_def State_new_def)
next
  case (pump_compositor tr rs y op E)
  let ?st = "py_compositor y" and ?st' = "run_op E op (py_compositor y)"
  have reach: "compositor_reach tr rs ?st" by (rule pump_compositor_reach[OF pump_compositor.hyps(1)])
  have bound: "length tr + 3 < 2 ^ 64 - 1" "length tr + 2 < 2 ^ 64 - 1" using pump_compositor.prems(1) by simp_all
  obtain es where es: "cs_sent ?st' = cs_sent ?st @ es" "replay es (state_view ?st) = Some (state_view ?st')"
    by (rule reach_append[OF reach pump_compositor.hyps(2) bound(1)])
  have "length (cs_sent ?st) + length rs < 2 ^ 64" using pump_compositor.prems(2) by (simp add: es(1))
  from pump_compositor.IH[OF bound(1) this] have inv: "pump_inv (given_seqs rs y) y" .
  have st: "(w \<in> compositor_windows ?st') = alive_after w (w \<in> compositor_windows ?st) es" for w
    unfolding compositor_windows_view using replay_alive[OF es(2) reach_sound[OF reach bound(2)]] by blast
  have "given_seqs rs y \<subseteq> event_seq ` set (cs_sent ?st') \<union> set (rs @ handed_out op ?st)"
    "event_seq ` set es \<subseteq> event_seq ` set (cs_sent ?st') \<union> set (rs @ handed_out op ?st)" by (auto simp: es(1))
  from inv_grows[OF inv this st] show ?case by (simp add: es(1))
next
  case (pump_server_event tr rs y e)
  from pump_server_event.IH[OF pump_server_event.prems(1)] pump_server_event.prems(2)
  have inv: "pump_inv (given_seqs rs y) y" by simp
  have "pump_inv (given_seqs rs y) (y\<lparr>py_compositor := py_compositor y, py_log := py_log y @ [e]\<rparr>)"
    by (rule inv_grows[OF inv]) (use pump_server_event.hyps in simp_all)
  then show ?case by simp
next
  case (pump_recv tr rs y lower rd)
  from pump_recv.IH[OF pump_recv.prems(1)] pump_recv.prems(2) have inv: "pump_inv (given_seqs rs y) y" by simp
  from inv_event[OF inv pump_recv.hyps(3,2)] show ?case by simp
next
  case (pump_lagged tr rs y)
  from pump_lagged.IH[OF pump_lagged.prems(1)] pump_lagged.prems(2) have inv: "pump_inv (given_seqs rs y) y" by simp
  from inv_lagged[OF inv, of "length (py_log y) - cap"] pump_lagged.hyps(3) show ?case by simp
next
  case (pump_resynced tr rs y rd E)
  from pump_resynced.IH[OF pump_resynced.prems(1)] pump_resynced.prems(2) have inv: "pump_inv (given_seqs rs y) y" by simp
  have reach: "compositor_reach tr rs (py_compositor y)" by (rule pump_compositor_reach[OF pump_resynced.hyps(1)])
  have bound: "length tr + 2 < 2 ^ 64 - 1" "length (cs_sent (py_compositor y)) + length rs < 2 ^ 64"
    using pump_resynced.prems by simp_all
  from inv_resynced[OF inv reach_seq_le(2,3)[OF reach bound] reach_ok(1)[OF reach bound(1)]] show ?case by simp
next
  case (pump_action tr rs y w kind pos now)
  from pump_action.IH[OF pump_action.prems(1)] pump_action.prems(2) have inv: "pump_inv (given_seqs rs y) y"
    by (simp add: with_observer_def)
  have "pump_inv (given_seqs rs y) (with_observer (\<lambda>v. fst (record_action kind w pos now v)) y)"
    by (rule inv_observer[OF inv _ _ _ pump_action.hyps(2)])
      (use action_windows pump_invD(4)[OF inv] in blast)+
  then show ?case by (simp add: with_observer_def)
next
  case (pump_waiter tr rs y w key)
  from pump_waiter.IH[OF pump_waiter.prems(1)] pump_waiter.prems(2) have inv: "pump_inv (given_seqs rs y) y"
    by (simp add: with_observer_def)
  have "pump_inv (given_seqs rs y) (with_observer (\<lambda>v. v\<lparr>sv_state := guard_register w key (sv_state v)\<rparr>) y)"
    by (rule inv_observer[OF inv, where W = "{}"]) (use guard_windows(1-3) pump_invD(4)[OF inv] in simp_all)
  then show ?case by (simp add: with_observer_def)
next
  case (pump_waiter_gone tr rs y w key)
  from pump_waiter_gone.IH[OF pump_waiter_gone.prems(1)] pump_waiter_gone.prems(2) have inv: "pump_inv (given_seqs rs y) y"
    by (simp add: with_observer_def)
  have "pump_inv (given_seqs rs y) (with_observer (\<lambda>v. v\<lparr>sv_state := guard_drop w key (sv_state v)\<rparr>) y)"
    by (rule inv_observer[OF inv, where W = "{}"]) (use guard_windows(4-6) pump_invD(4)[OF inv] in simp_all)
  then show ?case by (simp add: with_observer_def)
qed



text \<open>A run without the pump's participation: everything is still in the broadcast.\<close>

lemma reach_unread:
  assumes "compositor_reach tr rs st" "length tr + 3 < 2 ^ 64 - 1"
  shows "pump_reach cap tr rs \<lparr>py_compositor = st, py_log = cs_sent st, py_cursor = 0, py_resyncing = False, py_pump = Pump_new now n\<rparr>"
  using assms
proof (induction rule: compositor_reach.induct)
  case (reach_new sz injector)
  show ?case using pump_start[of cap sz injector now n] by (simp add: State_new_def)
next
  case (reach_op tr rs st op E)
  have bound: "length tr + 3 < 2 ^ 64 - 1" using reach_op.prems by simp
  obtain es where es: "cs_sent (run_op E op st) = cs_sent st @ es"
    by (rule reach_append[OF reach_op.hyps(1,2) bound])
  from pump_compositor[OF reach_op.IH[OF bound], of op E] reach_op.hyps(2) show ?case by (simp add: es)
qed


text \<open>An action that names a window the compositor does not have is recorded all the same, and tracks it.\<close>

lemma unknown_window_becomes_tracked:
  assumes "\<not> tracked y w"
  shows "tracked (with_observer (\<lambda>v. fst (record_action kind (Some w) pos now v)) y) w"
  using action_windows(3)[of kind "Some w" pos now "pu_observer (py_pump y)" w] by (simp add: with_observer_def)

end
