(* ===== verification/Spec2Isabelle.thy ===== *)
theory Spec2Isabelle
  imports Window_Policy Notify_Inbox Observer_Wait App_Launch Machine_Podman Server_Input Render_Pipeline Recorder Server_Pump
begin

text \<open>
  Verification library of ADesk, a headless desktop runtime for agents (\<open>crates/\<close> of the repository).

  A compositor hosts applications on one virtual output. Its event pump feeds every surface change to
  the window policy, which decides what is shown and announces it as runtime events; notifications
  are stored and announced the same way. The observer and the notification inbox keep journals of
  these events, and agents wait on them: \<open>wait_for_quiet\<close>, \<open>wait_for_change\<close>, \<open>observe\<close> and
  \<open>wait_for_events\<close>. Applications are found in desktop entries and started by the launcher, whose
  records let later windows be attributed to a launch. Machines are containers that run the whole
  runtime, managed from the host.

  \<^bold>\<open>Theories and code.\<close>

    \<^item> \<^bold>\<open>Prelude, Ordered\_Map, Rust\_Text, Interfaces\<close>: words with Rust's saturating, checked and
      truncating operations, \<open>BTreeMap\<close> as a strictly ascending association list, \<open>Vec\<close> order,
      \<open>str\<close> and path functions on UTF-8 bytes, and the interfaces (locales) of clocks, id sources,
      key-value stores and journals that the components provide and rely on.
    \<^item> \<^bold>\<open>Core\_Geometry, Core\_Position, Core\_Types\<close>: \<open>adesk-core\<close>: \<open>geometry.rs\<close> (points, rectangles,
      damage regions at their machine widths), \<open>position.rs\<close>, ids, errors, windows, notifications and
      events.
    \<^item> \<^bold>\<open>Window\_Policy\<close>: \<open>adesk-wm\<close>: the window model, every call of the policy and of its manager, and
      the abstract most-recently-used policy it refines.
    \<^item> \<^bold>\<open>Notify\_Store, Notify\_Inbox\<close>: \<open>adesk-notify\<close>: the store, the bounded inbox with its generation
      channel, the wait loop as a step relation, and the service.
    \<^item> \<^bold>\<open>Observer\_Journal, Observer\_State, Observer\_Wait\<close>: \<open>adesk-observer\<close>: the clock, actions and
      journal; the tracked windows, resync and the pending waiters; the waiters' bookkeeping, the wait
      loop and whole runs of the engine as a step relation with other requests interleaved.
    \<^item> \<^bold>\<open>App\_Exec, App\_Entry, App\_Registry, App\_Launch\<close>: \<open>adesk-app-registry\<close>: the Exec tokenizer and
      field codes, the desktop-entry parser and ids, the scan of the search directories, TryExec,
      terminal wrapping, the launch pipeline with its errors and the correlator.
    \<^item> \<^bold>\<open>Machine\_Runtime, Machine\_Manager, Machine\_Podman\<close>: \<open>adesk-machine\<close>: states, specifications, the
      backend trait and the in-memory backend; registry, manager, approvals and control plane over any
      backend; the Podman driver with its timestamps and the command line.
    \<^item> \<^bold>\<open>Compositor\_Registry, Compositor\_Bridge, Compositor\_Input, Compositor\_State, Compositor\_Run\<close>:
      \<open>adesk-compositor\<close>: the surface registry and launch ledger, the bridge from Wayland surfaces to the
      window policy, key names, keymap and key plans, the hub's event emission, protocol handlers and
      commands, and whole runs of them with the observer's view rebuilt from the events.

  \<^bold>\<open>How the code is modelled.\<close> Structs are records, enums datatypes, machine integers words of their
  width; a mutex-protected value is the value, threaded through the calls that lock it. \<open>Result\<close> is a
  sum, \<open>Option\<close> an option, and every early return is a branch. A task that awaits is a program counter
  with one atomic turn per piece between two awaits; what the environment does between turns (events,
  other requests, time) is a step of its own, and runs are lists of such steps. File systems,
  processes, the JSON reader, Unicode lower-casing and \<open>tokio\<close>'s clock are parameters.

  \<^bold>\<open>Bounds and fuel.\<close> Instants are nanoseconds as naturals, timestamps \<open>u64\<close> milliseconds. A woken or
  overdue \<open>wait_for_events\<close> returns within five or six turns, an overdue observation within eight: the
  numbers are the longest paths through the loops. The directory walk takes the number of directories
  of the largest tree as fuel, which \<open>scan_terminates\<close> shows to be enough. The in-memory backend
  hands out \<open>2 ^ 32 - 1\<close> ids; the manager's theorems ask for fewer calls. Runs of the compositor are
  shorter than its \<open>u64\<close> counters; the walks up a surface or popup tree carry the code's own depth limit
  of 32.

  \<^bold>\<open>What the lemmas show.\<close> Per component: every operation keeps its invariant, results on every
  branch, then the properties labelled with their number. The contracts of the interfaces are locales;
  their client lemmas are proved once, and each is interpreted on the code's own definitions in the
  theory that provides it.

  \<^bold>\<open>Not modelled.\<close> The compositor's event loop thread, socket and rendering, whose state is
  Smithay's and OpenGL's; what Smithay, the clients and libxkbcommon answer is a parameter of the hub;
  the recorder; the D-Bus and AT-SPI services; socket servers and clients as far as they only move
  bytes; the viewer's user interface; the agent's language-model client; the test kit.
\<close>

end
